(* ===== verification/SyncBase.thy ===== *)
theory SyncBase
  imports Main "HOL-Library.Word" "HOL-Library.Char_ord" "HOL-Library.List_Lexorder"
begin

text \<open>
  The prelude of the development: the machine types of the C++ code, the parts of
  \<open>std::string\<close> and of the standard streams the code uses, decimal and hexadecimal
  numerals, and the lemmas on them that the components share.

  A \<open>std::string\<close> is a \<^typ>\<open>string\<close> (a list of bytes; \<^typ>\<open>char\<close> has exactly 256
  values), \<open>std::string::npos\<close> is \<^term>\<open>None\<close>, and an exception is the left side of a sum.
\<close>

unbundle bit_operations_syntax

type_synonym u8 = "8 word"
type_synonym u16 = "16 word"
type_synonym u32 = "32 word"
type_synonym u64 = "64 word"
type_synonym i64 = "64 word" \<comment> \<open>\<open>int64_t\<close>: read with \<^const>\<open>sint\<close>\<close>

named_theorems wr_simps \<open>what the writers append\<close>
named_theorems rd_simps \<open>what the readers find\<close>
named_theorems os_simps \<open>effects of the system calls\<close>

section \<open>Exceptions\<close>

text \<open>Sequencing of computations that may throw (\<open>Inl\<close> is the exception in flight).\<close>

definition ebind :: "'e + 'a \<Rightarrow> ('a \<Rightarrow> 'e + 'b) \<Rightarrow> 'e + 'b" where
  "ebind m f = (case m of Inl e \<Rightarrow> Inl e | Inr a \<Rightarrow> f a)"

lemma ebind_simps [simp]:
  "ebind (Inl e) f = Inl e"
  "ebind (Inr a) f = f a"
  by (simp_all add: ebind_def)

lemma ebind_Inr_iff: "ebind m f = Inr b \<longleftrightarrow> (\<exists>a. m = Inr a \<and> f a = Inr b)"
  by (cases m) auto

lemma ebind_Inl_iff: "ebind m f = Inl e \<longleftrightarrow> m = Inl e \<or> (\<exists>a. m = Inr a \<and> f a = Inl e)"
  by (cases m) auto

section \<open>std::string\<close>

definition find_char :: "char \<Rightarrow> string \<Rightarrow> nat \<Rightarrow> nat option" where
  "find_char c s start =
     (let i = start + length (takeWhile ((\<noteq>) c) (drop start s))
      in if i < length s then Some i else None)"

definition rfind_char :: "char \<Rightarrow> string \<Rightarrow> nat option" where
  "rfind_char c s =
     (if c \<in> set s then Some (length s - Suc (length (takeWhile ((\<noteq>) c) (rev s)))) else None)"

definition substr :: "string \<Rightarrow> nat \<Rightarrow> nat \<Rightarrow> string" where
  "substr s pos n = take n (drop pos s)"

fun split_on :: "char \<Rightarrow> string \<Rightarrow> string list" where
  "split_on c [] = [[]]"
| "split_on c (x # xs) =
     (if x = c then [] # split_on c xs
      else case split_on c xs of [] \<Rightarrow> [[x]] | p # ps \<Rightarrow> (x # p) # ps)"

lemma split_on_not_Nil [simp]: "split_on c s \<noteq> []"
  by (induction s) (auto split: list.splits)

lemma split_on_no_sep [simp]: "c \<notin> set s \<Longrightarrow> split_on c s = [s]"
  by (induction s) auto

lemma split_on_append: "c \<notin> set p \<Longrightarrow> split_on c (p @ c # q) = p # split_on c q"
  by (induction p) auto

lemma split_on_parts: "p \<in> set (split_on c s) \<Longrightarrow> c \<notin> set p"
  by (induction s arbitrary: p) (auto split: list.splits if_splits)

lemma split_on_subset: "p \<in> set (split_on c s) \<Longrightarrow> set p \<subseteq> set s"
  by (induction s arbitrary: p) (fastforce split: list.splits if_splits)+

text \<open>The joined components give the string back.\<close>

fun join_with :: "char \<Rightarrow> string list \<Rightarrow> string" where
  "join_with c [] = []"
| "join_with c [p] = p"
| "join_with c (p # ps) = p @ c # join_with c ps"

lemma join_with_Cons: "ps \<noteq> [] \<Longrightarrow> join_with c (p # ps) = p @ c # join_with c ps"
  by (cases ps) auto

lemma join_split [simp]: "join_with c (split_on c s) = s"
proof (induction s)
  case (Cons x xs)
  show ?case
  proof (cases "split_on c xs")
    case (Cons p ps)
    with Cons.IH show ?thesis by (cases ps) auto
  qed simp
qed simp

lemma split_join:
  "ps \<noteq> [] \<Longrightarrow> \<forall>p \<in> set ps. c \<notin> set p \<Longrightarrow> split_on c (join_with c ps) = ps"
  by (induction ps rule: join_with.induct) (auto simp: split_on_append)

lemma split_on_inj: "split_on c s = split_on c t \<Longrightarrow> s = t"
  by (metis join_split)

lemma takeWhile_neq_split:
  "c \<in> set s \<Longrightarrow> s = takeWhile ((\<noteq>) c) s @ c # drop (Suc (length (takeWhile ((\<noteq>) c) s))) s"
  by (induction s) auto

lemma takeWhile_neq_length: "length (takeWhile ((\<noteq>) c) s) < length s \<longleftrightarrow> c \<in> set s"
  by (induction s) auto

lemma find_char_None: "find_char c s n = None \<longleftrightarrow> c \<notin> set (drop n s)"
  using takeWhile_neq_length [of c "drop n s"] by (auto simp: find_char_def Let_def)

lemma find_char_Some:
  assumes "find_char c s n = Some i"
  shows "n \<le> i" "i < length s" "s ! i = c" "c \<notin> set (take (i - n) (drop n s))"
    "drop n s = take (i - n) (drop n s) @ c # drop (Suc i) s"
proof -
  let ?t = "takeWhile ((\<noteq>) c) (drop n s)"
  have i: "i = n + length ?t" "i < length s"
    using assms by (auto simp: find_char_def Let_def split: if_splits)
  then have mem: "c \<in> set (drop n s)"
    using takeWhile_neq_length [of c "drop n s"] by (simp add: less_diff_conv add.commute)
  have t: "take (i - n) (drop n s) = ?t"
    using i by (metis add_diff_cancel_left' takeWhile_eq_take)
  show "n \<le> i" "i < length s" using i by auto
  show "drop n s = take (i - n) (drop n s) @ c # drop (Suc i) s"
    unfolding t using takeWhile_neq_split [OF mem] i by (simp add: add.commute)
  then have "drop n s ! (i - n) = c"
    using i by (metis add_diff_cancel_left' nth_append_length t)
  then show "s ! i = c" using i by simp
  show "c \<notin> set (take (i - n) (drop n s))"
    unfolding t by (auto dest: set_takeWhileD)
qed

lemma find_char_bounds: "find_char c s n = Some i \<Longrightarrow> n \<le> i \<and> i < length s"
  using find_char_Some(1,2) by blast

text \<open>
  A loop that looks for the next separator with \<open>find\<close> and cuts the component out with
  \<open>substr\<close> visits the components of \<^const>\<open>split_on\<close> in order.
\<close>

lemma split_on_find:
  "split_on c (drop n s) =
     (case find_char c s n of
        None \<Rightarrow> [drop n s]
      | Some i \<Rightarrow> substr s n (i - n) # split_on c (drop (Suc i) s))"
proof (cases "find_char c s n")
  case None
  then have "c \<notin> set (drop n s)" by (simp add: find_char_None)
  with None show ?thesis by simp
next
  case (Some i)
  show ?thesis
    unfolding Some substr_def option.case
    using find_char_Some(4,5) [OF Some] split_on_append by metis
qed

section \<open>Numerals\<close>

text \<open>\<open>std::to_string\<close> on unsigned values, and \<open>printf("%0<w>x")\<close>.\<close>

definition hex_digits :: string where
  "hex_digits = ''0123456789abcdef''"

definition digit_char :: "nat \<Rightarrow> char" where
  "digit_char d = hex_digits ! d"

fun to_dec :: "nat \<Rightarrow> string" where
  "to_dec n = (if n < 10 then [digit_char n] else to_dec (n div 10) @ [digit_char (n mod 10)])"

declare to_dec.simps [simp del]

fun hex_fixed :: "nat \<Rightarrow> nat \<Rightarrow> string" where
  "hex_fixed 0 n = []"
| "hex_fixed (Suc w) n = hex_fixed w (n div 16) @ [digit_char (n mod 16)]"

definition is_digit :: "char \<Rightarrow> bool" where
  "is_digit c \<longleftrightarrow> CHR ''0'' \<le> c \<and> c \<le> CHR ''9''"

definition dec_step :: "nat \<Rightarrow> char \<Rightarrow> nat" where
  "dec_step v c = 10 * v + (of_char c - 48)"

definition dec_value :: "string \<Rightarrow> nat" where
  "dec_value s = foldl dec_step 0 s"

text \<open>A hexadecimal digit as \<open>strtoull\<close> reads it (both cases).\<close>

definition hex_digit :: "char \<Rightarrow> nat option" where
  "hex_digit c =
     (if is_digit c then Some (of_char c - 48)
      else if CHR ''a'' \<le> c \<and> c \<le> CHR ''f'' then Some (of_char c - 87)
      else if CHR ''A'' \<le> c \<and> c \<le> CHR ''F'' then Some (of_char c - 55)
      else None)"

definition hex_step :: "nat \<Rightarrow> char \<Rightarrow> nat" where
  "hex_step v c = 16 * v + (case hex_digit c of Some d \<Rightarrow> d | None \<Rightarrow> 0)"

definition hex_value :: "string \<Rightarrow> nat" where
  "hex_value s = foldl hex_step 0 s"

lemma less_10_cases: "d < 10 \<Longrightarrow> d \<in> {0,1,2,3,4,5,6,7,8,9::nat}"
  by auto

lemma less_16_cases: "d < 16 \<Longrightarrow> d \<in> {0,1,2,3,4,5,6,7,8,9,10,11,12,13,14,15::nat}"
  by (simp only: insert_iff empty_iff) presburger

lemma digit_char_dec: "d < 10 \<Longrightarrow> is_digit (digit_char d) \<and> of_char (digit_char d) = 48 + d"
  by (drule less_10_cases)
     (auto simp: digit_char_def hex_digits_def is_digit_def less_eq_char_def)

lemma digit_char_hex: "d < 16 \<Longrightarrow> hex_digit (digit_char d) = Some d"
  by (drule less_16_cases)
     (auto simp: digit_char_def hex_digits_def is_digit_def less_eq_char_def hex_digit_def)

lemma to_dec_not_Nil [simp]: "to_dec n \<noteq> []"
  by (subst to_dec.simps) simp

lemma to_dec_digits: "c \<in> set (to_dec n) \<Longrightarrow> is_digit c"
proof (induction n rule: to_dec.induct)
  case (1 n)
  then show ?case
    by (subst (asm) to_dec.simps [of n]) (auto simp: digit_char_dec split: if_splits)
qed

lemma dec_value_to_dec [simp]: "dec_value (to_dec n) = n"
proof (induction n rule: to_dec.induct)
  case (1 n)
  then show ?case
    by (subst to_dec.simps [of n]) (auto simp: dec_value_def dec_step_def digit_char_dec)
qed

lemma length_hex_fixed [simp]: "length (hex_fixed w n) = w"
  by (induction w arbitrary: n) auto

lemma hex_fixed_digits: "c \<in> set (hex_fixed w n) \<Longrightarrow> hex_digit c \<noteq> None"
  by (induction w arbitrary: n) (auto simp: digit_char_hex)

lemma hex_value_fixed: "hex_value (hex_fixed w n) = n mod 16 ^ w"
proof (induction w arbitrary: n)
  case (Suc w)
  have "hex_value (hex_fixed (Suc w) n) = 16 * (n div 16 mod 16 ^ w) + n mod 16"
    using Suc [of "n div 16"] by (simp add: hex_value_def hex_step_def digit_char_hex)
  also have "\<dots> = n mod 16 ^ Suc w"
    by (simp add: mod_mult2_eq)
  finally show ?case .
qed (simp add: hex_value_def)

lemma digit_range: "is_digit c \<longleftrightarrow> 48 \<le> (of_char c :: nat) \<and> of_char c \<le> (57 :: nat)"
  by (auto simp: is_digit_def less_eq_char_def)

section \<open>Reading lines\<close>

text \<open>
  The fields a \<open>while (std::getline(in, field, sep))\<close> loop reads: the components of the
  input, without an empty one after a final separator (the stream is at its end then, so
  the last \<open>getline\<close> extracts nothing and fails).
\<close>

definition getlines :: "char \<Rightarrow> string \<Rightarrow> string list" where
  "getlines sep s =
     (let ps = split_on sep s in if last ps = [] then butlast ps else ps)"

abbreviation newline :: char where
  "newline \<equiv> CHR 0x0A"

lemma split_on_terminated:
  "\<forall>l \<in> set ls. c \<notin> set l \<Longrightarrow> split_on c (concat (map (\<lambda>l. l @ [c]) ls)) = ls @ [[]]"
  by (induction ls) (auto simp: split_on_append)

lemma getlines_terminated:
  "\<forall>l \<in> set ls. c \<notin> set l \<Longrightarrow> getlines c (concat (map (\<lambda>l. l @ [c]) ls)) = ls"
  by (simp add: getlines_def split_on_terminated)

lemma getlines_parts: "l \<in> set (getlines c s) \<Longrightarrow> c \<notin> set l"
  by (auto simp: getlines_def Let_def split: if_splits dest: in_set_butlastD split_on_parts)

end
