(* ===== verification/Protocol.thy ===== *)
theory Protocol
  imports SyncBase
begin

text \<open>
  The message types and the payload format of \<open>common/protocol.hpp\<close> and
  \<open>common/protocol.cpp\<close>: the enumeration \<open>Msg\<close>, the classes \<open>Writer\<close> and \<open>Reader\<close>,
  and the server addresses written with them. What a client of a writer/reader pair relies
  on (what is written is read back, a truncated payload is refused) is the locale
  \<open>codec\<close>, closed under sequencing, change of representation and repetition.
\<close>

section \<open>Constants and message types\<close>

definition HEADER_SIZE :: nat where "HEADER_SIZE = 8"
definition MAX_PAYLOAD :: nat where "MAX_PAYLOAD = 1024 * 1024"
definition FILE_CHUNK_SIZE :: nat where "FILE_CHUNK_SIZE = 64 * 1024"

text \<open>
  \<open>enum class Msg : uint16_t\<close> has a fixed underlying type, so a cast from the wire gives a
  value of the type for every 16-bit number: \<open>Msg_other\<close> stands for those without a name.
\<close>

datatype msg =
    Msg_Ok | Msg_Error
  | Msg_Login | Msg_Logout | Msg_Ping | Msg_ListFiles | Msg_Upload | Msg_Download | Msg_Delete
  | Msg_LoginOk | Msg_Redirect | Msg_Pong | Msg_FileList | Msg_File
  | Msg_SyncAttach | Msg_PushFile | Msg_PushDelete | Msg_ServerList | Msg_Notice
  | Msg_FileData | Msg_FileEnd | Msg_FileAbort
  | Msg_Join | Msg_JoinOk | Msg_Election | Msg_Coordinator | Msg_ReplicaAttach
  | Msg_ReplicaManifest | Msg_ReplPut | Msg_ReplDelete | Msg_Membership | Msg_Heartbeat
  | Msg_ReplAccount | Msg_StatusRequest | Msg_Status
  | Msg_other u16

fun msg_code :: "msg \<Rightarrow> u16" where
  "msg_code Msg_Ok = 1"
| "msg_code Msg_Error = 2"
| "msg_code Msg_Login = 10"
| "msg_code Msg_Logout = 11"
| "msg_code Msg_Ping = 12"
| "msg_code Msg_ListFiles = 13"
| "msg_code Msg_Upload = 14"
| "msg_code Msg_Download = 15"
| "msg_code Msg_Delete = 16"
| "msg_code Msg_LoginOk = 20"
| "msg_code Msg_Redirect = 21"
| "msg_code Msg_Pong = 22"
| "msg_code Msg_FileList = 23"
| "msg_code Msg_File = 24"
| "msg_code Msg_SyncAttach = 30"
| "msg_code Msg_PushFile = 31"
| "msg_code Msg_PushDelete = 32"
| "msg_code Msg_ServerList = 33"
| "msg_code Msg_Notice = 34"
| "msg_code Msg_FileData = 40"
| "msg_code Msg_FileEnd = 41"
| "msg_code Msg_FileAbort = 42"
| "msg_code Msg_Join = 50"
| "msg_code Msg_JoinOk = 51"
| "msg_code Msg_Election = 52"
| "msg_code Msg_Coordinator = 53"
| "msg_code Msg_ReplicaAttach = 54"
| "msg_code Msg_ReplicaManifest = 55"
| "msg_code Msg_ReplPut = 56"
| "msg_code Msg_ReplDelete = 57"
| "msg_code Msg_Membership = 58"
| "msg_code Msg_Heartbeat = 59"
| "msg_code Msg_ReplAccount = 60"
| "msg_code Msg_StatusRequest = 61"
| "msg_code Msg_Status = 62"
| "msg_code (Msg_other w) = w"

definition named_msgs :: "msg list" where
  "named_msgs =
     [Msg_Ok, Msg_Error, Msg_Login, Msg_Logout, Msg_Ping, Msg_ListFiles, Msg_Upload,
      Msg_Download, Msg_Delete, Msg_LoginOk, Msg_Redirect, Msg_Pong, Msg_FileList, Msg_File,
      Msg_SyncAttach, Msg_PushFile, Msg_PushDelete, Msg_ServerList, Msg_Notice, Msg_FileData,
      Msg_FileEnd, Msg_FileAbort, Msg_Join, Msg_JoinOk, Msg_Election, Msg_Coordinator,
      Msg_ReplicaAttach, Msg_ReplicaManifest, Msg_ReplPut, Msg_ReplDelete, Msg_Membership,
      Msg_Heartbeat, Msg_ReplAccount, Msg_StatusRequest, Msg_Status]"

definition msg_of_code :: "u16 \<Rightarrow> msg" where
  "msg_of_code w =
     (case find (\<lambda>m. msg_code m = w) named_msgs of Some m \<Rightarrow> m | None \<Rightarrow> Msg_other w)"

fun msg_name :: "msg \<Rightarrow> string" where
  "msg_name Msg_Ok = ''Ok''"
| "msg_name Msg_Error = ''Error''"
| "msg_name Msg_Login = ''Login''"
| "msg_name Msg_Logout = ''Logout''"
| "msg_name Msg_Ping = ''Ping''"
| "msg_name Msg_ListFiles = ''ListFiles''"
| "msg_name Msg_Upload = ''Upload''"
| "msg_name Msg_Download = ''Download''"
| "msg_name Msg_Delete = ''Delete''"
| "msg_name Msg_LoginOk = ''LoginOk''"
| "msg_name Msg_Redirect = ''Redirect''"
| "msg_name Msg_Pong = ''Pong''"
| "msg_name Msg_FileList = ''FileList''"
| "msg_name Msg_File = ''File''"
| "msg_name Msg_SyncAttach = ''SyncAttach''"
| "msg_name Msg_PushFile = ''PushFile''"
| "msg_name Msg_PushDelete = ''PushDelete''"
| "msg_name Msg_ServerList = ''ServerList''"
| "msg_name Msg_FileData = ''FileData''"
| "msg_name Msg_FileEnd = ''FileEnd''"
| "msg_name Msg_FileAbort = ''FileAbort''"
| "msg_name Msg_Join = ''Join''"
| "msg_name Msg_JoinOk = ''JoinOk''"
| "msg_name Msg_Election = ''Election''"
| "msg_name Msg_Coordinator = ''Coordinator''"
| "msg_name Msg_ReplicaAttach = ''ReplicaAttach''"
| "msg_name Msg_ReplicaManifest = ''ReplicaManifest''"
| "msg_name Msg_ReplPut = ''ReplPut''"
| "msg_name Msg_ReplDelete = ''ReplDelete''"
| "msg_name Msg_Membership = ''Membership''"
| "msg_name Msg_Heartbeat = ''Heartbeat''"
| "msg_name Msg_ReplAccount = ''ReplAccount''"
| "msg_name Msg_StatusRequest = ''StatusRequest''"
| "msg_name Msg_Status = ''Status''"
| "msg_name Msg_Notice = ''Notice''"
| "msg_name (Msg_other w) = ''Unknown''"

record message =
  mtype :: msg
  payload :: string

text \<open>\<open>enum class Origin : uint8_t\<close>, cast from a byte in the same way.\<close>

definition Origin_Command :: u8 where "Origin_Command = 0"
definition Origin_Sync :: u8 where "Origin_Sync = 1"

lemma msg_code_of_code [simp]: "msg_code (msg_of_code w) = w"
  by (auto simp: msg_of_code_def find_Some_iff split: option.splits)

lemma named_msgs_distinct: "distinct (map msg_code named_msgs)"
  by (simp add: named_msgs_def)

lemma msg_of_code_named: "m \<in> set named_msgs \<Longrightarrow> msg_of_code (msg_code m) = m"
proof -
  assume m: "m \<in> set named_msgs"
  then obtain m' where "find (\<lambda>x. msg_code x = msg_code m) named_msgs = Some m'"
    by (cases "find (\<lambda>x. msg_code x = msg_code m) named_msgs") (auto simp: find_None_iff)
  moreover from this have "m' \<in> set named_msgs" "msg_code m' = msg_code m"
    by (auto simp: find_Some_iff)
  ultimately show ?thesis
    using m named_msgs_distinct by (auto simp: msg_of_code_def distinct_map dest: inj_onD)
qed

text \<open>The types a sender can name; those are the ones that survive the wire unchanged.\<close>

definition msg_wire :: "msg \<Rightarrow> bool" where
  "msg_wire m \<longleftrightarrow> msg_of_code (msg_code m) = m"

lemma msg_wire_named [simp]: "m \<in> set named_msgs \<Longrightarrow> msg_wire m"
  by (simp add: msg_wire_def msg_of_code_named)

lemma msg_wire_of_code [simp]: "msg_wire (msg_of_code w)"
  by (simp add: msg_wire_def)

section \<open>Writer\<close>

datatype protocol_error = ProtocolError string

definition w_u8 :: "u8 \<Rightarrow> string \<Rightarrow> string" where
  "w_u8 v buf = buf @ [char_of (unat v)]"

definition w_u16 :: "u16 \<Rightarrow> string \<Rightarrow> string" where
  "w_u16 v buf = w_u8 (ucast v) (w_u8 (ucast (drop_bit 8 v)) buf)"

definition w_u32 :: "u32 \<Rightarrow> string \<Rightarrow> string" where
  "w_u32 v buf = w_u16 (ucast v) (w_u16 (ucast (drop_bit 16 v)) buf)"

definition w_u64 :: "u64 \<Rightarrow> string \<Rightarrow> string" where
  "w_u64 v buf = w_u32 (ucast v) (w_u32 (ucast (drop_bit 32 v)) buf)"

definition w_i64 :: "i64 \<Rightarrow> string \<Rightarrow> string" where
  "w_i64 v buf = w_u64 v buf"

definition w_str :: "string \<Rightarrow> string \<Rightarrow> protocol_error + string" where
  "w_str s buf =
     (if length s > 0xFFFF then Inl (ProtocolError ''string too long for the protocol'')
      else Inr (w_u16 (of_nat (length s)) buf @ s))"

section \<open>Reader\<close>

record reader =
  r_data :: string
  r_pos :: nat

definition r_take :: "nat \<Rightarrow> reader \<Rightarrow> protocol_error + string \<times> reader" where
  "r_take n r =
     (if length (r_data r) - r_pos r < n then Inl (ProtocolError ''message payload too short'')
      else Inr (take n (drop (r_pos r) (r_data r)), r\<lparr>r_pos := r_pos r + n\<rparr>))"

definition byte_of :: "char \<Rightarrow> u8" where
  "byte_of c = of_nat (of_char c)"

definition r_u8 :: "reader \<Rightarrow> protocol_error + u8 \<times> reader" where
  "r_u8 r = ebind (r_take 1 r) (\<lambda>(p, r). Inr (byte_of (p ! 0), r))"

definition r_u16 :: "reader \<Rightarrow> protocol_error + u16 \<times> reader" where
  "r_u16 r = ebind (r_take 2 r) (\<lambda>(p, r).
     Inr (push_bit 8 (ucast (byte_of (p ! 0))) OR ucast (byte_of (p ! 1)), r))"

definition r_u32 :: "reader \<Rightarrow> protocol_error + u32 \<times> reader" where
  "r_u32 r = ebind (r_u16 r) (\<lambda>(high, r). ebind (r_u16 r) (\<lambda>(low, r).
     Inr (push_bit 16 (ucast high) OR ucast low, r)))"

definition r_u64 :: "reader \<Rightarrow> protocol_error + u64 \<times> reader" where
  "r_u64 r = ebind (r_u32 r) (\<lambda>(high, r). ebind (r_u32 r) (\<lambda>(low, r).
     Inr (push_bit 32 (ucast high) OR ucast low, r)))"

definition r_i64 :: "reader \<Rightarrow> protocol_error + i64 \<times> reader" where
  "r_i64 r = r_u64 r"

definition r_str :: "reader \<Rightarrow> protocol_error + string \<times> reader" where
  "r_str r = ebind (r_u16 r) (\<lambda>(size, r). r_take (unat size) r)"

definition new_reader :: "string \<Rightarrow> reader" where
  "new_reader data = \<lparr>r_data = data, r_pos = 0\<rparr>"

text \<open>
  A reader in the middle of a payload: \<open>pre\<close> has been consumed, \<open>rest\<close> is still to come.
\<close>

definition cursor :: "string \<Rightarrow> string \<Rightarrow> reader" where
  "cursor pre rest = \<lparr>r_data = pre @ rest, r_pos = length pre\<rparr>"

lemma new_reader_cursor: "new_reader data = cursor [] data"
  by (simp add: new_reader_def cursor_def)

lemma r_take_cursor [rd_simps]:
  "length bs = n \<Longrightarrow> r_take n (cursor pre (bs @ rest)) = Inr (bs, cursor (pre @ bs) rest)"
  by (auto simp: r_take_def cursor_def)

lemma r_take_short: "length rest < n \<Longrightarrow> \<exists>e. r_take n (cursor pre rest) = Inl e"
  by (simp add: r_take_def cursor_def)

text \<open>Whatever is read, the position never passes the end of the payload.\<close>

definition reader_ok :: "reader \<Rightarrow> bool" where
  "reader_ok r \<longleftrightarrow> r_pos r \<le> length (r_data r)"

lemma r_take_ok:
  "reader_ok r \<Longrightarrow> r_take n r = Inr (bs, r') \<Longrightarrow>
     reader_ok r' \<and> length bs = n \<and> r_data r' = r_data r \<and> r_pos r' = r_pos r + n"
  by (auto simp: r_take_def reader_ok_def split: if_splits)

section \<open>Writer/reader pairs\<close>

text \<open>
  \<open>enc\<close> is the specification of a pair: the bytes of a value. The writer appends them (or
  throws, outside \<open>ok\<close>), the reader takes exactly them, and a payload that ends inside
  them is refused.
\<close>

locale codec =
  fixes wr :: "'a \<Rightarrow> string \<Rightarrow> protocol_error + string"
    and rd :: "reader \<Rightarrow> protocol_error + 'a \<times> reader"
    and enc :: "'a \<Rightarrow> string"
    and ok :: "'a \<Rightarrow> bool"
  assumes wr_enc: "ok x \<Longrightarrow> wr x buf = Inr (buf @ enc x)"
    and rd_enc: "ok x \<Longrightarrow> rd (cursor pre (enc x @ rest)) = Inr (x, cursor (pre @ enc x) rest)"
    and rd_trunc: "ok x \<Longrightarrow> k < length (enc x) \<Longrightarrow> \<exists>e. rd (cursor pre (take k (enc x))) = Inl e"
begin

lemma roundtrip:
  assumes "ok x" "wr x [] = Inr bs"
  shows "rd (new_reader (bs @ rest)) = Inr (x, cursor bs rest)"
  using assms wr_enc [of x "[]"] rd_enc [of x "[]" rest] by (simp add: new_reader_cursor)

lemma prefix_free:
  assumes "ok x" "ok y" "enc x @ p = enc y @ q"
  shows "x = y \<and> p = q"
  using assms rd_enc [of x "[]" p] rd_enc [of y "[]" q] by (auto simp: cursor_def)

lemma enc_inj: "ok x \<Longrightarrow> ok y \<Longrightarrow> enc x = enc y \<Longrightarrow> x = y"
  using prefix_free [of x y "[]" "[]"] by simp

end

text \<open>Two fields, one after the other.\<close>

definition wr_pair ::
  "('a \<Rightarrow> string \<Rightarrow> protocol_error + string) \<Rightarrow> ('b \<Rightarrow> string \<Rightarrow> protocol_error + string) \<Rightarrow>
   'a \<times> 'b \<Rightarrow> string \<Rightarrow> protocol_error + string" where
  "wr_pair wa wb x buf = ebind (wa (fst x) buf) (wb (snd x))"

definition rd_pair ::
  "(reader \<Rightarrow> protocol_error + 'a \<times> reader) \<Rightarrow> (reader \<Rightarrow> protocol_error + 'b \<times> reader) \<Rightarrow>
   reader \<Rightarrow> protocol_error + ('a \<times> 'b) \<times> reader" where
  "rd_pair ra rb r = ebind (ra r) (\<lambda>(a, r). ebind (rb r) (\<lambda>(b, r). Inr ((a, b), r)))"

lemma codec_pair:
  assumes "codec wa ra ea oka" and "codec wb rb eb okb"
  shows "codec (wr_pair wa wb) (rd_pair ra rb)
           (\<lambda>x. ea (fst x) @ eb (snd x)) (\<lambda>x. oka (fst x) \<and> okb (snd x))"
proof
  note a = codec.wr_enc [OF assms(1)] codec.rd_enc [OF assms(1)]
  note b = codec.wr_enc [OF assms(2)] codec.rd_enc [OF assms(2)]
  fix x :: "'a \<times> 'b" and buf pre rest k
  assume ok: "oka (fst x) \<and> okb (snd x)"
  show "wr_pair wa wb x buf = Inr (buf @ ea (fst x) @ eb (snd x))"
    using ok by (simp add: wr_pair_def a b)
  show "rd_pair ra rb (cursor pre ((ea (fst x) @ eb (snd x)) @ rest)) =
          Inr (x, cursor (pre @ ea (fst x) @ eb (snd x)) rest)"
    using ok by (simp add: rd_pair_def a b)
  assume k: "k < length (ea (fst x) @ eb (snd x))"
  show "\<exists>e. rd_pair ra rb (cursor pre (take k (ea (fst x) @ eb (snd x)))) = Inl e"
  proof (cases "k < length (ea (fst x))")
    case True
    then obtain e where "ra (cursor pre (take k (ea (fst x)))) = Inl e"
      using codec.rd_trunc [OF assms(1)] ok by blast
    with True show ?thesis by (simp add: rd_pair_def)
  next
    case False
    then obtain e where
      "rb (cursor (pre @ ea (fst x)) (take (k - length (ea (fst x))) (eb (snd x)))) = Inl e"
      using codec.rd_trunc [OF assms(2)] ok k by (metis length_append less_diff_conv2 not_less add.commute)
    with False ok show ?thesis by (simp add: rd_pair_def a)
  qed
qed

text \<open>The same bytes for another representation of the value.\<close>

lemma codec_map:
  assumes "codec w r e ok"
    and ok: "\<And>y. ok' y \<Longrightarrow> ok (g y)"
    and wr: "\<And>y buf. ok' y \<Longrightarrow> w' y buf = w (g y) buf"
    and rd: "\<And>c. r' c = ebind (r c) (\<lambda>(x, c). Inr (f x, c))"
    and inv: "\<And>y. ok' y \<Longrightarrow> f (g y) = y"
  shows "codec w' r' (\<lambda>y. e (g y)) ok'"
proof
  fix y buf pre rest k
  assume y: "ok' y"
  show "w' y buf = Inr (buf @ e (g y))"
    using ok [OF y] wr [OF y] codec.wr_enc [OF assms(1)] by simp
  show "r' (cursor pre (e (g y) @ rest)) = Inr (y, cursor (pre @ e (g y)) rest)"
    using ok [OF y] rd inv [OF y] codec.rd_enc [OF assms(1)] by simp
  assume "k < length (e (g y))"
  then obtain err where "r (cursor pre (take k (e (g y)))) = Inl err"
    using codec.rd_trunc [OF assms(1)] ok [OF y] by blast
  then show "\<exists>err. r' (cursor pre (take k (e (g y)))) = Inl err"
    by (simp add: rd)
qed

text \<open>The loops that write and read a sequence of items.\<close>

fun write_each ::
  "('a \<Rightarrow> string \<Rightarrow> protocol_error + string) \<Rightarrow> 'a list \<Rightarrow> string \<Rightarrow> protocol_error + string" where
  "write_each w [] buf = Inr buf"
| "write_each w (x # xs) buf = ebind (w x buf) (write_each w xs)"

fun read_n ::
  "(reader \<Rightarrow> protocol_error + 'a \<times> reader) \<Rightarrow> nat \<Rightarrow> reader \<Rightarrow> protocol_error + 'a list \<times> reader" where
  "read_n rd 0 r = Inr ([], r)"
| "read_n rd (Suc n) r =
     ebind (rd r) (\<lambda>(x, r). ebind (read_n rd n r) (\<lambda>(xs, r). Inr (x # xs, r)))"

context codec begin

lemma write_each_enc:
  "\<forall>x \<in> set xs. ok x \<Longrightarrow> write_each wr xs buf = Inr (buf @ concat (map enc xs))"
  by (induction xs arbitrary: buf) (auto simp: wr_enc)

lemma read_n_enc:
  "\<forall>x \<in> set xs. ok x \<Longrightarrow>
     read_n rd (length xs) (cursor pre (concat (map enc xs) @ rest)) =
       Inr (xs, cursor (pre @ concat (map enc xs)) rest)"
  by (induction xs arbitrary: pre) (auto simp: rd_enc)

lemma read_n_trunc:
  "\<forall>x \<in> set xs. ok x \<Longrightarrow> k < length (concat (map enc xs)) \<Longrightarrow>
     \<exists>e. read_n rd (length xs) (cursor pre (take k (concat (map enc xs)))) = Inl e"
proof (induction xs arbitrary: pre k)
  case (Cons x xs)
  show ?case
  proof (cases "k < length (enc x)")
    case True
    moreover have "ok x" using Cons.prems by simp
    ultimately obtain e where "rd (cursor pre (take k (enc x))) = Inl e"
      using rd_trunc by blast
    with True show ?thesis by auto
  next
    case False
    have "\<forall>y \<in> set xs. ok y" "k - length (enc x) < length (concat (map enc xs))"
      using Cons.prems False by auto
    from Cons.IH [OF this, of "pre @ enc x"] obtain e where
      "read_n rd (length xs) (cursor (pre @ enc x) (take (k - length (enc x)) (concat (map enc xs)))) = Inl e"
      by blast
    with False Cons.prems show ?thesis by (simp add: rd_enc)
  qed
qed simp

end

section \<open>The integer and string fields\<close>

definition enc_u8 :: "u8 \<Rightarrow> string" where
  "enc_u8 v = [char_of (unat v)]"

definition enc_u16 :: "u16 \<Rightarrow> string" where
  "enc_u16 v = enc_u8 (ucast (drop_bit 8 v)) @ enc_u8 (ucast v)"

definition enc_u32 :: "u32 \<Rightarrow> string" where
  "enc_u32 v = enc_u16 (ucast (drop_bit 16 v)) @ enc_u16 (ucast v)"

definition enc_u64 :: "u64 \<Rightarrow> string" where
  "enc_u64 v = enc_u32 (ucast (drop_bit 32 v)) @ enc_u32 (ucast v)"

definition enc_str :: "string \<Rightarrow> string" where
  "enc_str s = enc_u16 (of_nat (length s)) @ s"

lemma byte_of_char_of [simp]: "byte_of (char_of (unat (v :: u8))) = v"
proof -
  have "unat v < 256" using unsigned_less [of v] by simp
  then show ?thesis by (simp add: byte_of_def)
qed

lemma length_enc [simp]:
  "length (enc_u8 a) = 1" "length (enc_u16 b) = 2" "length (enc_u32 c) = 4" "length (enc_u64 d) = 8"
  by (simp_all add: enc_u8_def enc_u16_def enc_u32_def enc_u64_def)

lemma w_enc [wr_simps]:
  "w_u8 a buf = buf @ enc_u8 a" "w_u16 b buf = buf @ enc_u16 b"
  "w_u32 c buf = buf @ enc_u32 c" "w_u64 d buf = buf @ enc_u64 d" "w_i64 d buf = buf @ enc_u64 d"
  by (simp_all add: w_u8_def w_u16_def w_u32_def w_u64_def w_i64_def
      enc_u8_def enc_u16_def enc_u32_def enc_u64_def)

lemma join_u16:
  "push_bit 8 (ucast (ucast (drop_bit 8 (v :: u16)) :: u8)) OR ucast (ucast v :: u8) = v"
  by (rule bit_word_eqI) (auto simp: bit_simps)

lemma join_u32:
  "push_bit 16 (ucast (ucast (drop_bit 16 (v :: u32)) :: u16)) OR ucast (ucast v :: u16) = v"
  by (rule bit_word_eqI) (auto simp: bit_simps)

lemma join_u64:
  "push_bit 32 (ucast (ucast (drop_bit 32 (v :: u64)) :: u32)) OR ucast (ucast v :: u32) = v"
  by (rule bit_word_eqI) (auto simp: bit_simps)

interpretation c8: codec "\<lambda>v buf. Inr (w_u8 v buf)" r_u8 enc_u8 "\<lambda>_. True"
proof
  fix x :: u8 and pre rest buf k
  show "Inr (w_u8 x buf) = Inr (buf @ enc_u8 x)" by (simp add: wr_simps)
  show "r_u8 (cursor pre (enc_u8 x @ rest)) = Inr (x, cursor (pre @ enc_u8 x) rest)"
    by (simp add: r_u8_def r_take_cursor [of "enc_u8 x"]) (simp add: enc_u8_def)
  assume "k < length (enc_u8 x)"
  then show "\<exists>e. r_u8 (cursor pre (take k (enc_u8 x))) = Inl e"
    using r_take_short [of "take k (enc_u8 x)" 1 pre] by (auto simp: r_u8_def)
qed

interpretation c16: codec "\<lambda>v buf. Inr (w_u16 v buf)" r_u16 enc_u16 "\<lambda>_. True"
proof
  fix x :: u16 and pre rest buf k
  show "Inr (w_u16 x buf) = Inr (buf @ enc_u16 x)" by (simp add: wr_simps)
  show "r_u16 (cursor pre (enc_u16 x @ rest)) = Inr (x, cursor (pre @ enc_u16 x) rest)"
    by (simp add: r_u16_def r_take_cursor [of "enc_u16 x"])
       (simp add: enc_u16_def enc_u8_def join_u16)
  assume "k < length (enc_u16 x)"
  then show "\<exists>e. r_u16 (cursor pre (take k (enc_u16 x))) = Inl e"
    using r_take_short [of "take k (enc_u16 x)" 2 pre] by (auto simp: r_u16_def)
qed

interpretation c32: codec "\<lambda>v buf. Inr (w_u32 v buf)" r_u32 enc_u32 "\<lambda>_. True"
proof -
  let ?g = "\<lambda>v. (ucast (drop_bit 16 v) :: u16, ucast v :: u16)"
  have "codec (\<lambda>v buf. Inr (w_u32 v buf)) r_u32
          (\<lambda>v. enc_u16 (fst (?g v)) @ enc_u16 (snd (?g v)))
          (\<lambda>_. True)"
    by (rule codec_map [OF codec_pair [OF c16.codec_axioms c16.codec_axioms],
          where f = "\<lambda>(h, l). push_bit 16 (ucast h) OR ucast l"])
       (auto simp: wr_pair_def rd_pair_def w_u32_def r_u32_def join_u32 ebind_def split: sum.splits)
  then show "codec (\<lambda>v buf. Inr (w_u32 v buf)) r_u32 enc_u32 (\<lambda>_. True)"
    by (simp add: enc_u32_def [abs_def])
qed

interpretation c64: codec "\<lambda>v buf. Inr (w_u64 v buf)" r_u64 enc_u64 "\<lambda>_. True"
proof -
  let ?g = "\<lambda>v. (ucast (drop_bit 32 v) :: u32, ucast v :: u32)"
  have "codec (\<lambda>v buf. Inr (w_u64 v buf)) r_u64
          (\<lambda>v. enc_u32 (fst (?g v)) @ enc_u32 (snd (?g v)))
          (\<lambda>_. True)"
    by (rule codec_map [OF codec_pair [OF c32.codec_axioms c32.codec_axioms],
          where f = "\<lambda>(h, l). push_bit 32 (ucast h) OR ucast l"])
       (auto simp: wr_pair_def rd_pair_def w_u64_def r_u64_def join_u64 ebind_def split: sum.splits)
  then show "codec (\<lambda>v buf. Inr (w_u64 v buf)) r_u64 enc_u64 (\<lambda>_. True)"
    by (simp add: enc_u64_def [abs_def])
qed

interpretation ci64: codec "\<lambda>v buf. Inr (w_i64 v buf)" r_i64 enc_u64 "\<lambda>_. True"
  unfolding w_i64_def [abs_def] r_i64_def [abs_def] by (rule c64.codec_axioms)

abbreviation str_ok :: "string \<Rightarrow> bool" where
  "str_ok s \<equiv> length s \<le> 0xFFFF"

lemma unat_of_nat_u16: "n \<le> 0xFFFF \<Longrightarrow> unat (of_nat n :: u16) = n"
  by (simp add: unat_of_nat)

lemma unat_length_u16: "str_ok s \<Longrightarrow> unat (of_nat (length s) :: u16) = length s"
  by (rule unat_of_nat_u16)

interpretation cstr: codec w_str r_str enc_str str_ok
proof
  fix x pre rest buf k
  assume ok: "str_ok x"
  note len = unat_length_u16 [OF ok]
  show "w_str x buf = Inr (buf @ enc_str x)"
    using ok by (simp add: w_str_def enc_str_def wr_simps)
  show "r_str (cursor pre (enc_str x @ rest)) = Inr (x, cursor (pre @ enc_str x) rest)"
    by (simp add: r_str_def enc_str_def c16.rd_enc len r_take_cursor)
  assume k: "k < length (enc_str x)"
  show "\<exists>e. r_str (cursor pre (take k (enc_str x))) = Inl e"
  proof (cases "k < 2")
    case True
    then obtain e where "r_u16 (cursor pre (take k (enc_u16 (of_nat (length x))))) = Inl e"
      using c16.rd_trunc [of k "of_nat (length x)" pre] by auto
    with True show ?thesis by (simp add: r_str_def enc_str_def)
  next
    case False
    with k r_take_short [of "take (k - 2) x" "length x"] show ?thesis
      by (simp add: r_str_def enc_str_def c16.rd_enc len)
  qed
qed

lemma w_str_too_long: "\<not> str_ok s \<Longrightarrow> \<exists>e. w_str s buf = Inl e"
  by (simp add: w_str_def)

section \<open>Server addresses\<close>

record server_address =
  sa_id :: u32
  sa_host :: string
  sa_port :: u16

definition no_server :: server_address where
  "no_server = \<lparr>sa_id = 0, sa_host = [], sa_port = 0\<rparr>"

definition write_server :: "server_address \<Rightarrow> string \<Rightarrow> protocol_error + string" where
  "write_server s buf =
     ebind (w_str (sa_host s) (w_u32 (sa_id s) buf)) (\<lambda>buf. Inr (w_u16 (sa_port s) buf))"

definition read_server :: "reader \<Rightarrow> protocol_error + server_address \<times> reader" where
  "read_server r =
     ebind (r_u32 r) (\<lambda>(id, r). ebind (r_str r) (\<lambda>(host, r). ebind (r_u16 r) (\<lambda>(port, r).
       Inr (\<lparr>sa_id = id, sa_host = host, sa_port = port\<rparr>, r))))"

definition write_servers :: "server_address list \<Rightarrow> string \<Rightarrow> protocol_error + string" where
  "write_servers servers buf = write_each write_server servers (w_u16 (of_nat (length servers)) buf)"

definition read_servers :: "reader \<Rightarrow> protocol_error + server_address list \<times> reader" where
  "read_servers r = ebind (r_u16 r) (\<lambda>(n, r). read_n read_server (unat n) r)"

definition describe :: "server_address \<Rightarrow> string" where
  "describe s = sa_host s @ '':'' @ to_dec (unat (sa_port s)) @ '' (id '' @ to_dec (unat (sa_id s)) @ '')''"

definition enc_server :: "server_address \<Rightarrow> string" where
  "enc_server s = enc_u32 (sa_id s) @ enc_str (sa_host s) @ enc_u16 (sa_port s)"

definition enc_servers :: "server_address list \<Rightarrow> string" where
  "enc_servers ss = enc_u16 (of_nat (length ss)) @ concat (map enc_server ss)"

definition servers_ok :: "server_address list \<Rightarrow> bool" where
  "servers_ok ss \<longleftrightarrow> length ss \<le> 0xFFFF \<and> (\<forall>s \<in> set ss. str_ok (sa_host s))"

interpretation cserver: codec write_server read_server enc_server "\<lambda>s. str_ok (sa_host s)"
proof -
  let ?g = "\<lambda>s. (sa_id s, (sa_host s, sa_port s))"
  have "codec write_server read_server
          (\<lambda>s. enc_u32 (fst (?g s)) @ enc_str (fst (snd (?g s))) @ enc_u16 (snd (snd (?g s))))
          (\<lambda>s. str_ok (sa_host s))"
    by (rule codec_map [OF codec_pair [OF c32.codec_axioms
          codec_pair [OF cstr.codec_axioms c16.codec_axioms]],
          where f = "\<lambda>(i, h, p). \<lparr>sa_id = i, sa_host = h, sa_port = p\<rparr>"])
       (auto simp: wr_pair_def rd_pair_def write_server_def read_server_def ebind_def split: sum.splits)
  then show "codec write_server read_server enc_server (\<lambda>s. str_ok (sa_host s))"
    by (simp add: enc_server_def [abs_def])
qed

interpretation cservers: codec write_servers read_servers enc_servers servers_ok
proof
  fix x pre rest buf k
  assume ok: "servers_ok x"
  then have each: "\<forall>s \<in> set x. str_ok (sa_host s)" and n: "length x \<le> 0xFFFF"
    by (auto simp: servers_ok_def)
  have len: "unat (of_nat (length x) :: u16) = length x"
    using n by (rule unat_of_nat_u16)
  show "write_servers x buf = Inr (buf @ enc_servers x)"
    by (simp add: write_servers_def enc_servers_def wr_simps cserver.write_each_enc [OF each])
  show "read_servers (cursor pre (enc_servers x @ rest)) = Inr (x, cursor (pre @ enc_servers x) rest)"
    by (simp add: read_servers_def enc_servers_def c16.rd_enc len cserver.read_n_enc [OF each])
  assume k: "k < length (enc_servers x)"
  show "\<exists>e. read_servers (cursor pre (take k (enc_servers x))) = Inl e"
  proof (cases "k < 2")
    case True
    then obtain e where "r_u16 (cursor pre (take k (enc_u16 (of_nat (length x))))) = Inl e"
      using c16.rd_trunc [of k "of_nat (length x)" pre] by auto
    with True show ?thesis by (simp add: read_servers_def enc_servers_def)
  next
    case False
    with k cserver.read_n_trunc [OF each, of "k - 2"] show ?thesis
      by (simp add: read_servers_def enc_servers_def c16.rd_enc len)
  qed
qed

section \<open>Properties\<close>

text \<open>
  The list of servers that a server announces survives the wire: what \<open>write_servers\<close>
  writes, \<open>read_servers\<close> reads back, whatever follows in the payload, and every payload that
  is cut short inside the list is refused with a \<open>ProtocolError\<close>.
\<close>

theorem servers_roundtrip:
  assumes "servers_ok servers"
  shows "\<exists>bs. write_servers servers [] = Inr bs \<and>
    read_servers (new_reader (bs @ rest)) = Inr (servers, cursor bs rest) \<and>
    list_all (\<lambda>k. \<exists>e. read_servers (new_reader (take k bs)) = Inl e) [0..<length bs]"
  using cservers.wr_enc [OF assms, of "[]"] cservers.rd_enc [OF assms, of "[]" rest]
    cservers.rd_trunc [OF assms, where pre = "[]"]
  by (auto simp: new_reader_cursor list_all_iff)

theorem servers_roundtrip_witness:
  "\<exists>bs. write_servers [\<lparr>sa_id = 1000, sa_host = ''a'', sa_port = 4000\<rparr>, \<lparr>sa_id = 999, sa_host = ''b'', sa_port = 4001\<rparr>] [] = Inr bs \<and>
    read_servers (new_reader (bs @ ''x'')) = Inr ([\<lparr>sa_id = 1000, sa_host = ''a'', sa_port = 4000\<rparr>, \<lparr>sa_id = 999, sa_host = ''b'', sa_port = 4001\<rparr>], cursor bs ''x'') \<and>
    list_all (\<lambda>k. \<exists>e. read_servers (new_reader (take k bs)) = Inl e) [0..<length bs]"
  by (rule servers_roundtrip) (simp add: servers_ok_def)

text \<open>
  Every 16-bit number names exactly one message type and back: casting a received code
  to a message type and writing that type again gives the same code, and each of the types
  that the protocol names is what its own code is cast to.
\<close>

theorem msg_code_roundtrip:
  "msg_code (msg_of_code w) = w \<and> list_all (\<lambda>m. msg_of_code (msg_code m) = m) named_msgs \<and>
   distinct (map msg_code named_msgs)"
  by (simp add: list_all_iff msg_of_code_named named_msgs_distinct)

end
