(* ===== verification/Connection.thy ===== *)
theory Connection
  imports Protocol
begin

text \<open>
  \<open>common/connection.hpp\<close> and \<open>common/connection.cpp\<close>: framing messages over a TLS byte
  stream, and the request/reply helpers.

  The first half is the byte level. What OpenSSL and \<open>poll\<close> deliver is a list of events: the
  plaintext of successive \<open>SSL_read\<close>s, and silences in milliseconds; the end of the list
  is the end of the stream. Writing is a list of what \<open>SSL_write\<close> does with each call.

  The second half is the message level that the rest of the program works on: a connection
  is a queue in each direction and a peer that answers what it is sent.
\<close>

section \<open>Bytes\<close>

definition FRAME_TIMEOUT_MS :: nat where "FRAME_TIMEOUT_MS = 15000"
definition SEND_TIMEOUT_MS :: nat where "SEND_TIMEOUT_MS = 15000"

datatype net_event = Data string | Gap nat

datatype io_status = Io_Ok | Io_Timeout | Io_Closed

text \<open>
  \<open>read_some\<close>: at most \<open>size\<close> bytes, waiting up to \<open>timeout\<close> milliseconds (for ever if it
  is negative).
\<close>

fun read_some :: "nat \<Rightarrow> int \<Rightarrow> net_event list \<Rightarrow> io_status \<times> string \<times> net_event list" where
  "read_some n timeout [] = (Io_Closed, [], [])"
| "read_some n timeout (Data bs # es) =
     (if bs = [] then read_some n timeout es
      else (Io_Ok, take n bs, if length bs \<le> n then es else Data (drop n bs) # es))"
| "read_some n timeout (Gap g # es) =
     (if timeout < 0 then read_some n timeout es
      else if int g \<le> timeout then read_some n (timeout - int g) es
      else (Io_Timeout, [], Gap (g - nat timeout) # es))"

lemma read_some_Ok_length:
  "read_some n t es = (Io_Ok, got, es') \<Longrightarrow> 0 < n \<Longrightarrow> 0 < length got \<and> length got \<le> n"
  by (induction n t es rule: read_some.induct) (auto split: if_splits)

function read_exact :: "nat \<Rightarrow> net_event list \<Rightarrow> string option \<times> net_event list" where
  "read_exact n es =
     (if n = 0 then (Some [], es)
      else case read_some n (int FRAME_TIMEOUT_MS) es of (status, got, es') \<Rightarrow>
        if status \<noteq> Io_Ok then (None, es')
        else case read_exact (n - length got) es' of (tail, es'') \<Rightarrow>
          (map_option (\<lambda>tail. got @ tail) tail, es''))"
  by pat_completeness auto
termination
  by (relation "measure fst") (auto dest!: read_some_Ok_length [OF sym])

declare read_exact.simps [simp del]

datatype recv_result = Received message | Recv_Timeout | Recv_Closed

definition parse_header :: "string \<Rightarrow> protocol_error + msg \<times> u32" where
  "parse_header bytes =
     ebind (r_u16 (new_reader bytes)) (\<lambda>(ty, r).
     ebind (r_u16 r) (\<lambda>(reserved, r).
     ebind (r_u32 r) (\<lambda>(len, r). Inr (msg_of_code ty, len))))"

definition recv_frame :: "int \<Rightarrow> net_event list \<Rightarrow> (protocol_error + recv_result) \<times> net_event list" where
  "recv_frame timeout es =
     (case read_some HEADER_SIZE timeout es of
        (Io_Timeout, got, es) \<Rightarrow> (Inr Recv_Timeout, es)
      | (Io_Closed, got, es) \<Rightarrow> (Inr Recv_Closed, es)
      | (Io_Ok, got, es) \<Rightarrow>
          (case read_exact (HEADER_SIZE - length got) es of
             (None, es) \<Rightarrow> (Inr Recv_Closed, es)
           | (Some tail, es) \<Rightarrow>
               (case parse_header (got @ tail) of
                  Inl e \<Rightarrow> (Inl e, es)
                | Inr (ty, len) \<Rightarrow>
                    if unat len > MAX_PAYLOAD then (Inr Recv_Closed, es)
                    else case read_exact (unat len) es of
                      (None, es) \<Rightarrow> (Inr Recv_Closed, es)
                    | (Some body, es) \<Rightarrow> (Inr (Received \<lparr>mtype = ty, payload = body\<rparr>), es))))"

text \<open>\<open>send_locked\<close>: the frame it hands to \<open>write_all\<close>, or nothing if the payload is too big.\<close>

definition frame_of :: "message \<Rightarrow> string option" where
  "frame_of m =
     (if length (payload m) > MAX_PAYLOAD then None
      else Some (w_u32 (of_nat (length (payload m))) (w_u16 0 (w_u16 (msg_code (mtype m)) [])) @ payload m))"

datatype write_event = Wrote nat | Blocked nat | Write_failed \<comment> \<open>\<open>Wrote n\<close>: \<open>n + 1\<close> bytes\<close>

text \<open>
  \<open>write_all\<close>: \<open>SSL_write\<close> takes a positive number of bytes, wants to wait, or fails; the
  deadline covers the whole message. The result is whether everything was sent, and what was.
\<close>

fun write_all :: "nat \<Rightarrow> string \<Rightarrow> write_event list \<Rightarrow> bool \<times> string" where
  "write_all left [] ws = (True, [])"
| "write_all left (b # bs) [] = (False, [])"
| "write_all left (b # bs) (Wrote n # ws) =
     (case write_all left (drop n bs) ws of (ok, sent) \<Rightarrow> (ok, (b # take n bs) @ sent))"
| "write_all left (b # bs) (Blocked g # ws) =
     (if g \<le> left then write_all (left - g) (b # bs) ws else (False, []))"
| "write_all left (b # bs) (Write_failed # ws) = (False, [])"

lemma write_all_prefix:
  "write_all left data ws = (ok, sent) \<Longrightarrow> \<exists>rest. data = sent @ rest \<and> (ok \<longleftrightarrow> rest = [])"
  by (induction left data ws arbitrary: sent rule: write_all.induct)
     (auto split: prod.splits if_splits, metis append_take_drop_id append_assoc)

section \<open>Framing is lossless\<close>

fun bytes_of :: "net_event list \<Rightarrow> string" where
  "bytes_of [] = []"
| "bytes_of (Data bs # es) = bs @ bytes_of es"
| "bytes_of (Gap g # es) = bytes_of es"

text \<open>No silence between two bytes is longer than the frame timeout.\<close>

fun prompt :: "nat \<Rightarrow> net_event list \<Rightarrow> bool" where
  "prompt budget [] \<longleftrightarrow> True"
| "prompt budget (Data bs # es) \<longleftrightarrow> prompt (if bs = [] then budget else FRAME_TIMEOUT_MS) es"
| "prompt budget (Gap g # es) \<longleftrightarrow> g \<le> budget \<and> prompt (budget - g) es"

lemma read_some_prompt:
  "prompt b es \<Longrightarrow> bytes_of es \<noteq> [] \<Longrightarrow> t < 0 \<or> int b \<le> t \<Longrightarrow> 0 < n \<Longrightarrow>
     \<exists>got es'. read_some n t es = (Io_Ok, got, es') \<and> got @ bytes_of es' = bytes_of es \<and>
       prompt FRAME_TIMEOUT_MS es'"
proof (induction n t es arbitrary: b rule: read_some.induct)
  case (3 n t g es)
  show ?case
  proof (cases "t < 0")
    case True
    with "3.IH"(1) [of "b - g"] "3.prems" show ?thesis by simp
  next
    case False
    with "3.prems" have "int g \<le> t" "int (b - g) \<le> t - int g" by auto
    with "3.IH"(2) [of "b - g"] "3.prems" False show ?thesis by simp
  qed
qed (auto split: if_splits)

lemma read_exact_prompt:
  "prompt FRAME_TIMEOUT_MS es \<Longrightarrow> bytes_of es = bs @ rest \<Longrightarrow>
     \<exists>es'. read_exact (length bs) es = (Some bs, es') \<and> bytes_of es' = rest \<and>
       prompt FRAME_TIMEOUT_MS es'"
proof (induction "length bs" arbitrary: bs es rule: less_induct)
  case less
  show ?case
  proof (cases "bs = []")
    case True
    with less.prems show ?thesis by (simp add: read_exact.simps)
  next
    case False
    then obtain got es1 where
      rd: "read_some (length bs) (int FRAME_TIMEOUT_MS) es = (Io_Ok, got, es1)"
      and split: "got @ bytes_of es1 = bs @ rest" and pr: "prompt FRAME_TIMEOUT_MS es1"
      using read_some_prompt [OF less.prems(1), of "int FRAME_TIMEOUT_MS" "length bs"] less.prems(2)
      by auto
    have len: "0 < length got" "length got \<le> length bs"
      using read_some_Ok_length [OF rd] False by auto
    with split have bs: "bs = got @ drop (length got) bs"
      by (metis append_eq_append_conv_if append_take_drop_id)
    with split have "bytes_of es1 = drop (length got) bs @ rest"
      by (metis append.assoc same_append_eq)
    moreover have "length (drop (length got) bs) < length bs"
      using len by (cases bs) auto
    ultimately obtain es2 where
      "read_exact (length (drop (length got) bs)) es1 = (Some (drop (length got) bs), es2)"
      "bytes_of es2 = rest" "prompt FRAME_TIMEOUT_MS es2"
      using less.hyps [OF _ pr] by blast
    with rd False bs show ?thesis
      by (subst read_exact.simps) auto
  qed
qed

lemma frame_of_Some:
  "length (payload m) \<le> MAX_PAYLOAD \<Longrightarrow>
   frame_of m = Some ((enc_u16 (msg_code (mtype m)) @ enc_u16 0 @ enc_u32 (of_nat (length (payload m)))) @ payload m)"
  by (simp add: frame_of_def wr_simps)

lemma parse_header_frame:
  "parse_header (enc_u16 ty @ enc_u16 res @ enc_u32 len) = Inr (msg_of_code ty, len)"
  using c16.rd_enc [where x = ty and pre = "[]"] c16.rd_enc [where x = res and pre = "enc_u16 ty"]
    c32.rd_enc [where x = len and pre = "enc_u16 ty @ enc_u16 res" and rest = "[]"]
  by (simp add: parse_header_def new_reader_cursor)

lemma parse_header_total: "length bs = HEADER_SIZE \<Longrightarrow> \<exists>h. parse_header bs = Inr h"
  by (auto simp: parse_header_def HEADER_SIZE_def r_u16_def r_u32_def r_take_def new_reader_def)

lemma recv_frame_ok:
  assumes "prompt FRAME_TIMEOUT_MS es" "t < 0 \<or> int FRAME_TIMEOUT_MS \<le> t"
    and "frame_of m = Some f" "msg_wire (mtype m)" "bytes_of es = f @ rest"
  shows "\<exists>es'. recv_frame t es = (Inr (Received m), es') \<and> bytes_of es' = rest \<and>
           prompt FRAME_TIMEOUT_MS es'"
proof -
  let ?len = "of_nat (length (payload m)) :: u32"
  define h where "h = enc_u16 (msg_code (mtype m)) @ enc_u16 0 @ enc_u32 ?len"
  have small: "length (payload m) \<le> MAX_PAYLOAD"
    using assms(3) by (auto simp: frame_of_def split: if_splits)
  then have f: "f = h @ payload m"
    using assms(3) by (simp add: frame_of_Some h_def)
  have len: "unat ?len = length (payload m)"
    using small by (simp add: unat_of_nat MAX_PAYLOAD_def)
  have h8: "length h = HEADER_SIZE"
    by (simp add: h_def HEADER_SIZE_def)
  obtain got es1 where rd: "read_some HEADER_SIZE t es = (Io_Ok, got, es1)"
    and split: "got @ bytes_of es1 = h @ payload m @ rest" and pr: "prompt FRAME_TIMEOUT_MS es1"
  proof -
    have "bytes_of es \<noteq> []" using assms(5) h8 by (auto simp: f HEADER_SIZE_def)
    from read_some_prompt [OF assms(1) this assms(2), of HEADER_SIZE] assms(5) that
    show thesis by (auto simp: f HEADER_SIZE_def)
  qed
  have "length got \<le> length h"
    using read_some_Ok_length [OF rd] h8 by (simp add: HEADER_SIZE_def)
  with split have h: "h = got @ drop (length got) h"
    by (metis append_eq_append_conv_if append_take_drop_id)
  with split have "bytes_of es1 = drop (length got) h @ payload m @ rest"
    by (metis append.assoc same_append_eq)
  from read_exact_prompt [OF pr this] h8 obtain es2 where
    r2: "read_exact (HEADER_SIZE - length got) es1 = (Some (drop (length got) h), es2)"
    and b2: "bytes_of es2 = payload m @ rest" and p2: "prompt FRAME_TIMEOUT_MS es2"
    by auto
  from read_exact_prompt [OF p2 b2] obtain es3 where
    r3: "read_exact (length (payload m)) es2 = (Some (payload m), es3)"
    "bytes_of es3 = rest" "prompt FRAME_TIMEOUT_MS es3"
    by auto
  have "parse_header (got @ drop (length got) h) = Inr (mtype m, ?len)"
    using assms(4) h by (metis h_def parse_header_frame msg_wire_def)
  then show ?thesis
    using rd r2 r3 small len by (simp add: recv_frame_def)
qed

text \<open>Receiving over and over, as the readers of a connection do.\<close>

fun recv_frames :: "nat \<Rightarrow> int \<Rightarrow> net_event list \<Rightarrow> message list \<times> net_event list" where
  "recv_frames 0 t es = ([], es)"
| "recv_frames (Suc n) t es =
     (case recv_frame t es of
        (Inr (Received m), es) \<Rightarrow> (case recv_frames n t es of (ms, es) \<Rightarrow> (m # ms, es))
      | (_, es) \<Rightarrow> ([], es))"

lemma recv_frames_ok:
  "\<lbrakk>prompt FRAME_TIMEOUT_MS es; t < 0 \<or> int FRAME_TIMEOUT_MS \<le> t;
    \<forall>m \<in> set ms. length (payload m) \<le> MAX_PAYLOAD \<and> msg_wire (mtype m);
    bytes_of es = concat (map (\<lambda>m. the (frame_of m)) ms) @ rest\<rbrakk> \<Longrightarrow>
   \<exists>es'. recv_frames (length ms) t es = (ms, es') \<and> bytes_of es' = rest \<and> prompt FRAME_TIMEOUT_MS es'"
proof (induction ms arbitrary: es)
  case (Cons m ms)
  then have "frame_of m = Some (the (frame_of m))" "msg_wire (mtype m)"
    by (auto simp: frame_of_def)
  from recv_frame_ok [OF Cons.prems(1,2) this] Cons.prems(4)
  obtain es1 where es1: "recv_frame t es = (Inr (Received m), es1)"
    "bytes_of es1 = concat (map (\<lambda>m. the (frame_of m)) ms) @ rest" "prompt FRAME_TIMEOUT_MS es1"
    by auto
  from Cons.IH [OF es1(3) Cons.prems(2) _ es1(2)] Cons.prems(3) es1(1)
  show ?case by auto
qed simp

lemma read_exact_Some:
  assumes "read_exact n es = (Some bs, es')" "n \<noteq> 0"
  shows "\<exists>got es1 rest. read_some n (int FRAME_TIMEOUT_MS) es = (Io_Ok, got, es1) \<and>
    read_exact (n - length got) es1 = (Some rest, es') \<and> bs = got @ rest"
  using assms by (subst (asm) read_exact.simps) (auto split: prod.splits if_splits)

lemma read_exact_length: "read_exact n es = (Some bs, es') \<Longrightarrow> length bs = n"
proof (induction n arbitrary: es bs es' rule: less_induct)
  case (less n)
  show ?case
  proof (cases "n = 0")
    case True
    with less.prems show ?thesis by (simp add: read_exact.simps)
  next
    case False
    from read_exact_Some [OF less.prems False] obtain got es1 rest where
      *: "read_some n (int FRAME_TIMEOUT_MS) es = (Io_Ok, got, es1)"
      "read_exact (n - length got) es1 = (Some rest, es')" "bs = got @ rest"
      by blast
    from read_some_Ok_length [OF *(1)] False have got: "0 < length got" "length got \<le> n" by auto
    then have "n - length got < n" by arith
    from less.IH [OF this *(2)] *(3) got show ?thesis by simp
  qed
qed

lemma recv_frame_never_throws: "\<exists>r es'. recv_frame t es = (Inr r, es')"
proof -
  obtain status got es1 where rd: "read_some HEADER_SIZE t es = (status, got, es1)"
    by (metis prod_cases3)
  obtain tail es2 where ex: "read_exact (HEADER_SIZE - length got) es1 = (tail, es2)"
    by fastforce
  show ?thesis
  proof (cases "status = Io_Ok \<and> tail \<noteq> None")
    case True
    then obtain bs where "tail = Some bs" by auto
    with ex True rd read_exact_length [of _ es1 bs es2] read_some_Ok_length [of HEADER_SIZE t es got es1]
    have "length (got @ bs) = HEADER_SIZE" by (auto simp: HEADER_SIZE_def)
    then obtain h where "parse_header (got @ bs) = Inr h" using parse_header_total by blast
    with rd ex \<open>tail = Some bs\<close> show ?thesis
      by (cases h) (auto simp: recv_frame_def split: io_status.splits option.splits prod.splits)
  next
    case False
    with rd ex show ?thesis
      by (auto simp: recv_frame_def split: io_status.splits)
  qed
qed

lemma recv_frame_bounded:
  "recv_frame t es = (Inr (Received m), es') \<Longrightarrow> length (payload m) \<le> MAX_PAYLOAD \<and> msg_wire (mtype m)"
  by (auto simp: recv_frame_def parse_header_def ebind_def dest!: read_exact_length
      split: prod.splits io_status.splits option.splits sum.splits if_splits)

section \<open>Messages\<close>

text \<open>
  From here on a connection carries whole messages. \<open>outq\<close> holds what was sent and not yet
  answered, \<open>inq\<close> what arrived and was not yet read. When the reader finds nothing, the
  peer gets its turn: \<open>respond\<close> is its behaviour, from its state and the messages it was
  sent to its new state and its answers. \<open>sends_left\<close> is the number of sends that still
  succeed before the connection breaks (\<^term>\<open>None\<close>: it does not break).
\<close>

record 'p conn =
  peer_state :: 'p
  respond :: "'p \<Rightarrow> message list \<Rightarrow> 'p \<times> message list"
  outq :: "message list"
  inq :: "message list"
  sends_left :: "nat option"
  is_open :: bool
  peer_is_server :: bool

definition conn_send :: "'p conn \<Rightarrow> msg \<Rightarrow> string \<Rightarrow> bool \<times> 'p conn" where
  "conn_send c ty body =
     (if \<not> is_open c \<or> length body > MAX_PAYLOAD \<or> sends_left c = Some 0 then (False, c)
      else (True, c\<lparr>outq := outq c @ [\<lparr>mtype = ty, payload = body\<rparr>],
                    sends_left := map_option (\<lambda>n. n - 1) (sends_left c)\<rparr>))"

definition conn_recv :: "'p conn \<Rightarrow> recv_result \<times> 'p conn" where
  "conn_recv c =
     (if \<not> is_open c then (Recv_Closed, c)
      else case inq c of
        m # ms \<Rightarrow> (Received m, c\<lparr>inq := ms\<rparr>)
      | [] \<Rightarrow>
          if outq c = [] then (Recv_Timeout, c)
          else case respond c (peer_state c) (outq c) of (p, answers) \<Rightarrow>
            (case answers of
               [] \<Rightarrow> (Recv_Timeout, c\<lparr>peer_state := p, outq := []\<rparr>)
             | m # ms \<Rightarrow> (Received m, c\<lparr>peer_state := p, outq := [], inq := ms\<rparr>)))"

definition conn_shutdown :: "'p conn \<Rightarrow> 'p conn" where
  "conn_shutdown c = c\<lparr>is_open := False\<rparr>"

datatype call_result = Call_Ok message | Call_Rejected message | Call_Failed

definition call :: "'p conn \<Rightarrow> msg \<Rightarrow> string \<Rightarrow> msg \<Rightarrow> call_result \<times> 'p conn" where
  "call c request body expected =
     (case conn_send c request body of
        (False, c) \<Rightarrow> (Call_Failed, c)
      | (True, c) \<Rightarrow>
          (case conn_recv c of
             (Received reply, c) \<Rightarrow>
               (if mtype reply = expected then Call_Ok reply else Call_Rejected reply, c)
           | (_, c) \<Rightarrow> (Call_Failed, c)))"

definition error_reason :: "message \<Rightarrow> string" where
  "error_reason reply =
     (case (if mtype reply = Msg_Error then r_str (new_reader (payload reply)) else Inl (ProtocolError [])) of
        Inr (reason, _) \<Rightarrow> reason
      | Inl _ \<Rightarrow> ''unexpected reply '' @ msg_name (mtype reply))"

definition send_error :: "'p conn \<Rightarrow> string \<Rightarrow> (protocol_error + bool) \<times> 'p conn" where
  "send_error c reason =
     (case w_str reason [] of
        Inl e \<Rightarrow> (Inl e, c)
      | Inr body \<Rightarrow> (case conn_send c Msg_Error body of (ok, c) \<Rightarrow> (Inr ok, c)))"

text \<open>Each receive uses up a queued message, or the unanswered requests.\<close>

definition recv_measure :: "'p conn \<Rightarrow> nat \<times> nat" where
  "recv_measure c = (length (outq c), length (inq c))"

lemma conn_recv_measure:
  "conn_recv c = (Received m, c') \<Longrightarrow>
     (recv_measure c', recv_measure c) \<in> less_than <*lex*> less_than"
  by (auto simp: conn_recv_def recv_measure_def split: if_splits list.splits prod.splits)

lemma conn_send_True:
  "conn_send c ty body = (True, c') \<Longrightarrow>
     outq c' = outq c @ [\<lparr>mtype = ty, payload = body\<rparr>] \<and> inq c' = inq c \<and>
     peer_state c' = peer_state c \<and> respond c' = respond c \<and> is_open c' = is_open c"
  by (auto simp: conn_send_def split: if_splits)

lemma conn_send_False: "conn_send c ty body = (False, c') \<Longrightarrow> c' = c"
  by (auto simp: conn_send_def split: if_splits)

lemma conn_recv_queued:
  "is_open c \<Longrightarrow> inq c = m # ms \<Longrightarrow> conn_recv c = (Received m, c\<lparr>inq := ms\<rparr>)"
  by (simp add: conn_recv_def)

lemma error_reason_send:
  "str_ok reason \<Longrightarrow> error_reason \<lparr>mtype = Msg_Error, payload = enc_str reason\<rparr> = reason"
  using cstr.rd_enc [where pre = "[]" and rest = "[]"]
  by (simp add: error_reason_def new_reader_cursor)

section \<open>Properties\<close>

text \<open>
  C28. Framing is lossless: however the network cuts the bytes of a sequence of messages into
  pieces, and with any pauses below the frame timeout, the receiver gets exactly those
  messages in that order, and what follows them stays unread.
\<close>

theorem framing_lossless:
  assumes "prompt FRAME_TIMEOUT_MS es" "int FRAME_TIMEOUT_MS \<le> timeout"
    and "list_all (\<lambda>m. frame_of m \<noteq> None \<and> msg_wire (mtype m)) ms"
    and "bytes_of es = concat (map (\<lambda>m. the (frame_of m)) ms) @ rest"
  shows "\<exists>es'. recv_frames (length ms) timeout es = (ms, es') \<and> bytes_of es' = rest"
proof -
  have "\<forall>m \<in> set ms. length (payload m) \<le> MAX_PAYLOAD \<and> msg_wire (mtype m)"
    using assms(3) by (auto simp: list_all_iff frame_of_def split: if_splits)
  from recv_frames_ok [OF assms(1) _ this assms(4)] assms(2) show ?thesis by blast
qed

theorem framing_lossless_witness:
  "\<exists>es'. recv_frames (length [\<lparr>mtype = Msg_Ping, payload = []\<rparr>, \<lparr>mtype = Msg_Delete, payload = ''ab''\<rparr>]) 20000
     [Data (enc_u16 12 @ enc_u16 0), Gap 9000, Data (enc_u32 0 @ enc_u16 16), Gap 1, Data (enc_u16 0 @ enc_u32 2 @ ''a''), Data ''b!'']
     = ([\<lparr>mtype = Msg_Ping, payload = []\<rparr>, \<lparr>mtype = Msg_Delete, payload = ''ab''\<rparr>], es') \<and> bytes_of es' = ''!''"
  by (rule framing_lossless)
     (simp_all add: FRAME_TIMEOUT_MS_def frame_of_Some MAX_PAYLOAD_def named_msgs_def)

text \<open>
  Receiving is total and bounded: on any input from the network \<open>recv\<close> returns, it does
  not throw, and a message it delivers is never larger than \<open>MAX_PAYLOAD\<close>.
\<close>

theorem recv_total_bounded:
  "case recv_frame timeout es of
     (Inl e, es') \<Rightarrow> False
   | (Inr (Received m), es') \<Rightarrow> length (payload m) \<le> MAX_PAYLOAD \<and> msg_wire (mtype m)
   | (Inr _, es') \<Rightarrow> True"
proof -
  obtain r es' where r: "recv_frame timeout es = (Inr r, es')"
    using recv_frame_never_throws by blast
  then show ?thesis
    by (cases r) (auto dest: recv_frame_bounded)
qed

text \<open>
  A send is a prefix of the frame: whatever the socket does (partial writes, waiting,
  failing), the bytes that go out are a prefix of the data, and success is reported exactly
  when all of it went out.
\<close>

theorem write_all_exact:
  "case write_all timeout data events of (ok, sent) \<Rightarrow>
     sent = take (length sent) data \<and> ok = (sent = data)"
proof -
  obtain ok sent where w: "write_all timeout data events = (ok, sent)" by fastforce
  then obtain rest where "data = sent @ rest" "ok \<longleftrightarrow> rest = []" using write_all_prefix by blast
  with w show ?thesis by auto
qed

end
