(* ===== verification/OrderedMap.thy ===== *)
theory OrderedMap
  imports SyncBase
begin

text \<open>
  \<open>std::map\<close>: an association list kept sorted by its keys. Iterating over a
  \<open>std::map\<close> visits the keys in increasing order, which is the order of this list, and
  \<open>find\<close> is \<^const>\<open>map_of\<close>. The interface its clients rely on is the locale
  \<open>assoc_map\<close>.
\<close>

type_synonym ('k, 'v) omap = "('k \<times> 'v) list"

fun omap_put :: "'k::linorder \<Rightarrow> 'v \<Rightarrow> ('k, 'v) omap \<Rightarrow> ('k, 'v) omap" where
  "omap_put k v [] = [(k, v)]"
| "omap_put k v ((k', v') # m) =
     (if k < k' then (k, v) # (k', v') # m
      else if k = k' then (k, v) # m
      else (k', v') # omap_put k v m)"

definition omap_del :: "'k::linorder \<Rightarrow> ('k, 'v) omap \<Rightarrow> ('k, 'v) omap" where
  "omap_del k m = filter (\<lambda>e. fst e \<noteq> k) m"

definition omap_wf :: "('k::linorder, 'v) omap \<Rightarrow> bool" where
  "omap_wf m \<longleftrightarrow> sorted_wrt (<) (map fst m)"

lemma omap_wf_Nil [simp]: "omap_wf []"
  by (simp add: omap_wf_def)

lemma omap_wf_Cons: "omap_wf (e # m) \<longleftrightarrow> (\<forall>k \<in> set (map fst m). fst e < k) \<and> omap_wf m"
  by (simp add: omap_wf_def)

lemma keys_omap_put [simp]: "fst ` set (omap_put k v m) = insert k (fst ` set m)"
  by (induction k v m rule: omap_put.induct) auto

lemma omap_put_set: "e \<in> set (omap_put k v m) \<Longrightarrow> e = (k, v) \<or> e \<in> set m"
  by (induction k v m rule: omap_put.induct) (auto split: if_splits)

lemma omap_wf_put: "omap_wf m \<Longrightarrow> omap_wf (omap_put k v m)"
  by (induction k v m rule: omap_put.induct) (auto simp: omap_wf_Cons dest!: omap_put_set)

lemma omap_wf_del: "omap_wf m \<Longrightarrow> omap_wf (omap_del k m)"
  by (induction m) (auto simp: omap_wf_Cons omap_del_def)

lemma omap_put_lookup: "omap_wf m \<Longrightarrow> map_of (omap_put k v m) = (map_of m)(k \<mapsto> v)"
  by (induction k v m rule: omap_put.induct) (auto simp: omap_wf_Cons fun_eq_iff)

lemma omap_del_lookup: "map_of (omap_del k m) = (map_of m)(k := None)"
  by (induction m) (auto simp: omap_del_def fun_eq_iff)

lemma omap_wf_distinct: "omap_wf m \<Longrightarrow> distinct (map fst m)"
  by (simp add: omap_wf_def strict_sorted_iff)

lemma omap_wf_map_of: "omap_wf m \<Longrightarrow> map_of m k = Some v \<longleftrightarrow> (k, v) \<in> set m"
  using omap_wf_distinct [of m] by simp

lemma omap_eqI: "omap_wf m \<Longrightarrow> omap_wf n \<Longrightarrow> map_of m = map_of n \<Longrightarrow> m = n"
proof (rule map_sorted_distinct_set_unique [where f = fst])
  assume wf: "omap_wf m" "omap_wf n" and eq: "map_of m = map_of n"
  have "e \<in> set m \<longleftrightarrow> e \<in> set n" for e
    using omap_wf_map_of [OF wf(1), of "fst e" "snd e"] omap_wf_map_of [OF wf(2), of "fst e" "snd e"]
    by (simp add: eq)
  then show "set m = set n" by blast
  then show "inj_on fst (set m \<union> set n)"
    using omap_wf_distinct [OF wf(1)] by (simp add: distinct_map)
qed (simp_all add: omap_wf_def strict_sorted_iff omap_wf_distinct distinct_map)

text \<open>What the clients of a \<open>std::map\<close> use.\<close>

locale assoc_map =
  fixes find :: "'m \<Rightarrow> 'k \<rightharpoonup> 'v"
    and put :: "'k \<Rightarrow> 'v \<Rightarrow> 'm \<Rightarrow> 'm"
    and del :: "'k \<Rightarrow> 'm \<Rightarrow> 'm"
    and inv :: "'m \<Rightarrow> bool"
  assumes find_put: "inv m \<Longrightarrow> find (put k v m) = (find m)(k \<mapsto> v)"
    and find_del: "inv m \<Longrightarrow> find (del k m) = (find m)(k := None)"
    and inv_put: "inv m \<Longrightarrow> inv (put k v m)"
    and inv_del: "inv m \<Longrightarrow> inv (del k m)"
begin

lemma find_put_del:
  "inv m \<Longrightarrow> find (del k (put k v m)) = (find m)(k := None)"
  by (simp add: find_put find_del inv_put)

lemma find_del_put:
  "inv m \<Longrightarrow> find (put k v (del k m)) = (find m)(k \<mapsto> v)"
  by (simp add: find_put find_del inv_del)

lemma dom_put_del:
  assumes "inv m"
  shows "dom (find (put k v m)) = insert k (dom (find m))"
    and "dom (find (del k m)) = dom (find m) - {k}"
  using assms by (auto simp: find_put find_del)

text \<open>A sequence of insertions of pairwise different keys.\<close>

lemma find_foldl_put:
  "inv m \<Longrightarrow> inv (foldl (\<lambda>m x. put (f x) (g x) m) m xs) \<and>
   find (foldl (\<lambda>m x. put (f x) (g x) m) m xs) = find m ++ map_of (rev (map (\<lambda>x. (f x, g x)) xs))"
  by (induction xs arbitrary: m) (auto simp: inv_put find_put)

end

interpretation om: assoc_map map_of omap_put omap_del omap_wf
  by unfold_locales (simp_all add: omap_put_lookup omap_del_lookup omap_wf_put omap_wf_del)

text \<open>The size of a map as the number of keys with a property.\<close>

definition omap_count :: "('v \<Rightarrow> bool) \<Rightarrow> ('k, 'v) omap \<Rightarrow> nat" where
  "omap_count p m = length (filter (\<lambda>e. p (snd e)) m)"

lemma omap_count_put_new:
  "map_of m k = None \<Longrightarrow> omap_count p (omap_put k v m) = omap_count p m + (if p v then 1 else 0)"
  by (induction k v m rule: omap_put.induct) (auto simp: omap_count_def split: if_splits)

lemma omap_count_put_same:
  "omap_wf m \<Longrightarrow> map_of m k = Some w \<Longrightarrow> p v = p w \<Longrightarrow>
     omap_count p (omap_put k v m) = omap_count p m"
proof (induction k v m rule: omap_put.induct)
  case (2 k v k' v' m)
  have "\<not> k < k'"
  proof
    assume less: "k < k'"
    then have "k \<noteq> k'" by auto
    with "2.prems" have "(k, w) \<in> set m" by (auto dest: map_of_SomeD)
    with "2.prems" have "k' < k" by (force simp: omap_wf_Cons)
    with less show False by simp
  qed
  with 2 show ?case by (auto simp: omap_count_def omap_wf_Cons split: if_splits)
qed simp

lemma omap_count_del: "omap_count p (omap_del k m) \<le> omap_count p m"
  by (induction m) (auto simp: omap_count_def omap_del_def)

end
