(* ===== verification/Posix.thy ===== *)
theory Posix
  imports OrderedMap
begin

text \<open>
  The file system calls the program makes, as POSIX documents them: \<open>open\<close>, \<open>read\<close>,
  \<open>write\<close>, \<open>lstat\<close>, \<open>mkdir\<close>, \<open>rmdir\<close>, \<open>unlink\<close>, \<open>rename\<close>, \<open>utimensat\<close> and \<open>readdir\<close>
  on a tree of directories, regular files and other entries (symbolic links, devices).
  A path is resolved from the root: empty and \<open>.\<close> components are skipped and \<open>..\<close> goes up,
  so a path that is not validated can reach anything. Links are never followed.

  The record also holds what the process gets from its environment: a limit on file sizes
  (so that writes can fail), the point at which another process truncates a file while it is
  being read, the current time, and the stream of random numbers used for temporary names.
\<close>

type_synonym fpath = "string list"

datatype node = N_dir | N_file string int | N_special \<comment> \<open>\<open>N_file contents mtime\<close>\<close>

datatype errno = EEXIST | ENOENT | ENOTDIR | EISDIR | ENOTEMPTY | EINVAL | EFBIG

record os =
  tree :: "(fpath, node) omap"
  file_limit :: "nat option"
  cut_at :: "nat option"
  now :: int
  rnd :: "nat \<Rightarrow> u64"
  rnd_pos :: nat

definition resolve_step :: "fpath \<Rightarrow> string \<Rightarrow> fpath" where
  "resolve_step p c =
     (if c = [] \<or> c = ''.'' then p else if c = ''..'' then butlast p else p @ [c])"

definition resolve :: "string \<Rightarrow> fpath" where
  "resolve s = foldl resolve_step [] (split_on (CHR ''/'') s)"

definition os_node :: "os \<Rightarrow> fpath \<Rightarrow> node option" where
  "os_node os p = (if p = [] then Some N_dir else map_of (tree os) p)"

definition os_put :: "fpath \<Rightarrow> node \<Rightarrow> os \<Rightarrow> os" where
  "os_put p n os = os\<lparr>tree := omap_put p n (tree os)\<rparr>"

definition os_del :: "fpath \<Rightarrow> os \<Rightarrow> os" where
  "os_del p os = os\<lparr>tree := omap_del p (tree os)\<rparr>"

definition children :: "os \<Rightarrow> fpath \<Rightarrow> string list" where
  "children os p = map (\<lambda>e. last (fst e)) (filter (\<lambda>e. fst e \<noteq> [] \<and> butlast (fst e) = p) (tree os))"

section \<open>The calls\<close>

definition sys_mkdir :: "string \<Rightarrow> os \<Rightarrow> errno option \<times> os" where
  "sys_mkdir s os =
     (let p = resolve s in
      if s = [] then (Some ENOENT, os)
      else if os_node os p \<noteq> None then (Some EEXIST, os)
      else case os_node os (butlast p) of
        None \<Rightarrow> (Some ENOENT, os)
      | Some N_dir \<Rightarrow> (None, os_put p N_dir os)
      | Some _ \<Rightarrow> (Some ENOTDIR, os))"

definition sys_is_dir :: "string \<Rightarrow> os \<Rightarrow> bool" where
  "sys_is_dir s os \<longleftrightarrow> s \<noteq> [] \<and> os_node os (resolve s) = Some N_dir"

definition sys_lstat :: "string \<Rightarrow> os \<Rightarrow> node option" where
  "sys_lstat s os = (if s = [] then None else os_node os (resolve s))"

definition sys_rmdir :: "string \<Rightarrow> os \<Rightarrow> errno option \<times> os" where
  "sys_rmdir s os =
     (let p = resolve s in
      if s = [] \<or> os_node os p = None then (Some ENOENT, os)
      else if os_node os p \<noteq> Some N_dir then (Some ENOTDIR, os)
      else if p = [] \<or> children os p \<noteq> [] then (Some ENOTEMPTY, os)
      else (None, os_del p os))"

definition sys_unlink :: "string \<Rightarrow> os \<Rightarrow> errno option \<times> os" where
  "sys_unlink s os =
     (let p = resolve s in
      if s = [] \<or> os_node os p = None then (Some ENOENT, os)
      else if os_node os p = Some N_dir then (Some EISDIR, os)
      else (None, os_del p os))"

text \<open>The program only renames files, never directories.\<close>

definition sys_rename :: "string \<Rightarrow> string \<Rightarrow> os \<Rightarrow> errno option \<times> os" where
  "sys_rename from to os =
     (let p = resolve from; q = resolve to in
      case os_node os p of
        None \<Rightarrow> (Some ENOENT, os)
      | Some N_dir \<Rightarrow> (Some EISDIR, os)
      | Some n \<Rightarrow>
          if to = [] \<or> os_node os (butlast q) \<noteq> Some N_dir then (Some ENOENT, os)
          else if os_node os q = Some N_dir then (Some EISDIR, os)
          else if p = q then (None, os)
          else (None, os_put q n (os_del p os)))"

text \<open>\<open>open(O_RDONLY | O_NOFOLLOW)\<close>, \<open>fstat\<close> and \<open>S_ISREG\<close>: contents and time of a regular file.\<close>

definition sys_open_reg :: "string \<Rightarrow> os \<Rightarrow> (string \<times> int) option" where
  "sys_open_reg s os =
     (case sys_lstat s os of Some (N_file bs t) \<Rightarrow> Some (bs, t) | _ \<Rightarrow> None)"

text \<open>\<open>open(O_WRONLY | O_CREAT | O_TRUNC)\<close>, and \<open>write\<close> at the end of a file.\<close>

definition sys_create :: "string \<Rightarrow> os \<Rightarrow> errno option \<times> os" where
  "sys_create s os =
     (let p = resolve s in
      if s = [] \<or> os_node os (butlast p) \<noteq> Some N_dir then (Some ENOENT, os)
      else if os_node os p = Some N_dir \<or> os_node os p = Some N_special then (Some EISDIR, os)
      else (None, os_put p (N_file [] (now os)) os))"

definition sys_write :: "string \<Rightarrow> string \<Rightarrow> os \<Rightarrow> errno option \<times> os" where
  "sys_write s bs os =
     (case os_node os (resolve s) of
        Some (N_file old t) \<Rightarrow>
          if (case file_limit os of None \<Rightarrow> False | Some l \<Rightarrow> l < length old + length bs)
          then (Some EFBIG, os)
          else (None, os_put (resolve s) (N_file (old @ bs) (now os)) os)
      | _ \<Rightarrow> (Some ENOENT, os))"

definition sys_utimens :: "string \<Rightarrow> int \<Rightarrow> int \<Rightarrow> os \<Rightarrow> errno option \<times> os" where
  "sys_utimens s sec nsec os =
     (if nsec < 0 \<or> 1000000000 \<le> nsec then (Some EINVAL, os)
      else case sys_lstat s os of
        Some (N_file bs t) \<Rightarrow> (None, os_put (resolve s) (N_file bs (sec * 1000000000 + nsec)) os)
      | Some _ \<Rightarrow> (None, os)
      | None \<Rightarrow> (Some ENOENT, os))"

definition sys_readdir :: "string \<Rightarrow> os \<Rightarrow> string list option" where
  "sys_readdir s os =
     (if sys_is_dir s os then Some (''.'' # ''..'' # children os (resolve s)) else None)"

definition next_random :: "os \<Rightarrow> u64 \<times> os" where
  "next_random os = (rnd os (rnd_pos os), os\<lparr>rnd_pos := Suc (rnd_pos os)\<rparr>)"

section \<open>Well-formed trees\<close>

text \<open>Every entry has a proper name and lies in a directory.\<close>

definition good_name :: "string \<Rightarrow> bool" where
  "good_name c \<longleftrightarrow> c \<noteq> [] \<and> c \<noteq> ''.'' \<and> c \<noteq> ''..'' \<and> CHR ''/'' \<notin> set c"

definition wf_entry :: "os \<Rightarrow> fpath \<Rightarrow> bool" where
  "wf_entry os p \<longleftrightarrow> p \<noteq> [] \<and> list_all good_name p \<and> os_node os (butlast p) = Some N_dir"

definition wf_os :: "os \<Rightarrow> bool" where
  "wf_os os \<longleftrightarrow> omap_wf (tree os) \<and> list_all (\<lambda>e. wf_entry os (fst e)) (tree os)"

lemma resolve_step_good:
  "list_all good_name p \<Longrightarrow> CHR ''/'' \<notin> set c \<Longrightarrow> list_all good_name (resolve_step p c)"
  by (auto simp: resolve_step_def good_name_def list_all_iff dest: in_set_butlastD)

lemma foldl_resolve_good:
  "list_all good_name p \<Longrightarrow> \<forall>c \<in> set cs. CHR ''/'' \<notin> set c \<Longrightarrow>
     list_all good_name (foldl resolve_step p cs)"
  by (induction cs arbitrary: p) (auto simp: resolve_step_good)

lemma resolve_good: "list_all good_name (resolve s)"
  unfolding resolve_def by (rule foldl_resolve_good) (auto dest: split_on_parts)

lemma foldl_resolve_names: "list_all good_name cs \<Longrightarrow> foldl resolve_step p cs = p @ cs"
  by (induction cs arbitrary: p) (auto simp: resolve_step_def good_name_def)

lemma foldl_resolve_append:
  "foldl resolve_step p (cs @ ds) = foldl resolve_step (foldl resolve_step p cs) ds"
  by simp

lemma os_node_Nil [simp]: "os_node os [] = Some N_dir"
  by (simp add: os_node_def)

lemma wf_os_map: "wf_os os \<Longrightarrow> omap_wf (tree os)"
  by (simp add: wf_os_def)

lemma map_of_key: "map_of m k = None \<longleftrightarrow> (\<forall>e \<in> set m. fst e \<noteq> k)"
  by (auto simp: map_of_eq_None_iff)

lemma wf_os_iff:
  "wf_os os \<longleftrightarrow> omap_wf (tree os) \<and> (\<forall>p. map_of (tree os) p \<noteq> None \<longrightarrow> wf_entry os p)"
  by (auto simp: wf_os_def list_all_iff map_of_key)

lemma wf_os_root: "wf_os os \<Longrightarrow> map_of (tree os) [] = None"
  by (auto simp: wf_os_iff wf_entry_def)

lemma wf_os_entry: "wf_os os \<Longrightarrow> os_node os p = Some n \<Longrightarrow> p \<noteq> [] \<Longrightarrow> wf_entry os p"
  by (simp add: wf_os_iff os_node_def)

lemma wf_os_parent:
  "wf_os os \<Longrightarrow> os_node os p = Some n \<Longrightarrow> p \<noteq> [] \<Longrightarrow> os_node os (butlast p) = Some N_dir"
  using wf_os_entry [of os p n] by (simp add: wf_entry_def)

lemma os_node_put: "wf_os os \<Longrightarrow> p \<noteq> [] \<Longrightarrow> os_node (os_put p n os) = (os_node os)(p \<mapsto> n)"
  by (auto simp: fun_eq_iff os_node_def os_put_def om.find_put wf_os_map)

lemma os_node_del: "wf_os os \<Longrightarrow> p \<noteq> [] \<Longrightarrow> os_node (os_del p os) = (os_node os)(p := None)"
  by (auto simp: fun_eq_iff os_node_def os_del_def om.find_del wf_os_map)

lemma children_iff:
  assumes "wf_os os"
  shows "c \<in> set (children os p) \<longleftrightarrow> os_node os (p @ [c]) \<noteq> None"
proof
  assume "c \<in> set (children os p)"
  then obtain e where e: "e \<in> set (tree os)" "fst e \<noteq> []" "butlast (fst e) = p" "last (fst e) = c"
    by (auto simp: children_def)
  then have "fst e = p @ [c]" by (metis append_butlast_last_id)
  with e(1) show "os_node os (p @ [c]) \<noteq> None"
    unfolding os_node_def using map_of_key by fastforce
next
  assume "os_node os (p @ [c]) \<noteq> None"
  then obtain n where "(p @ [c], n) \<in> set (tree os)"
    by (auto simp: os_node_def dest: map_of_SomeD)
  then show "c \<in> set (children os p)"
    by (force simp: children_def)
qed

lemma butlast_neq: "p \<noteq> [] \<Longrightarrow> butlast p \<noteq> p"
  by (metis append_butlast_last_id append_self_conv list.distinct(1))

lemma wf_os_put:
  assumes "wf_os os" "p \<noteq> []" "list_all good_name p" "os_node os (butlast p) = Some N_dir"
    and "n = N_dir \<or> os_node os p \<noteq> Some N_dir"
  shows "wf_os (os_put p n os)"
proof -
  have find: "map_of (tree (os_put p n os)) = (map_of (tree os))(p \<mapsto> n)"
    using assms(1) by (simp add: os_put_def om.find_put wf_os_map)
  have "wf_entry (os_put p n os) q" if "map_of (tree (os_put p n os)) q \<noteq> None" for q
  proof (cases "q = p")
    case True
    with assms butlast_neq [OF assms(2)] show ?thesis by (simp add: wf_entry_def os_node_put)
  next
    case False
    with that assms(1) have q: "wf_entry os q" by (auto simp: find wf_os_iff split: if_splits)
    then have "butlast q = p \<Longrightarrow> n = N_dir" using assms(5) by (auto simp: wf_entry_def)
    with q assms(1,2) show ?thesis by (auto simp: wf_entry_def os_node_put)
  qed
  with assms(1) show ?thesis
    unfolding wf_os_iff by (simp add: os_put_def om.inv_put)
qed

lemma wf_os_del:
  assumes "wf_os os" "p \<noteq> []" "children os p = []"
  shows "wf_os (os_del p os)"
proof -
  have find: "map_of (tree (os_del p os)) = (map_of (tree os))(p := None)"
    using assms(1) by (simp add: os_del_def om.find_del wf_os_map)
  have "wf_entry (os_del p os) q" if "map_of (tree (os_del p os)) q \<noteq> None" for q
  proof -
    from that assms(1) have q: "wf_entry os q" and some: "map_of (tree os) q \<noteq> None"
      by (auto simp: find wf_os_iff split: if_splits)
    have "butlast q \<noteq> p"
    proof
      assume "butlast q = p"
      then have "os_node os (p @ [last q]) \<noteq> None"
        using q some by (auto simp: wf_entry_def os_node_def)
      with children_iff [OF assms(1), of "last q" p] assms(3) show False by simp
    qed
    with q assms(1,2) show ?thesis by (auto simp: wf_entry_def os_node_del)
  qed
  with assms(1) show ?thesis
    unfolding wf_os_iff by (simp add: os_del_def om.inv_del)
qed

lemma file_no_children: "wf_os os \<Longrightarrow> os_node os p \<noteq> Some N_dir \<Longrightarrow> children os p = []"
proof (rule ccontr)
  assume wf: "wf_os os" and nd: "os_node os p \<noteq> Some N_dir" and "children os p \<noteq> []"
  then obtain c where "c \<in> set (children os p)" by (cases "children os p") auto
  then obtain n where "os_node os (p @ [c]) = Some n" using children_iff [OF wf] by auto
  from wf_os_parent [OF wf this] nd show False by simp
qed

section \<open>What each call does\<close>

lemma resolve_put_ok:
  "os_node os (resolve s) \<noteq> Some N_dir \<Longrightarrow> resolve s \<noteq> []"
  by auto

lemma sys_mkdir_ok:
  assumes "wf_os os" "sys_mkdir s os = (None, os')"
  shows "wf_os os'" "os_node os' = (os_node os)(resolve s \<mapsto> N_dir)" "os_node os (resolve s) = None"
    "resolve s \<noteq> []"
proof -
  have os': "os' = os_put (resolve s) N_dir os" and none: "os_node os (resolve s) = None"
    and dir: "os_node os (butlast (resolve s)) = Some N_dir"
    using assms(2) by (auto simp: sys_mkdir_def Let_def split: if_splits option.splits node.splits)
  show "os_node os (resolve s) = None" by (rule none)
  then show ne: "resolve s \<noteq> []" by auto
  show "wf_os os'" unfolding os' using assms(1) ne resolve_good dir none by (auto intro: wf_os_put)
  show "os_node os' = (os_node os)(resolve s \<mapsto> N_dir)"
    unfolding os' by (rule os_node_put [OF assms(1) ne])
qed

lemma sys_mkdir_err: "sys_mkdir s os = (Some e, os') \<Longrightarrow> os' = os"
  by (auto simp: sys_mkdir_def Let_def split: if_splits option.splits node.splits)

lemma sys_mkdir_exists: "sys_mkdir s os = (Some EEXIST, os') \<Longrightarrow> os_node os (resolve s) \<noteq> None"
  by (auto simp: sys_mkdir_def Let_def split: if_splits option.splits node.splits)

lemma sys_rmdir_ok:
  assumes "wf_os os" "sys_rmdir s os = (None, os')"
  shows "wf_os os'" "os_node os' = (os_node os)(resolve s := None)" "os_node os (resolve s) = Some N_dir"
    "children os (resolve s) = []" "resolve s \<noteq> []"
proof -
  have os': "os' = os_del (resolve s) os" and ne: "resolve s \<noteq> []"
    and ch: "children os (resolve s) = []" and dir: "os_node os (resolve s) = Some N_dir"
    using assms(2) by (auto simp: sys_rmdir_def Let_def split: if_splits)
  show "wf_os os'" unfolding os' by (rule wf_os_del [OF assms(1) ne ch])
  show "os_node os' = (os_node os)(resolve s := None)"
    unfolding os' by (rule os_node_del [OF assms(1) ne])
qed (use assms(2) in \<open>auto simp: sys_rmdir_def Let_def split: if_splits\<close>)

lemma sys_rmdir_err: "sys_rmdir s os = (Some e, os') \<Longrightarrow> os' = os"
  by (auto simp: sys_rmdir_def Let_def split: if_splits)

lemma sys_unlink_ok:
  assumes "wf_os os" "sys_unlink s os = (None, os')"
  shows "wf_os os'" "os_node os' = (os_node os)(resolve s := None)"
    "os_node os (resolve s) \<noteq> None" "os_node os (resolve s) \<noteq> Some N_dir"
proof -
  have os': "os' = os_del (resolve s) os" and nd: "os_node os (resolve s) \<noteq> Some N_dir"
    and some: "os_node os (resolve s) \<noteq> None"
    using assms(2) by (auto simp: sys_unlink_def Let_def split: if_splits)
  from nd have ne: "resolve s \<noteq> []" by auto
  show "wf_os os'"
    unfolding os' by (rule wf_os_del [OF assms(1) ne file_no_children [OF assms(1) nd]])
  show "os_node os' = (os_node os)(resolve s := None)"
    unfolding os' by (rule os_node_del [OF assms(1) ne])
  show "os_node os (resolve s) \<noteq> None" "os_node os (resolve s) \<noteq> Some N_dir"
    by (rule some, rule nd)
qed

lemma sys_unlink_err: "sys_unlink s os = (Some e, os') \<Longrightarrow> os' = os"
  by (auto simp: sys_unlink_def Let_def split: if_splits)

lemma sys_rename_ok:
  assumes "wf_os os" "sys_rename from to os = (None, os')" "resolve from \<noteq> resolve to"
  shows "wf_os os'"
    "os_node os' = (os_node os)(resolve from := None, resolve to := os_node os (resolve from))"
    "os_node os (resolve from) \<noteq> None" "os_node os (resolve from) \<noteq> Some N_dir"
    "os_node os (resolve to) \<noteq> Some N_dir" "os_node os (butlast (resolve to)) = Some N_dir"
proof -
  let ?p = "resolve from" and ?q = "resolve to"
  obtain n where n: "os_node os ?p = Some n" "n \<noteq> N_dir"
    and os': "os' = os_put ?q n (os_del ?p os)"
    and q: "os_node os ?q \<noteq> Some N_dir" "os_node os (butlast ?q) = Some N_dir"
    using assms(2,3) by (auto simp: sys_rename_def Let_def split: if_splits option.splits node.splits)
  have p: "?p \<noteq> []" and q0: "?q \<noteq> []" using n q by auto
  have nd: "os_node os ?p \<noteq> Some N_dir" using n by simp
  have wf1: "wf_os (os_del ?p os)"
    by (rule wf_os_del [OF assms(1) p file_no_children [OF assms(1) nd]])
  have "butlast ?q \<noteq> ?p" using n q by auto
  then have "os_node (os_del ?p os) (butlast ?q) = Some N_dir" "os_node (os_del ?p os) ?q \<noteq> Some N_dir"
    using q by (auto simp: os_node_del [OF assms(1) p])
  then show "wf_os os'"
    unfolding os' using wf1 q0 resolve_good by (auto intro!: wf_os_put)
  show "os_node os' = (os_node os)(?p := None, ?q := os_node os ?p)"
    unfolding os' by (simp add: os_node_put [OF wf1 q0] os_node_del [OF assms(1) p] n)
  show "os_node os ?p \<noteq> None" "os_node os ?p \<noteq> Some N_dir" "os_node os ?q \<noteq> Some N_dir"
    "os_node os (butlast ?q) = Some N_dir"
    using n q by auto
qed

lemma sys_rename_err: "sys_rename from to os = (Some e, os') \<Longrightarrow> os' = os"
  by (auto simp: sys_rename_def Let_def split: if_splits option.splits node.splits)

lemma sys_create_ok:
  assumes "wf_os os" "sys_create s os = (None, os')"
  shows "wf_os os'" "os_node os' = (os_node os)(resolve s \<mapsto> N_file [] (now os))"
    "os_node os (resolve s) \<noteq> Some N_dir" "os_node os (butlast (resolve s)) = Some N_dir"
proof -
  have os': "os' = os_put (resolve s) (N_file [] (now os)) os"
    and nd: "os_node os (resolve s) \<noteq> Some N_dir"
    and par: "os_node os (butlast (resolve s)) = Some N_dir"
    using assms(2) by (auto simp: sys_create_def Let_def split: if_splits)
  from nd have ne: "resolve s \<noteq> []" by auto
  show "wf_os os'"
    unfolding os' using assms(1) ne resolve_good par nd by (auto intro: wf_os_put)
  show "os_node os' = (os_node os)(resolve s \<mapsto> N_file [] (now os))"
    unfolding os' by (rule os_node_put [OF assms(1) ne])
  show "os_node os (resolve s) \<noteq> Some N_dir" "os_node os (butlast (resolve s)) = Some N_dir"
    by (rule nd, rule par)
qed

lemma sys_create_err: "sys_create s os = (Some e, os') \<Longrightarrow> os' = os"
  by (auto simp: sys_create_def Let_def split: if_splits)

lemma put_file_wf:
  assumes "wf_os os" "os_node os p = Some (N_file bs t)"
  shows "wf_os (os_put p (N_file bs' t') os)"
    "os_node (os_put p (N_file bs' t') os) = (os_node os)(p \<mapsto> N_file bs' t')"
proof -
  have ne: "p \<noteq> []" using assms(2) by auto
  with wf_os_entry [OF assms] have "list_all good_name p" "os_node os (butlast p) = Some N_dir"
    by (auto simp: wf_entry_def)
  with assms ne show "wf_os (os_put p (N_file bs' t') os)" by (auto intro: wf_os_put)
  show "os_node (os_put p (N_file bs' t') os) = (os_node os)(p \<mapsto> N_file bs' t')"
    by (rule os_node_put [OF assms(1) ne])
qed

lemma sys_write_ok:
  assumes "wf_os os" "sys_write s bs os = (None, os')"
  shows "\<exists>old t. os_node os (resolve s) = Some (N_file old t) \<and> wf_os os' \<and>
           os_node os' = (os_node os)(resolve s \<mapsto> N_file (old @ bs) (now os))"
  using assms
  by (auto simp: sys_write_def put_file_wf split: option.splits node.splits if_splits)

lemma sys_write_err: "sys_write s bs os = (Some e, os') \<Longrightarrow> os' = os"
  by (auto simp: sys_write_def split: option.splits node.splits if_splits)

lemma sys_utimens_effect:
  assumes "wf_os os" "os_node os (resolve s) = Some (N_file bs t)" "s \<noteq> []"
  shows "wf_os (snd (sys_utimens s sec nsec os))"
    "os_node (snd (sys_utimens s sec nsec os)) =
       (os_node os)(resolve s \<mapsto>
          N_file bs (if 0 \<le> nsec \<and> nsec < 1000000000 then sec * 1000000000 + nsec else t))"
  using assms
  by (auto simp: sys_utimens_def sys_lstat_def put_file_wf fun_eq_iff)

text \<open>The limit, the clock and the other parts of the environment do not change.\<close>

definition same_env :: "os \<Rightarrow> os \<Rightarrow> bool" where
  "same_env os os' \<longleftrightarrow> file_limit os' = file_limit os \<and> cut_at os' = cut_at os \<and> rnd os' = rnd os \<and> now os' = now os"

lemma same_env_refl [simp]: "same_env os os"
  by (simp add: same_env_def)

lemma same_env_trans [trans]: "same_env a b \<Longrightarrow> same_env b c \<Longrightarrow> same_env a c"
  by (simp add: same_env_def)

lemma same_env_put [simp]: "same_env os (os_put p n os)" "same_env os (os_del p os)"
  by (simp_all add: same_env_def os_put_def os_del_def)

lemma same_env_put' [simp]: "same_env os (os_put q n (os_del p os))"
  by (simp add: same_env_def os_put_def os_del_def)

lemma same_env_calls [simp]:
  "same_env os (snd (sys_mkdir s os))" "same_env os (snd (sys_rmdir s os))"
  "same_env os (snd (sys_unlink s os))" "same_env os (snd (sys_rename s t os))"
  "same_env os (snd (sys_create s os))" "same_env os (snd (sys_write s bs os))"
  "same_env os (snd (sys_utimens s i j os))" "same_env os (snd (next_random os))"
  by (auto simp: sys_mkdir_def sys_rmdir_def sys_unlink_def sys_rename_def sys_create_def
      sys_write_def sys_utimens_def Let_def next_random_def split: option.splits node.splits)
     (simp add: same_env_def)

lemma next_random_node [simp]: "os_node (snd (next_random os)) = os_node os"
  by (simp add: next_random_def os_node_def fun_eq_iff)

lemma next_random_wf [simp]: "wf_os (snd (next_random os)) = wf_os os"
  by (simp add: wf_os_iff wf_entry_def) (simp add: next_random_def)

end
