(* ===== verification/Files.thy ===== *)
theory Files
  imports Connection Posix
begin

text \<open>
  \<open>common/files.hpp\<close> and \<open>common/files.cpp\<close>: validation of the names that come from the
  network, path helpers, content hashes, directory listings, and streaming a file over a
  connection.
\<close>

section \<open>Constants and file information\<close>

definition RESERVED_PREFIX :: string where "RESERVED_PREFIX = ''.sisop''"
definition MAX_NAME_LENGTH :: nat where "MAX_NAME_LENGTH = 255"
definition MAX_PATH_LENGTH :: nat where "MAX_PATH_LENGTH = 1024"
definition MAX_PATH_DEPTH :: nat where "MAX_PATH_DEPTH = 32"
definition MAX_USERNAME_LENGTH :: nat where "MAX_USERNAME_LENGTH = 32"

record file_info =
  fi_name :: string
  fi_size :: u64
  fi_mtime :: i64
  fi_hash :: u64

definition new_file_info :: file_info where
  "new_file_info = \<lparr>fi_name = [], fi_size = 0, fi_mtime = 0, fi_hash = 0\<rparr>"

abbreviation slash :: char where "slash \<equiv> CHR ''/''"

section \<open>Validation\<close>

text \<open>No \<open>/\<close> and no control characters (\<open>unsigned char\<close> comparisons).\<close>

definition name_char :: "char \<Rightarrow> bool" where
  "name_char c \<longleftrightarrow> \<not> (c = slash \<or> (of_char c :: nat) < 0x20 \<or> (of_char c :: nat) = 0x7F)"

definition is_valid_file_name :: "string \<Rightarrow> bool" where
  "is_valid_file_name name \<longleftrightarrow>
     (if name = [] \<or> length name > MAX_NAME_LENGTH \<or> name = ''.'' \<or> name = ''..'' then False
      else if take (length RESERVED_PREFIX) name = RESERVED_PREFIX then False
      else list_all name_char name)"

text \<open>The loop of \<open>is_valid_path\<close>: \<open>depth\<close> and \<open>start\<close> are its variables.\<close>

function path_loop :: "string \<Rightarrow> nat \<Rightarrow> nat \<Rightarrow> bool" where
  "path_loop path depth start =
     (let sl = find_char slash path start;
          component = (case sl of None \<Rightarrow> drop start path | Some i \<Rightarrow> substr path start (i - start))
      in if \<not> is_valid_file_name component \<or> depth + 1 > MAX_PATH_DEPTH then False
         else case sl of None \<Rightarrow> True | Some i \<Rightarrow> path_loop path (depth + 1) (i + 1))"
  by pat_completeness auto
termination
  by (relation "measure (\<lambda>(path, depth, start). length path - start)")
     (auto dest!: find_char_bounds [OF sym])

declare path_loop.simps [simp del]

definition is_valid_path :: "string \<Rightarrow> bool" where
  "is_valid_path path \<longleftrightarrow>
     (if path = [] \<or> length path > MAX_PATH_LENGTH then False else path_loop path 0 0)"

definition username_char :: "char \<Rightarrow> bool" where
  "username_char c \<longleftrightarrow>
     (CHR ''a'' \<le> c \<and> c \<le> CHR ''z'') \<or> (CHR ''A'' \<le> c \<and> c \<le> CHR ''Z'') \<or>
     (CHR ''0'' \<le> c \<and> c \<le> CHR ''9'') \<or> c = CHR ''_'' \<or> c = CHR ''-''"

definition is_valid_username :: "string \<Rightarrow> bool" where
  "is_valid_username name \<longleftrightarrow>
     (if name = [] \<or> length name > MAX_USERNAME_LENGTH then False
      else list_all username_char name)"

text \<open>The loop against its specification: the components of the path, all valid.\<close>

lemma path_loop_unfold:
  "path_loop path depth start \<longleftrightarrow>
     (case find_char slash path start of
        None \<Rightarrow> is_valid_file_name (drop start path) \<and> depth + 1 \<le> MAX_PATH_DEPTH
      | Some i \<Rightarrow> is_valid_file_name (substr path start (i - start)) \<and> depth + 1 \<le> MAX_PATH_DEPTH \<and>
                  path_loop path (depth + 1) (i + 1))"
  by (subst path_loop.simps) (auto simp: Let_def split: option.splits)

lemma path_loop_split:
  "path_loop path depth start \<longleftrightarrow>
     list_all is_valid_file_name (split_on slash (drop start path)) \<and>
     depth + length (split_on slash (drop start path)) \<le> MAX_PATH_DEPTH"
proof (induction "length path - start" arbitrary: depth start rule: less_induct)
  case less
  note split = split_on_find [of slash start path]
  show ?case
  proof (cases "find_char slash path start")
    case None
    then show ?thesis unfolding path_loop_unfold [of path depth start] split by simp
  next
    case (Some i)
    have len: "0 < length (split_on slash (drop (Suc i) path))" by simp
    have "length path - Suc i < length path - start"
      using find_char_bounds [OF Some] by linarith
    from less [OF this, of "depth + 1"] len show ?thesis
      unfolding path_loop_unfold [of path depth start] split Some option.case by auto
  qed
qed

definition valid_components :: "string \<Rightarrow> bool" where
  "valid_components path \<longleftrightarrow>
     0 < length path \<and> length path \<le> MAX_PATH_LENGTH \<and>
     list_all is_valid_file_name (split_on slash path) \<and>
     length (split_on slash path) \<le> MAX_PATH_DEPTH"

lemma is_valid_path_iff: "is_valid_path path \<longleftrightarrow> valid_components path"
  by (auto simp: is_valid_path_def path_loop_split valid_components_def)

lemma name_char_slash [simp]: "\<not> name_char slash"
  by (simp add: name_char_def)

lemma valid_name_good: "is_valid_file_name c \<Longrightarrow> good_name c"
  by (auto simp: is_valid_file_name_def good_name_def list_all_iff split: if_splits)

lemma valid_path_good: "is_valid_path path \<Longrightarrow> list_all good_name (split_on slash path)"
  by (auto simp: is_valid_path_iff valid_components_def list_all_iff valid_name_good)

lemma valid_path_length: "is_valid_path path \<Longrightarrow> length path \<le> 1024 \<and> path \<noteq> []"
  by (auto simp: is_valid_path_iff valid_components_def MAX_PATH_LENGTH_def)

lemma valid_name_chars: "is_valid_file_name c \<Longrightarrow> x \<in> set c \<Longrightarrow> name_char x"
  by (auto simp: is_valid_file_name_def list_all_iff split: if_splits)

lemma set_join_with: "set (join_with c ps) \<subseteq> insert c (\<Union>(set ` set ps))"
  by (induction c ps rule: join_with.induct) auto

lemma valid_path_chars:
  assumes "is_valid_path path" "x \<in> set path"
  shows "x = slash \<or> name_char x"
proof -
  have "x = slash \<or> (\<exists>c \<in> set (split_on slash path). x \<in> set c)"
    using assms(2) set_join_with [of slash "split_on slash path"] by auto
  then show ?thesis
    using assms(1) valid_name_chars by (auto simp: is_valid_path_iff valid_components_def list_all_iff)
qed

lemma username_char_not [simp]: "\<not> username_char slash" "\<not> username_char (CHR ''.'')"
  by (simp_all add: username_char_def less_eq_char_def)

lemma valid_username_good: "is_valid_username u \<Longrightarrow> good_name u"
  by (auto simp: is_valid_username_def good_name_def list_all_iff split: if_splits)

section \<open>Paths\<close>

definition join_path :: "string \<Rightarrow> string \<Rightarrow> string" where
  "join_path dir name =
     (if dir = [] \<or> last dir = slash then dir @ name else dir @ slash # name)"

definition parent_path :: "string \<Rightarrow> string" where
  "parent_path path = (case rfind_char slash path of None \<Rightarrow> [] | Some i \<Rightarrow> substr path 0 i)"

definition base_name :: "string \<Rightarrow> string" where
  "base_name path = (case rfind_char slash path of None \<Rightarrow> path | Some i \<Rightarrow> drop (Suc i) path)"

lemma split_on_append_sep: "split_on c (p @ c # q) = split_on c p @ split_on c q"
proof (induction p)
  case (Cons x xs)
  then show ?case
    by (cases "split_on c xs") (auto split: list.splits)
qed simp

lemma resolve_snoc_slash: "resolve (d @ slash # q) = foldl resolve_step (resolve d) (split_on slash q)"
  by (simp add: resolve_def split_on_append_sep)

lemma resolve_empty [simp]: "resolve [] = []"
  by (simp add: resolve_def resolve_step_def)

lemma resolve_trailing: "resolve (d @ [slash]) = resolve d"
  by (simp add: resolve_snoc_slash resolve_step_def)

lemma resolve_join: "resolve (join_path d q) = foldl resolve_step (resolve d) (split_on slash q)"
proof (cases "d = [] \<or> last d \<noteq> slash")
  case True
  then show ?thesis
    by (auto simp: join_path_def resolve_snoc_slash) (simp_all add: resolve_def resolve_step_def)
next
  case False
  then obtain d' where d: "d = d' @ [slash]" by (metis append_butlast_last_id)
  then show ?thesis
    by (simp add: join_path_def resolve_snoc_slash) (simp add: resolve_step_def)
qed

text \<open>A validated path under a directory resolves to its own components below that directory.\<close>

lemma resolve_join_valid:
  "is_valid_path p \<Longrightarrow> resolve (join_path d p) = resolve d @ split_on slash p"
  by (simp add: resolve_join foldl_resolve_names valid_path_good)

lemma resolve_join_name: "good_name c \<Longrightarrow> resolve (join_path d c) = resolve d @ [c]"
  by (simp add: resolve_join good_name_def foldl_resolve_names resolve_step_def)

lemma join_path_not_Nil: "q \<noteq> [] \<Longrightarrow> join_path d q \<noteq> []"
  by (simp add: join_path_def)

lemma rfind_char_Some:
  assumes "rfind_char c s = Some i"
  shows "i < length s" "s = take i s @ c # drop (Suc i) s" "c \<notin> set (drop (Suc i) s)"
proof -
  let ?t = "takeWhile ((\<noteq>) c) (rev s)"
  have mem: "c \<in> set (rev s)" and i: "i = length s - Suc (length ?t)"
    using assms by (auto simp: rfind_char_def split: if_splits)
  have "length ?t < length s" using takeWhile_neq_length [of c "rev s"] mem by simp
  then show "i < length s" using i by simp
  have "rev s = ?t @ c # drop (Suc (length ?t)) (rev s)" by (rule takeWhile_neq_split [OF mem])
  then have "s = rev (drop (Suc (length ?t)) (rev s)) @ c # rev ?t"
    by (metis append.assoc append_Cons append_Nil rev.simps(2) rev_append rev_rev_ident)
  moreover have "rev (drop (Suc (length ?t)) (rev s)) = take i s"
    by (simp add: rev_drop i)
  ultimately have s: "s = take i s @ c # rev ?t" by simp
  then have "drop (Suc i) s = rev ?t"
    using \<open>i < length s\<close> by (metis append_Cons append_Nil append_assoc append_eq_conv_conj
        length_append_singleton length_take less_imp_le_nat min.absorb2)
  with s show "s = take i s @ c # drop (Suc i) s" "c \<notin> set (drop (Suc i) s)"
    by (auto dest: set_takeWhileD)
qed

lemma rfind_char_None: "rfind_char c s = None \<longleftrightarrow> c \<notin> set s"
  by (simp add: rfind_char_def)

lemma path_parts:
  "split_on slash (base_name p) = [base_name p]"
  "slash \<in> set p \<Longrightarrow> split_on slash p = split_on slash (parent_path p) @ [base_name p]"
  "slash \<notin> set p \<Longrightarrow> parent_path p = [] \<and> base_name p = p"
proof -
  show "split_on slash (base_name p) = [base_name p]"
    by (auto simp: base_name_def rfind_char_None dest!: rfind_char_Some(3) split: option.splits)
  show "split_on slash p = split_on slash (parent_path p) @ [base_name p]" if mem: "slash \<in> set p"
  proof -
    from mem obtain i where i: "rfind_char slash p = Some i"
      by (simp add: rfind_char_def)
    have "split_on slash (take i p @ slash # drop (Suc i) p) =
            split_on slash (take i p) @ [drop (Suc i) p]"
      using rfind_char_Some(3) [OF i] by (simp add: split_on_append_sep)
    then show ?thesis
      using rfind_char_Some(2) [OF i] by (simp add: parent_path_def base_name_def i substr_def)
  qed
qed (auto simp: parent_path_def base_name_def rfind_char_def)

lemma parent_path_shorter: "p \<noteq> [] \<Longrightarrow> length (parent_path p) < length p"
  by (auto simp: parent_path_def substr_def dest: rfind_char_Some(1) split: option.splits)

lemma last_split_base: "last (split_on slash p) = base_name p"
  using path_parts(2,3) [of p] by (cases "slash \<in> set p") auto

lemma butlast_split_parent: "slash \<in> set p \<Longrightarrow> butlast (split_on slash p) = split_on slash (parent_path p)"
  using path_parts(2) [of p] by simp

lemma valid_parent:
  assumes "is_valid_path p" "slash \<in> set p"
  shows "is_valid_path (parent_path p)"
proof -
  have "parent_path p \<noteq> []"
    using assms path_parts(2) [of p]
    by (auto simp: is_valid_path_iff valid_components_def is_valid_file_name_def)
  moreover have "p \<noteq> []" using assms by auto
  ultimately show ?thesis
    using assms parent_path_shorter [of p] path_parts(2) [of p]
    by (auto simp: is_valid_path_iff valid_components_def)
qed

section \<open>Directories\<close>

text \<open>The loop of \<open>make_dirs\<close> over the prefixes of the path.\<close>

function make_dirs_loop :: "string \<Rightarrow> nat \<Rightarrow> os \<Rightarrow> bool \<times> os" where
  "make_dirs_loop path start os =
     (if start > length path then (True, os)
      else
        let sl = (case find_char slash path start of None \<Rightarrow> length path | Some i \<Rightarrow> i);
            partial = substr path 0 sl
        in if partial = [] then make_dirs_loop path (sl + 1) os
           else case sys_mkdir partial os of
             (None, os) \<Rightarrow> make_dirs_loop path (sl + 1) os
           | (Some e, os) \<Rightarrow> if e \<noteq> EEXIST then (False, os) else make_dirs_loop path (sl + 1) os)"
  by pat_completeness auto
termination
  by (relation "measure (\<lambda>(path, start, os). Suc (length path) - start)")
     (auto dest!: find_char_bounds split: option.splits)

declare make_dirs_loop.simps [simp del]

definition make_dirs :: "string \<Rightarrow> os \<Rightarrow> bool \<times> os" where
  "make_dirs path os =
     (case make_dirs_loop path 0 os of
        (False, os) \<Rightarrow> (False, os)
      | (True, os) \<Rightarrow> (sys_is_dir path os, os))"

definition make_parent_dirs :: "string \<Rightarrow> string \<Rightarrow> os \<Rightarrow> bool \<times> os" where
  "make_parent_dirs root rel os =
     (let parent = parent_path rel in
      if parent = [] then (True, os) else make_dirs (join_path root parent) os)"

function remove_parents_loop :: "string \<Rightarrow> string \<Rightarrow> os \<Rightarrow> os" where
  "remove_parents_loop root dir os =
     (if dir = [] then os
      else case sys_rmdir (join_path root dir) os of
        (Some e, os) \<Rightarrow> os
      | (None, os) \<Rightarrow> remove_parents_loop root (parent_path dir) os)"
  by pat_completeness auto
termination
  by (relation "measure (\<lambda>(root, dir, os). length dir)") (auto simp: parent_path_shorter)

declare remove_parents_loop.simps [simp del]

definition remove_empty_parents :: "string \<Rightarrow> string \<Rightarrow> os \<Rightarrow> os" where
  "remove_empty_parents root rel os = remove_parents_loop root (parent_path rel) os"

definition remove_file :: "string \<Rightarrow> os \<Rightarrow> bool \<times> os" where
  "remove_file path os = (case sys_unlink path os of (e, os) \<Rightarrow> (e = None, os))"

definition replace_file :: "string \<Rightarrow> string \<Rightarrow> os \<Rightarrow> bool \<times> os" where
  "replace_file from to os = (case sys_rename from to os of (e, os) \<Rightarrow> (e = None, os))"

text \<open>C++ division truncates towards zero.\<close>

definition tdiv :: "int \<Rightarrow> int \<Rightarrow> int" where "tdiv a b = sgn a * (\<bar>a\<bar> div b)"
definition tmod :: "int \<Rightarrow> int \<Rightarrow> int" where "tmod a b = a - b * tdiv a b"

definition set_mtime :: "string \<Rightarrow> i64 \<Rightarrow> os \<Rightarrow> bool \<times> os" where
  "set_mtime path mtime_ns os =
     (case sys_utimens path (tdiv (sint mtime_ns) 1000000000) (tmod (sint mtime_ns) 1000000000) os of
        (e, os) \<Rightarrow> (e = None, os))"

definition mtime_of :: "int \<Rightarrow> i64" where
  "mtime_of t = of_int t"

definition make_temp_path :: "string \<Rightarrow> os \<Rightarrow> string \<times> os" where
  "make_temp_path dir os =
     (case next_random os of (r, os) \<Rightarrow>
        (join_path dir (RESERVED_PREFIX @ ''_tmp_'' @ hex_fixed 16 (unat r)), os))"

subsection \<open>What they change\<close>

text \<open>Only directories come or go; every file stays as it is.\<close>

definition adds_dirs :: "os \<Rightarrow> os \<Rightarrow> bool" where
  "adds_dirs os os' \<longleftrightarrow> wf_os os' \<and> same_env os os' \<and> rnd_pos os' = rnd_pos os \<and>
     (\<forall>p. os_node os' p = os_node os p \<or> os_node os p = None \<and> os_node os' p = Some N_dir)"

definition drops_dirs :: "os \<Rightarrow> os \<Rightarrow> bool" where
  "drops_dirs os os' \<longleftrightarrow> wf_os os' \<and> same_env os os' \<and>
     (\<forall>p. os_node os' p = os_node os p \<or> os_node os p = Some N_dir \<and> os_node os' p = None)"

definition file_at :: "os \<Rightarrow> fpath \<Rightarrow> (string \<times> int) option" where
  "file_at os p = (case os_node os p of Some (N_file bs t) \<Rightarrow> Some (bs, t) | _ \<Rightarrow> None)"

lemma file_at_Some: "file_at os p = Some (bs, t) \<longleftrightarrow> os_node os p = Some (N_file bs t)"
  by (auto simp: file_at_def split: option.splits node.splits)

lemma adds_dirs_refl: "wf_os os \<Longrightarrow> adds_dirs os os"
  by (simp add: adds_dirs_def)

lemma adds_dirs_trans:
  assumes "adds_dirs a b" "adds_dirs b c"
  shows "adds_dirs a c"
  unfolding adds_dirs_def
proof (intro conjI allI)
  fix p
  show "os_node c p = os_node a p \<or> os_node a p = None \<and> os_node c p = Some N_dir"
    using assms [unfolded adds_dirs_def] by metis
qed (use assms in \<open>auto simp: adds_dirs_def intro: same_env_trans\<close>)

lemma adds_dirs_files:
  assumes "adds_dirs os os'"
  shows "file_at os' = file_at os"
proof
  fix p
  have "os_node os' p = os_node os p \<or> os_node os p = None \<and> os_node os' p = Some N_dir"
    using assms by (auto simp: adds_dirs_def)
  then show "file_at os' p = file_at os p" by (auto simp: file_at_def)
qed

lemma drops_dirs_refl: "wf_os os \<Longrightarrow> drops_dirs os os"
  by (simp add: drops_dirs_def)

lemma drops_dirs_trans:
  assumes "drops_dirs a b" "drops_dirs b c"
  shows "drops_dirs a c"
  unfolding drops_dirs_def
proof (intro conjI allI)
  fix p
  show "os_node c p = os_node a p \<or> os_node a p = Some N_dir \<and> os_node c p = None"
    using assms [unfolded drops_dirs_def] by metis
qed (use assms in \<open>auto simp: drops_dirs_def intro: same_env_trans\<close>)

lemma drops_dirs_files:
  assumes "drops_dirs os os'"
  shows "file_at os' = file_at os"
proof
  fix p
  have "os_node os' p = os_node os p \<or> os_node os p = Some N_dir \<and> os_node os' p = None"
    using assms by (auto simp: drops_dirs_def)
  then show "file_at os' p = file_at os p" by (auto simp: file_at_def)
qed

lemma sys_mkdir_adds: "wf_os os \<Longrightarrow> adds_dirs os (snd (sys_mkdir s os))"
proof (cases "sys_mkdir s os")
  case (Pair e os')
  assume wf: "wf_os os"
  have pos: "rnd_pos (snd (sys_mkdir s os)) = rnd_pos os"
    by (auto simp: sys_mkdir_def Let_def os_put_def split: option.splits node.splits)
  show ?thesis
  proof (cases e)
    case None
    with Pair sys_mkdir_ok [OF wf] pos same_env_calls(1) [of os s] show ?thesis
      by (auto simp: adds_dirs_def)
  next
    case (Some a)
    with Pair have "os' = os" by (blast intro: sys_mkdir_err)
    with Pair wf show ?thesis by (simp add: adds_dirs_refl)
  qed
qed

lemma make_dirs_loop_adds: "wf_os os \<Longrightarrow> adds_dirs os (snd (make_dirs_loop path start os))"
proof (induction path start os rule: make_dirs_loop.induct)
  case (1 path start os)
  define sl where "sl = (case find_char slash path start of None \<Rightarrow> length path | Some i \<Rightarrow> i)"
  define partial where "partial = substr path 0 sl"
  note eq = make_dirs_loop.simps [of path start os, folded sl_def, unfolded Let_def, folded partial_def]
  obtain e os1 where mk: "sys_mkdir partial os = (e, os1)" by fastforce
  from sys_mkdir_adds [OF "1.prems", of partial] mk have a: "adds_dirs os os1" by simp
  then have wf1: "wf_os os1" by (simp add: adds_dirs_def)
  show ?case
  proof (cases "start > length path \<or> partial = []")
    case True
    with "1.IH"(1) [OF _ sl_def partial_def] "1.prems" show ?thesis
      by (auto simp: eq adds_dirs_refl)
  next
    case False
    with "1.IH"(2,3) [OF _ sl_def partial_def _ mk [symmetric]] wf1 a show ?thesis
      by (auto simp: eq mk split: option.splits intro: adds_dirs_trans)
  qed
qed

lemma make_dirs_adds: "wf_os os \<Longrightarrow> make_dirs path os = (ok, os') \<Longrightarrow> adds_dirs os os'"
  using make_dirs_loop_adds [of os path 0]
  by (auto simp: make_dirs_def split: prod.splits bool.splits)

lemma make_dirs_True: "make_dirs path os = (True, os') \<Longrightarrow> os_node os' (resolve path) = Some N_dir"
  by (auto simp: make_dirs_def sys_is_dir_def split: prod.splits bool.splits)

lemma make_parent_dirs_adds:
  "wf_os os \<Longrightarrow> make_parent_dirs root rel os = (ok, os') \<Longrightarrow> adds_dirs os os'"
  by (auto simp: make_parent_dirs_def Let_def adds_dirs_refl split: if_splits dest: make_dirs_adds)

lemma sys_rmdir_drops: "wf_os os \<Longrightarrow> drops_dirs os (snd (sys_rmdir s os))"
proof (cases "sys_rmdir s os")
  case (Pair e os')
  assume wf: "wf_os os"
  show ?thesis
  proof (cases e)
    case None
    with Pair sys_rmdir_ok [OF wf] same_env_calls(2) [of os s] show ?thesis
      by (auto simp: drops_dirs_def)
  next
    case (Some a)
    with Pair have "os' = os" by (blast intro: sys_rmdir_err)
    with Pair wf show ?thesis by (simp add: drops_dirs_refl)
  qed
qed

lemma remove_parents_drops: "wf_os os \<Longrightarrow> drops_dirs os (remove_parents_loop root dir os)"
proof (induction root dir os rule: remove_parents_loop.induct)
  case (1 root dir os)
  obtain e os1 where rm: "sys_rmdir (join_path root dir) os = (e, os1)" by fastforce
  from sys_rmdir_drops [OF "1.prems", of "join_path root dir"] rm have d: "drops_dirs os os1" by simp
  then have "wf_os os1" by (simp add: drops_dirs_def)
  with "1.IH" [OF _ rm [symmetric]] "1.prems" d rm show ?case
    by (subst remove_parents_loop.simps) (auto simp: drops_dirs_refl split: option.splits intro: drops_dirs_trans)
qed

lemma remove_empty_parents_drops: "wf_os os \<Longrightarrow> drops_dirs os (remove_empty_parents root rel os)"
  by (simp add: remove_empty_parents_def remove_parents_drops)

subsection \<open>When \<open>make_dirs\<close> succeeds\<close>

text \<open>The loop, over the components still to come; \<open>pre\<close> is what it has passed.\<close>

fun mk_components :: "string \<Rightarrow> string list \<Rightarrow> os \<Rightarrow> bool \<times> os" where
  "mk_components pre [] os = (True, os)"
| "mk_components pre (c # cs) os =
     (if pre @ c = [] then mk_components (pre @ c @ [slash]) cs os
      else case sys_mkdir (pre @ c) os of
        (None, os) \<Rightarrow> mk_components (pre @ c @ [slash]) cs os
      | (Some e, os) \<Rightarrow> if e \<noteq> EEXIST then (False, os) else mk_components (pre @ c @ [slash]) cs os)"

lemma make_dirs_loop_done: "length path < start \<Longrightarrow> make_dirs_loop path start os = (True, os)"
  by (subst make_dirs_loop.simps) simp

lemma make_dirs_loop_components:
  "start \<le> length path \<Longrightarrow>
     make_dirs_loop path start os = mk_components (take start path) (split_on slash (drop start path)) os"
proof (induction "length path - start" arbitrary: start os rule: less_induct)
  case less
  note split = split_on_find [of slash start path]
  show ?case
  proof (cases "find_char slash path start")
    case None
    have "take start path @ drop start path = path" by simp
    moreover have "\<not> length path < start" using less.prems by simp
    ultimately show ?thesis
      using None unfolding split
      by (subst make_dirs_loop.simps)
         (auto simp: Let_def substr_def make_dirs_loop_done split: option.splits prod.splits)
  next
    case (Some i)
    note bounds = find_char_bounds [OF Some]
    have pre: "take start path @ substr path start (i - start) = take i path"
      using bounds by (simp add: substr_def flip: take_add)
    have sl: "take i path @ [slash] = take (Suc i) path"
      using find_char_Some(3) [OF Some] bounds by (simp add: take_Suc_conv_app_nth)
    have "length path - Suc i < length path - start" "Suc i \<le> length path"
      using bounds by auto
    from less.hyps [OF this(1) this(2)]
    have rec: "make_dirs_loop path (Suc i) os =
      mk_components (take (Suc i) path) (split_on slash (drop (Suc i) path)) os" for os .
    show ?thesis
      unfolding split Some option.case mk_components.simps append_assoc [symmetric] pre sl
      using less.prems Some
      by (subst make_dirs_loop.simps) (auto simp: Let_def substr_def rec split: option.splits prod.splits)
  qed
qed

lemma resolve_component:
  assumes "pre = [] \<or> last pre = slash" "slash \<notin> set c"
  shows "resolve (pre @ c) = resolve_step (resolve pre) c" "resolve (pre @ c @ [slash]) = resolve_step (resolve pre) c"
proof -
  show *: "resolve (pre @ c) = resolve_step (resolve pre) c"
    using resolve_join [of pre c] assms by (auto simp: join_path_def)
  show "resolve (pre @ c @ [slash]) = resolve_step (resolve pre) c"
    using resolve_trailing [of "pre @ c"] * by simp
qed

text \<open>The directories that a path passes through.\<close>

definition dir_or_free :: "os \<Rightarrow> fpath \<Rightarrow> bool" where
  "dir_or_free os p \<longleftrightarrow> os_node os p = None \<or> os_node os p = Some N_dir"

lemma adds_dirs_free: "adds_dirs os os' \<Longrightarrow> dir_or_free os p \<Longrightarrow> dir_or_free os' p"
  unfolding adds_dirs_def dir_or_free_def by metis

lemma sys_mkdir_free:
  assumes wf: "wf_os os" and dir: "os_node os p = Some N_dir"
    and s: "s \<noteq> []" "resolve s = resolve_step p c" and free: "dir_or_free os (resolve s)"
  shows "\<exists>e os'. sys_mkdir s os = (e, os') \<and> (e = None \<or> e = Some EEXIST) \<and>
           os_node os' (resolve s) = Some N_dir"
proof (cases "os_node os (resolve s) = None")
  case True
  have "butlast p = p \<or> os_node os (butlast p) = Some N_dir"
    using wf_os_parent [OF wf dir] by (cases "p = []") auto
  then have "resolve s = p @ [c]"
    using True dir s(2) by (auto simp: resolve_step_def split: if_splits)
  with True dir s(1) have "sys_mkdir s os = (None, os_put (resolve s) N_dir os)"
    by (simp add: sys_mkdir_def)
  with \<open>resolve s = p @ [c]\<close> os_node_put [OF wf, of "resolve s"] show ?thesis by auto
next
  case False
  with free s(1) show ?thesis by (auto simp: sys_mkdir_def dir_or_free_def)
qed

lemma mk_components_ok:
  assumes "wf_os os" "pre = [] \<or> last pre = slash" "\<forall>c \<in> set cs. slash \<notin> set c"
    and "os_node os (resolve pre) = Some N_dir"
    and "\<forall>k \<le> length cs. dir_or_free os (foldl resolve_step (resolve pre) (take k cs))"
  shows "\<exists>os'. mk_components pre cs os = (True, os') \<and> adds_dirs os os' \<and>
           os_node os' (foldl resolve_step (resolve pre) cs) = Some N_dir"
  using assms
proof (induction cs arbitrary: pre os)
  case Nil
  then show ?case by (simp add: adds_dirs_refl)
next
  case (Cons c cs)
  let ?q = "resolve_step (resolve pre) c"
  have q: "resolve (pre @ c) = ?q" "resolve (pre @ c @ [slash]) = ?q"
    using resolve_component [of pre c] Cons.prems by auto
  have free: "\<forall>k \<le> length cs. dir_or_free os (foldl resolve_step ?q (take k cs))"
    using Cons.prems(5) by (metis Suc_le_mono foldl_Cons length_Cons take_Suc_Cons)
  then have "dir_or_free os ?q" by (metis foldl_Nil le0 take0)
  have step: "\<exists>os'. mk_components (pre @ c @ [slash]) cs os1 = (True, os') \<and> adds_dirs os1 os' \<and>
      os_node os' (foldl resolve_step ?q cs) = Some N_dir"
    if "adds_dirs os os1" "os_node os1 ?q = Some N_dir" for os1
    using Cons.IH [of os1 "pre @ c @ [slash]"] that Cons.prems free adds_dirs_free [OF that(1)] q
    by (auto simp: adds_dirs_def)
  show ?case
  proof (cases "pre @ c = []")
    case True
    with q have "?q = []" by simp
    with step [of os] True Cons.prems show ?thesis by (simp add: adds_dirs_refl)
  next
    case False
    with sys_mkdir_free [OF Cons.prems(1,4), of "pre @ c" c] q \<open>dir_or_free os ?q\<close>
    obtain e os1 where mk: "sys_mkdir (pre @ c) os = (e, os1)" "e = None \<or> e = Some EEXIST"
      "os_node os1 ?q = Some N_dir" by auto
    with sys_mkdir_adds [OF Cons.prems(1), of "pre @ c"] have adds: "adds_dirs os os1" by simp
    from step [OF adds mk(3)] adds mk False show ?thesis
      by (auto intro: adds_dirs_trans)
  qed
qed

lemma make_dirs_ok:
  assumes "wf_os os" "path \<noteq> []"
    and "\<forall>k. dir_or_free os (foldl resolve_step [] (take k (split_on slash path)))"
  shows "\<exists>os'. make_dirs path os = (True, os') \<and> adds_dirs os os'"
proof -
  have "\<exists>os'. mk_components [] (split_on slash path) os = (True, os') \<and> adds_dirs os os' \<and>
      os_node os' (foldl resolve_step (resolve []) (split_on slash path)) = Some N_dir"
    using assms by (intro mk_components_ok) (auto dest: split_on_parts)
  with assms(2) show ?thesis
    using make_dirs_loop_components [of 0 path os]
    by (auto simp: make_dirs_def sys_is_dir_def resolve_def resolve_step_def)
qed

text \<open>Under a root that exists, only a file in the way makes it fail.\<close>

lemma foldl_resolve_prefixes:
  assumes "wf_os os" "os_node os (foldl resolve_step p cs) = Some N_dir" "list_all (\<lambda>c. c \<noteq> ''..'') cs"
  shows "os_node os (foldl resolve_step p (take k cs)) = Some N_dir"
  using assms(2,3)
proof (induction cs arbitrary: p k rule: rev_induct)
  case (snoc c cs)
  show ?case
  proof (cases "k \<le> length cs")
    case True
    let ?r = "foldl resolve_step p cs"
    have "os_node os ?r = Some N_dir"
    proof (cases "c = [] \<or> c = ''.''")
      case False
      with snoc.prems have "os_node os (?r @ [c]) = Some N_dir"
        by (simp add: resolve_step_def [of ?r c])
      from wf_os_parent [OF assms(1) this] show ?thesis by simp
    qed (use snoc.prems in \<open>auto simp: resolve_step_def [of ?r c]\<close>)
    with snoc True show ?thesis by simp
  qed (use snoc in simp)
qed simp

text \<open>The components of a directory, without the empty one after a final slash.\<close>

definition dir_components :: "string \<Rightarrow> string list" where
  "dir_components d =
     (if d = [] then [] else if last d = slash then butlast (split_on slash d) else split_on slash d)"

definition clean_dir :: "string \<Rightarrow> bool" where
  "clean_dir d \<longleftrightarrow> list_all (\<lambda>c. c \<noteq> ''..'') (split_on slash d)"

lemma join_components:
  "split_on slash (join_path d p) = dir_components d @ split_on slash p"
  "foldl resolve_step [] (dir_components d) = resolve d"
  "clean_dir d \<Longrightarrow> list_all (\<lambda>c. c \<noteq> ''..'' \<and> slash \<notin> set c) (dir_components d)"
proof -
  have "split_on slash (join_path d p) = dir_components d @ split_on slash p \<and>
    foldl resolve_step [] (dir_components d) = resolve d"
  proof (cases "d = [] \<or> last d \<noteq> slash")
    case False
    then obtain r where "d = r @ [slash]" by (metis append_butlast_last_id)
    then show ?thesis
      by (simp add: join_path_def dir_components_def split_on_append_sep resolve_def resolve_step_def)
  qed (auto simp: join_path_def dir_components_def split_on_append_sep resolve_def resolve_step_def)
  then show "split_on slash (join_path d p) = dir_components d @ split_on slash p"
    "foldl resolve_step [] (dir_components d) = resolve d" by auto
  show "clean_dir d \<Longrightarrow> list_all (\<lambda>c. c \<noteq> ''..'' \<and> slash \<notin> set c) (dir_components d)"
    by (auto simp: dir_components_def clean_dir_def list_all_iff dest: in_set_butlastD split_on_parts)
qed

lemma make_parent_dirs_ok:
  assumes "wf_os os" "is_valid_path rel" "os_node os (resolve root) = Some N_dir"
    and clean: "clean_dir root"
    and free: "\<forall>k < length (split_on slash rel). dir_or_free os (resolve root @ take k (split_on slash rel))"
  shows "\<exists>os'. make_parent_dirs root rel os = (True, os') \<and> adds_dirs os os' \<and>
    os_node os' (resolve root @ butlast (split_on slash rel)) = Some N_dir"
proof (cases "slash \<in> set rel")
  case False
  with assms path_parts(3) [of rel] show ?thesis
    by (auto simp: make_parent_dirs_def adds_dirs_refl)
next
  case True
  let ?par = "parent_path rel" and ?path = "join_path root (parent_path rel)"
  note val = valid_parent [OF assms(2) True]
  have par: "?par \<noteq> []" using valid_path_length [OF val] by simp
  have butl: "butlast (split_on slash rel) = split_on slash ?par"
    using butlast_split_parent [OF True] .
  have res: "resolve ?path = resolve root @ split_on slash ?par"
    by (rule resolve_join_valid [OF val])
  have "dir_or_free os (foldl resolve_step [] (take k (split_on slash ?path)))" for k
  proof -
    let ?cs = "dir_components root"
    note cs = join_components(1) [of root ?par] and rcs = join_components(2) [of root]
    show ?thesis
    proof (cases "k \<le> length ?cs")
      case True
      have "list_all (\<lambda>c. c \<noteq> ''..'') ?cs" using join_components(3) [OF clean] by (simp add: list_all_iff)
      from foldl_resolve_prefixes [OF assms(1) _ this] assms(3) rcs True show ?thesis
        by (simp add: cs dir_or_free_def)
    next
      case False
      let ?j = "k - length ?cs"
      have good: "list_all good_name (take ?j (split_on slash ?par))"
        using valid_path_good [OF val] by (auto simp: list_all_iff dest: in_set_takeD)
      have "foldl resolve_step [] (take k (split_on slash ?path)) =
          resolve root @ take ?j (split_on slash ?par)"
        using False rcs foldl_resolve_names [OF good] by (simp add: cs)
      moreover have "dir_or_free os (resolve root @ take ?j (split_on slash ?par))"
      proof -
        have "take ?j (split_on slash ?par) = take (min ?j (length (split_on slash ?par))) (split_on slash rel)"
          using path_parts(2) [OF True] by (auto simp: min_def)
        moreover have "min ?j (length (split_on slash ?par)) < length (split_on slash rel)"
          using path_parts(2) [OF True] by simp
        ultimately show ?thesis using free by simp
      qed
      ultimately show ?thesis by simp
    qed
  qed
  then obtain os' where "make_dirs ?path os = (True, os')" "adds_dirs os os'"
    using make_dirs_ok [OF assms(1) join_path_not_Nil [OF par]] by blast
  with par res butl make_dirs_True [of ?path os os'] show ?thesis
    by (auto simp: make_parent_dirs_def Let_def)
qed

subsection \<open>Temporary files\<close>

text \<open>
  The name of a temporary file starts with the reserved prefix, so it is neither a valid
  file name nor a valid user name: it is never listed and never clashes with a user's file.
\<close>

definition temp_name :: "u64 \<Rightarrow> string" where
  "temp_name r = RESERVED_PREFIX @ ''_tmp_'' @ hex_fixed 16 (unat r)"

lemma make_temp_path_eq:
  "make_temp_path dir os = (join_path dir (temp_name (fst (next_random os))), snd (next_random os))"
  by (simp add: make_temp_path_def temp_name_def split_beta)

lemma hex_digit_slash: "hex_digit c \<noteq> None \<Longrightarrow> c \<noteq> slash"
  by (auto simp: hex_digit_def is_digit_def less_eq_char_def)

lemma temp_name_good [simp]: "good_name (temp_name r)"
proof -
  have "slash \<notin> set (hex_fixed 16 (unat r))"
    using hex_fixed_digits hex_digit_slash by blast
  then show ?thesis by (simp add: good_name_def temp_name_def RESERVED_PREFIX_def)
qed

lemma temp_name_reserved [simp]: "\<not> is_valid_file_name (temp_name r)" "\<not> is_valid_username (temp_name r)"
  by (simp_all add: is_valid_file_name_def is_valid_username_def temp_name_def RESERVED_PREFIX_def)

lemma same_env_random [simp]: "same_env os (snd (next_random os))"
  by simp

text \<open>A file that was written under a temporary name replaces its target.\<close>

lemma replace_file_ok:
  assumes "wf_os os" "replace_file from to os = (True, os')" "resolve from \<noteq> resolve to"
  shows "wf_os os'" "os_node os' = (os_node os)(resolve from := None, resolve to := os_node os (resolve from))"
    "os_node os (resolve to) \<noteq> Some N_dir" "same_env os os'"
proof -
  have r: "sys_rename from to os = (None, os')"
    using assms(2) by (auto simp: replace_file_def split: prod.splits)
  from sys_rename_ok [OF assms(1) r assms(3)] same_env_calls(4) [of os "from" to] r
  show "wf_os os'" "os_node os' = (os_node os)(resolve from := None, resolve to := os_node os (resolve from))"
    "os_node os (resolve to) \<noteq> Some N_dir" "same_env os os'" by auto
qed

lemma replace_file_err: "replace_file from to os = (False, os') \<Longrightarrow> os' = os"
  by (auto simp: replace_file_def split: prod.splits dest: sys_rename_err)

lemma replace_file_succeeds:
  assumes "to \<noteq> []" "os_node os (resolve from) = Some (N_file bs t)"
    and "os_node os (butlast (resolve to)) = Some N_dir" "os_node os (resolve to) \<noteq> Some N_dir"
  shows "\<exists>os'. replace_file from to os = (True, os')"
  using assms by (auto simp: replace_file_def sys_rename_def Let_def)

section \<open>Properties\<close>

text \<open>
  C27. The scanning loop of \<open>is_valid_path\<close> decides its specification: between 1 and 1024
  bytes, at most 32 components between slashes, and every one of them a valid file name
  (so no empty component, no \<open>.\<close> or \<open>..\<close>, no reserved prefix, no control character).
\<close>

theorem is_valid_path_spec: "is_valid_path path = valid_components path"
  by (rule is_valid_path_iff)

text \<open>
  C26. Containment: a validated path joined to any directory names the entry reached from that
  directory by exactly the components of the path, strictly below it, and two different
  validated paths never name the same entry.
\<close>

theorem valid_path_contained:
  assumes "is_valid_path p" "is_valid_path q"
  shows "resolve (join_path root p) = resolve root @ split_on slash p \<and> split_on slash p \<noteq> [] \<and>
    (resolve (join_path root p) = resolve (join_path root q)) = (p = q)"
  using resolve_join_valid [OF assms(1), of root] resolve_join_valid [OF assms(2), of root]
  by (auto dest: split_on_inj)

theorem valid_path_contained_witness:
  "resolve (join_path ''srv/data'' ''a/b'') = resolve ''srv/data'' @ split_on slash ''a/b'' \<and>
   split_on slash ''a/b'' \<noteq> [] \<and>
   (resolve (join_path ''srv/data'' ''a/b'') = resolve (join_path ''srv/data'' ''a'')) = (''a/b'' = ''a'')"
  by (rule valid_path_contained; code_simp)

text \<open>
  Creating the parent directories of a validated path below an existing root (that is
  named without \<open>..\<close>) succeeds unless a file is in the way: the parent is a directory
  afterwards and no existing entry has changed.
\<close>

theorem make_parent_dirs_succeeds:
  assumes "wf_os os" "is_valid_path rel" "os_node os (resolve root) = Some N_dir"
    and "list_all (\<lambda>c. c \<noteq> ''..'') (split_on slash root)"
    and "list_all (\<lambda>k. dir_or_free os (resolve root @ take k (split_on slash rel))) [0..<length (split_on slash rel)]"
  shows "\<exists>os'. make_parent_dirs root rel os = (True, os') \<and>
    os_node os' (resolve root @ butlast (split_on slash rel)) = Some N_dir \<and>
    file_at os' = file_at os"
proof -
  have "\<forall>k < length (split_on slash rel). dir_or_free os (resolve root @ take k (split_on slash rel))"
    using assms(5) by (auto simp: list_all_iff)
  from make_parent_dirs_ok [OF assms(1-3) assms(4) [folded clean_dir_def] this] show ?thesis by (blast dest: adds_dirs_files)
qed

theorem make_parent_dirs_succeeds_witness:
  "\<exists>os'. make_parent_dirs ''d'' ''a/b'' \<lparr>tree = [([''d''], N_dir)], file_limit = None, cut_at = None, now = 0, rnd = \<lambda>_. 0, rnd_pos = 0\<rparr> = (True, os') \<and>
    os_node os' (resolve ''d'' @ butlast (split_on slash ''a/b'')) = Some N_dir \<and>
    file_at os' = file_at \<lparr>tree = [([''d''], N_dir)], file_limit = None, cut_at = None, now = 0, rnd = \<lambda>_. 0, rnd_pos = 0\<rparr>"
  by (rule make_parent_dirs_succeeds; code_simp)

end
