(* ===== verification/FileTransfer.thy ===== *)
theory FileTransfer
  imports Files
begin

text \<open>
  The rest of \<open>common/files.cpp\<close>: content hashes, the wire format of file headers, and
  \<open>send_file\<close> and \<open>recv_file_body\<close>, which stream a file as a header, chunks and an end
  mark. The transfer ends with the same contents at the other side, or with nothing there.
\<close>

section \<open>Content hashes\<close>

text \<open>The class \<open>Fnv1a\<close>: its state is the hash so far.\<close>

definition fnv_init :: u64 where "fnv_init = 1469598103934665603"

definition fnv_byte :: "u64 \<Rightarrow> char \<Rightarrow> u64" where
  "fnv_byte h c = (h XOR ucast (byte_of c)) * 1099511628211"

definition fnv_update :: "u64 \<Rightarrow> string \<Rightarrow> u64" where
  "fnv_update h data = foldl fnv_byte h data"

definition fnv_hash :: "string \<Rightarrow> u64" where
  "fnv_hash data = fnv_update fnv_init data"

lemma fnv_update_append: "fnv_update h (a @ b) = fnv_update (fnv_update h a) b"
  by (simp add: fnv_update_def)

lemma fnv_update_Nil [simp]: "fnv_update h [] = h"
  by (simp add: fnv_update_def)

text \<open>
  \<open>hash_fd\<close>: the file is read in chunks; \<open>content\<close> is what the descriptor still delivers, and
  a short read makes it fail.
\<close>

function hash_fd_loop :: "string \<Rightarrow> nat \<Rightarrow> u64 \<Rightarrow> u64 option" where
  "hash_fd_loop content remaining h =
     (if remaining = 0 then Some h
      else let chunk = min remaining FILE_CHUNK_SIZE in
        if length content < chunk then None
        else hash_fd_loop (drop chunk content) (remaining - chunk) (fnv_update h (take chunk content)))"
  by pat_completeness auto
termination
  by (relation "measure (\<lambda>(c, r, h). r)") (auto simp: FILE_CHUNK_SIZE_def)

declare hash_fd_loop.simps [simp del]

definition hash_fd :: "string \<Rightarrow> u64 \<Rightarrow> u64 option" where
  "hash_fd content n = hash_fd_loop content (unat n) fnv_init"

lemma hash_fd_loop_eq:
  "hash_fd_loop content remaining h =
     (if length content < remaining then None else Some (fnv_update h (take remaining content)))"
proof (induction content remaining h rule: hash_fd_loop.induct)
  case (1 content remaining h)
  define n where "n = min remaining FILE_CHUNK_SIZE"
  note eq = hash_fd_loop.simps [of content remaining h, unfolded Let_def, folded n_def]
  consider "remaining = 0" | "remaining \<noteq> 0" "length content < n"
    | "remaining \<noteq> 0" "n \<le> length content" by linarith
  then show ?case
  proof cases
    case 3
    have "n \<le> remaining" by (simp add: n_def)
    then have "take remaining content = take n content @ take (remaining - n) (drop n content)"
      by (metis le_add_diff_inverse take_add)
    with 3 "1.IH" [OF 3(1) n_def] \<open>n \<le> remaining\<close> show ?thesis
      unfolding eq by (auto simp: fnv_update_append less_diff_conv2)
  next
    case 1
    then show ?thesis unfolding eq by simp
  next
    case 2
    then show ?thesis unfolding eq by (simp add: n_def)
  qed
qed

text \<open>What another process leaves of the file while it is being read.\<close>

definition readable :: "os \<Rightarrow> string \<Rightarrow> string" where
  "readable os bs = (case cut_at os of None \<Rightarrow> bs | Some n \<Rightarrow> take n bs)"

definition stat_file :: "string \<Rightarrow> file_info \<Rightarrow> bool \<Rightarrow> os \<Rightarrow> file_info option" where
  "stat_file path info with_hash os =
     (case sys_open_reg path os of
        None \<Rightarrow> None
      | Some (bs, t) \<Rightarrow>
          let info = info\<lparr>fi_size := of_nat (length bs), fi_mtime := mtime_of t, fi_hash := 0\<rparr>
          in if with_hash
             then map_option (\<lambda>h. info\<lparr>fi_hash := h\<rparr>) (hash_fd (readable os bs) (fi_size info))
             else Some info)"

definition hash_file :: "string \<Rightarrow> os \<Rightarrow> u64 option" where
  "hash_file path os = map_option fi_hash (stat_file path new_file_info True os)"

text \<open>Files shorter than \<open>2^64\<close> bytes: on them the announced size is the length.\<close>

abbreviation small :: "string \<Rightarrow> bool" where
  "small bs \<equiv> length bs < 2 ^ 64"

lemma unat_length_u64: "small bs \<Longrightarrow> unat (of_nat (length bs) :: u64) = length bs"
  by (simp add: unat_of_nat)

lemma hash_fd_whole: "small bs \<Longrightarrow> hash_fd bs (of_nat (length bs)) = Some (fnv_hash bs)"
  by (simp add: hash_fd_def hash_fd_loop_eq fnv_hash_def unat_length_u64)

lemma sys_open_reg_Some: "sys_open_reg path os = Some (bs, t) \<longleftrightarrow> path \<noteq> [] \<and> file_at os (resolve path) = Some (bs, t)"
  by (auto simp: sys_open_reg_def sys_lstat_def file_at_Some split: option.splits node.splits)

lemma sys_open_reg_None: "sys_open_reg path os = None \<longleftrightarrow> path = [] \<or> file_at os (resolve path) = None"
  using sys_open_reg_Some [of path os] by (cases "sys_open_reg path os") fastforce+

lemma hash_file_ok:
  "path \<noteq> [] \<Longrightarrow> file_at os (resolve path) = Some (bs, t) \<Longrightarrow> small bs \<Longrightarrow> cut_at os = None \<Longrightarrow>
     hash_file path os = Some (fnv_hash bs)"
  by (simp add: hash_file_def stat_file_def sys_open_reg_Some [THEN iffD2] readable_def hash_fd_whole)

section \<open>File headers\<close>

definition write_file_header :: "file_info \<Rightarrow> string \<Rightarrow> protocol_error + string" where
  "write_file_header info buf =
     ebind (w_str (fi_name info) buf) (\<lambda>buf. Inr (w_i64 (fi_mtime info) (w_u64 (fi_size info) buf)))"

definition read_file_header :: "reader \<Rightarrow> protocol_error + file_info \<times> reader" where
  "read_file_header r =
     ebind (r_str r) (\<lambda>(name, r). ebind (r_u64 r) (\<lambda>(n, r). ebind (r_i64 r) (\<lambda>(t, r).
       Inr (new_file_info\<lparr>fi_name := name, fi_size := n, fi_mtime := t\<rparr>, r))))"

definition write_file_info :: "file_info \<Rightarrow> string \<Rightarrow> protocol_error + string" where
  "write_file_info info buf = ebind (write_file_header info buf) (\<lambda>buf. Inr (w_u64 (fi_hash info) buf))"

definition read_file_info :: "reader \<Rightarrow> protocol_error + file_info \<times> reader" where
  "read_file_info r =
     ebind (read_file_header r) (\<lambda>(info, r). ebind (r_u64 r) (\<lambda>(h, r). Inr (info\<lparr>fi_hash := h\<rparr>, r)))"

definition enc_header :: "file_info \<Rightarrow> string" where
  "enc_header f = enc_str (fi_name f) @ enc_u64 (fi_size f) @ enc_u64 (fi_mtime f)"

definition enc_info :: "file_info \<Rightarrow> string" where
  "enc_info f = enc_header f @ enc_u64 (fi_hash f)"

interpretation cheader: codec write_file_header read_file_header enc_header
  "\<lambda>f. str_ok (fi_name f) \<and> fi_hash f = 0"
proof -
  let ?g = "\<lambda>f. (fi_name f, (fi_size f, fi_mtime f))"
  have "codec write_file_header read_file_header
          (\<lambda>f. enc_str (fst (?g f)) @ enc_u64 (fst (snd (?g f))) @ enc_u64 (snd (snd (?g f))))
          (\<lambda>f. str_ok (fi_name f) \<and> fi_hash f = 0)"
    by (rule codec_map [OF codec_pair [OF cstr.codec_axioms
          codec_pair [OF c64.codec_axioms ci64.codec_axioms]],
          where f = "\<lambda>(n, s, t). new_file_info\<lparr>fi_name := n, fi_size := s, fi_mtime := t\<rparr>"])
       (auto simp: wr_pair_def rd_pair_def write_file_header_def read_file_header_def ebind_def
         new_file_info_def split: sum.splits)
  then show "codec write_file_header read_file_header enc_header
      (\<lambda>f. str_ok (fi_name f) \<and> fi_hash f = 0)"
    by (simp add: enc_header_def [abs_def])
qed

lemma enc_header_hash [simp]: "enc_header (f\<lparr>fi_hash := h\<rparr>) = enc_header f"
  by (simp add: enc_header_def)

lemma write_file_header_hash: "write_file_header (f\<lparr>fi_hash := h\<rparr>) buf = write_file_header f buf"
  by (simp add: write_file_header_def)

lemma write_file_header_ok:
  "str_ok (fi_name f) \<Longrightarrow> write_file_header f buf = Inr (buf @ enc_header f)"
  using cheader.wr_enc [of "f\<lparr>fi_hash := 0\<rparr>" buf] by (simp add: write_file_header_hash)

lemma read_file_header_ok:
  "str_ok (fi_name f) \<Longrightarrow>
     read_file_header (cursor pre (enc_header f @ rest)) = Inr (f\<lparr>fi_hash := 0\<rparr>, cursor (pre @ enc_header f) rest)"
  using cheader.rd_enc [of "f\<lparr>fi_hash := 0\<rparr>" pre rest] by simp

interpretation cinfo: codec write_file_info read_file_info enc_info "\<lambda>f. str_ok (fi_name f)"
proof -
  let ?g = "\<lambda>f. (f\<lparr>fi_hash := 0\<rparr>, fi_hash f)"
  have "codec write_file_info read_file_info
          (\<lambda>f. enc_header (fst (?g f)) @ enc_u64 (snd (?g f))) (\<lambda>f. str_ok (fi_name f))"
    by (rule codec_map [OF codec_pair [OF cheader.codec_axioms c64.codec_axioms],
          where f = "\<lambda>(i, h). i\<lparr>fi_hash := h\<rparr>"])
       (auto simp: wr_pair_def rd_pair_def write_file_info_def read_file_info_def ebind_def
         write_file_header_hash split: sum.splits)
  then show "codec write_file_info read_file_info enc_info (\<lambda>f. str_ok (fi_name f))"
    by (simp add: enc_info_def [abs_def])
qed

section \<open>Sending a file\<close>

datatype transfer_result = T_Ok | T_NotSent | T_FileError | T_ConnectionLost

text \<open>The loop over the chunks: exactly the announced size, or a failure.\<close>

function send_chunks :: "'p conn \<Rightarrow> string \<Rightarrow> nat \<Rightarrow> transfer_result \<times> 'p conn" where
  "send_chunks c content remaining =
     (if remaining = 0 then (T_Ok, c)
      else let chunk = min remaining FILE_CHUNK_SIZE in
        if length content < chunk then (T_FileError, c)
        else case conn_send c Msg_FileData (take chunk content) of
          (False, c) \<Rightarrow> (T_ConnectionLost, c)
        | (True, c) \<Rightarrow> send_chunks c (drop chunk content) (remaining - chunk))"
  by pat_completeness auto
termination
  by (relation "measure (\<lambda>(c, b, r). r)") (auto simp: FILE_CHUNK_SIZE_def)

declare send_chunks.simps [simp del]

text \<open>The result, and the announced header (\<open>sent\<close>).\<close>

definition send_file ::
  "'p conn \<Rightarrow> msg \<Rightarrow> string \<Rightarrow> string \<Rightarrow> string \<Rightarrow> os \<Rightarrow>
     (protocol_error + transfer_result \<times> file_info) \<times> 'p conn" where
  "send_file c ty prefix name path os =
     (case sys_open_reg path os of
        None \<Rightarrow> (Inr (T_NotSent, new_file_info), c)
      | Some (bs, t) \<Rightarrow>
          let info = new_file_info\<lparr>fi_name := name, fi_size := of_nat (length bs), fi_mtime := mtime_of t\<rparr>
          in case write_file_header info [] of
            Inl e \<Rightarrow> (Inl e, c)
          | Inr header \<Rightarrow>
              (case conn_send c ty (prefix @ header) of
                 (False, c) \<Rightarrow> (Inr (T_ConnectionLost, info), c)
               | (True, c) \<Rightarrow>
                   (case send_chunks c (readable os bs) (unat (fi_size info)) of
                      (T_ConnectionLost, c) \<Rightarrow> (Inr (T_ConnectionLost, info), c)
                    | (result, c) \<Rightarrow>
                        (case conn_send c (if result = T_Ok then Msg_FileEnd else Msg_FileAbort) [] of
                           (False, c) \<Rightarrow> (Inr (T_ConnectionLost, info), c)
                         | (True, c) \<Rightarrow> (Inr (result, info), c)))))"

section \<open>Receiving a body\<close>

datatype body_end = Body_complete | Body_aborted | Body_broken

text \<open>
  The loop of \<open>recv_file_body\<close>: \<open>wok\<close> is \<open>write_ok\<close>. It keeps reading when the file cannot
  be written, so that the stream stays in sync.
\<close>

function recv_body_loop ::
  "'p conn \<Rightarrow> string \<Rightarrow> u64 \<Rightarrow> bool \<Rightarrow> u64 \<Rightarrow> u64 \<Rightarrow> os \<Rightarrow> body_end \<times> bool \<times> u64 \<times> 'p conn \<times> os" where
  "recv_body_loop c dest n wok received fnv os =
     (case conn_recv c of
        (Received m, c') \<Rightarrow>
          if mtype m = Msg_FileData then
            (if n - received < of_nat (length (payload m)) then (Body_broken, wok, fnv, c', os)
             else case (if wok then sys_write dest (payload m) os else (Some EINVAL, os)) of
               (e, os') \<Rightarrow> recv_body_loop c' dest n (e = None) (received + of_nat (length (payload m)))
                            (fnv_update fnv (payload m)) os')
          else if mtype m = Msg_FileEnd then
            (if received \<noteq> n then Body_broken else Body_complete, wok, fnv, c', os)
          else if mtype m = Msg_FileAbort then (Body_aborted, wok, fnv, c', os)
          else (Body_broken, wok, fnv, c', os)
      | (_, c') \<Rightarrow> (Body_broken, wok, fnv, c', os))"
  by pat_completeness auto
termination
  by (relation "inv_image (less_than <*lex*> less_than) (\<lambda>(c, _). recv_measure c)")
     (auto dest!: conn_recv_measure [OF sym])

declare recv_body_loop.simps [simp del]

text \<open>The result, the content hash (when the result is \<open>T_Ok\<close>), and the new state.\<close>

definition recv_file_body ::
  "'p conn \<Rightarrow> string \<Rightarrow> u64 \<Rightarrow> os \<Rightarrow> transfer_result \<times> u64 \<times> 'p conn \<times> os" where
  "recv_file_body c dest n os =
     (case sys_create dest os of (created, os) \<Rightarrow>
      case recv_body_loop c dest n (created = None) 0 fnv_init os of (status, wok, fnv, c, os) \<Rightarrow>
        if status = Body_broken then (T_ConnectionLost, 0, c, snd (sys_unlink dest os))
        else if \<not> wok \<or> status = Body_aborted then (T_FileError, 0, c, snd (sys_unlink dest os))
        else (T_Ok, fnv, c, os))"

section \<open>What a transfer sends\<close>

definition data_msg :: "string \<Rightarrow> message" where
  "data_msg bs = \<lparr>mtype = Msg_FileData, payload = bs\<rparr>"

definition end_msg :: message where
  "end_msg = \<lparr>mtype = Msg_FileEnd, payload = []\<rparr>"

function file_chunks :: "string \<Rightarrow> string list" where
  "file_chunks bs = (if bs = [] then [] else take FILE_CHUNK_SIZE bs # file_chunks (drop FILE_CHUNK_SIZE bs))"
  by pat_completeness auto
termination
  by (relation "measure length") (auto simp: FILE_CHUNK_SIZE_def)

declare file_chunks.simps [simp del]

lemma concat_file_chunks [simp]: "concat (file_chunks bs) = bs"
  by (induction bs rule: file_chunks.induct) (subst file_chunks.simps, simp)

lemma file_chunks_bounded: "ch \<in> set (file_chunks bs) \<Longrightarrow> 0 < length ch \<and> length ch \<le> FILE_CHUNK_SIZE"
proof (induction bs rule: file_chunks.induct)
  case (1 bs)
  then show ?case
    by (subst (asm) (2) file_chunks.simps) (auto simp: FILE_CHUNK_SIZE_def split: if_splits)
qed

text \<open>A connection that does not break while this side sends.\<close>

definition live :: "'p conn \<Rightarrow> bool" where
  "live c \<longleftrightarrow> is_open c \<and> sends_left c = None"

lemma conn_send_live:
  "live c \<Longrightarrow> length body \<le> MAX_PAYLOAD \<Longrightarrow>
     conn_send c ty body = (True, c\<lparr>outq := outq c @ [\<lparr>mtype = ty, payload = body\<rparr>]\<rparr>)"
  by (simp add: conn_send_def live_def)

lemma live_outq [simp]: "live (c\<lparr>outq := q\<rparr>) = live c"
  by (simp add: live_def)

lemma send_chunks_live:
  "live c \<Longrightarrow> send_chunks c bs (length bs) = (T_Ok, c\<lparr>outq := outq c @ map data_msg (file_chunks bs)\<rparr>)"
proof (induction bs arbitrary: c rule: file_chunks.induct)
  case (1 bs)
  show ?case
  proof (cases "bs = []")
    case True
    then show ?thesis by (simp add: send_chunks.simps file_chunks.simps)
  next
    case False
    let ?n = "min (length bs) FILE_CHUNK_SIZE"
    have tk: "take ?n bs = take FILE_CHUNK_SIZE bs" "drop ?n bs = drop FILE_CHUNK_SIZE bs"
      by (simp_all add: min_def)
    have len: "length bs - ?n = length (drop FILE_CHUNK_SIZE bs)" by simp
    have "conn_send c Msg_FileData (take FILE_CHUNK_SIZE bs) =
        (True, c\<lparr>outq := outq c @ [data_msg (take FILE_CHUNK_SIZE bs)]\<rparr>)"
      using "1.prems" by (simp add: conn_send_live data_msg_def FILE_CHUNK_SIZE_def MAX_PAYLOAD_def)
    with False "1.IH" [OF False] "1.prems" tk len show ?thesis
      by (subst send_chunks.simps, subst file_chunks.simps) (simp add: Let_def)
  qed
qed

text \<open>A file that shrinks while it is sent: part of it goes out, and the result is an error.\<close>

lemma send_chunks_short:
  "live c \<Longrightarrow> length bs < n \<Longrightarrow>
     \<exists>cs. send_chunks c bs n = (T_FileError, c\<lparr>outq := outq c @ map data_msg cs\<rparr>)"
proof (induction c bs n rule: send_chunks.induct)
  case (1 c bs n)
  define k where "k = min n FILE_CHUNK_SIZE"
  note eq = send_chunks.simps [of c bs n, unfolded Let_def, folded k_def]
  have n0: "n \<noteq> 0" using "1.prems" by simp
  show ?case
  proof (cases "length bs < k")
    case True
    with n0 show ?thesis unfolding eq by (auto intro!: exI [of _ "[]"])
  next
    case False
    let ?c = "c\<lparr>outq := outq c @ [data_msg (take k bs)]\<rparr>"
    have send: "conn_send c Msg_FileData (take k bs) = (True, ?c)"
      using "1.prems" by (simp add: conn_send_live data_msg_def k_def FILE_CHUNK_SIZE_def MAX_PAYLOAD_def)
    have "length (drop k bs) < n - k" using "1.prems" False by auto
    with "1.IH" [OF n0 k_def False send [symmetric]] "1.prems"
    obtain cs where "send_chunks ?c (drop k bs) (n - k) = (T_FileError, ?c\<lparr>outq := outq ?c @ map data_msg cs\<rparr>)"
      by auto
    with n0 False send show ?thesis
      unfolding eq by (auto intro!: exI [of _ "take k bs # cs"])
  qed
qed

lemma send_file_live:
  assumes "live c" "path \<noteq> []" "file_at os (resolve path) = Some (bs, t)" "cut_at os = None" "small bs"
    and "length prefix + 4096 \<le> MAX_PAYLOAD" "length name \<le> 4000"
  defines "info \<equiv> new_file_info\<lparr>fi_name := name, fi_size := of_nat (length bs), fi_mtime := mtime_of t\<rparr>"
  shows "send_file c ty prefix name path os =
    (Inr (T_Ok, info),
     c\<lparr>outq := outq c @ \<lparr>mtype = ty, payload = prefix @ enc_header info\<rparr> # map data_msg (file_chunks bs) @ [end_msg]\<rparr>)"
proof -
  have name: "str_ok (fi_name info)" using assms(7) by (simp add: info_def)
  have "length (prefix @ enc_header info) \<le> MAX_PAYLOAD"
    using assms(6,7) by (simp add: enc_header_def enc_str_def info_def)
  then show ?thesis
    using assms(1-5) write_file_header_ok [OF name]
    by (simp add: send_file_def Let_def sys_open_reg_Some [THEN iffD2] conn_send_live readable_def
        send_chunks_live unat_length_u64 info_def [symmetric] end_msg_def [symmetric])
       (simp add: info_def unat_length_u64 send_chunks_live conn_send_live end_msg_def)
qed

section \<open>What a transfer leaves at the receiver\<close>

lemma sys_write_frame:
  assumes "wf_os os" "sys_write dest bs os = (e, os')"
  shows "wf_os os'" "q \<noteq> resolve dest \<Longrightarrow> os_node os' q = os_node os q" "same_env os os'"
    "os_node os' (resolve dest) = Some N_dir \<longleftrightarrow> os_node os (resolve dest) = Some N_dir"
    "os_node os' (resolve dest) = None \<longleftrightarrow> os_node os (resolve dest) = None"
proof -
  have "wf_os os' \<and> (q \<noteq> resolve dest \<longrightarrow> os_node os' q = os_node os q) \<and>
    (os_node os' (resolve dest) = Some N_dir \<longleftrightarrow> os_node os (resolve dest) = Some N_dir) \<and>
    (os_node os' (resolve dest) = None \<longleftrightarrow> os_node os (resolve dest) = None)" for q
  proof (cases e)
    case None
    with assms sys_write_ok [OF assms(1), of dest bs os'] show ?thesis by auto
  next
    case (Some a)
    with assms sys_write_err [of dest bs os a os'] show ?thesis by auto
  qed
  then show "wf_os os'" "q \<noteq> resolve dest \<Longrightarrow> os_node os' q = os_node os q"
    "os_node os' (resolve dest) = Some N_dir \<longleftrightarrow> os_node os (resolve dest) = Some N_dir"
    "os_node os' (resolve dest) = None \<longleftrightarrow> os_node os (resolve dest) = None"
    by blast+
  show "same_env os os'" using assms(2) same_env_calls(6) [of os dest bs] by simp
qed

text \<open>What \<open>write_ok\<close> promises: the file holds what was received, and the hash is its hash.\<close>

definition body_inv :: "fpath \<Rightarrow> bool \<Rightarrow> u64 \<Rightarrow> u64 \<Rightarrow> os \<Rightarrow> bool" where
  "body_inv p wok received fnv os \<longleftrightarrow> wf_os os \<and>
     (wok \<longrightarrow> (\<exists>acc t. file_at os p = Some (acc, t) \<and> received = of_nat (length acc) \<and> fnv = fnv_hash acc))"

lemma body_inv_write:
  assumes "body_inv (resolve dest) wok received fnv os"
    and "(if wok then sys_write dest bs os else (Some EINVAL, os)) = (e, os')"
  shows "body_inv (resolve dest) (e = None) (received + of_nat (length bs)) (fnv_update fnv bs) os'"
proof (cases "wok \<and> e = None")
  case True
  with assms sys_write_ok [of os dest bs os'] show ?thesis
    by (auto simp: body_inv_def file_at_Some fnv_hash_def fnv_update_append)
next
  case False
  with assms sys_write_frame(1) [of os dest bs e os'] show ?thesis
    by (auto simp: body_inv_def split: if_splits)
qed

lemma recv_body_loop_inv:
  "recv_body_loop c dest n wok received fnv os = (st, wok', fnv', c', os') \<Longrightarrow>
   body_inv (resolve dest) wok received fnv os \<Longrightarrow>
   (\<exists>r. body_inv (resolve dest) wok' r fnv' os' \<and> (st = Body_complete \<longrightarrow> r = n)) \<and>
   (\<forall>q. q \<noteq> resolve dest \<longrightarrow> os_node os' q = os_node os q) \<and> same_env os os' \<and>
   (os_node os' (resolve dest) = Some N_dir \<longleftrightarrow> os_node os (resolve dest) = Some N_dir) \<and>
   (os_node os' (resolve dest) = None \<longleftrightarrow> os_node os (resolve dest) = None)"
proof (induction c dest n wok received fnv os rule: recv_body_loop.induct)
  case (1 c dest n wok received fnv os)
  note inv = "1.prems"(2)
  note eq = recv_body_loop.simps [of c dest n wok received fnv os]
  obtain r c1 where rv: "conn_recv c = (r, c1)" by fastforce
  show ?case
  proof (cases "\<exists>m. r = Received m \<and> mtype m = Msg_FileData \<and> \<not> n - received < of_nat (length (payload m))")
    case False
    with "1.prems"(1) inv show ?thesis
      by (auto simp: eq rv split: recv_result.splits if_splits)
  next
    case True
    then obtain m where m: "r = Received m" "mtype m = Msg_FileData"
      "\<not> n - received < of_nat (length (payload m))" by blast
    obtain e os1 where w: "(if wok then sys_write dest (payload m) os else (Some EINVAL, os)) = (e, os1)"
      by fastforce
    have wf: "wf_os os" using inv by (simp add: body_inv_def)
    from "1.prems"(1) m w have rec:
      "recv_body_loop c1 dest n (e = None) (received + of_nat (length (payload m)))
         (fnv_update fnv (payload m)) os1 = (st, wok', fnv', c', os')"
      unfolding eq rv by simp
    have step: "(\<forall>q. q \<noteq> resolve dest \<longrightarrow> os_node os1 q = os_node os q) \<and> same_env os os1 \<and>
       (os_node os1 (resolve dest) = Some N_dir \<longleftrightarrow> os_node os (resolve dest) = Some N_dir) \<and>
       (os_node os1 (resolve dest) = None \<longleftrightarrow> os_node os (resolve dest) = None)"
      using w sys_write_frame [OF wf, of dest "payload m" e os1] by (auto split: if_splits)
    from "1.IH" [OF rv [symmetric] m(1) m(2) m(3) w [symmetric] rec body_inv_write [OF inv w]] step
    show ?thesis by (auto intro: same_env_trans)
  qed
qed

text \<open>Whatever the peer sends: the whole file, or nothing at the destination.\<close>

lemma sys_unlink_gone:
  assumes "wf_os os" "s \<noteq> []"
  shows "wf_os (snd (sys_unlink s os))" "q \<noteq> resolve s \<Longrightarrow> os_node (snd (sys_unlink s os)) q = os_node os q"
    "os_node (snd (sys_unlink s os)) (resolve s) = (if os_node os (resolve s) = Some N_dir then Some N_dir else None)"
proof -
  obtain e os' where u: "sys_unlink s os = (e, os')" by fastforce
  have *: "wf_os os' \<and> (q \<noteq> resolve s \<longrightarrow> os_node os' q = os_node os q) \<and>
    os_node os' (resolve s) = (if os_node os (resolve s) = Some N_dir then Some N_dir else None)" for q
  proof (cases e)
    case None
    with u sys_unlink_ok [OF assms(1), of s os'] show ?thesis by auto
  next
    case (Some a)
    with u sys_unlink_err [of s os a os'] have "os' = os" by simp
    with u Some assms show ?thesis by (auto simp: sys_unlink_def Let_def split: if_splits)
  qed
  show "wf_os (snd (sys_unlink s os))" "q \<noteq> resolve s \<Longrightarrow> os_node (snd (sys_unlink s os)) q = os_node os q"
    "os_node (snd (sys_unlink s os)) (resolve s) = (if os_node os (resolve s) = Some N_dir then Some N_dir else None)"
    using * u by auto
qed

lemma sys_create_frame:
  assumes "wf_os os" "sys_create dest os = (e, os')"
  shows "body_inv (resolve dest) (e = None) 0 fnv_init os'" "q \<noteq> resolve dest \<Longrightarrow> os_node os' q = os_node os q"
    "os_node os' (resolve dest) = Some N_dir \<longleftrightarrow> os_node os (resolve dest) = Some N_dir" "same_env os os'"
proof -
  have "body_inv (resolve dest) (e = None) 0 fnv_init os' \<and> (q \<noteq> resolve dest \<longrightarrow> os_node os' q = os_node os q) \<and>
    (os_node os' (resolve dest) = Some N_dir \<longleftrightarrow> os_node os (resolve dest) = Some N_dir)" for q
  proof (cases e)
    case None
    with assms sys_create_ok [OF assms(1), of dest os'] show ?thesis
      by (auto simp: body_inv_def file_at_Some fnv_hash_def)
  next
    case (Some a)
    with assms sys_create_err [of dest os a os'] show ?thesis by (auto simp: body_inv_def)
  qed
  then show "body_inv (resolve dest) (e = None) 0 fnv_init os'" "q \<noteq> resolve dest \<Longrightarrow> os_node os' q = os_node os q"
    "os_node os' (resolve dest) = Some N_dir \<longleftrightarrow> os_node os (resolve dest) = Some N_dir"
    by blast+
  show "same_env os os'" using assms(2) same_env_calls(5) [of os dest] by simp
qed

lemma recv_file_body_effect:
  assumes "wf_os os" "dest \<noteq> []" "recv_file_body c dest n os = (res, h, c', os')"
  shows "wf_os os'" "same_env os os'" "q \<noteq> resolve dest \<Longrightarrow> os_node os' q = os_node os q"
    "res = T_Ok \<Longrightarrow> \<exists>bs t. file_at os' (resolve dest) = Some (bs, t) \<and> n = of_nat (length bs) \<and> h = fnv_hash bs"
    "res \<noteq> T_Ok \<Longrightarrow> os_node os' (resolve dest) = (if os_node os (resolve dest) = Some N_dir then Some N_dir else None)"
    "res \<noteq> T_NotSent"
proof -
  obtain e os1 where cr: "sys_create dest os = (e, os1)" by fastforce
  obtain st wok fnv c2 os2 where lp:
    "recv_body_loop c dest n (e = None) 0 fnv_init os1 = (st, wok, fnv, c2, os2)"
    by (metis prod_cases5)
  note f1 = sys_create_frame [OF assms(1) cr]
  from recv_body_loop_inv [OF lp f1(1)]
  have inv: "\<exists>r. body_inv (resolve dest) wok r fnv os2 \<and> (st = Body_complete \<longrightarrow> r = n)"
    and fr: "\<And>q. q \<noteq> resolve dest \<Longrightarrow> os_node os2 q = os_node os1 q" and env: "same_env os1 os2"
    and dir: "os_node os2 (resolve dest) = Some N_dir \<longleftrightarrow> os_node os1 (resolve dest) = Some N_dir"
    by auto
  have wf2: "wf_os os2" using inv by (auto simp: body_inv_def)
  note un = sys_unlink_gone [OF wf2 assms(2)] and un_env = same_env_calls(3) [of os2 dest]
  have env02: "same_env os os2" using f1(4) env by (rule same_env_trans)
  have body: "res = T_Ok \<and> h = fnv \<and> os' = os2 \<and> wok \<and> st = Body_complete \<or>
      (res = T_ConnectionLost \<or> res = T_FileError) \<and> os' = snd (sys_unlink dest os2)"
    using assms(3) by (cases st) (auto simp: recv_file_body_def cr lp split: if_splits)
  show "wf_os os'" using body un(1) wf2 by auto
  show "same_env os os'" using body env02 same_env_trans [OF env02 un_env] by auto
  show "os_node os' q = os_node os q" if "q \<noteq> resolve dest"
    using body that un(2) fr f1(2) by auto
  show "\<exists>bs t. file_at os' (resolve dest) = Some (bs, t) \<and> n = of_nat (length bs) \<and> h = fnv_hash bs"
    if "res = T_Ok"
    using body that inv by (auto simp: body_inv_def)
  show "os_node os' (resolve dest) = (if os_node os (resolve dest) = Some N_dir then Some N_dir else None)"
    if "res \<noteq> T_Ok"
    using body that un(3) dir f1(3) by auto
  show "res \<noteq> T_NotSent" using body by auto
qed

text \<open>Reading what a sender queued.\<close>

lemma conn_recv_data:
  "is_open c \<Longrightarrow> inq c = m # ms \<Longrightarrow> conn_recv c = (Received m, c\<lparr>inq := ms\<rparr>)"
  by (rule conn_recv_queued)

lemma u64_room:
  "k + l \<le> N \<Longrightarrow> N < 2 ^ 64 \<Longrightarrow> \<not> (of_nat N - of_nat k :: u64) < of_nat l"
proof -
  assume le: "k + l \<le> N" and N: "N < 2 ^ 64"
  have u: "unat (of_nat m :: u64) = m" if "m < 2 ^ 64" for m
    using that by (simp add: unat_of_nat)
  have "(of_nat N - of_nat k :: u64) = of_nat (N - k)" using le by simp
  moreover from le N u [of "N - k"] u [of l] have "\<not> (of_nat (N - k) :: u64) < of_nat l"
    unfolding word_less_nat_alt by linarith
  ultimately show ?thesis by simp
qed

lemma recv_chunks_written:
  "\<lbrakk>is_open c; inq c = map data_msg cs @ ms; k + length (concat cs) \<le> N; N < 2 ^ 64;
    wf_os os; file_at os (resolve dest) = Some (acc, t); file_limit os = None\<rbrakk> \<Longrightarrow>
   \<exists>t' os'. recv_body_loop c dest (of_nat N) True (of_nat k) h os =
       recv_body_loop (c\<lparr>inq := ms\<rparr>) dest (of_nat N) True (of_nat (k + length (concat cs)))
         (fnv_update h (concat cs)) os' \<and>
     wf_os os' \<and> file_at os' (resolve dest) = Some (acc @ concat cs, t')"
proof (induction cs arbitrary: c k h os acc t)
  case Nil
  then show ?case by (intro exI [of _ t] exI [of _ os]) (simp, cases c, simp)
next
  case (Cons b cs)
  let ?c = "c\<lparr>inq := map data_msg cs @ ms\<rparr>"
  have rv: "conn_recv c = (Received (data_msg b), ?c)"
    using Cons.prems(1,2) by (simp add: conn_recv_queued)
  obtain os1 where w: "sys_write dest b os = (None, os1)"
    using Cons.prems(6,7) by (auto simp: sys_write_def file_at_Some)
  from sys_write_ok [OF Cons.prems(5) w] Cons.prems(6)
  have os1: "wf_os os1" "file_at os1 (resolve dest) = Some (acc @ b, now os)"
    by (auto simp: file_at_Some)
  have lim: "file_limit os1 = None"
    using same_env_calls(6) [of os dest b] w Cons.prems(7) by (simp add: same_env_def)
  have room: "\<not> (of_nat N - of_nat k :: u64) < of_nat (length b)"
    using Cons.prems(3,4) by (intro u64_room) auto
  have "recv_body_loop c dest (of_nat N) True (of_nat k) h os =
      recv_body_loop ?c dest (of_nat N) True (of_nat (k + length b)) (fnv_update h b) os1"
    using room by (subst recv_body_loop.simps) (simp add: rv data_msg_def w)
  with Cons.IH [of ?c "k + length b" os1 "acc @ b" "now os" "fnv_update h b"] Cons.prems os1 lim
  show ?case by (simp add: fnv_update_append add.assoc)
qed

text \<open>A complete transfer of a file into a writable place.\<close>

lemma recv_file_body_complete:
  assumes "wf_os os" "is_open c" "inq c = map data_msg (file_chunks bs) @ end_msg # rest" "small bs"
    and "file_limit os = None" "dest \<noteq> []" "os_node os (butlast (resolve dest)) = Some N_dir"
    and "os_node os (resolve dest) = None"
  shows "\<exists>t os'. recv_file_body c dest (of_nat (length bs)) os = (T_Ok, fnv_hash bs, c\<lparr>inq := rest\<rparr>, os') \<and>
    file_at os' (resolve dest) = Some (bs, t)"
proof -
  obtain os1 where cr: "sys_create dest os = (None, os1)"
    using assms(6,7,8) by (auto simp: sys_create_def)
  from sys_create_ok [OF assms(1) cr] have os1: "wf_os os1" "file_at os1 (resolve dest) = Some ([], now os)"
    by (auto simp: file_at_Some)
  have lim: "file_limit os1 = None"
    using same_env_calls(5) [of os dest] cr assms(5) by (simp add: same_env_def)
  from recv_chunks_written [OF assms(2,3) _ assms(4) os1 lim, of 0 fnv_init]
  obtain t' os' where os': "recv_body_loop c dest (of_nat (length bs)) True 0 fnv_init os1 =
      recv_body_loop (c\<lparr>inq := end_msg # rest\<rparr>) dest (of_nat (length bs)) True (of_nat (length bs)) (fnv_hash bs) os'"
    "file_at os' (resolve dest) = Some (bs, t')"
    by (auto simp: fnv_hash_def)
  have "recv_body_loop (c\<lparr>inq := end_msg # rest\<rparr>) dest (of_nat (length bs)) True (of_nat (length bs)) (fnv_hash bs) os' =
      (Body_complete, True, fnv_hash bs, c\<lparr>inq := rest\<rparr>, os')"
    using assms(2) by (subst recv_body_loop.simps) (simp add: conn_recv_queued end_msg_def)
  with os' show ?thesis by (simp add: recv_file_body_def cr)
qed

text \<open>After anything but a lost connection, the next message is the one after the body.\<close>

lemma recv_body_loop_sync:
  "is_open c \<Longrightarrow> inq c = map data_msg cs @ fin # rest \<Longrightarrow> mtype fin \<noteq> Msg_FileData \<Longrightarrow>
     recv_body_loop c dest n wok received fnv os = (st, wok', fnv', c', os') \<Longrightarrow> st \<noteq> Body_broken \<Longrightarrow>
     c' = c\<lparr>inq := rest\<rparr> \<and> (st = Body_aborted \<longleftrightarrow> mtype fin = Msg_FileAbort)"
proof (induction cs arbitrary: c wok received fnv os)
  case Nil
  then show ?case
    by (subst (asm) recv_body_loop.simps) (auto simp: conn_recv_queued split: if_splits)
next
  case (Cons b cs)
  let ?c = "c\<lparr>inq := map data_msg cs @ fin # rest\<rparr>"
  have rv: "conn_recv c = (Received (data_msg b), ?c)"
    using Cons.prems(1,2) by (simp add: conn_recv_queued)
  obtain e os1 where w: "(if wok then sys_write dest b os else (Some EINVAL, os)) = (e, os1)"
    by fastforce
  have "recv_body_loop ?c dest n (e = None) (received + of_nat (length b)) (fnv_update fnv b) os1 =
      (st, wok', fnv', c', os')"
    using Cons.prems(4,5) w
    by (subst (asm) recv_body_loop.simps) (auto simp: rv data_msg_def split: if_splits)
  from Cons.IH [OF _ _ Cons.prems(3) this Cons.prems(5)] Cons.prems(1) show ?case by simp
qed

lemma recv_file_body_sync:
  assumes "is_open c" "inq c = map data_msg cs @ fin # rest" "mtype fin \<noteq> Msg_FileData"
    and "recv_file_body c dest n os = (res, h, c', os')" "res \<noteq> T_ConnectionLost"
  shows "c' = c\<lparr>inq := rest\<rparr>" "mtype fin = Msg_FileAbort \<Longrightarrow> res = T_FileError"
proof -
  obtain e os1 where cr: "sys_create dest os = (e, os1)" by fastforce
  obtain st wok fnv c2 os2 where lp:
    "recv_body_loop c dest n (e = None) 0 fnv_init os1 = (st, wok, fnv, c2, os2)"
    by (metis prod_cases5)
  have st: "st \<noteq> Body_broken" "c' = c2" "st = Body_aborted \<Longrightarrow> res = T_FileError"
    using assms(4,5) by (auto simp: recv_file_body_def cr lp split: if_splits)
  from recv_body_loop_sync [OF assms(1-3) lp st(1)] st
  show "c' = c\<lparr>inq := rest\<rparr>" "mtype fin = Msg_FileAbort \<Longrightarrow> res = T_FileError" by auto
qed

text \<open>Receiving a body only takes messages from the queue.\<close>

lemma recv_body_loop_queue:
  "is_open c \<Longrightarrow> inq c = map data_msg cs @ fin # rest \<Longrightarrow> mtype fin \<noteq> Msg_FileData \<Longrightarrow>
     recv_body_loop c dest n wok received fnv os = (st, wok', fnv', c', os') \<Longrightarrow> \<exists>q. c' = c\<lparr>inq := q\<rparr>"
proof (induction cs arbitrary: c wok received fnv os)
  case Nil
  then have "c' = c\<lparr>inq := rest\<rparr>"
    by (subst (asm) recv_body_loop.simps) (auto simp: conn_recv_queued split: if_splits)
  then show ?case ..
next
  case (Cons b cs)
  let ?c = "c\<lparr>inq := map data_msg cs @ fin # rest\<rparr>"
  have rv: "conn_recv c = (Received (data_msg b), ?c)"
    using Cons.prems(1,2) by (simp add: conn_recv_queued)
  obtain e os1 where w: "(if wok then sys_write dest b os else (Some EINVAL, os)) = (e, os1)"
    by fastforce
  have "c' = ?c \<or> recv_body_loop ?c dest n (e = None) (received + of_nat (length b)) (fnv_update fnv b) os1 =
      (st, wok', fnv', c', os')"
    using Cons.prems(4) w
    by (subst (asm) recv_body_loop.simps) (auto simp: rv data_msg_def split: if_splits)
  then show ?case
  proof
    assume "recv_body_loop ?c dest n (e = None) (received + of_nat (length b)) (fnv_update fnv b) os1 =
      (st, wok', fnv', c', os')"
    from Cons.IH [OF _ _ Cons.prems(3) this] Cons.prems(1) show ?thesis by simp
  qed blast
qed

lemma recv_file_body_queue:
  assumes "is_open c" "inq c = map data_msg cs @ fin # rest" "mtype fin \<noteq> Msg_FileData"
    and "recv_file_body c dest n os = (res, h, c', os')"
  shows "\<exists>q. c' = c\<lparr>inq := q\<rparr>"
proof -
  obtain e os1 where cr: "sys_create dest os = (e, os1)" by fastforce
  obtain st wok fnv c2 os2 where lp:
    "recv_body_loop c dest n (e = None) 0 fnv_init os1 = (st, wok, fnv, c2, os2)"
    by (metis prod_cases5)
  have "c' = c2" using assms(4) by (auto simp: recv_file_body_def cr lp split: if_splits)
  with recv_body_loop_queue [OF assms(1-3) lp] show ?thesis by simp
qed

text \<open>What a complete transfer has written is what was sent.\<close>

lemma recv_body_loop_content:
  "is_open c \<Longrightarrow> inq c = map data_msg cs @ fin # rest \<Longrightarrow> mtype fin \<noteq> Msg_FileData \<Longrightarrow> wf_os os \<Longrightarrow>
     (wok \<Longrightarrow> \<exists>t. file_at os (resolve dest) = Some (acc, t)) \<Longrightarrow>
     recv_body_loop c dest n wok received fnv os = (Body_complete, True, fnv', c', os') \<Longrightarrow>
     \<exists>t. file_at os' (resolve dest) = Some (acc @ concat cs, t)"
proof (induction cs arbitrary: c wok received fnv os acc)
  case Nil
  then have "wok \<and> os' = os"
    by (subst (asm) recv_body_loop.simps) (auto simp: conn_recv_queued split: if_splits)
  with Nil.prems(5) show ?case by simp
next
  case (Cons b cs)
  let ?c = "c\<lparr>inq := map data_msg cs @ fin # rest\<rparr>"
  have rv: "conn_recv c = (Received (data_msg b), ?c)"
    using Cons.prems(1,2) by (simp add: conn_recv_queued)
  obtain e os1 where w: "(if wok then sys_write dest b os else (Some EINVAL, os)) = (e, os1)"
    by fastforce
  have loop: "recv_body_loop ?c dest n (e = None) (received + of_nat (length b)) (fnv_update fnv b) os1 =
      (Body_complete, True, fnv', c', os')"
    using Cons.prems(6) w
    by (subst (asm) recv_body_loop.simps) (auto simp: rv data_msg_def split: if_splits)
  have written: "\<exists>t. file_at os1 (resolve dest) = Some (acc @ b, t)" if "e = None"
  proof -
    have wok: wok "sys_write dest b os = (None, os1)" using w that by (auto split: if_splits)
    with sys_write_ok [OF Cons.prems(4) wok(2)] Cons.prems(5) show ?thesis by (auto simp: file_at_Some)
  qed
  have "wf_os os1" using w Cons.prems(4) sys_write_frame(1) [OF Cons.prems(4), of dest b e os1] by (auto split: if_splits)
  from Cons.IH [OF _ _ Cons.prems(3) this written loop] Cons.prems(1) show ?case by simp
qed

lemma recv_file_body_content:
  assumes "wf_os os" "is_open c" "inq c = map data_msg cs @ fin # rest" "mtype fin \<noteq> Msg_FileData"
    and "recv_file_body c dest n os = (T_Ok, h, c', os')"
  shows "\<exists>t. file_at os' (resolve dest) = Some (concat cs, t)"
proof -
  obtain e os1 where cr: "sys_create dest os = (e, os1)" by fastforce
  obtain st wok fnv c2 os2 where lp:
    "recv_body_loop c dest n (e = None) 0 fnv_init os1 = (st, wok, fnv, c2, os2)"
    by (metis prod_cases5)
  have st: "st = Body_complete" "wok" "os' = os2"
    using assms(5) by (cases st; auto simp: recv_file_body_def cr lp split: if_splits)+
  have "wf_os os1" using sys_create_frame(1) [OF assms(1) cr] by (simp add: body_inv_def)
  moreover have "\<exists>t. file_at os1 (resolve dest) = Some ([], t)" if "e = None"
    using sys_create_ok [OF assms(1) cr [unfolded that]] by (auto simp: file_at_Some)
  ultimately show ?thesis
    using recv_body_loop_content [OF assms(2-4), of os1 "e = None" dest "[]"] lp st by auto
qed

section \<open>Properties\<close>

text \<open>
  Hashing a file in chunks of \<open>FILE_CHUNK_SIZE\<close> is hashing the announced number of bytes at
  once, and it fails exactly when the file is shorter than announced.
\<close>

theorem hash_chunked:
  "hash_fd content n =
     (if length content < unat n then None else Some (fnv_hash (take (unat n) content)))"
  by (simp add: hash_fd_def hash_fd_loop_eq fnv_hash_def)

text \<open>
  C25. All or nothing: whatever the peer sends, \<open>recv_file_body\<close> changes nothing but its
  destination; when it reports success the destination holds a file of exactly the announced
  size whose hash is the one returned, and otherwise nothing is left there.
\<close>

theorem recv_file_body_atomic:
  assumes "wf_os os" "dest \<noteq> []" "os_node os (resolve dest) = None"
  shows "case recv_file_body c dest n os of (res, h, c', os') \<Rightarrow>
    wf_os os' \<and> (\<forall>q. q = resolve dest \<or> os_node os' q = os_node os q) \<and>
    (case file_at os' (resolve dest) of
       None \<Rightarrow> res \<noteq> T_Ok
     | Some (bs, t) \<Rightarrow> res = T_Ok \<and> n = of_nat (length bs) \<and> h = fnv_hash bs)"
proof -
  obtain res h c' os' where r: "recv_file_body c dest n os = (res, h, c', os')" by (metis prod_cases4)
  note e = recv_file_body_effect [OF assms(1,2) r]
  show ?thesis
  proof (cases "res = T_Ok")
    case True
    with e(1,3,4) show ?thesis by (auto simp: r)
  next
    case False
    with e(1,3,5) assms(3) show ?thesis by (auto simp: r file_at_def)
  qed
qed

theorem recv_file_body_atomic_witness:
  "case recv_file_body \<lparr>peer_state = (), respond = \<lambda>p _. (p, []), outq = [], inq = [data_msg ''abc'', end_msg],
      sends_left = None, is_open = True, peer_is_server = False\<rparr> ''t'' 3
     \<lparr>tree = [], file_limit = None, cut_at = None, now = 0, rnd = \<lambda>_. 0, rnd_pos = 0\<rparr> of (res, h, c', os') \<Rightarrow>
    wf_os os' \<and> (\<forall>q. q = resolve ''t'' \<or> os_node os' q = os_node \<lparr>tree = [], file_limit = None, cut_at = None, now = 0, rnd = \<lambda>_. 0, rnd_pos = 0\<rparr> q) \<and>
    (case file_at os' (resolve ''t'') of
       None \<Rightarrow> res \<noteq> T_Ok
     | Some (bs, t) \<Rightarrow> res = T_Ok \<and> (3 :: u64) = of_nat (length bs) \<and> h = fnv_hash bs)"
  by (rule recv_file_body_atomic; code_simp)

text \<open>
  C24. A transfer is faithful: what \<open>send_file\<close> puts on the connection for an unchanged file,
  \<open>recv_file_body\<close> turns into a file with the same contents, when the destination is writable;
  the header carries the name, the size and the modification time.
\<close>

theorem transfer_faithful:
  assumes "live c" "path \<noteq> []" "file_at src (resolve path) = Some (bs, t)" "cut_at src = None" "small bs"
    and "length name \<le> 4000" "outq c = []"
    and "wf_os dst" "is_open d" "file_limit dst = None" "dest \<noteq> []"
    and "os_node dst (butlast (resolve dest)) = Some N_dir" "os_node dst (resolve dest) = None"
  shows "\<exists>info header body c'. send_file c ty [] name path src = (Inr (T_Ok, info), c') \<and>
    outq c' = \<lparr>mtype = ty, payload = header\<rparr> # body \<and>
    read_file_header (new_reader header) = Inr (info, cursor header []) \<and>
    fi_name info = name \<and> fi_size info = of_nat (length bs) \<and> fi_mtime info = mtime_of t \<and>
    (\<exists>t' os'. recv_file_body (d\<lparr>inq := body\<rparr>) dest (fi_size info) dst = (T_Ok, fnv_hash bs, d\<lparr>inq := []\<rparr>, os') \<and>
       file_at os' (resolve dest) = Some (bs, t'))"
proof -
  let ?info = "new_file_info\<lparr>fi_name := name, fi_size := of_nat (length bs), fi_mtime := mtime_of t\<rparr>"
  let ?body = "map data_msg (file_chunks bs) @ [end_msg]"
  have hash: "?info\<lparr>fi_hash := 0\<rparr> = ?info" by (simp add: new_file_info_def)
  have name: "str_ok (fi_name ?info)" using assms(6) by simp
  have send: "send_file c ty [] name path src = (Inr (T_Ok, ?info),
      c\<lparr>outq := outq c @ \<lparr>mtype = ty, payload = [] @ enc_header ?info\<rparr> # ?body\<rparr>)"
    using assms(1-6) by (intro send_file_live) (simp_all add: MAX_PAYLOAD_def)
  have head: "read_file_header (new_reader (enc_header ?info)) = Inr (?info, cursor (enc_header ?info) [])"
    using read_file_header_ok [OF name, of "[]" "[]"] unfolding hash by (simp add: new_reader_cursor)
  have open': "is_open (d\<lparr>inq := ?body\<rparr>)" "inq (d\<lparr>inq := ?body\<rparr>) = map data_msg (file_chunks bs) @ end_msg # []"
    using assms(9) by simp_all
  from recv_file_body_complete [OF assms(8) open' assms(5,10-13)]
  obtain t' os' where "recv_file_body (d\<lparr>inq := ?body\<rparr>) dest (of_nat (length bs)) dst = (T_Ok, fnv_hash bs, d\<lparr>inq := []\<rparr>, os')"
    "file_at os' (resolve dest) = Some (bs, t')" by auto
  with send head assms(7) show ?thesis
    by (intro exI [of _ ?info] exI [of _ "enc_header ?info"] exI [of _ ?body]) auto
qed

theorem transfer_faithful_witness:
  "\<exists>info header body c'. send_file \<lparr>peer_state = (), respond = \<lambda>p _. (p, []), outq = [], inq = [],
        sends_left = None, is_open = True, peer_is_server = False\<rparr> Msg_File [] ''n'' ''f''
        \<lparr>tree = [([''f''], N_file ''abc'' 7)], file_limit = None, cut_at = None, now = 0, rnd = \<lambda>_. 0, rnd_pos = 0\<rparr> =
      (Inr (T_Ok, info), c') \<and>
    outq c' = \<lparr>mtype = Msg_File, payload = header\<rparr> # body \<and>
    read_file_header (new_reader header) = Inr (info, cursor header []) \<and>
    fi_name info = ''n'' \<and> fi_size info = of_nat (length ''abc'') \<and> fi_mtime info = mtime_of 7 \<and>
    (\<exists>t' os'. recv_file_body (\<lparr>peer_state = (), respond = \<lambda>p _. (p, []), outq = [], inq = [],
          sends_left = None, is_open = True, peer_is_server = False\<rparr>\<lparr>inq := body\<rparr>) ''t'' (fi_size info)
          \<lparr>tree = [], file_limit = None, cut_at = None, now = 0, rnd = \<lambda>_. 0, rnd_pos = 0\<rparr> =
        (T_Ok, fnv_hash ''abc'', \<lparr>peer_state = (), respond = \<lambda>p _. (p, []), outq = [], inq = [],
          sends_left = None, is_open = True, peer_is_server = False\<rparr>\<lparr>inq := []\<rparr>, os') \<and>
       file_at os' (resolve ''t'') = Some (''abc'', t'))"
  by (rule transfer_faithful) (simp_all add: live_def, code_simp+)

text \<open>
  The stream stays in sync: unless the connection is given up, receiving a body consumes
  exactly the messages of that body and its final marker, also when the file could not be
  written, and a body that the sender aborted is never taken for a file.
\<close>

theorem body_stream_sync:
  assumes "is_open c" "inq c = map data_msg chunks @ fin # rest" "mtype fin \<noteq> Msg_FileData"
  shows "case recv_file_body c dest n os of (res, h, c', os') \<Rightarrow>
    (res = T_ConnectionLost \<or> c' = c\<lparr>inq := rest\<rparr>) \<and>
    (res = T_Ok \<longrightarrow> mtype fin \<noteq> Msg_FileAbort)"
proof -
  obtain res h c' os' where r: "recv_file_body c dest n os = (res, h, c', os')" by (metis prod_cases4)
  from recv_file_body_sync [OF assms r] show ?thesis by (auto simp: r)
qed

theorem body_stream_sync_witness:
  "case recv_file_body \<lparr>peer_state = (), respond = \<lambda>p _. (p, []), outq = [],
       inq = map data_msg [''abc''] @ end_msg # [\<lparr>mtype = Msg_Ping, payload = []\<rparr>],
       sends_left = None, is_open = True, peer_is_server = False\<rparr> ''t'' 3
     \<lparr>tree = [], file_limit = Some 2, cut_at = None, now = 0, rnd = \<lambda>_. 0, rnd_pos = 0\<rparr> of (res, h, c', os') \<Rightarrow>
    (res = T_ConnectionLost \<or>
     c' = \<lparr>peer_state = (), respond = \<lambda>p _. (p, []), outq = [],
       inq = map data_msg [''abc''] @ end_msg # [\<lparr>mtype = Msg_Ping, payload = []\<rparr>],
       sends_left = None, is_open = True, peer_is_server = False\<rparr>\<lparr>inq := [\<lparr>mtype = Msg_Ping, payload = []\<rparr>]\<rparr>) \<and>
    (res = T_Ok \<longrightarrow> mtype end_msg \<noteq> Msg_FileAbort)"
  by (rule body_stream_sync [where chunks = "[''abc'']"]) (simp_all add: end_msg_def)

end
