(* ===== verification/Listing.thy ===== *)
theory Listing
  imports FileTransfer
begin

text \<open>
  \<open>list_tree\<close> of \<open>common/files.cpp\<close>: the recursive walk over a directory. The listing is
  exactly the regular files below the root whose relative path is valid, sorted by path.
\<close>

function walk :: "string \<Rightarrow> string \<Rightarrow> nat \<Rightarrow> os \<Rightarrow> file_info list" where
  "walk root relative_dir depth os =
     (case sys_readdir (join_path root relative_dir) os of
        None \<Rightarrow> []
      | Some names \<Rightarrow> concat (map (\<lambda>name.
          if \<not> is_valid_file_name name then []
          else
            let relative = (if relative_dir = [] then name else relative_dir @ slash # name) in
            case sys_lstat (join_path root relative) os of
              None \<Rightarrow> []
            | Some N_dir \<Rightarrow> if depth + 1 < MAX_PATH_DEPTH then walk root relative (depth + 1) os else []
            | Some (N_file bs t) \<Rightarrow>
                if is_valid_path relative
                then [\<lparr>fi_name = relative, fi_size = of_nat (length bs), fi_mtime = mtime_of t, fi_hash = 0\<rparr>]
                else []
            | Some N_special \<Rightarrow> []) names))"
  by pat_completeness auto
termination
  by (relation "measure (\<lambda>(root, rel, depth, os). MAX_PATH_DEPTH - depth)") auto

declare walk.simps [simp del]

definition list_tree :: "string \<Rightarrow> os \<Rightarrow> file_info list" where
  "list_tree root os = sort_key fi_name (walk root [] 0 os)"

section \<open>What is listed\<close>

definition comps :: "string \<Rightarrow> fpath" where
  "comps rel = (if rel = [] then [] else split_on slash rel)"

definition walked :: "string \<Rightarrow> nat \<Rightarrow> bool" where
  "walked rel depth \<longleftrightarrow> list_all is_valid_file_name (comps rel) \<and> length (comps rel) = depth"

definition listed :: "os \<Rightarrow> fpath \<Rightarrow> file_info \<Rightarrow> bool" where
  "listed os base info \<longleftrightarrow>
     is_valid_path (fi_name info) \<and>
     (case file_at os (base @ split_on slash (fi_name info)) of
        None \<Rightarrow> False
      | Some (bs, t) \<Rightarrow> fi_size info = of_nat (length bs) \<and> fi_mtime info = mtime_of t) \<and>
     fi_hash info = 0"

lemma listed_file:
  "listed os base \<lparr>fi_name = p, fi_size = of_nat (length bs), fi_mtime = mtime_of t, fi_hash = 0\<rparr>"
  if "is_valid_path p" "file_at os (base @ split_on slash p) = Some (bs, t)"
  using that by (simp add: listed_def)

lemma comps_step:
  assumes "is_valid_file_name name"
  shows "comps (if rel = [] then name else rel @ slash # name) = comps rel @ [name]"
proof -
  have "slash \<notin> set name" "name \<noteq> []"
    using valid_name_good [OF assms] by (auto simp: good_name_def)
  then show ?thesis by (simp add: comps_def split_on_append_sep)
qed

lemma resolve_join_comps:
  "list_all is_valid_file_name (comps rel) \<Longrightarrow> resolve (join_path root rel) = resolve root @ comps rel"
  by (auto simp: resolve_join comps_def foldl_resolve_names list_all_iff valid_name_good
      resolve_step_def split: if_splits)

lemma os_node_ancestor:
  "wf_os os \<Longrightarrow> os_node os (p @ q) = Some n \<Longrightarrow> q \<noteq> [] \<Longrightarrow> os_node os p = Some N_dir"
proof (induction q arbitrary: n rule: rev_induct)
  case (snoc x xs)
  have "os_node os (p @ xs) = Some N_dir"
    using wf_os_parent [OF snoc.prems(1,2)] by (simp add: butlast_append)
  with snoc.IH [OF snoc.prems(1) this] show ?case by (cases "xs = []") auto
qed simp

lemma sys_readdir_iff:
  "wf_os os \<Longrightarrow> good_name c \<Longrightarrow>
     (case sys_readdir s os of None \<Rightarrow> False | Some names \<Rightarrow> c \<in> set names) \<longleftrightarrow>
     s \<noteq> [] \<and> os_node os (resolve s @ [c]) \<noteq> None"
proof -
  assume wf: "wf_os os" and good: "good_name c"
  show ?thesis
  proof (cases "sys_is_dir s os")
    case True
    with children_iff [OF wf, of c "resolve s"] good show ?thesis
      by (auto simp: sys_readdir_def sys_is_dir_def good_name_def)
  next
    case False
    with os_node_ancestor [OF wf, of "resolve s" "[c]"] show ?thesis
      by (auto simp: sys_readdir_def sys_is_dir_def)
  qed
qed

text \<open>One name of the directory that is being walked.\<close>

definition walk_name :: "string \<Rightarrow> string \<Rightarrow> nat \<Rightarrow> os \<Rightarrow> string \<Rightarrow> file_info list" where
  "walk_name root rel depth os name =
     (if \<not> is_valid_file_name name then []
      else
        let relative = (if rel = [] then name else rel @ slash # name) in
        case sys_lstat (join_path root relative) os of
          None \<Rightarrow> []
        | Some N_dir \<Rightarrow> if depth + 1 < MAX_PATH_DEPTH then walk root relative (depth + 1) os else []
        | Some (N_file bs t) \<Rightarrow>
            if is_valid_path relative
            then [\<lparr>fi_name = relative, fi_size = of_nat (length bs), fi_mtime = mtime_of t, fi_hash = 0\<rparr>]
            else []
        | Some N_special \<Rightarrow> [])"

lemma walk_unfold:
  "walk root rel depth os =
     (case sys_readdir (join_path root rel) os of
        None \<Rightarrow> [] | Some names \<Rightarrow> concat (map (walk_name root rel depth os) names))"
  unfolding walk_name_def [abs_def] by (rule walk.simps)

text \<open>The files below a directory of the walk.\<close>

definition below :: "fpath \<Rightarrow> fpath \<Rightarrow> bool" where
  "below d p \<longleftrightarrow> (\<exists>q. q \<noteq> [] \<and> p = d @ q)"

text \<open>One entry of a directory, when the walk of the directories below is known.\<close>

lemma walk_name_iff:
  assumes wf: "wf_os os" and root: "root \<noteq> []" and names: "list_all is_valid_file_name (comps rel)"
    and depth: "depth = length (comps rel)" and c: "is_valid_file_name c"
    and deeper: "\<And>r. walked r (depth + 1) \<Longrightarrow> depth + 1 < MAX_PATH_DEPTH \<Longrightarrow>
      info \<in> set (walk root r (depth + 1) os) \<longleftrightarrow> listed os (resolve root) info \<and> below (comps r) (split_on slash (fi_name info))"
  shows "info \<in> set (walk_name root rel depth os c) \<longleftrightarrow>
    listed os (resolve root) info \<and> (\<exists>q. split_on slash (fi_name info) = comps rel @ c # q)"
proof -
  let ?R = "resolve root"
  let ?r = "if rel = [] then c else rel @ slash # c"
  have cr: "comps ?r = comps rel @ [c]" by (rule comps_step [OF c])
  then have walked: "walked ?r (depth + 1)" using names c depth by (simp add: walked_def)
  have r0: "?r \<noteq> []" using c by (auto simp: is_valid_file_name_def)
  then have split: "split_on slash ?r = comps rel @ [c]" using cr by (simp add: comps_def)
  have ls: "sys_lstat (join_path root ?r) os = os_node os (?R @ comps rel @ [c])"
    using resolve_join_comps [of ?r root] walked r0 cr
    by (simp add: sys_lstat_def walked_def join_path_not_Nil)
  have shallow: "q \<noteq> [] \<Longrightarrow> depth + 1 < MAX_PATH_DEPTH"
    if "listed os ?R info" "split_on slash (fi_name info) = comps rel @ c # q" for q
    using that depth by (cases q) (auto simp: listed_def is_valid_path_iff valid_components_def)
  have isfile: "\<exists>bs t. os_node os (?R @ split_on slash (fi_name info)) = Some (N_file bs t)"
    if "listed os ?R info"
    using that by (auto simp: listed_def file_at_Some split: option.splits)
  have anc: "q \<noteq> [] \<Longrightarrow> os_node os (?R @ comps rel @ [c]) = Some N_dir"
    if "listed os ?R info" "split_on slash (fi_name info) = comps rel @ c # q" for q
    using isfile [OF that(1)] os_node_ancestor [OF wf, of "?R @ comps rel @ [c]" q] that(2) by auto
  show ?thesis
  proof (cases "os_node os (?R @ comps rel @ [c])")
    case None
    with anc isfile c show ?thesis
      by (auto simp: walk_name_def Let_def ls) (metis append.assoc append_Cons append_Nil option.distinct(1))
  next
    case (Some n)
    show ?thesis
    proof (cases n)
      case N_dir
      note deeper = deeper [OF walked]
      moreover have "q \<noteq> []"
        if "listed os ?R info" "split_on slash (fi_name info) = comps rel @ c # q" for q
        using isfile [OF that(1)] that(2) Some N_dir by auto
      ultimately show ?thesis
        using c Some N_dir shallow
        by (auto simp: walk_name_def Let_def ls cr below_def simp del: append_Cons)
           (metis append_Cons append_Nil append_assoc)+
    next
      case (N_file bs t)
      have fa: "file_at os (?R @ split_on slash ?r) = Some (bs, t)"
        using Some N_file by (simp add: file_at_Some split)
      have "info = \<lparr>fi_name = ?r, fi_size = of_nat (length bs), fi_mtime = mtime_of t, fi_hash = 0\<rparr>"
        if "listed os ?R info" "split_on slash (fi_name info) = comps rel @ c # q" for q
      proof -
        have "q = []" using anc [OF that] Some N_file by auto
        then have "fi_name info = ?r" using that(2) split split_on_inj by metis
        with that(1) fa show ?thesis by (cases info) (simp add: listed_def)
      qed
      moreover have "listed os ?R info \<Longrightarrow> fi_name info = ?r \<Longrightarrow> is_valid_path ?r"
        by (simp add: listed_def)
      ultimately show ?thesis
        using c Some N_file listed_file [OF _ fa] split
        by (auto simp: walk_name_def Let_def ls)
    next
      case N_special
      with Some anc isfile c show ?thesis
        by (auto simp: walk_name_def Let_def ls) (metis append.assoc append_Cons append_Nil
            node.distinct(3,5) option.inject)
    qed
  qed
qed

lemma walk_iff:
  assumes wf: "wf_os os" and root: "root \<noteq> []"
  shows "walked rel depth \<Longrightarrow>
    info \<in> set (walk root rel depth os) \<longleftrightarrow>
      listed os (resolve root) info \<and> below (comps rel) (split_on slash (fi_name info))"
proof (induction "MAX_PATH_DEPTH - depth" arbitrary: rel depth rule: less_induct)
  case less
  let ?R = "resolve root"
  have names: "list_all is_valid_file_name (comps rel)" and depth: "depth = length (comps rel)"
    using less.prems by (auto simp: walked_def)
  have dir: "resolve (join_path root rel) = ?R @ comps rel" "join_path root rel \<noteq> []"
    by (rule resolve_join_comps [OF names]) (use root in \<open>simp add: join_path_def\<close>)
  have sub: "info \<in> set (walk_name root rel depth os c) \<longleftrightarrow>
      listed os ?R info \<and> (\<exists>q. split_on slash (fi_name info) = comps rel @ c # q)"
    if "is_valid_file_name c" for c
    by (rule walk_name_iff [OF wf root names depth that]) (use less.hyps in \<open>simp add: diff_less_mono2\<close>)
  show ?case
  proof
    assume "info \<in> set (walk root rel depth os)"
    then obtain c where c: "info \<in> set (walk_name root rel depth os c)"
      by (auto simp: walk_unfold split: option.splits)
    then have "is_valid_file_name c" by (auto simp: walk_name_def split: if_splits)
    from c [unfolded sub [OF this]]
    show "listed os ?R info \<and> below (comps rel) (split_on slash (fi_name info))"
      by (auto simp: below_def)
  next
    assume "listed os ?R info \<and> below (comps rel) (split_on slash (fi_name info))"
    then obtain c q where l: "listed os ?R info" and q: "split_on slash (fi_name info) = comps rel @ c # q"
      by (auto simp: below_def neq_Nil_conv)
    then have c: "is_valid_file_name c"
      by (auto simp: listed_def is_valid_path_iff valid_components_def)
    have "\<exists>bs t. os_node os (?R @ comps rel @ c # q) = Some (N_file bs t)"
      using l q by (auto simp: listed_def file_at_Some split: option.splits)
    then have "os_node os (?R @ comps rel @ [c]) \<noteq> None"
      using os_node_ancestor [OF wf, of "?R @ comps rel @ [c]" q] by (cases "q = []") auto
    with sys_readdir_iff [OF wf valid_name_good [OF c], of "join_path root rel"] dir
    obtain names where "sys_readdir (join_path root rel) os = Some names" "c \<in> set names"
      by (auto split: option.splits)
    then show "info \<in> set (walk root rel depth os)"
      using sub [OF c] l q by (auto simp: walk_unfold)
  qed
qed

lemma list_tree_iff:
  assumes "wf_os os" "root \<noteq> []"
  shows "info \<in> set (list_tree root os) \<longleftrightarrow> listed os (resolve root) info"
proof -
  have "walked [] 0" by (simp add: walked_def comps_def)
  from walk_iff [OF assms this] show ?thesis
    by (auto simp: list_tree_def comps_def below_def)
qed

section \<open>Each file once, in order\<close>

lemma distinct_concat_map:
  assumes "distinct ns" "\<And>n. n \<in> set ns \<Longrightarrow> distinct (f n)"
    and "\<And>m n x. m \<in> set ns \<Longrightarrow> n \<in> set ns \<Longrightarrow> x \<in> set (f m) \<Longrightarrow> x \<in> set (f n) \<Longrightarrow> m = n"
  shows "distinct (concat (map f ns))"
  using assms
proof (induction ns)
  case (Cons n ns)
  have "set (f n) \<inter> set (concat (map f ns)) = {}"
  proof (rule ccontr)
    assume "set (f n) \<inter> set (concat (map f ns)) \<noteq> {}"
    then obtain m x where "m \<in> set ns" "x \<in> set (f n)" "x \<in> set (f m)" by auto
    with Cons.prems(3) [of n m x] Cons.prems(1) show False by auto
  qed
  moreover have "distinct (concat (map f ns))"
    using Cons.prems by (intro Cons.IH) auto
  ultimately show ?case using Cons.prems(2) by simp
qed simp

lemma distinct_children: "wf_os os \<Longrightarrow> distinct (children os p)"
proof -
  assume "wf_os os"
  then have d: "distinct (map fst (tree os))" by (simp add: omap_wf_distinct wf_os_map)
  have "inj_on (\<lambda>e. last (fst e)) (set (filter (\<lambda>e. fst e \<noteq> [] \<and> butlast (fst e) = p) (tree os)))"
  proof (rule inj_onI)
    fix x y assume x: "x \<in> set (filter (\<lambda>e. fst e \<noteq> [] \<and> butlast (fst e) = p) (tree os))"
      and y: "y \<in> set (filter (\<lambda>e. fst e \<noteq> [] \<and> butlast (fst e) = p) (tree os))"
      and l: "last (fst x) = last (fst y)"
    then have "fst x = fst y" by (auto simp: dest: append_butlast_last_id) (metis append_butlast_last_id)
    with x y d show "x = y" by (auto simp: distinct_map inj_on_def)
  qed
  with d show ?thesis by (simp add: children_def distinct_map distinct_filter)
qed

lemma distinct_readdir:
  assumes "wf_os os" "sys_readdir s os = Some names"
  shows "distinct names"
proof -
  have "''.'' \<notin> set (children os (resolve s))" "''..'' \<notin> set (children os (resolve s))"
    using children_iff [OF assms(1)] wf_os_entry [OF assms(1)]
    by (fastforce simp: wf_entry_def good_name_def)+
  then show ?thesis
    using assms distinct_children [OF assms(1)] by (auto simp: sys_readdir_def split: if_splits)
qed

lemma walk_name_prefix:
  assumes "wf_os os" "root \<noteq> []" "walked rel depth" "info \<in> set (walk_name root rel depth os c)"
  shows "\<exists>q. split_on slash (fi_name info) = comps rel @ c # q"
proof -
  let ?r = "if rel = [] then c else rel @ slash # c"
  have c: "is_valid_file_name c" using assms(4) by (auto simp: walk_name_def split: if_splits)
  then have cr: "comps ?r = comps rel @ [c]" by (rule comps_step)
  with c assms(3) have walked: "walked ?r (depth + 1)" by (simp add: walked_def)
  obtain n where n: "sys_lstat (join_path root ?r) os = Some n"
    using assms(4) by (cases "sys_lstat (join_path root ?r) os") (auto simp: walk_name_def Let_def split: if_splits)
  have "fi_name info = ?r \<or> info \<in> set (walk root ?r (depth + 1) os)"
    using assms(4) n c by (cases n) (auto simp: walk_name_def Let_def split: if_splits)
  then show ?thesis
  proof
    assume "fi_name info = ?r"
    moreover have "?r \<noteq> []" using c by (auto simp: is_valid_file_name_def)
    ultimately show ?thesis using cr by (auto simp: comps_def)
  next
    assume "info \<in> set (walk root ?r (depth + 1) os)"
    then show ?thesis unfolding walk_iff [OF assms(1,2) walked] cr by (auto simp: below_def)
  qed
qed

lemma walk_distinct:
  "wf_os os \<Longrightarrow> root \<noteq> [] \<Longrightarrow> walked rel depth \<Longrightarrow> distinct (map fi_name (walk root rel depth os))"
proof (induction "MAX_PATH_DEPTH - depth" arbitrary: rel depth rule: less_induct)
  case less
  have one: "distinct (map fi_name (walk_name root rel depth os c))" for c
  proof (cases "is_valid_file_name c \<and> depth + 1 < MAX_PATH_DEPTH")
    case True
    then have "walked (if rel = [] then c else rel @ slash # c) (depth + 1)"
      using comps_step [of c rel] less.prems(3) by (simp add: walked_def)
    from less.hyps [OF _ less.prems(1,2) this] True show ?thesis
      by (auto simp: walk_name_def Let_def diff_less_mono2 split: option.splits node.splits)
  qed (auto simp: walk_name_def Let_def split: option.splits node.splits)
  show ?case
  proof (cases "sys_readdir (join_path root rel) os")
    case (Some names)
    have "distinct (concat (map (\<lambda>c. map fi_name (walk_name root rel depth os c)) names))"
    proof (rule distinct_concat_map [OF distinct_readdir [OF less.prems(1) Some] one])
      fix c d x assume "x \<in> set (map fi_name (walk_name root rel depth os c))"
        "x \<in> set (map fi_name (walk_name root rel depth os d))"
      then obtain i j where i: "i \<in> set (walk_name root rel depth os c)" "fi_name i = x"
        and j: "j \<in> set (walk_name root rel depth os d)" "fi_name j = x" by auto
      from walk_name_prefix [OF less.prems i(1)] walk_name_prefix [OF less.prems j(1)] i(2) j(2)
      show "c = d" by auto
    qed
    with Some show ?thesis by (simp add: walk_unfold map_concat comp_def)
  qed (simp add: walk_unfold)
qed

lemma list_tree_sorted:
  assumes "wf_os os" "root \<noteq> []"
  shows "sorted_wrt (<) (map fi_name (list_tree root os))"
proof -
  have "walked [] 0" by (simp add: walked_def comps_def)
  from walk_distinct [OF assms this] show ?thesis
    by (simp add: strict_sorted_iff list_tree_def distinct_map)
qed

section \<open>Properties\<close>

text \<open>
  C35. A listing is exact: it has one entry for every regular file below the root whose relative
  path is valid, with that file's size and modification time, nothing else, and its names are
  strictly increasing (so no file is listed twice).
\<close>

theorem list_tree_exact:
  assumes "wf_os os" "root \<noteq> []"
  shows "set (list_tree root os) = {info. listed os (resolve root) info} \<and>
    sorted_wrt (<) (map fi_name (list_tree root os))"
  using list_tree_iff [OF assms] list_tree_sorted [OF assms] by auto

theorem list_tree_exact_witness:
  "set (list_tree ''d'' \<lparr>tree = [([''d''], N_dir), ([''d'', ''x''], N_file ''1'' 5), ([''d'', ''y''], N_special)], file_limit = None, cut_at = None, now = 0, rnd = \<lambda>_. 0, rnd_pos = 0\<rparr>) =
    {info. listed \<lparr>tree = [([''d''], N_dir), ([''d'', ''x''], N_file ''1'' 5), ([''d'', ''y''], N_special)], file_limit = None, cut_at = None, now = 0, rnd = \<lambda>_. 0, rnd_pos = 0\<rparr> (resolve ''d'') info} \<and>
   sorted_wrt (<) (map fi_name (list_tree ''d'' \<lparr>tree = [([''d''], N_dir), ([''d'', ''x''], N_file ''1'' 5), ([''d'', ''y''], N_special)], file_limit = None, cut_at = None, now = 0, rnd = \<lambda>_. 0, rnd_pos = 0\<rparr>))"
  by (rule list_tree_exact; code_simp)

end
