(* ===== verification/Sessions.thy ===== *)
theory Sessions
  imports Connection OrderedMap
begin

text \<open>
  \<open>server/sessions.hpp\<close> and \<open>server/sessions.cpp\<close>: the sessions of the logged-in clients.
  A connection is named by a number (the identity of the shared pointer). The bytes that
  OpenSSL's \<open>RAND_bytes\<close> gives are an argument; \<^term>\<open>None\<close> is its failure.
\<close>

definition MAX_SESSIONS_PER_USER :: nat where "MAX_SESSIONS_PER_USER = 2"

type_synonym conn_id = nat

record session =
  s_user :: string
  s_command :: conn_id
  s_sync :: "conn_id option"

type_synonym sessions = "(string, session) omap"

definition hex_byte :: "u8 \<Rightarrow> string" where
  "hex_byte b = [digit_char (unat (drop_bit 4 b)), digit_char (unat (b AND 0xF))]"

definition random_token :: "u8 list option \<Rightarrow> string" where
  "random_token bytes = (case bytes of None \<Rightarrow> [] | Some bs \<Rightarrow> concat (map hex_byte bs))"

section \<open>Operations\<close>

definition session_count :: "string \<Rightarrow> sessions \<Rightarrow> nat" where
  "session_count user ss = omap_count (\<lambda>s. s_user s = user) ss"

text \<open>The new token, or the empty string.\<close>

definition session_open :: "string \<Rightarrow> conn_id \<Rightarrow> u8 list option \<Rightarrow> sessions \<Rightarrow> string \<times> sessions" where
  "session_open user command random ss =
     (if session_count user ss \<ge> MAX_SESSIONS_PER_USER then ([], ss)
      else
        let token = random_token random in
        if token = [] \<or> map_of ss token \<noteq> None then ([], ss)
        else (token, omap_put token \<lparr>s_user = user, s_command = command, s_sync = None\<rparr> ss))"

text \<open>The connections that are shut down.\<close>

definition session_close :: "string \<Rightarrow> sessions \<Rightarrow> conn_id list \<times> sessions" where
  "session_close token ss =
     (case map_of ss token of
        None \<Rightarrow> ([], ss)
      | Some s \<Rightarrow>
          (s_command s # (case s_sync s of None \<Rightarrow> [] | Some c \<Rightarrow> [c]), omap_del token ss))"

definition attach_sync :: "string \<Rightarrow> conn_id \<Rightarrow> sessions \<Rightarrow> bool \<times> sessions" where
  "attach_sync token sync ss =
     (case map_of ss token of
        None \<Rightarrow> (False, ss)
      | Some s \<Rightarrow>
          if s_sync s \<noteq> None then (False, ss)
          else (True, omap_put token (s\<lparr>s_sync := Some sync\<rparr>) ss))"

definition detach_sync :: "string \<Rightarrow> conn_id \<Rightarrow> sessions \<Rightarrow> sessions" where
  "detach_sync token sync ss =
     (case map_of ss token of
        None \<Rightarrow> ss
      | Some s \<Rightarrow> if s_sync s = Some sync then omap_put token (s\<lparr>s_sync := None\<rparr>) ss else ss)"

definition sync_connections :: "string \<Rightarrow> string \<Rightarrow> sessions \<Rightarrow> conn_id list" where
  "sync_connections user except ss =
     concat (map (\<lambda>(token, s).
       if token \<noteq> except \<and> s_user s = user then (case s_sync s of None \<Rightarrow> [] | Some c \<Rightarrow> [c]) else []) ss)"

definition all_sync_connections :: "sessions \<Rightarrow> conn_id list" where
  "all_sync_connections ss =
     concat (map (\<lambda>(token, s). case s_sync s of None \<Rightarrow> [] | Some c \<Rightarrow> [c]) ss)"

section \<open>The session manager as a machine\<close>

datatype session_op =
    Open_session string conn_id "u8 list option"
  | Close_session string
  | Attach_sync string conn_id
  | Detach_sync string conn_id

fun session_step :: "session_op \<Rightarrow> sessions \<Rightarrow> sessions" where
  "session_step (Open_session u c r) ss = snd (session_open u c r ss)"
| "session_step (Close_session t) ss = snd (session_close t ss)"
| "session_step (Attach_sync t c) ss = snd (attach_sync t c ss)"
| "session_step (Detach_sync t c) ss = detach_sync t c ss"

definition session_run :: "session_op list \<Rightarrow> sessions \<Rightarrow> sessions" where
  "session_run ops ss = fold session_step ops ss"

definition sessions_ok :: "sessions \<Rightarrow> bool" where
  "sessions_ok ss \<longleftrightarrow> omap_wf ss \<and>
     list_all (\<lambda>e. fst e \<noteq> [] \<and> session_count (s_user (snd e)) ss \<le> MAX_SESSIONS_PER_USER) ss"

lemma session_count_0: "\<forall>e \<in> set ss. s_user (snd e) \<noteq> u \<Longrightarrow> session_count u ss = 0"
  by (simp add: session_count_def omap_count_def filter_empty_conv)

lemma sessions_ok_count: "sessions_ok ss \<Longrightarrow> session_count u ss \<le> MAX_SESSIONS_PER_USER"
proof (cases "\<exists>e \<in> set ss. s_user (snd e) = u")
  case True
  assume "sessions_ok ss"
  with True show ?thesis by (auto simp: sessions_ok_def list_all_iff)
qed (simp add: session_count_0)

lemma sessions_okI:
  "omap_wf ss \<Longrightarrow> [] \<notin> fst ` set ss \<Longrightarrow> (\<And>u. session_count u ss \<le> MAX_SESSIONS_PER_USER) \<Longrightarrow> sessions_ok ss"
  by (force simp: sessions_ok_def list_all_iff)

lemma sessions_ok_parts: "sessions_ok ss \<Longrightarrow> omap_wf ss \<and> [] \<notin> fst ` set ss"
  by (force simp: sessions_ok_def list_all_iff)

lemma session_count_update:
  "omap_wf ss \<Longrightarrow> map_of ss token = Some s \<Longrightarrow> s_user s' = s_user s \<Longrightarrow>
     session_count u (omap_put token s' ss) = session_count u ss"
  by (simp add: session_count_def omap_count_put_same)

lemma session_step_ok: "sessions_ok ss \<Longrightarrow> sessions_ok (session_step op ss)"
proof -
  assume ok: "sessions_ok ss"
  note parts = sessions_ok_parts [OF ok] and count = sessions_ok_count [OF ok]
  have update: "sessions_ok (omap_put token s' ss)"
    if "map_of ss token = Some s" "s_user s' = s_user s" for token s s'
  proof (rule sessions_okI)
    show "[] \<notin> fst ` set (omap_put token s' ss)"
      using parts that(1) by (auto dest!: map_of_SomeD intro: rev_image_eqI)
  qed (use parts count that in \<open>auto simp: omap_wf_put session_count_update\<close>)
  show ?thesis
  proof (cases op)
    case (Open_session u c r)
    have "sessions_ok (omap_put token \<lparr>s_user = u, s_command = c, s_sync = None\<rparr> ss)"
      if "token \<noteq> []" "map_of ss token = None" "session_count u ss < MAX_SESSIONS_PER_USER" for token
    proof (rule sessions_okI)
      fix v
      show "session_count v (omap_put token \<lparr>s_user = u, s_command = c, s_sync = None\<rparr> ss) \<le> MAX_SESSIONS_PER_USER"
        using that count [of v] by (cases "u = v") (simp_all add: session_count_def omap_count_put_new)
    qed (use that parts in \<open>auto simp: omap_wf_put\<close>)
    with ok show ?thesis by (auto simp: Open_session session_open_def Let_def not_le)
  next
    case (Close_session t)
    have "sessions_ok (omap_del t ss)"
    proof (rule sessions_okI)
      fix v
      show "session_count v (omap_del t ss) \<le> MAX_SESSIONS_PER_USER"
        using count [of v] omap_count_del [of _ t ss] unfolding session_count_def by (rule order_trans [rotated])
    next
      show "omap_wf (omap_del t ss)" using parts by (simp add: omap_wf_del)
    qed (use parts in \<open>auto simp: omap_del_def\<close>)
    with ok show ?thesis by (auto simp: Close_session session_close_def split: option.splits)
  next
    case (Attach_sync t c)
    with ok update show ?thesis by (auto simp: attach_sync_def split: option.splits)
  next
    case (Detach_sync t c)
    with ok update show ?thesis by (auto simp: detach_sync_def split: option.splits)
  qed
qed

lemma session_run_ok: "sessions_ok ss \<Longrightarrow> sessions_ok (session_run ops ss)"
  by (induction ops arbitrary: ss) (auto simp: session_run_def session_step_ok)

lemma set_case_option: "set (case x of None \<Rightarrow> [] | Some c \<Rightarrow> [c]) = set_option x"
  by (cases x) simp_all

lemma sync_connections_iff:
  assumes "omap_wf ss"
  shows "c \<in> set (sync_connections u except ss) \<longleftrightarrow>
    (\<exists>token s. map_of ss token = Some s \<and> token \<noteq> except \<and> s_user s = u \<and> s_sync s = Some c)"
proof -
  define here where "here e = (if fst e \<noteq> except \<and> s_user (snd e) = u
      then (case s_sync (snd e) of None \<Rightarrow> [] | Some c \<Rightarrow> [c]) else [])" for e :: "string \<times> session"
  have "sync_connections u except ss = concat (map here ss)"
    unfolding sync_connections_def here_def case_prod_beta' ..
  moreover have "c \<in> set (here e) \<longleftrightarrow> fst e \<noteq> except \<and> s_user (snd e) = u \<and> s_sync (snd e) = Some c" for e
    unfolding here_def if_distrib [of set] set_case_option by simp
  ultimately have "c \<in> set (sync_connections u except ss) \<longleftrightarrow>
      (\<exists>e \<in> set ss. fst e \<noteq> except \<and> s_user (snd e) = u \<and> s_sync (snd e) = Some c)"
    by simp
  also have "\<dots> \<longleftrightarrow> (\<exists>t s. (t, s) \<in> set ss \<and> t \<noteq> except \<and> s_user s = u \<and> s_sync s = Some c)"
    by (metis fst_conv snd_conv surj_pair)
  finally show ?thesis by (simp only: omap_wf_map_of [OF assms])
qed

section \<open>Properties\<close>

text \<open>
  C29. At most two sessions per user: whatever sequence of openings, closings, attachments and
  detachments has been carried out, with whatever random bytes, no user has more than two
  sessions, and no session has an empty token.
\<close>

theorem two_sessions_per_user:
  "session_count user (session_run ops []) \<le> 2 \<and> map_of (session_run ops []) [] = None"
proof -
  have "sessions_ok (session_run ops [])"
    by (rule session_run_ok) (simp add: sessions_ok_def)
  from sessions_ok_count [OF this, of user] sessions_ok_parts [OF this] show ?thesis
    by (simp add: MAX_SESSIONS_PER_USER_def map_of_eq_None_iff)
qed

text \<open>
  Opening a session never disturbs another one: it either refuses (the empty token) and
  changes nothing, or it hands out a token that no session had, files exactly the new session
  under it, and counts it for its user.
\<close>

theorem session_open_fresh:
  "case session_open user command random (session_run ops []) of (token, ss') \<Rightarrow>
     if token = [] then ss' = session_run ops []
     else map_of (session_run ops []) token = None \<and>
       map_of ss' = (map_of (session_run ops []))(token \<mapsto> \<lparr>s_user = user, s_command = command, s_sync = None\<rparr>) \<and>
       session_count user ss' = Suc (session_count user (session_run ops []))"
proof -
  have "omap_wf (session_run ops [])"
    using sessions_ok_parts [OF session_run_ok [of "[]" ops]] by (simp add: sessions_ok_def)
  then show ?thesis
    by (auto simp: session_open_def Let_def omap_put_lookup session_count_def omap_count_put_new)
qed

text \<open>
  A change is pushed to the right connections: the sync connections of exactly the
  sessions of that user, except the session the change came from.
\<close>

theorem push_targets:
  "connection \<in> set (sync_connections user except (session_run ops [])) \<longleftrightarrow>
   (\<exists>token s. map_of (session_run ops []) token = Some s \<and> token \<noteq> except \<and> s_user s = user \<and>
      s_sync s = Some connection)"
proof -
  have "omap_wf (session_run ops [])"
    using sessions_ok_parts [OF session_run_ok [of "[]" ops]] by (simp add: sessions_ok_def)
  then show ?thesis by (rule sync_connections_iff)
qed

end
