(* ===== verification/KeyValue.thy ===== *)
theory KeyValue
  imports SyncBase
begin

text \<open>
  The contract of a store whose updates may fail: an update that reports success is the
  update of a map, an update that reports failure changes nothing. The accounts
  (\<open>server/accounts.cpp\<close>) and the users' files (\<open>server/storage.cpp\<close>) are such stores.
  \<open>meaning s c\<close> is the value that the argument \<open>c\<close> stands for in the state \<open>s\<close>
  (for a file, what has been received under a temporary name).
\<close>

locale kv_store =
  fixes view :: "'s \<Rightarrow> 'k \<Rightarrow> 'v option"
    and inv :: "'s \<Rightarrow> bool"
    and key :: "'k \<Rightarrow> bool"
    and meaning :: "'s \<Rightarrow> 'c \<Rightarrow> 'v option"
    and put :: "'k \<Rightarrow> 'c \<Rightarrow> 's \<Rightarrow> bool \<times> 's"
  assumes put_law:
    "\<lbrakk>inv s; key k; meaning s c = Some v; put k c s = (ok, s')\<rbrakk> \<Longrightarrow>
       inv s' \<and> view s' = (if ok then (view s)(k \<mapsto> v) else view s)"
begin

lemma put_get: "\<lbrakk>inv s; key k; meaning s c = Some v; put k c s = (True, s')\<rbrakk> \<Longrightarrow> view s' k = Some v"
  using put_law [of s k c v True s'] by simp

lemma put_other:
  "\<lbrakk>inv s; key k; meaning s c = Some v; put k c s = (ok, s'); k' \<noteq> k\<rbrakk> \<Longrightarrow> view s' k' = view s k'"
  using put_law [of s k c v ok s'] by (cases ok) auto

lemma put_failed:
  "\<lbrakk>inv s; key k; meaning s c = Some v; put k c s = (False, s')\<rbrakk> \<Longrightarrow> view s' = view s"
  using put_law [of s k c v False s'] by simp

text \<open>The last successful update of a key wins, whatever happened to it before.\<close>

lemma put_put:
  assumes "inv s" "key k" "meaning s c = Some v" "put k c s = (ok, s1)"
    and "meaning s1 d = Some w" "put k d s1 = (True, s2)"
  shows "view s2 = (view s)(k \<mapsto> w)"
proof -
  from put_law [OF assms(1-4)] have s1: "inv s1" "view s1 = (if ok then (view s)(k \<mapsto> v) else view s)"
    by simp_all
  from put_law [OF s1(1) assms(2,5,6)] s1(2) show ?thesis by auto
qed

end

text \<open>With removal, which reports whether there was something to remove.\<close>

locale kv_store_del = kv_store view inv key meaning put
  for view :: "'s \<Rightarrow> 'k \<Rightarrow> 'v option" and inv key and meaning :: "'s \<Rightarrow> 'c \<Rightarrow> 'v option" and put +
  fixes del :: "'k \<Rightarrow> 's \<Rightarrow> bool \<times> 's"
  assumes del_law:
    "\<lbrakk>inv s; key k; del k s = (ok, s')\<rbrakk> \<Longrightarrow>
       inv s' \<and> view s' = (if ok then (view s)(k := None) else view s)"
    and del_found: "\<lbrakk>inv s; key k; view s k \<noteq> None\<rbrakk> \<Longrightarrow> fst (del k s)"
begin

lemma del_gone: "\<lbrakk>inv s; key k; del k s = (ok, s')\<rbrakk> \<Longrightarrow> view s' k = None"
  using del_law [of s k ok s'] del_found [of s k] by (cases ok; cases "view s k") auto

lemma del_other: "\<lbrakk>inv s; key k; del k s = (ok, s'); k' \<noteq> k\<rbrakk> \<Longrightarrow> view s' k' = view s k'"
  using del_law [of s k ok s'] by (cases ok) auto

text \<open>Removing twice is removing once.\<close>

lemma del_del:
  "\<lbrakk>inv s; key k; del k s = (ok, s1); del k s1 = (ok', s2)\<rbrakk> \<Longrightarrow> view s2 = view s1"
proof -
  assume a: "inv s" "key k" "del k s = (ok, s1)" "del k s1 = (ok', s2)"
  from del_law [OF a(1-3)] have "inv s1" by simp
  from del_law [OF this a(2,4)] del_gone [OF a(1-3)] show ?thesis by (cases ok') auto
qed

lemma put_del:
  assumes "inv s" "key k" "meaning s c = Some v" "put k c s = (True, s1)" "del k s1 = (ok, s2)"
  shows "ok" "view s2 = (view s)(k := None)"
proof -
  from put_law [OF assms(1-4)] have s1: "inv s1" "view s1 = (view s)(k \<mapsto> v)" by simp_all
  from del_found [OF s1(1) assms(2)] s1(2) assms(5) show ok by simp
  with del_law [OF s1(1) assms(2,5)] s1(2) show "view s2 = (view s)(k := None)" by simp
qed

end

end
