(* ===== verification/Accounts.thy ===== *)
theory Accounts
  imports FileTransfer KeyValue
begin

text \<open>
  \<open>server/accounts.hpp\<close> and \<open>server/accounts.cpp\<close>: the user accounts, one file per user
  with a salted password hash. The functions of OpenSSL are arguments:
  \<open>derive password salt iterations\<close> is PBKDF2 (\<^term>\<open>None\<close> when it fails) and the salt is
  what \<open>RAND_bytes\<close> delivers (\<^term>\<open>None\<close> when it fails). The abstract view of the
  component is the partial map \<open>accounts_of\<close> from users to records.
\<close>

definition SCHEME :: string where "SCHEME = ''pbkdf2-sha256''"
definition ITERATIONS :: nat where "ITERATIONS = 100000"
definition SALT_SIZE :: nat where "SALT_SIZE = 16"
definition HASH_SIZE :: nat where "HASH_SIZE = 32"

abbreviation dollar :: char where "dollar \<equiv> CHR ''$''"

type_synonym kdf = "string \<Rightarrow> string \<Rightarrow> nat \<Rightarrow> string option"

section \<open>Records\<close>

definition to_hex :: "string \<Rightarrow> string" where
  "to_hex data = concat (map (\<lambda>c. hex_fixed 2 (of_char c)) data)"

definition lower_hex_digit :: "char \<Rightarrow> nat option" where
  "lower_hex_digit c =
     (if CHR ''0'' \<le> c \<and> c \<le> CHR ''9'' then Some (of_char c - 48)
      else if CHR ''a'' \<le> c \<and> c \<le> CHR ''f'' then Some (of_char c - 87)
      else None)"

fun from_hex :: "string \<Rightarrow> string option" where
  "from_hex [] = Some []"
| "from_hex [c] = None"
| "from_hex (c # d # hex) =
     (case (lower_hex_digit c, lower_hex_digit d) of
        (Some x, Some y) \<Rightarrow> map_option (\<lambda>out. char_of (x * 16 + y) # out) (from_hex hex)
      | _ \<Rightarrow> None)"

record parsed_record =
  pr_iterations :: nat
  pr_salt :: string
  pr_hash :: string

definition parse_record :: "string \<Rightarrow> parsed_record option" where
  "parse_record rec =
     (let fields = getlines dollar rec in
      if length fields \<noteq> 4 \<or> fields ! 0 \<noteq> SCHEME \<or> fields ! 1 = [] \<or>
         \<not> list_all is_digit (fields ! 1) \<or> length (fields ! 1) > 9 then None
      else
        let iterations = dec_value (fields ! 1) in
        if iterations = 0 then None
        else case from_hex (fields ! 2) of
          None \<Rightarrow> None
        | Some salt \<Rightarrow>
            if salt = [] then None
            else case from_hex (fields ! 3) of
              None \<Rightarrow> None
            | Some hash \<Rightarrow>
                if length hash = HASH_SIZE
                then Some \<lparr>pr_iterations = iterations, pr_salt = salt, pr_hash = hash\<rparr>
                else None)"

definition make_record :: "kdf \<Rightarrow> string option \<Rightarrow> string \<Rightarrow> string" where
  "make_record derive random password =
     (case random of
        None \<Rightarrow> []
      | Some salt \<Rightarrow>
          (case derive password salt ITERATIONS of
             None \<Rightarrow> []
           | Some hash \<Rightarrow>
               SCHEME @ dollar # to_dec ITERATIONS @ dollar # to_hex salt @ dollar # to_hex hash))"

definition verify_record :: "kdf \<Rightarrow> string \<Rightarrow> string \<Rightarrow> bool" where
  "verify_record derive rec password \<longleftrightarrow>
     (case parse_record rec of
        None \<Rightarrow> False
      | Some parsed \<Rightarrow>
          (case derive password (pr_salt parsed) (pr_iterations parsed) of
             None \<Rightarrow> False
           | Some hash \<Rightarrow> take HASH_SIZE hash = take HASH_SIZE (pr_hash parsed)))"

definition is_valid_record :: "string \<Rightarrow> bool" where
  "is_valid_record rec \<longleftrightarrow> parse_record rec \<noteq> None"

section \<open>The account files\<close>

text \<open>The first line of a file, as one \<open>std::getline\<close> reads it.\<close>

definition first_line :: "string \<Rightarrow> string option" where
  "first_line bs = (if bs = [] then None else Some (takeWhile ((\<noteq>) newline) bs))"

definition acc_init :: "string \<Rightarrow> os \<Rightarrow> bool \<times> os" where
  "acc_init dir os = make_dirs dir os"

definition acc_get :: "string \<Rightarrow> string \<Rightarrow> os \<Rightarrow> string option" where
  "acc_get dir user os =
     (case sys_open_reg (join_path dir user) os of
        None \<Rightarrow> None
      | Some (bs, _) \<Rightarrow>
          (case first_line bs of
             None \<Rightarrow> None
           | Some rec \<Rightarrow> if is_valid_record rec then Some rec else None))"

definition acc_write :: "string \<Rightarrow> string \<Rightarrow> string \<Rightarrow> os \<Rightarrow> bool \<times> os" where
  "acc_write dir user rec os =
     (case make_temp_path dir os of (temp, os) \<Rightarrow>
      case sys_create temp os of
        (Some e, os) \<Rightarrow> (False, snd (remove_file temp os))
      | (None, os) \<Rightarrow>
          (case sys_write temp (rec @ [newline]) os of
             (Some e, os) \<Rightarrow> (False, snd (remove_file temp os))
           | (None, os) \<Rightarrow> replace_file temp (join_path dir user) os))"

definition acc_create :: "string \<Rightarrow> string \<Rightarrow> string \<Rightarrow> os \<Rightarrow> bool \<times> os" where
  "acc_create dir user rec os =
     (if sys_lstat (join_path dir user) os \<noteq> None then (False, os) else acc_write dir user rec os)"

definition acc_put :: "string \<Rightarrow> string \<Rightarrow> string \<Rightarrow> os \<Rightarrow> bool \<times> os" where
  "acc_put dir user rec os = acc_write dir user rec os"

definition acc_all :: "string \<Rightarrow> os \<Rightarrow> (string \<times> string) list" where
  "acc_all dir os =
     (let users = (case sys_readdir dir os of None \<Rightarrow> [] | Some names \<Rightarrow> filter is_valid_username names) in
      concat (map (\<lambda>user. case acc_get dir user os of None \<Rightarrow> [] | Some rec \<Rightarrow> [(user, rec)]) (sort users)))"

section \<open>Lemmas on records\<close>

lemma lower_hex: "d < 16 \<Longrightarrow> lower_hex_digit (digit_char d) = Some d"
  by (drule less_16_cases) (auto simp: digit_char_def hex_digits_def lower_hex_digit_def less_eq_char_def)

lemma from_to_hex [simp]: "from_hex (to_hex bs) = Some bs"
proof (induction bs)
  case (Cons b bs)
  have "(of_char b :: nat) < 256" by simp
  then have "(of_char b :: nat) div 16 < 16" by linarith
  moreover have "(of_char b :: nat) div 16 * 16 + of_char b mod 16 = of_char b" by simp
  ultimately show ?case
    using Cons by (simp add: to_hex_def numeral_2_eq_2 lower_hex)
qed (simp add: to_hex_def)

lemma hex_no_special: "lower_hex_digit c \<noteq> None \<Longrightarrow> c \<noteq> dollar \<and> c \<noteq> newline"
  by (auto simp: lower_hex_digit_def less_eq_char_def)

lemma to_hex_chars: "c \<in> set (to_hex bs) \<Longrightarrow> c \<noteq> dollar"
proof -
  assume "c \<in> set (to_hex bs)"
  then obtain k :: nat where "c = digit_char (k mod 16)"
    by (auto simp: to_hex_def numeral_2_eq_2)
  moreover have "k mod 16 < 16" by simp
  ultimately obtain n :: nat where "n < 16" "c = digit_char n" by blast
  then show ?thesis using lower_hex [of n] hex_no_special [of c] by simp
qed

lemma from_hex_chars: "from_hex hex = Some out \<Longrightarrow> c \<in> set hex \<Longrightarrow> lower_hex_digit c \<noteq> None"
  by (induction hex arbitrary: out rule: from_hex.induct) (auto split: option.splits)

lemma digit_no_special: "is_digit c \<Longrightarrow> c \<noteq> dollar \<and> c \<noteq> newline"
  by (auto simp: is_digit_def less_eq_char_def)

lemma to_dec_no_dollar: "dollar \<notin> set (to_dec n)"
  using to_dec_digits digit_no_special by blast

lemma scheme_no_dollar: "dollar \<notin> set SCHEME" "newline \<notin> set SCHEME"
  by (simp_all add: SCHEME_def)

lemma to_dec_ITERATIONS: "to_dec ITERATIONS = ''100000''"
  by (simp add: ITERATIONS_def to_dec.simps digit_char_def hex_digits_def)

lemma parse_make_record:
  assumes "length salt = SALT_SIZE" "length hash = HASH_SIZE"
  shows "parse_record (SCHEME @ dollar # to_dec ITERATIONS @ dollar # to_hex salt @ dollar # to_hex hash) =
    Some \<lparr>pr_iterations = ITERATIONS, pr_salt = salt, pr_hash = hash\<rparr>"
proof -
  have nd: "dollar \<notin> set (to_hex bs)" for bs using to_hex_chars by blast
  have "to_hex hash \<noteq> []"
    using assms(2) by (auto simp: to_hex_def HASH_SIZE_def numeral_2_eq_2)
  then have f: "getlines dollar (SCHEME @ dollar # to_dec ITERATIONS @ dollar # to_hex salt @ dollar # to_hex hash) =
      [SCHEME, to_dec ITERATIONS, to_hex salt, to_hex hash]"
    using nd by (simp add: getlines_def split_on_append scheme_no_dollar to_dec_no_dollar)
  have digits: "list_all is_digit (to_dec ITERATIONS)" "length (to_dec ITERATIONS) \<le> 9"
    by (auto simp: list_all_iff to_dec_digits) (simp add: to_dec_ITERATIONS)
  have "ITERATIONS \<noteq> 0" "salt \<noteq> []" using assms(1) by (auto simp: ITERATIONS_def SALT_SIZE_def)
  then show ?thesis
    using digits assms unfolding parse_record_def f by (simp add: not_less)
qed

text \<open>What \<open>getline\<close> on \<open>$\<close> read, without the separators.\<close>

lemma getlines_chars: "c \<in> set s \<Longrightarrow> c = sep \<or> (\<exists>l \<in> set (getlines sep s). c \<in> set l)"
proof -
  assume c: "c \<in> set s"
  have "c = sep \<or> (\<exists>p \<in> set (split_on sep s). c \<in> set p)"
    using c set_join_with [of sep "split_on sep s"] by auto
  moreover have "p \<in> set (getlines sep s) \<or> p = []" if "p \<in> set (split_on sep s)" for p
  proof -
    have "set (split_on sep s) = insert (last (split_on sep s)) (set (butlast (split_on sep s)))"
      by (metis append_butlast_last_id list.simps(15) rotate1.simps(2) set_rotate1 split_on_not_Nil)
    with that show ?thesis by (auto simp: getlines_def Let_def)
  qed
  ultimately show ?thesis by fastforce
qed

lemma parse_record_Some:
  assumes "parse_record rec = Some p"
  shows "\<exists>n s h. getlines dollar rec = [SCHEME, n, s, h] \<and> list_all is_digit n \<and>
    from_hex s = Some (pr_salt p) \<and> from_hex h = Some (pr_hash p) \<and> length (pr_hash p) = HASH_SIZE"
proof -
  have "length (getlines dollar rec) = 4"
    using assms by (auto simp: parse_record_def Let_def split: if_splits)
  then obtain a n s h where f: "getlines dollar rec = [a, n, s, h]"
    by (auto simp: numeral_eq_Suc length_Suc_conv)
  show ?thesis
    using assms unfolding parse_record_def f by (auto simp: Let_def split: if_splits option.splits)
qed

lemma valid_record_line: "is_valid_record rec \<Longrightarrow> newline \<notin> set rec \<and> rec \<noteq> []"
proof -
  assume "is_valid_record rec"
  then obtain p where "parse_record rec = Some p" by (auto simp: is_valid_record_def)
  from parse_record_Some [OF this] obtain n s h
    where f: "getlines dollar rec = [SCHEME, n, s, h]" and n: "list_all is_digit n"
      and s: "from_hex s = Some (pr_salt p)" and h: "from_hex h = Some (pr_hash p)" by blast
  have nd: "newline \<notin> set s \<and> newline \<notin> set h"
    using from_hex_chars [OF s] from_hex_chars [OF h] hex_no_special by blast
  have "newline \<notin> set rec"
  proof
    assume "newline \<in> set rec"
    from getlines_chars [OF this, of dollar] f n nd scheme_no_dollar show False
      by (auto simp: list_all_iff dest: digit_no_special)
  qed
  moreover have "rec \<noteq> []" using f by (auto simp: getlines_def)
  ultimately show ?thesis by simp
qed

lemma first_line_record: "newline \<notin> set rec \<Longrightarrow> first_line (rec @ [newline]) = Some rec"
  by (simp add: first_line_def takeWhile_append)

section \<open>The store of accounts\<close>

definition accounts_of :: "string \<Rightarrow> os \<Rightarrow> string \<Rightarrow> string option" where
  "accounts_of dir os user = (if is_valid_username user then acc_get dir user os else None)"

lemma acc_get_file:
  assumes "is_valid_username user"
  shows "acc_get dir user os =
    (case file_at os (resolve dir @ [user]) of
       None \<Rightarrow> None
     | Some (bs, _) \<Rightarrow> (case first_line bs of None \<Rightarrow> None | Some rec \<Rightarrow> if is_valid_record rec then Some rec else None))"
proof -
  have good: "good_name user" by (rule valid_username_good [OF assms])
  then have "join_path dir user \<noteq> []" by (auto simp: good_name_def join_path_def)
  then have "sys_open_reg (join_path dir user) os = file_at os (resolve dir @ [user])"
    using sys_open_reg_Some [of "join_path dir user" os] resolve_join_name [OF good, of dir]
    by (metis not_Some_eq surj_pair)
  then show ?thesis by (simp add: acc_get_def)
qed

lemma acc_get_record:
  "is_valid_username user \<Longrightarrow> is_valid_record rec \<Longrightarrow>
     file_at os (resolve dir @ [user]) = Some (rec @ [newline], t) \<Longrightarrow> acc_get dir user os = Some rec"
  using valid_record_line [of rec] by (simp add: acc_get_file first_line_record)

lemma acc_get_cong:
  "os_node os (resolve dir @ [user]) = os_node os' (resolve dir @ [user]) \<Longrightarrow> is_valid_username user \<Longrightarrow>
     acc_get dir user os = acc_get dir user os'"
  by (simp add: acc_get_file file_at_def)

lemma remove_file_frame:
  assumes "wf_os os"
  shows "wf_os (snd (remove_file s os))" "q \<noteq> resolve s \<Longrightarrow> os_node (snd (remove_file s os)) q = os_node os q"
proof -
  obtain e os' where u: "sys_unlink s os = (e, os')" by fastforce
  then have r: "snd (remove_file s os) = os'" by (simp add: remove_file_def)
  show "wf_os (snd (remove_file s os))" "q \<noteq> resolve s \<Longrightarrow> os_node (snd (remove_file s os)) q = os_node os q"
    unfolding r using sys_unlink_ok [OF assms, of s os'] sys_unlink_err [of s os _ os'] u assms
    by (cases e; auto)+
qed

text \<open>Only the temporary file and the user's file change; the user's file all at once.\<close>

lemma acc_write_effect:
  assumes wf: "wf_os os" and user: "is_valid_username user" and w: "acc_write dir user rec os = (ok, os')"
  shows "wf_os os'"
    "ok \<Longrightarrow> \<exists>t. file_at os' (resolve dir @ [user]) = Some (rec @ [newline], t)"
    "\<not> ok \<Longrightarrow> os_node os' (resolve dir @ [user]) = os_node os (resolve dir @ [user])"
    "is_valid_username v \<Longrightarrow> v \<noteq> user \<Longrightarrow> os_node os' (resolve dir @ [v]) = os_node os (resolve dir @ [v])"
    "butlast q \<noteq> resolve dir \<Longrightarrow> os_node os' q = os_node os q"
proof -
  let ?temp = "join_path dir (temp_name (fst (next_random os)))"
  let ?T = "resolve dir @ [temp_name (fst (next_random os))]" and ?U = "resolve dir @ [user]"
  define os0 where "os0 = snd (next_random os)"
  have T: "resolve ?temp = ?T" and U: "resolve (join_path dir user) = ?U"
    by (rule resolve_join_name, simp) (rule resolve_join_name [OF valid_username_good [OF user]])
  have ne: "resolve dir @ [u] \<noteq> ?T" if "is_valid_username u" for u using that by auto
  have wf0: "wf_os os0" and n0: "os_node os0 = os_node os" using wf by (simp_all add: os0_def)
  note unf = acc_write_def make_temp_path_eq os0_def [symmetric] prod.case
  have *: "wf_os os' \<and> (ok \<longrightarrow> (\<exists>t. file_at os' ?U = Some (rec @ [newline], t))) \<and>
    (\<forall>q. q \<noteq> ?T \<longrightarrow> (q \<noteq> ?U \<or> \<not> ok) \<longrightarrow> os_node os' q = os_node os q)"
  proof (cases "sys_create ?temp os0")
    case (Pair e os1)
    show ?thesis
    proof (cases e)
      case (Some a)
      with Pair have "os1 = os0" using sys_create_err by blast
      with w [unfolded unf] Pair Some remove_file_frame [OF wf0, where s = ?temp] n0 T show ?thesis by auto
    next
      case None
      note c = sys_create_ok [OF wf0 Pair [unfolded None], unfolded T]
      obtain e2 os2 where wr: "sys_write ?temp (rec @ [newline]) os1 = (e2, os2)" by fastforce
      show ?thesis
      proof (cases e2)
        case (Some a)
        with wr have "os2 = os1" using sys_write_err by blast
        with w [unfolded unf] Pair None wr Some remove_file_frame [OF c(1), where s = ?temp] n0 T c(2)
        show ?thesis by auto
      next
        case e2: None
        from sys_write_ok [OF c(1) wr [unfolded e2]] c(2)
        have wf2: "wf_os os2" and n2: "os_node os2 = (os_node os)(?T \<mapsto> N_file (rec @ [newline]) (now os1))"
          by (auto simp: T n0)
        have rep: "replace_file ?temp (join_path dir user) os2 = (ok, os')"
          using w [unfolded unf] Pair None wr e2 by simp
        show ?thesis
        proof (cases ok)
          case True
          then have rep': "replace_file ?temp (join_path dir user) os2 = (True, os')" using rep by simp
          from replace_file_ok [OF wf2 rep', unfolded T U] ne [OF user] n2 True
          show ?thesis by (auto simp: file_at_Some)
        next
          case False
          with rep have "os' = os2" by (simp add: replace_file_err)
          with wf2 n2 False show ?thesis by auto
        qed
      qed
    qed
  qed
  show "wf_os os'" "ok \<Longrightarrow> \<exists>t. file_at os' ?U = Some (rec @ [newline], t)"
    "\<not> ok \<Longrightarrow> os_node os' ?U = os_node os ?U"
    "is_valid_username v \<Longrightarrow> v \<noteq> user \<Longrightarrow> os_node os' (resolve dir @ [v]) = os_node os (resolve dir @ [v])"
    using * ne [OF user] ne [of v] by auto
  show "butlast q \<noteq> resolve dir \<Longrightarrow> os_node os' q = os_node os q"
    using * by (metis butlast_snoc)
qed

text \<open>On the abstract map: an update on success, no change on failure.\<close>

lemma accounts_of_write:
  assumes "wf_os os" "is_valid_username user" "is_valid_record rec" "acc_write dir user rec os = (ok, os')"
  shows "wf_os os'"
    "accounts_of dir os' = (if ok then (accounts_of dir os)(user \<mapsto> rec) else accounts_of dir os)"
proof -
  note e = acc_write_effect [OF assms(1,2,4)]
  show "wf_os os'" by (rule e(1))
  show "accounts_of dir os' = (if ok then (accounts_of dir os)(user \<mapsto> rec) else accounts_of dir os)"
  proof
    fix v
    consider "v = user" | "v \<noteq> user" "is_valid_username v" | "\<not> is_valid_username v" by blast
    then show "accounts_of dir os' v = (if ok then (accounts_of dir os)(user \<mapsto> rec) else accounts_of dir os) v"
    proof cases
      case 1
      with e(2,3) assms(2,3) acc_get_record acc_get_cong [of os' dir user os] show ?thesis
        by (cases ok) (auto simp: accounts_of_def)
    next
      case 2
      with e(4) [of v] acc_get_cong [of os' dir v os] show ?thesis by (simp add: accounts_of_def)
    next
      case 3
      with assms(2) have "v \<noteq> user" by auto
      with 3 show ?thesis by (simp add: accounts_of_def)
    qed
  qed
qed

text \<open>The accounts are a store in the sense of \<open>kv_store\<close>.\<close>

definition record_of :: "os \<Rightarrow> string \<Rightarrow> string option" where
  "record_of os rec = (if is_valid_record rec then Some rec else None)"

interpretation acct: kv_store "accounts_of dir" wf_os is_valid_username record_of "acc_put dir"
  by unfold_locales (auto simp: record_of_def acc_put_def dest: accounts_of_write split: if_splits)

lemma acc_write_succeeds:
  assumes wf: "wf_os os" and user: "is_valid_username user"
    and dir: "os_node os (resolve dir) = Some N_dir" "file_limit os = None"
    and free: "os_node os (resolve dir @ [user]) \<noteq> Some N_dir"
      "os_node os (resolve dir @ [temp_name (fst (next_random os))]) = None"
  shows "\<exists>os'. acc_write dir user rec os = (True, os')"
proof -
  let ?temp = "join_path dir (temp_name (fst (next_random os)))"
  let ?T = "resolve dir @ [temp_name (fst (next_random os))]" and ?U = "resolve dir @ [user]"
  define os0 where "os0 = snd (next_random os)"
  have T: "resolve ?temp = ?T" and U: "resolve (join_path dir user) = ?U"
    by (rule resolve_join_name, simp) (rule resolve_join_name [OF valid_username_good [OF user]])
  have "temp_name r \<noteq> []" for r by (simp add: temp_name_def RESERVED_PREFIX_def)
  then have t0: "?temp \<noteq> []" by (rule join_path_not_Nil)
  have u0: "join_path dir user \<noteq> []" using user by (intro join_path_not_Nil) (auto simp: is_valid_username_def)
  have wf0: "wf_os os0" and n0: "os_node os0 = os_node os" using wf by (simp_all add: os0_def)
  obtain os1 where c: "sys_create ?temp os0 = (None, os1)"
    using t0 dir free by (simp add: sys_create_def T n0)
  note e = sys_create_ok [OF wf0 c, unfolded T n0]
  have env: "file_limit os1 = None"
    using same_env_calls(5) [of os0 ?temp] dir c by (simp add: same_env_def os0_def next_random_def)
  obtain os2 where w: "sys_write ?temp (rec @ [newline]) os1 = (None, os2)"
    using e(2) env by (simp add: sys_write_def T)
  from sys_write_ok [OF e(1) w] e(2)
  have n2: "os_node os2 = (os_node os)(?T \<mapsto> N_file (rec @ [newline]) (now os1))" by (auto simp: T)
  have "temp_name (fst (next_random os)) \<noteq> user" using user by auto
  then obtain os3 where "replace_file ?temp (join_path dir user) os2 = (True, os3)"
    using replace_file_succeeds [OF u0, of os2 ?temp] n2 dir free by (auto simp: T U)
  with c w show ?thesis by (simp add: acc_write_def make_temp_path_eq os0_def [symmetric])
qed

lemma acc_all_iff:
  assumes "wf_os os" "dir \<noteq> []"
  shows "(u, rec) \<in> set (acc_all dir os) \<longleftrightarrow> accounts_of dir os u = Some rec"
proof -
  have "u \<in> set (case sys_readdir dir os of None \<Rightarrow> [] | Some names \<Rightarrow> names)"
    if "is_valid_username u" "acc_get dir u os = Some rec"
  proof -
    have "os_node os (resolve dir @ [u]) \<noteq> None"
      using that by (auto simp: acc_get_file file_at_def split: option.splits)
    then have "os_node os (resolve dir) = Some N_dir" "u \<in> set (children os (resolve dir))"
      using wf_os_parent [OF assms(1), of "resolve dir @ [u]"] children_iff [OF assms(1)] by auto
    with assms(2) show ?thesis by (simp add: sys_readdir_def sys_is_dir_def)
  qed
  then show ?thesis
    by (auto simp: acc_all_def accounts_of_def Let_def split: option.splits if_splits)
qed

section \<open>Properties\<close>

text \<open>
  Passwords: the record that \<open>make_record\<close> builds from a password is valid, and
  \<open>verify\<close> accepts exactly those passwords from which the key derivation gives the same hash
  with the stored salt and iteration count; in particular the password itself.
\<close>

theorem verify_made_record:
  assumes "derive password salt ITERATIONS = Some hash"
    and "length hash = HASH_SIZE" "length salt = SALT_SIZE"
  shows "is_valid_record (make_record derive (Some salt) password) \<and>
    verify_record derive (make_record derive (Some salt) password) password \<and>
    verify_record derive (make_record derive (Some salt) password) attempt =
      (case derive attempt salt ITERATIONS of None \<Rightarrow> False | Some h \<Rightarrow> take HASH_SIZE h = hash)"
  using assms parse_make_record [OF assms(3,2)]
  by (simp add: make_record_def is_valid_record_def verify_record_def split: option.split)

theorem verify_made_record_witness:
  "is_valid_record (make_record (\<lambda>p s n. Some (take 32 (p @ replicate 32 CHR ''0''))) (Some (replicate 16 CHR ''s'')) ''secret'') \<and>
   verify_record (\<lambda>p s n. Some (take 32 (p @ replicate 32 CHR ''0'')))
     (make_record (\<lambda>p s n. Some (take 32 (p @ replicate 32 CHR ''0''))) (Some (replicate 16 CHR ''s'')) ''secret'') ''secret'' \<and>
   verify_record (\<lambda>p s n. Some (take 32 (p @ replicate 32 CHR ''0'')))
     (make_record (\<lambda>p s n. Some (take 32 (p @ replicate 32 CHR ''0''))) (Some (replicate 16 CHR ''s'')) ''secret'') ''guess'' =
     (case (\<lambda>p s n. Some (take 32 (p @ replicate 32 CHR ''0''))) ''guess'' (replicate 16 CHR ''s'') ITERATIONS of
        None \<Rightarrow> False | Some h \<Rightarrow> take HASH_SIZE h = take 32 (''secret'' @ replicate 32 CHR ''0''))"
  by (rule verify_made_record) (simp_all add: HASH_SIZE_def SALT_SIZE_def)

text \<open>
  \<open>create\<close> never overwrites an account: when the user has one, it reports failure and
  leaves the file system as it was.
\<close>

theorem create_never_overwrites:
  assumes "acc_get dir user os = Some rec"
  shows "acc_create dir user new_record os = (False, os)"
proof -
  have "sys_lstat (join_path dir user) os \<noteq> None"
    using assms by (auto simp: acc_get_def sys_open_reg_def split: option.splits)
  then show ?thesis by (simp add: acc_create_def)
qed

theorem create_never_overwrites_witness:
  "acc_create ''d'' ''u'' ''x''
     \<lparr>tree = [([''d''], N_dir), ([''d'', ''u''], N_file (''pbkdf2-sha256$1$00$'' @ replicate 64 CHR ''a'' @ [newline]) 0)],
      file_limit = None, cut_at = None, now = 0, rnd = \<lambda>_. 0, rnd_pos = 0\<rparr> =
   (False, \<lparr>tree = [([''d''], N_dir), ([''d'', ''u''], N_file (''pbkdf2-sha256$1$00$'' @ replicate 64 CHR ''a'' @ [newline]) 0)],
      file_limit = None, cut_at = None, now = 0, rnd = \<lambda>_. 0, rnd_pos = 0\<rparr>)"
  by (rule create_never_overwrites [where rec = "''pbkdf2-sha256$1$00$'' @ replicate 64 CHR ''a''"]) code_simp

text \<open>
  The accounts are a map from users to records: storing a record updates that user's
  entry and no other when it succeeds, and changes no account when it fails.
\<close>

theorem put_account_refines:
  assumes "wf_os os" "is_valid_username user" "is_valid_record rec"
  shows "case acc_put dir user rec os of (ok, os') \<Rightarrow>
    wf_os os' \<and> accounts_of dir os' = (if ok then (accounts_of dir os)(user \<mapsto> rec) else accounts_of dir os)"
  using acct.put_law [OF assms(1,2), of rec rec dir] assms(3)
  by (cases "acc_put dir user rec os") (simp add: record_of_def)

theorem put_account_refines_witness:
  "case acc_put ''d'' ''u'' (''pbkdf2-sha256$1$00$'' @ replicate 64 CHR ''a'')
      \<lparr>tree = [([''d''], N_dir)], file_limit = None, cut_at = None, now = 0, rnd = \<lambda>_. 0, rnd_pos = 0\<rparr> of (ok, os') \<Rightarrow>
    wf_os os' \<and> accounts_of ''d'' os' =
      (if ok then (accounts_of ''d'' \<lparr>tree = [([''d''], N_dir)], file_limit = None, cut_at = None, now = 0, rnd = \<lambda>_. 0, rnd_pos = 0\<rparr>)
          (''u'' \<mapsto> ''pbkdf2-sha256$1$00$'' @ replicate 64 CHR ''a'')
       else accounts_of ''d'' \<lparr>tree = [([''d''], N_dir)], file_limit = None, cut_at = None, now = 0, rnd = \<lambda>_. 0, rnd_pos = 0\<rparr>)"
  by (rule put_account_refines; code_simp)

text \<open>
  \<open>put\<close> succeeds whenever the accounts directory exists, the disk does not run full and
  neither a directory nor a left-over temporary file is in the way; the record is then read
  back, and \<open>all\<close> lists it.
\<close>

theorem put_account_succeeds:
  assumes "wf_os os" "is_valid_username user" "is_valid_record rec" "dir \<noteq> []"
    and "os_node os (resolve dir) = Some N_dir" "file_limit os = None"
    and "os_node os (resolve dir @ [user]) \<noteq> Some N_dir"
    and "os_node os (resolve dir @ [temp_name (fst (next_random os))]) = None"
  shows "\<exists>os'. acc_put dir user rec os = (True, os') \<and> acc_get dir user os' = Some rec \<and>
    (user, rec) \<in> set (acc_all dir os')"
proof -
  obtain os' where w: "acc_write dir user rec os = (True, os')"
    using acc_write_succeeds [OF assms(1,2,5-8)] by blast
  from accounts_of_write [OF assms(1-3) w] have "wf_os os'" "accounts_of dir os' user = Some rec" by auto
  with acc_all_iff [OF _ assms(4), of os' user rec] w assms(2) show ?thesis
    by (auto simp: acc_put_def accounts_of_def)
qed

theorem put_account_succeeds_witness:
  "\<exists>os'. acc_put ''d'' ''u'' (''pbkdf2-sha256$1$00$'' @ replicate 64 CHR ''a'')
      \<lparr>tree = [([''d''], N_dir)], file_limit = None, cut_at = None, now = 0, rnd = \<lambda>_. 0, rnd_pos = 0\<rparr> = (True, os') \<and>
    acc_get ''d'' ''u'' os' = Some (''pbkdf2-sha256$1$00$'' @ replicate 64 CHR ''a'') \<and>
    (''u'', ''pbkdf2-sha256$1$00$'' @ replicate 64 CHR ''a'') \<in> set (acc_all ''d'' os')"
  by (rule put_account_succeeds; code_simp)

end
