(* ===== verification/File_Times.thy ===== *)
theory File_Times
  imports FileTransfer
begin

text \<open>
  What \<open>set_mtime\<close> and \<open>hash_file\<close> of \<open>common/files.cpp\<close> do to and say of a file; the storage of
  the server and the client share these facts.
\<close>

section \<open>Modification times\<close>

lemma tdiv_tmod: "tdiv a b * b + tmod a b = a"
  by (simp add: tmod_def)

lemma tmod_less: "0 < b \<Longrightarrow> tmod a b < b"
proof -
  assume b: "0 < b"
  show ?thesis
  proof (cases "0 \<le> a")
    case True
    with b show ?thesis by (cases "a = 0") (simp_all add: tmod_def tdiv_def minus_mult_div_eq_mod)
  next
    case False
    then have "tmod a b = - (\<bar>a\<bar> mod b)"
      by (simp add: tmod_def tdiv_def minus_div_mult_eq_mod [symmetric])
    with b pos_mod_sign [of b "\<bar>a\<bar>"] show ?thesis by linarith
  qed
qed

lemma tmod_nonneg: "0 \<le> a \<Longrightarrow> 0 < b \<Longrightarrow> 0 \<le> tmod a b"
  by (cases "a = 0") (simp_all add: tmod_def tdiv_def minus_mult_div_eq_mod)

text \<open>The times that \<open>set_mtime\<close> can set: \<open>utimensat\<close> refuses a negative nanosecond field.\<close>

definition mtime_exact :: "i64 \<Rightarrow> bool" where
  "mtime_exact m \<longleftrightarrow> 0 \<le> tmod (sint m) 1000000000"

lemma mtime_of_sint [simp]: "mtime_of (sint m) = m"
  by (simp add: mtime_of_def)

lemma set_mtime_effect:
  assumes "wf_os os"
  shows "wf_os (snd (set_mtime s m os))"
    "file_at (snd (set_mtime s m os)) q =
      (if q = resolve s \<and> s \<noteq> [] \<and> mtime_exact m
       then map_option (\<lambda>(bs, t). (bs, sint m)) (file_at os q) else file_at os q)"
    "os_node (snd (set_mtime s m os)) q = Some N_dir \<longleftrightarrow> os_node os q = Some N_dir"
    "q \<noteq> resolve s \<Longrightarrow> os_node (snd (set_mtime s m os)) q = os_node os q"
    "same_env os (snd (set_mtime s m os))"
proof -
  let ?d = "tdiv (sint m) 1000000000" and ?n = "tmod (sint m) 1000000000"
  have eq: "snd (set_mtime s m os) = snd (sys_utimens s ?d ?n os)"
    by (simp add: set_mtime_def split: prod.splits)
  have range: "?n < 1000000000" "?d * 1000000000 + ?n = sint m" using tmod_less tdiv_tmod by auto
  have "wf_os (snd (set_mtime s m os)) \<and>
    (file_at (snd (set_mtime s m os)) q =
      (if q = resolve s \<and> s \<noteq> [] \<and> mtime_exact m
       then map_option (\<lambda>(bs, t). (bs, sint m)) (file_at os q) else file_at os q)) \<and>
    (os_node (snd (set_mtime s m os)) q = Some N_dir \<longleftrightarrow> os_node os q = Some N_dir) \<and>
    (q \<noteq> resolve s \<longrightarrow> os_node (snd (set_mtime s m os)) q = os_node os q)"
  proof (cases "s \<noteq> [] \<and> (\<exists>bs t. os_node os (resolve s) = Some (N_file bs t))")
    case True
    then obtain bs t where n: "os_node os (resolve s) = Some (N_file bs t)" and s: "s \<noteq> []" by auto
    from sys_utimens_effect [OF assms n s, of ?d ?n] range s show ?thesis
      by (auto simp: eq mtime_exact_def n file_at_def)
  next
    case False
    then have "snd (sys_utimens s ?d ?n os) = os"
      by (auto simp: sys_utimens_def sys_lstat_def split: option.splits node.splits)
    moreover have "s \<noteq> [] \<Longrightarrow> file_at os (resolve s) = None"
      using False by (auto simp: file_at_def split: option.splits node.splits)
    ultimately show ?thesis using assms by (auto simp: eq)
  qed
  then show "wf_os (snd (set_mtime s m os))"
    "file_at (snd (set_mtime s m os)) q =
      (if q = resolve s \<and> s \<noteq> [] \<and> mtime_exact m
       then map_option (\<lambda>(bs, t). (bs, sint m)) (file_at os q) else file_at os q)"
    "os_node (snd (set_mtime s m os)) q = Some N_dir \<longleftrightarrow> os_node os q = Some N_dir"
    "q \<noteq> resolve s \<Longrightarrow> os_node (snd (set_mtime s m os)) q = os_node os q"
    by auto
  show "same_env os (snd (set_mtime s m os))" by (simp add: eq)
qed

section \<open>The hash of the contents\<close>

definition content_hash :: "string \<Rightarrow> u64" where
  "content_hash bs = fnv_hash (take (unat (of_nat (length bs) :: u64)) bs)"

lemma content_hash_small: "small bs \<Longrightarrow> content_hash bs = fnv_hash bs"
  by (simp add: content_hash_def unat_length_u64)

lemma hash_file_eq:
  assumes "path \<noteq> []" "file_at os (resolve path) = Some (bs, t)" "cut_at os = None"
  shows "hash_file path os = Some (content_hash bs)"
proof -
  have "\<not> length bs < unat (of_nat (length bs) :: u64)"
    by (simp add: unat_of_nat not_less)
  then show ?thesis
    using assms
    by (simp add: hash_file_def stat_file_def sys_open_reg_Some [THEN iffD2] readable_def hash_fd_def
        hash_fd_loop_eq content_hash_def fnv_hash_def)
qed

end
