(* ===== verification/Storage.thy ===== *)
theory Storage
  imports Listing KeyValue File_Times
begin

text \<open>
  \<open>server/storage.hpp\<close> and \<open>server/storage.cpp\<close>: a server's copy of every user's files,
  with the cache of content hashes. The file system is passed beside the store. The abstract
  view is the map \<open>user_files\<close> from a user and a path to contents and modification time.
\<close>

record store =
  st_root :: string
  st_cache :: "(string, file_info) omap" \<comment> \<open>by full path\<close>

definition new_store :: "string \<Rightarrow> store" where
  "new_store root = \<lparr>st_root = root, st_cache = []\<rparr>"

definition users_dir :: "store \<Rightarrow> string" where
  "users_dir st = join_path (st_root st) ''users''"

definition tmp_dir :: "store \<Rightarrow> string" where
  "tmp_dir st = join_path (st_root st) ''tmp''"

definition accounts_dir :: "store \<Rightarrow> string" where
  "accounts_dir st = join_path (st_root st) ''accounts''"

definition user_dir :: "store \<Rightarrow> string \<Rightarrow> string" where
  "user_dir st user = join_path (users_dir st) user"

definition file_path :: "store \<Rightarrow> string \<Rightarrow> string \<Rightarrow> string" where
  "file_path st user path = join_path (user_dir st user) path"

definition new_temp_path :: "store \<Rightarrow> os \<Rightarrow> string \<times> os" where
  "new_temp_path st os = make_temp_path (tmp_dir st) os"

section \<open>Operations\<close>

fun remove_leftovers :: "string \<Rightarrow> string list \<Rightarrow> os \<Rightarrow> os" where
  "remove_leftovers dir [] os = os"
| "remove_leftovers dir (name # names) os =
     remove_leftovers dir names
       (if name \<noteq> ''.'' \<and> name \<noteq> ''..'' then snd (remove_file (join_path dir name) os) else os)"

definition store_init :: "store \<Rightarrow> os \<Rightarrow> bool \<times> os" where
  "store_init st os =
     (case make_dirs (users_dir st) os of
        (False, os) \<Rightarrow> (False, os)
      | (True, os) \<Rightarrow>
          (case make_dirs (tmp_dir st) os of
             (False, os) \<Rightarrow> (False, os)
           | (True, os) \<Rightarrow>
               (case sys_readdir (tmp_dir st) os of
                  None \<Rightarrow> (True, os)
                | Some names \<Rightarrow> (True, remove_leftovers (tmp_dir st) names os))))"

definition ensure_user :: "store \<Rightarrow> string \<Rightarrow> os \<Rightarrow> bool \<times> os" where
  "ensure_user st user os = make_dirs (user_dir st user) os"

definition store_users :: "store \<Rightarrow> os \<Rightarrow> string list" where
  "store_users st os =
     sort (case sys_readdir (users_dir st) os of
             None \<Rightarrow> []
           | Some names \<Rightarrow> filter (\<lambda>name. is_valid_username name \<and> sys_is_dir (user_dir st name) os) names)"

text \<open>The loop of \<open>list\<close> over the files found, with the cache.\<close>

fun list_loop :: "string \<Rightarrow> os \<Rightarrow> file_info list \<Rightarrow> store \<Rightarrow> file_info list \<times> store" where
  "list_loop user os [] st = ([], st)"
| "list_loop user os (f # fs) st =
     (let path = file_path st user (fi_name f);
          cached = (case map_of (st_cache st) path of
                      None \<Rightarrow> None
                    | Some c \<Rightarrow> if fi_size c = fi_size f \<and> fi_mtime c = fi_mtime f then Some (fi_hash c) else None)
      in case cached of
           Some h \<Rightarrow> (case list_loop user os fs st of (l, st) \<Rightarrow> (f\<lparr>fi_hash := h\<rparr> # l, st))
         | None \<Rightarrow>
             (case hash_file path os of
                None \<Rightarrow> list_loop user os fs st
              | Some h \<Rightarrow>
                  (case list_loop user os fs (st\<lparr>st_cache := omap_put path (f\<lparr>fi_hash := h\<rparr>) (st_cache st)\<rparr>) of
                     (l, st) \<Rightarrow> (f\<lparr>fi_hash := h\<rparr> # l, st))))"

definition store_list :: "store \<Rightarrow> string \<Rightarrow> os \<Rightarrow> file_info list \<times> store" where
  "store_list st user os = list_loop user os (list_tree (user_dir st user) os) st"

text \<open>\<open>commit\<close> up to the point where the cached hash has been dropped, and the rest.\<close>

definition commit_prepare :: "store \<Rightarrow> string \<Rightarrow> string \<Rightarrow> string \<Rightarrow> i64 \<Rightarrow> os \<Rightarrow> bool \<times> store \<times> os" where
  "commit_prepare st user path temp mtime os =
     (case ensure_user st user os of
        (False, os) \<Rightarrow> (False, st, os)
      | (True, os) \<Rightarrow>
          (case make_parent_dirs (user_dir st user) path os of
             (False, os) \<Rightarrow> (False, st, os)
           | (True, os) \<Rightarrow>
               (case set_mtime temp mtime os of (_, os) \<Rightarrow>
                  (True, st\<lparr>st_cache := omap_del (file_path st user path) (st_cache st)\<rparr>, os))))"

definition store_commit :: "store \<Rightarrow> string \<Rightarrow> string \<Rightarrow> string \<Rightarrow> i64 \<Rightarrow> os \<Rightarrow> bool \<times> store \<times> os" where
  "store_commit st user path temp mtime os =
     (case commit_prepare st user path temp mtime os of
        (False, st, os) \<Rightarrow> (False, st, os)
      | (True, st, os) \<Rightarrow>
          (case replace_file temp (file_path st user path) os of (ok, os) \<Rightarrow> (ok, st, os)))"

definition store_remove :: "store \<Rightarrow> string \<Rightarrow> string \<Rightarrow> os \<Rightarrow> bool \<times> store \<times> os" where
  "store_remove st user path os =
     (case remove_file (file_path st user path) os of
        (False, os) \<Rightarrow> (False, st, os)
      | (True, os) \<Rightarrow>
          (True, st\<lparr>st_cache := omap_del (file_path st user path) (st_cache st)\<rparr>,
           remove_empty_parents (user_dir st user) path os))"

section \<open>Where the files are\<close>

definition user_base :: "store \<Rightarrow> string \<Rightarrow> fpath" where
  "user_base st user = resolve (st_root st) @ [''users'', user]"

definition file_node :: "store \<Rightarrow> string \<Rightarrow> string \<Rightarrow> fpath" where
  "file_node st user path = user_base st user @ split_on slash path"

lemma good_users [simp]: "good_name ''users''" "good_name ''tmp''" "good_name ''accounts''"
  by (simp_all add: good_name_def)

lemma resolve_users_dir [simp]: "resolve (users_dir st) = resolve (st_root st) @ [''users'']"
  by (simp add: users_dir_def resolve_join_name)

lemma resolve_tmp_dir [simp]: "resolve (tmp_dir st) = resolve (st_root st) @ [''tmp'']"
  by (simp add: tmp_dir_def resolve_join_name)

lemma resolve_user_dir: "is_valid_username user \<Longrightarrow> resolve (user_dir st user) = user_base st user"
  by (simp add: user_dir_def resolve_join_name valid_username_good user_base_def)

lemma resolve_file_path:
  "is_valid_username user \<Longrightarrow> is_valid_path path \<Longrightarrow> resolve (file_path st user path) = file_node st user path"
  by (simp add: file_path_def resolve_join_valid resolve_user_dir file_node_def)

lemma file_node_inj: "file_node st u p = file_node st v q \<longleftrightarrow> u = v \<and> p = q"
  by (auto simp: file_node_def user_base_def dest: split_on_inj)

lemma file_path_inj:
  "\<lbrakk>is_valid_username u; is_valid_path p; is_valid_username v; is_valid_path q\<rbrakk> \<Longrightarrow>
     file_path st u p = file_path st v q \<longleftrightarrow> u = v \<and> p = q"
  using resolve_file_path [of u p st] resolve_file_path [of v q st] file_node_inj [of st u p v q] by auto

lemma paths_not_Nil: "users_dir st \<noteq> []" "tmp_dir st \<noteq> []"
  by (simp_all add: users_dir_def tmp_dir_def join_path_def)

lemma user_dir_not_Nil: "user_dir st user \<noteq> []"
  using paths_not_Nil by (auto simp: user_dir_def join_path_def)

lemma file_path_not_Nil: "file_path st user path \<noteq> []"
  using user_dir_not_Nil by (auto simp: file_path_def join_path_def)

section \<open>The abstract view\<close>

definition user_files :: "store \<Rightarrow> os \<Rightarrow> string \<times> string \<Rightarrow> (string \<times> i64) option" where
  "user_files st os = (\<lambda>(user, path).
     if is_valid_username user \<and> is_valid_path path
     then map_option (\<lambda>(bs, t). (bs, mtime_of t)) (file_at os (file_node st user path))
     else None)"

definition info_of :: "string \<Rightarrow> string \<times> i64 \<Rightarrow> file_info" where
  "info_of path v =
     \<lparr>fi_name = path, fi_size = of_nat (length (fst v)), fi_mtime = snd v, fi_hash = content_hash (fst v)\<rparr>"

lemma cache_update_simps [simp]:
  "user_files (st\<lparr>st_cache := c\<rparr>) = user_files st" "file_path (st\<lparr>st_cache := c\<rparr>) = file_path st"
  "user_dir (st\<lparr>st_cache := c\<rparr>) = user_dir st" "file_node (st\<lparr>st_cache := c\<rparr>) = file_node st"
  "tmp_dir (st\<lparr>st_cache := c\<rparr>) = tmp_dir st" "users_dir (st\<lparr>st_cache := c\<rparr>) = users_dir st"
  by (simp_all add: user_files_def file_path_def user_dir_def users_dir_def tmp_dir_def
      file_node_def user_base_def fun_eq_iff)

text \<open>
  The cache is coherent: an entry with the size and the time of the file it is filed
  under holds that file's hash.
\<close>

definition cache_ok :: "store \<Rightarrow> os \<Rightarrow> bool" where
  "cache_ok st os \<longleftrightarrow> omap_wf (st_cache st) \<and>
     (\<forall>u p c bs m. map_of (st_cache st) (file_path st u p) = Some c \<longrightarrow> user_files st os (u, p) = Some (bs, m) \<longrightarrow>
        fi_size c = of_nat (length bs) \<longrightarrow> fi_mtime c = m \<longrightarrow> fi_hash c = content_hash bs)"

definition store_ok :: "store \<times> os \<Rightarrow> bool" where
  "store_ok = (\<lambda>(st, os). wf_os os \<and> cache_ok st os)"

lemma store_ok_new: "store_ok (new_store root, os) = wf_os os"
  by (simp add: store_ok_def cache_ok_def new_store_def)

lemma cache_okD:
  "\<lbrakk>cache_ok st os; map_of (st_cache st) (file_path st u p) = Some c; user_files st os (u, p) = Some (bs, m);
    fi_size c = of_nat (length bs); fi_mtime c = m\<rbrakk> \<Longrightarrow> fi_hash c = content_hash bs"
  unfolding cache_ok_def by blast

lemma user_files_valid: "user_files st os (u, p) = Some v \<Longrightarrow> is_valid_username u \<and> is_valid_path p"
  by (simp add: user_files_def split: if_splits)

lemma user_files_frame:
  "(\<And>u p. is_valid_username u \<Longrightarrow> is_valid_path p \<Longrightarrow> file_at os' (file_node st u p) = file_at os (file_node st u p)) \<Longrightarrow>
     user_files st os' = user_files st os"
  by (simp add: user_files_def fun_eq_iff)

text \<open>Dropping one entry makes room for any change of that one file.\<close>

lemma cache_ok_drop:
  assumes "cache_ok st os" "is_valid_username u" "is_valid_path p"
    and "\<And>v q. (v, q) \<noteq> (u, p) \<Longrightarrow> user_files st os' (v, q) = user_files st os (v, q)"
  shows "cache_ok (st\<lparr>st_cache := omap_del (file_path st u p) (st_cache st)\<rparr>) os'"
proof -
  let ?c = "omap_del (file_path st u p) (st_cache st)"
  have "fi_hash c = content_hash bs"
    if c: "map_of ?c (file_path st v q) = Some c" and f: "user_files st os' (v, q) = Some (bs, m)"
      and m: "fi_size c = of_nat (length bs)" "fi_mtime c = m" for v q c bs m
  proof -
    have "(v, q) \<noteq> (u, p)" using c by (auto simp: omap_del_lookup)
    with f assms(4) have f': "user_files st os (v, q) = Some (bs, m)" by simp
    have "map_of (st_cache st) (file_path st v q) = Some c"
      using c by (auto simp: omap_del_lookup split: if_splits)
    from cache_okD [OF assms(1) this f' m] show ?thesis .
  qed
  moreover have "omap_wf ?c" using assms(1) by (simp add: cache_ok_def omap_wf_del)
  ultimately show ?thesis by (simp add: cache_ok_def)
qed

lemma cache_ok_put:
  assumes "cache_ok st os" "user_files st os (u, p) = Some v"
  shows "cache_ok (st\<lparr>st_cache := omap_put (file_path st u p) (info_of p v) (st_cache st)\<rparr>) os"
proof -
  let ?c = "omap_put (file_path st u p) (info_of p v) (st_cache st)"
  have wf: "omap_wf (st_cache st)" using assms(1) by (simp add: cache_ok_def)
  have "fi_hash c = content_hash bs"
    if c: "map_of ?c (file_path st w q) = Some c" and f: "user_files st os (w, q) = Some (bs, m)"
      and m: "fi_size c = of_nat (length bs)" "fi_mtime c = m" for w q c bs m
  proof (cases "(w, q) = (u, p)")
    case True
    with c f assms(2) wf show ?thesis by (auto simp: omap_put_lookup info_of_def)
  next
    case False
    then have "file_path st w q \<noteq> file_path st u p"
      using file_path_inj user_files_valid [OF f] user_files_valid [OF assms(2)] by blast
    with c wf have "map_of (st_cache st) (file_path st w q) = Some c" by (simp add: omap_put_lookup)
    from cache_okD [OF assms(1) this f m] show ?thesis .
  qed
  with wf show ?thesis by (simp add: cache_ok_def omap_wf_put)
qed

section \<open>Listing\<close>

lemma listed_user_file:
  "is_valid_username u \<Longrightarrow> listed os (user_base st u) f \<longleftrightarrow>
     fi_hash f = 0 \<and> (\<exists>v. user_files st os (u, fi_name f) = Some v \<and> fi_size f = of_nat (length (fst v)) \<and> fi_mtime f = snd v)"
  by (auto simp: listed_def user_files_def file_node_def split: option.splits)

lemma list_loop_spec:
  "\<lbrakk>cache_ok st os; cut_at os = None; is_valid_username u; list_all (listed os (user_base st u)) fs;
    list_loop u os fs st = (l, st')\<rbrakk> \<Longrightarrow>
   cache_ok st' os \<and> st_root st' = st_root st \<and>
   l = map (\<lambda>f. info_of (fi_name f) (the (user_files st os (u, fi_name f)))) fs"
proof (induction fs arbitrary: st l st')
  case (Cons f fs)
  let ?path = "file_path st u (fi_name f)"
  obtain v where v: "user_files st os (u, fi_name f) = Some v"
    and f: "fi_size f = of_nat (length (fst v))" "fi_mtime f = snd v" "fi_hash f = 0"
    using Cons.prems(3,4) by (auto simp: listed_user_file)
  have info: "f\<lparr>fi_hash := content_hash (fst v)\<rparr> = info_of (fi_name f) v"
    using f by (cases f) (simp add: info_of_def)
  have base: "user_base (st\<lparr>st_cache := c\<rparr>) = user_base st" for c by (simp add: user_base_def fun_eq_iff)
  have p: "is_valid_path (fi_name f)" using user_files_valid [OF v] by simp
  from v obtain t where fa: "file_at os (resolve ?path) = Some (fst v, t)"
    using Cons.prems(3) p by (auto simp: user_files_def resolve_file_path)
  have hash: "hash_file ?path os = Some (content_hash (fst v))"
    by (rule hash_file_eq [OF file_path_not_Nil fa Cons.prems(2)])
  show ?case
  proof (cases "\<exists>c. map_of (st_cache st) ?path = Some c \<and> fi_size c = fi_size f \<and> fi_mtime c = fi_mtime f")
    case True
    then obtain c where c: "map_of (st_cache st) ?path = Some c" "fi_size c = fi_size f" "fi_mtime c = fi_mtime f"
      by blast
    have "fi_hash c = content_hash (fst v)"
      using cache_okD [OF Cons.prems(1) c(1), of "fst v" "snd v"] v c f by simp
    moreover obtain l1 st1 where r: "list_loop u os fs st = (l1, st1)" by fastforce
    ultimately show ?thesis
      using Cons.IH [OF Cons.prems(1,2,3) _ r] Cons.prems(4,5) c v info by (auto simp: Let_def)
  next
    case False
    let ?st = "st\<lparr>st_cache := omap_put ?path (f\<lparr>fi_hash := content_hash (fst v)\<rparr>) (st_cache st)\<rparr>"
    obtain l1 st1 where r: "list_loop u os fs ?st = (l1, st1)" by fastforce
    have ok: "cache_ok ?st os" unfolding info by (rule cache_ok_put [OF Cons.prems(1) v])
    have "l = info_of (fi_name f) v # l1 \<and> st' = st1"
      using Cons.prems(5) False hash r by (auto simp: Let_def info split: option.splits if_splits)
    with Cons.IH [OF ok Cons.prems(2,3) _ r] Cons.prems(4) v base show ?thesis by auto
  qed
qed simp

lemma store_list_spec:
  assumes "store_ok (st, os)" "cut_at os = None" "is_valid_username u" "store_list st u os = (l, st')"
  shows "cache_ok st' os" "st_root st' = st_root st" "sorted_wrt (<) (map fi_name l)"
    "info \<in> set l \<longleftrightarrow> (\<exists>v. user_files st os (u, fi_name info) = Some v \<and> info = info_of (fi_name info) v)"
proof -
  let ?fs = "list_tree (user_dir st u) os"
  have wf: "wf_os os" and ok: "cache_ok st os" using assms(1) by (simp_all add: store_ok_def)
  note iff = list_tree_iff [OF wf user_dir_not_Nil, of _ st u, unfolded resolve_user_dir [OF assms(3)]]
  have all: "list_all (listed os (user_base st u)) ?fs" using iff by (simp add: list_all_iff)
  note spec = list_loop_spec [OF ok assms(2,3) all assms(4) [unfolded store_list_def]]
  from spec show "cache_ok st' os" "st_root st' = st_root st" by blast+
  from spec have l: "l = map (\<lambda>f. info_of (fi_name f) (the (user_files st os (u, fi_name f)))) ?fs" by blast
  have "map fi_name l = map fi_name ?fs" by (simp add: l info_of_def)
  then show "sorted_wrt (<) (map fi_name l)"
    using list_tree_sorted [OF wf user_dir_not_Nil, of st u] by simp
  show "info \<in> set l \<longleftrightarrow> (\<exists>v. user_files st os (u, fi_name info) = Some v \<and> info = info_of (fi_name info) v)"
  proof
    assume "info \<in> set l"
    then obtain f where "f \<in> set ?fs" "info = info_of (fi_name f) (the (user_files st os (u, fi_name f)))"
      by (auto simp: l)
    with iff listed_user_file [OF assms(3), of os st f]
    show "\<exists>v. user_files st os (u, fi_name info) = Some v \<and> info = info_of (fi_name info) v"
      by (auto simp: info_of_def)
  next
    assume "\<exists>v. user_files st os (u, fi_name info) = Some v \<and> info = info_of (fi_name info) v"
    then obtain v where v: "user_files st os (u, fi_name info) = Some v" "info = info_of (fi_name info) v" by blast
    let ?f = "info\<lparr>fi_hash := 0\<rparr>"
    have "fi_size info = of_nat (length (fst v))" "fi_mtime info = snd v"
      using arg_cong [OF v(2), of fi_size] arg_cong [OF v(2), of fi_mtime] by (simp_all add: info_of_def)
    with v(1) have "listed os (user_base st u) ?f"
      unfolding listed_user_file [OF assms(3)] by auto
    with iff have "?f \<in> set ?fs" by blast
    with v show "info \<in> set l" by (force simp: l)
  qed
qed

section \<open>Committing\<close>

text \<open>A path directly below the directory for temporary files.\<close>

definition temp_ok :: "store \<Rightarrow> string \<Rightarrow> bool" where
  "temp_ok st temp \<longleftrightarrow> temp \<noteq> [] \<and> resolve temp \<noteq> [] \<and> butlast (resolve temp) = resolve (tmp_dir st)"

lemma temp_not_file: "temp_ok st temp \<Longrightarrow> resolve temp \<noteq> file_node st u p"
proof
  assume ok: "temp_ok st temp" and eq: "resolve temp = file_node st u p"
  then have "butlast (file_node st u p) = resolve (st_root st) @ [''tmp'']" by (simp add: temp_ok_def)
  then have "resolve (st_root st) @ ''users'' # u # butlast (split_on slash p) = resolve (st_root st) @ [''tmp'']"
    by (simp add: file_node_def user_base_def butlast_append)
  then show False by simp
qed

lemma new_temp_path_ok: "new_temp_path st os = (temp, os') \<Longrightarrow> temp_ok st temp"
proof -
  assume "new_temp_path st os = (temp, os')"
  then have t: "temp = join_path (tmp_dir st) (temp_name (fst (next_random os)))"
    by (simp add: new_temp_path_def make_temp_path_eq)
  have "temp_name r \<noteq> []" for r by (simp add: temp_name_def RESERVED_PREFIX_def)
  then show ?thesis by (simp add: t temp_ok_def resolve_join_name join_path_not_Nil butlast_append)
qed

lemma commit_prepare_effect:
  assumes wf: "wf_os os" and prep: "commit_prepare st u p temp m os = (ok, st', os')"
  shows "wf_os os'"
    "file_at os' q = (if ok \<and> q = resolve temp \<and> temp \<noteq> [] \<and> mtime_exact m
       then map_option (\<lambda>(bs, t). (bs, sint m)) (file_at os q) else file_at os q)"
    "st' = (if ok then st\<lparr>st_cache := omap_del (file_path st u p) (st_cache st)\<rparr> else st)"
proof -
  obtain b1 os1 where e: "ensure_user st u os = (b1, os1)" by fastforce
  obtain b2 os2 where mp: "make_parent_dirs (user_dir st u) p os1 = (b2, os2)" by fastforce
  have a1: "adds_dirs os os1" using make_dirs_adds [OF wf e [unfolded ensure_user_def]] .
  then have wf1: "wf_os os1" by (simp add: adds_dirs_def)
  have a2: "adds_dirs os1 os2" by (rule make_parent_dirs_adds [OF wf1 mp])
  then have wf2: "wf_os os2" by (simp add: adds_dirs_def)
  have f: "file_at os1 = file_at os" "file_at os2 = file_at os"
    using adds_dirs_files [OF a1] adds_dirs_files [OF a2] by simp_all
  have cases: "ok = (b1 \<and> b2)" "\<not> b1 \<Longrightarrow> os' = os1" "b1 \<Longrightarrow> \<not> b2 \<Longrightarrow> os' = os2"
    "b1 \<and> b2 \<Longrightarrow> os' = snd (set_mtime temp m os2)"
    "st' = (if ok then st\<lparr>st_cache := omap_del (file_path st u p) (st_cache st)\<rparr> else st)"
    using prep e mp by (auto simp: commit_prepare_def split: bool.splits prod.splits)
  note sm = set_mtime_effect [OF wf2, where s = temp and m = m]
  show "wf_os os'" using cases wf1 wf2 sm(1) by (cases b1; cases b2) auto
  show "file_at os' q = (if ok \<and> q = resolve temp \<and> temp \<noteq> [] \<and> mtime_exact m
      then map_option (\<lambda>(bs, t). (bs, sint m)) (file_at os q) else file_at os q)"
    using cases f sm(2) by (cases b1; cases b2) auto
  show "st' = (if ok then st\<lparr>st_cache := omap_del (file_path st u p) (st_cache st)\<rparr> else st)"
    by (rule cases(5))
qed

text \<open>What has been received under a temporary name, with the time to be set.\<close>

definition received :: "store \<times> os \<Rightarrow> string \<times> i64 \<Rightarrow> (string \<times> i64) option" where
  "received = (\<lambda>(st, os) (temp, m).
     if temp_ok st temp
     then map_option (\<lambda>(bs, t). (bs, if mtime_exact m then m else mtime_of t)) (file_at os (resolve temp))
     else None)"

lemma store_commit_effect:
  assumes ok0: "store_ok (st, os)" and valid: "is_valid_username u" "is_valid_path p"
    and recd: "received (st, os) (temp, m) = Some v"
    and commit: "store_commit st u p temp m os = (ok, st', os')"
  shows "store_ok (st', os')" "st_root st' = st_root st"
    "user_files st' os' = (if ok then (user_files st os)((u, p) \<mapsto> v) else user_files st os)"
proof -
  have wf: "wf_os os" and cache: "cache_ok st os" using ok0 by (simp_all add: store_ok_def)
  from recd obtain bs t where temp: "temp_ok st temp" and fa: "file_at os (resolve temp) = Some (bs, t)"
    and v: "v = (bs, if mtime_exact m then m else mtime_of t)"
    by (auto simp: received_def split: if_splits)
  have out: "resolve temp \<noteq> file_node st w q" for w q by (rule temp_not_file [OF temp])
  obtain b st1 os1 where prep: "commit_prepare st u p temp m os = (b, st1, os1)" by (metis prod_cases3)
  note eff = commit_prepare_effect [OF wf prep]
  have frame: "user_files st os1 = user_files st os"
    by (rule user_files_frame) (simp add: eff(2) out [symmetric])
  have "store_ok (st', os') \<and> st_root st' = st_root st \<and>
    user_files st' os' = (if ok then (user_files st os)((u, p) \<mapsto> v) else user_files st os)"
  proof (cases b)
    case False
    with commit prep have "ok = False" "st' = st1" "os' = os1" by (simp_all add: store_commit_def)
    with False eff frame cache show ?thesis by (simp add: store_ok_def cache_ok_def)
  next
    case True
    then have st1: "st1 = st\<lparr>st_cache := omap_del (file_path st u p) (st_cache st)\<rparr>" using eff(3) by simp
    have rep: "replace_file temp (file_path st u p) os1 = (ok, os')" "st' = st1"
      using commit prep True by (auto simp: store_commit_def st1 split: prod.splits)
    have target: "resolve (file_path st u p) = file_node st u p" by (rule resolve_file_path [OF valid])
    obtain t' where fa1: "file_at os1 (resolve temp) = Some (bs, t')" "mtime_of t' = snd v"
      using eff(2) [of "resolve temp"] fa v True temp by (auto simp: temp_ok_def split: if_splits)
    have files: "user_files st os' = (if ok then (user_files st os)((u, p) \<mapsto> v) else user_files st os) \<and> wf_os os'"
    proof (cases ok)
      case ok: True
      then have rep': "replace_file temp (file_path st u p) os1 = (True, os')" using rep by simp
      note r = replace_file_ok [OF eff(1) rep', unfolded target, OF out]
      have "file_at os' (file_node st w q) =
          (if (w, q) = (u, p) then Some (bs, t') else file_at os1 (file_node st w q))" for w q
        using fa1(1) out [of w q] by (auto simp: file_at_def r(2) file_node_inj)
      then have "user_files st os' = (user_files st os1)((u, p) \<mapsto> v)"
        using fa1(2) v valid by (auto simp: user_files_def fun_eq_iff)
      with ok r(1) frame show ?thesis by simp
    next
      case False
      with rep have "os' = os1" by (simp add: replace_file_err)
      with False eff(1) frame show ?thesis by simp
    qed
    have "cache_ok st1 os'"
      unfolding st1 by (rule cache_ok_drop [OF cache valid]) (metis files fun_upd_other)
    with files st1 rep(2) show ?thesis by (simp add: store_ok_def)
  qed
  then show "store_ok (st', os')" "st_root st' = st_root st"
    "user_files st' os' = (if ok then (user_files st os)((u, p) \<mapsto> v) else user_files st os)" by blast+
qed

section \<open>Removing\<close>

lemma store_remove_effect:
  assumes ok0: "store_ok (st, os)" and valid: "is_valid_username u" "is_valid_path p"
    and rm: "store_remove st u p os = (ok, st', os')"
  shows "store_ok (st', os')" "st_root st' = st_root st"
    "user_files st' os' = (if ok then (user_files st os)((u, p) := None) else user_files st os)"
    "user_files st os (u, p) \<noteq> None \<Longrightarrow> ok"
proof -
  have wf: "wf_os os" and cache: "cache_ok st os" using ok0 by (simp_all add: store_ok_def)
  have target: "resolve (file_path st u p) = file_node st u p" by (rule resolve_file_path [OF valid])
  obtain e os1 where un: "sys_unlink (file_path st u p) os = (e, os1)" by fastforce
  have "store_ok (st', os') \<and> st_root st' = st_root st \<and>
    user_files st' os' = (if ok then (user_files st os)((u, p) := None) else user_files st os)"
  proof (cases e)
    case (Some a)
    with un have "os1 = os" using sys_unlink_err by blast
    with rm un Some ok0 show ?thesis by (auto simp: store_remove_def remove_file_def)
  next
    case None
    note k = sys_unlink_ok [OF wf un [unfolded None], unfolded target]
    have r: "ok" "st' = st\<lparr>st_cache := omap_del (file_path st u p) (st_cache st)\<rparr>"
      "os' = remove_empty_parents (user_dir st u) p os1"
      using rm un None by (auto simp: store_remove_def remove_file_def)
    have d: "drops_dirs os1 os'" unfolding r(3) by (rule remove_empty_parents_drops [OF k(1)])
    have "file_at os' (file_node st w q) = (if (w, q) = (u, p) then None else file_at os (file_node st w q))" for w q
      unfolding drops_dirs_files [OF d] by (auto simp: file_at_def k(2) file_node_inj)
    then have f: "user_files st os' = (user_files st os)((u, p) := None)"
      by (auto simp: user_files_def fun_eq_iff)
    have "cache_ok st' os'" unfolding r(2) by (rule cache_ok_drop [OF cache valid]) (metis f fun_upd_other)
    with d r(1,2) f show ?thesis by (simp add: store_ok_def drops_dirs_def)
  qed
  then show "store_ok (st', os')" "st_root st' = st_root st"
    "user_files st' os' = (if ok then (user_files st os)((u, p) := None) else user_files st os)" by blast+
  show ok if "user_files st os (u, p) \<noteq> None"
  proof -
    have "\<exists>bs t. os_node os (file_node st u p) = Some (N_file bs t)"
      using that by (auto simp: user_files_def file_at_def split: if_splits option.splits node.splits)
    then have "e = None" using un file_path_not_Nil by (auto simp: sys_unlink_def target)
    with un rm show ?thesis by (auto simp: store_remove_def remove_file_def)
  qed
qed

section \<open>What the operations leave alone\<close>

text \<open>Every file outside the path that is written, and the temporary file.\<close>

lemma store_commit_frame:
  assumes wf: "wf_os os" and valid: "is_valid_username u" "is_valid_path p" and temp: "temp_ok st temp"
    and commit: "store_commit st u p temp m os = (ok, st', os')"
  shows "q \<noteq> resolve temp \<Longrightarrow> q \<noteq> file_node st u p \<Longrightarrow> file_at os' q = file_at os q"
    "st_root st' = st_root st" "wf_os os'"
proof -
  obtain b st1 os1 where prep: "commit_prepare st u p temp m os = (b, st1, os1)" by (metis prod_cases3)
  note eff = commit_prepare_effect [OF wf prep]
  have *: "(q \<noteq> resolve temp \<longrightarrow> q \<noteq> file_node st u p \<longrightarrow> file_at os' q = file_at os q) \<and>
    st_root st' = st_root st \<and> wf_os os'"
  proof (cases b)
    case False
    with commit prep have "st' = st1" "os' = os1" by (simp_all add: store_commit_def)
    with False eff show ?thesis by simp
  next
    case True
    then have rep: "replace_file temp (file_path st u p) os1 = (ok, os')" "st' = st1"
      using commit prep eff(3) by (auto simp: store_commit_def split: prod.splits)
    note target = resolve_file_path [OF valid, of st]
    show ?thesis
    proof (cases ok)
      case ok: True
      then have rep': "replace_file temp (file_path st u p) os1 = (True, os')" using rep by simp
      note r = replace_file_ok [OF eff(1) rep', unfolded target, OF temp_not_file [OF temp]]
      then show ?thesis using eff rep(2) by (auto simp: file_at_def)
    next
      case False
      with rep have "os' = os1" by (simp add: replace_file_err)
      with eff rep(2) show ?thesis by auto
    qed
  qed
  then show "q \<noteq> resolve temp \<Longrightarrow> q \<noteq> file_node st u p \<Longrightarrow> file_at os' q = file_at os q"
    "st_root st' = st_root st" "wf_os os'" by blast+
qed

lemma store_remove_frame:
  assumes wf: "wf_os os" and valid: "is_valid_username u" "is_valid_path p"
    and rm: "store_remove st u p os = (ok, st', os')"
  shows "q \<noteq> file_node st u p \<Longrightarrow> file_at os' q = file_at os q"
proof -
  note target = resolve_file_path [OF valid, of st]
  obtain e os1 where un: "sys_unlink (file_path st u p) os = (e, os1)" by fastforce
  show "q \<noteq> file_node st u p \<Longrightarrow> file_at os' q = file_at os q"
  proof (cases e)
    case (Some a)
    with un have "os1 = os" using sys_unlink_err by blast
    with rm un Some show ?thesis by (auto simp: store_remove_def remove_file_def)
  next
    case None
    note k = sys_unlink_ok [OF wf un [unfolded None], unfolded target]
    have "os' = remove_empty_parents (user_dir st u) p os1"
      using rm un None by (auto simp: store_remove_def remove_file_def)
    then have "file_at os' = file_at os1" using drops_dirs_files [OF remove_empty_parents_drops [OF k(1)]] by simp
    then show "q \<noteq> file_node st u p \<Longrightarrow> file_at os' q = file_at os q" by (simp add: file_at_def k(2))
  qed
qed

lemma store_ok_frame:
  assumes "store_ok (st, os)" "wf_os os'"
    and "\<And>u p. is_valid_username u \<Longrightarrow> is_valid_path p \<Longrightarrow> file_at os' (file_node st u p) = file_at os (file_node st u p)"
  shows "store_ok (st, os')" "user_files st os' = user_files st os"
proof -
  show f: "user_files st os' = user_files st os" by (rule user_files_frame) (rule assms(3))
  show "store_ok (st, os')" using assms(1,2) f by (simp add: store_ok_def cache_ok_def)
qed

lemma user_files_root: "st_root st = st_root st' \<Longrightarrow> user_files st = user_files st'"
  by (simp add: user_files_def file_node_def user_base_def fun_eq_iff)

section \<open>The store as an updatable map\<close>

definition store_view :: "store \<times> os \<Rightarrow> string \<times> string \<Rightarrow> (string \<times> i64) option" where
  "store_view = (\<lambda>(st, os). user_files st os)"

definition file_key :: "string \<times> string \<Rightarrow> bool" where
  "file_key = (\<lambda>(user, path). is_valid_username user \<and> is_valid_path path)"

definition commit_file :: "string \<times> string \<Rightarrow> string \<times> i64 \<Rightarrow> store \<times> os \<Rightarrow> bool \<times> store \<times> os" where
  "commit_file = (\<lambda>(user, path) (temp, mtime) (st, os). store_commit st user path temp mtime os)"

definition remove_user_file :: "string \<times> string \<Rightarrow> store \<times> os \<Rightarrow> bool \<times> store \<times> os" where
  "remove_user_file = (\<lambda>(user, path) (st, os). store_remove st user path os)"

interpretation files: kv_store_del store_view store_ok file_key received commit_file remove_user_file
proof unfold_locales
  fix s s' :: "store \<times> os" and k :: "string \<times> string" and c :: "string \<times> i64" and v ok
  obtain st os where s: "s = (st, os)" by (cases s)
  obtain st' os' where s': "s' = (st', os')" by (cases s')
  obtain u p where k: "k = (u, p)" by (cases k)
  obtain temp m where c: "c = (temp, m)" by (cases c)
  show "store_ok s' \<and> store_view s' = (if ok then (store_view s)(k \<mapsto> v) else store_view s)"
    if "store_ok s" "file_key k" "received s c = Some v" "commit_file k c s = (ok, s')"
    using store_commit_effect [of st os u p temp m v ok st' os'] that
    by (simp add: s s' k c file_key_def commit_file_def store_view_def)
  show "store_ok s' \<and> store_view s' = (if ok then (store_view s)(k := None) else store_view s)"
    if "store_ok s" "file_key k" "remove_user_file k s = (ok, s')"
    using store_remove_effect [of st os u p ok st' os'] that
    by (simp add: s s' k file_key_def remove_user_file_def store_view_def)
  show "fst (remove_user_file k s)" if "store_ok s" "file_key k" "store_view s k \<noteq> None"
  proof -
    obtain ok1 st1 os1 where r: "store_remove st u p os = (ok1, st1, os1)" by (metis prod_cases3)
    from store_remove_effect(4) [OF _ _ _ r] that r show ?thesis
      by (simp add: s k file_key_def remove_user_file_def store_view_def)
  qed
qed

section \<open>Properties\<close>

text \<open>
  A user's listing is exact in spite of the cache: in a store whose cache is coherent, it
  has exactly one entry for each of the user's files, in order of their paths, with the size,
  the time and the content hash of the file as it is now, and the cache stays coherent.
\<close>

theorem store_list_exact:
  assumes "store_ok (st, os)" "cut_at os = None" "is_valid_username user"
  shows "case store_list st user os of (infos, st') \<Rightarrow>
    store_ok (st', os) \<and> sorted_wrt (<) (map fi_name infos) \<and>
    set infos = {info_of path v |path v. user_files st os (user, path) = Some v}"
proof -
  obtain l st' where l: "store_list st user os = (l, st')" by fastforce
  note s = store_list_spec [OF assms l]
  have "info \<in> set l \<longleftrightarrow> (\<exists>path v. info = info_of path v \<and> user_files st os (user, path) = Some v)" for info
    unfolding s(4) by (auto simp: info_of_def)
  with s(1,3) assms(1) show ?thesis by (auto simp: l store_ok_def)
qed

theorem store_list_exact_witness:
  "case store_list (new_store ''r'') ''u''
      \<lparr>tree = [([''r''], N_dir), ([''r'', ''users''], N_dir), ([''r'', ''users'', ''u''], N_dir), ([''r'', ''users'', ''u'', ''f''], N_file ''x'' 3)],
       file_limit = None, cut_at = None, now = 0, rnd = \<lambda>_. 0, rnd_pos = 0\<rparr> of (infos, st') \<Rightarrow>
    store_ok (st', \<lparr>tree = [([''r''], N_dir), ([''r'', ''users''], N_dir), ([''r'', ''users'', ''u''], N_dir), ([''r'', ''users'', ''u'', ''f''], N_file ''x'' 3)],
       file_limit = None, cut_at = None, now = 0, rnd = \<lambda>_. 0, rnd_pos = 0\<rparr>) \<and> sorted_wrt (<) (map fi_name infos) \<and>
    set infos = {info_of path v |path v. user_files (new_store ''r'')
      \<lparr>tree = [([''r''], N_dir), ([''r'', ''users''], N_dir), ([''r'', ''users'', ''u''], N_dir), ([''r'', ''users'', ''u'', ''f''], N_file ''x'' 3)],
       file_limit = None, cut_at = None, now = 0, rnd = \<lambda>_. 0, rnd_pos = 0\<rparr> (''u'', path) = Some v}"
  by (rule store_list_exact) (simp only: store_ok_new, code_simp+)

text \<open>
  C18. \<open>commit\<close> is the update of one file: when it succeeds, the user's path holds what had been
  received under the temporary name, with the requested time if the system can set it, and no
  other file of any user has changed; when it fails, none has. The cache stays coherent.
\<close>

theorem commit_refines:
  assumes "store_ok (st, os)" "is_valid_username user" "is_valid_path path"
    and "received (st, os) (temp, mtime) = Some v"
  shows "case store_commit st user path temp mtime os of (ok, st', os') \<Rightarrow>
    store_ok (st', os') \<and>
    user_files st' os' = (if ok then (user_files st os)((user, path) \<mapsto> v) else user_files st os)"
proof -
  obtain ok st' os' where c: "store_commit st user path temp mtime os = (ok, st', os')" by (metis prod_cases3)
  from files.put_law [of "(st, os)" "(user, path)" "(temp, mtime)" v ok "(st', os')"] assms c
  show ?thesis by (simp add: file_key_def commit_file_def store_view_def)
qed

theorem commit_refines_witness:
  "case store_commit (new_store ''r'') ''u'' ''a/f'' ''r/tmp/t'' 7
      \<lparr>tree = [([''r''], N_dir), ([''r'', ''tmp''], N_dir), ([''r'', ''tmp'', ''t''], N_file ''x'' 3)],
       file_limit = None, cut_at = None, now = 0, rnd = \<lambda>_. 0, rnd_pos = 0\<rparr> of (ok, st', os') \<Rightarrow>
    store_ok (st', os') \<and>
    user_files st' os' =
     (if ok then (user_files (new_store ''r'') \<lparr>tree = [([''r''], N_dir), ([''r'', ''tmp''], N_dir), ([''r'', ''tmp'', ''t''], N_file ''x'' 3)],
       file_limit = None, cut_at = None, now = 0, rnd = \<lambda>_. 0, rnd_pos = 0\<rparr>)((''u'', ''a/f'') \<mapsto> (''x'', 7))
      else user_files (new_store ''r'') \<lparr>tree = [([''r''], N_dir), ([''r'', ''tmp''], N_dir), ([''r'', ''tmp'', ''t''], N_file ''x'' 3)],
       file_limit = None, cut_at = None, now = 0, rnd = \<lambda>_. 0, rnd_pos = 0\<rparr>)"
  by (rule commit_refines) (simp only: store_ok_new, code_simp+)

text \<open>
  \<open>remove\<close> deletes one file: it reports whether there was one, the path is gone afterwards,
  and no other file of any user has changed (only directories left empty go with it).
\<close>

theorem remove_refines:
  assumes "store_ok (st, os)" "is_valid_username user" "is_valid_path path"
  shows "case store_remove st user path os of (ok, st', os') \<Rightarrow>
    store_ok (st', os') \<and> (ok \<or> user_files st os (user, path) = None) \<and>
    user_files st' os' = (user_files st os)((user, path) := None)"
proof -
  obtain ok st' os' where r: "store_remove st user path os = (ok, st', os')" by (metis prod_cases3)
  have del: "remove_user_file (user, path) (st, os) = (ok, st', os')" by (simp add: remove_user_file_def r)
  have s: "store_ok (st, os)" "file_key (user, path)" using assms by (simp_all add: file_key_def)
  from files.del_law [OF s del] files.del_gone [OF s del] files.del_found [OF s]
  show ?thesis by (cases ok) (auto simp: r del store_view_def fun_eq_iff)
qed

theorem remove_refines_witness:
  "case store_remove (new_store ''r'') ''u'' ''f''
      \<lparr>tree = [([''r''], N_dir), ([''r'', ''users''], N_dir), ([''r'', ''users'', ''u''], N_dir), ([''r'', ''users'', ''u'', ''f''], N_file ''x'' 3)],
       file_limit = None, cut_at = None, now = 0, rnd = \<lambda>_. 0, rnd_pos = 0\<rparr> of (ok, st', os') \<Rightarrow>
    store_ok (st', os') \<and> (ok \<or> user_files (new_store ''r'')
      \<lparr>tree = [([''r''], N_dir), ([''r'', ''users''], N_dir), ([''r'', ''users'', ''u''], N_dir), ([''r'', ''users'', ''u'', ''f''], N_file ''x'' 3)],
       file_limit = None, cut_at = None, now = 0, rnd = \<lambda>_. 0, rnd_pos = 0\<rparr> (''u'', ''f'') = None) \<and>
    user_files st' os' = (user_files (new_store ''r'')
      \<lparr>tree = [([''r''], N_dir), ([''r'', ''users''], N_dir), ([''r'', ''users'', ''u''], N_dir), ([''r'', ''users'', ''u'', ''f''], N_file ''x'' 3)],
       file_limit = None, cut_at = None, now = 0, rnd = \<lambda>_. 0, rnd_pos = 0\<rparr>)((''u'', ''f'') := None)"
  by (rule remove_refines) (simp only: store_ok_new, code_simp+)

text \<open>
  Modification times: \<open>set_mtime\<close> sets every time from 1970 on exactly and keeps the
  contents; an earlier time with a fraction of a second has a negative nanosecond field, which
  \<open>utimensat\<close> refuses, so it fails and changes nothing.
\<close>

theorem set_mtime_exact:
  assumes "wf_os os" "file_at os (resolve path) = Some (bs, t)" "path \<noteq> []"
  shows "if 0 \<le> sint m then fst (set_mtime path m os) \<and> file_at (snd (set_mtime path m os)) (resolve path) = Some (bs, sint m)
    else if sint m mod 1000000000 \<noteq> 0 then set_mtime path m os = (False, os) else True"
proof -
  have node: "os_node os (resolve path) = Some (N_file bs t)" using assms(2) by (simp add: file_at_Some)
  have pos: "mtime_exact m" if "0 \<le> sint m" using that by (simp add: mtime_exact_def tmod_nonneg)
  have ok: "fst (set_mtime path m os)" if "0 \<le> sint m"
    using that pos node assms(3) tmod_less [of 1000000000 "sint m"]
    by (simp add: set_mtime_def sys_utimens_def sys_lstat_def mtime_exact_def)
  have neg: "tmod (sint m) 1000000000 < 0" if "\<not> 0 \<le> sint m" "sint m mod 1000000000 \<noteq> 0"
  proof -
    have "tmod (sint m) 1000000000 = - (\<bar>sint m\<bar> mod 1000000000)"
      using that(1) by (simp add: tmod_def tdiv_def minus_div_mult_eq_mod [symmetric])
    moreover have "\<bar>sint m\<bar> mod 1000000000 \<noteq> 0"
      using that zmod_zminus1_not_zero [of "- sint m" 1000000000] by simp
    moreover have "0 \<le> \<bar>sint m\<bar> mod 1000000000" by simp
    ultimately show ?thesis by linarith
  qed
  show ?thesis
    using ok pos set_mtime_effect(2) [OF assms(1), of path m "resolve path"] assms(2,3) neg
    by (auto simp: set_mtime_def sys_utimens_def)
qed

theorem set_mtime_exact_witness:
  "if 0 \<le> sint (- 1 :: i64) then fst (set_mtime ''f'' (- 1) \<lparr>tree = [([''f''], N_file ''x'' 3)], file_limit = None, cut_at = None, now = 0, rnd = \<lambda>_. 0, rnd_pos = 0\<rparr>) \<and>
      file_at (snd (set_mtime ''f'' (- 1) \<lparr>tree = [([''f''], N_file ''x'' 3)], file_limit = None, cut_at = None, now = 0, rnd = \<lambda>_. 0, rnd_pos = 0\<rparr>)) (resolve ''f'') = Some (''x'', sint (- 1 :: i64))
    else if sint (- 1 :: i64) mod 1000000000 \<noteq> 0
    then set_mtime ''f'' (- 1) \<lparr>tree = [([''f''], N_file ''x'' 3)], file_limit = None, cut_at = None, now = 0, rnd = \<lambda>_. 0, rnd_pos = 0\<rparr> =
      (False, \<lparr>tree = [([''f''], N_file ''x'' 3)], file_limit = None, cut_at = None, now = 0, rnd = \<lambda>_. 0, rnd_pos = 0\<rparr>) else True"
  by (rule set_mtime_exact [where bs = "''x''" and t = 3]; code_simp)

end
