(* ===== verification/Replication.thy ===== *)
theory Replication
  imports Storage Accounts "HOL-Library.Product_Lexorder"
begin

text \<open>
  The replica link of \<open>server/cluster.cpp\<close>: what a backup does with the messages of its
  primary (\<open>apply_replicated\<close>, \<open>build_manifest\<close>) and how the primary brings a backup up to date
  and copies each change to it (\<open>attach_replica\<close>, \<open>put_on_link\<close>, \<open>delete_on_link\<close>,
  \<open>account_on_link\<close>). The two ends meet in \<open>replica_respond\<close>: the behaviour of a backup as the
  peer of a connection.
\<close>

text \<open>The parts of a server that replication touches.\<close>

record node =
  nd_self :: server_address
  nd_members :: "server_address list"
  nd_store :: store
  nd_os :: os

type_synonym file_key = "string \<times> string"

fun upsert :: "server_address list \<Rightarrow> server_address \<Rightarrow> server_address list" where
  "upsert [] server = [server]"
| "upsert (existing # list) server =
     (if sa_id existing = sa_id server then server # list else existing # upsert list server)"

section \<open>The manifest\<close>

text \<open>The files of all users; listing fills the hash cache.\<close>

fun list_users :: "string list \<Rightarrow> os \<Rightarrow> store \<Rightarrow> (string \<times> file_info) list \<times> store" where
  "list_users [] os st = ([], st)"
| "list_users (user # users) os st =
     (case store_list st user os of (files, st) \<Rightarrow>
      case list_users users os st of (entries, st) \<Rightarrow> (map (Pair user) files @ entries, st))"

definition w_account :: "string \<times> string \<Rightarrow> string \<Rightarrow> protocol_error + string" where
  "w_account = wr_pair w_str w_str"

definition r_account :: "reader \<Rightarrow> protocol_error + (string \<times> string) \<times> reader" where
  "r_account = rd_pair r_str r_str"

definition w_entry :: "string \<times> file_info \<Rightarrow> string \<Rightarrow> protocol_error + string" where
  "w_entry = wr_pair w_str write_file_info"

definition r_entry :: "reader \<Rightarrow> protocol_error + (string \<times> file_info) \<times> reader" where
  "r_entry = rd_pair r_str read_file_info"

definition write_manifest ::
  "(string \<times> string) list \<Rightarrow> (string \<times> file_info) list \<Rightarrow> string \<Rightarrow> protocol_error + string" where
  "write_manifest accounts entries buf =
     ebind (write_each w_account accounts (w_u32 (of_nat (length accounts)) buf)) (\<lambda>buf.
       write_each w_entry entries (w_u32 (of_nat (length entries)) buf))"

definition build_manifest :: "'a node_scheme \<Rightarrow> (protocol_error + string) \<times> 'a node_scheme" where
  "build_manifest nd =
     (case list_users (store_users (nd_store nd) (nd_os nd)) (nd_os nd) (nd_store nd) of (entries, st) \<Rightarrow>
        (write_manifest (acc_all (accounts_dir (nd_store nd)) (nd_os nd)) entries [], nd\<lparr>nd_store := st\<rparr>))"

definition read_manifest ::
  "reader \<Rightarrow> protocol_error + ((string, string) omap \<times> (file_key, file_info) omap) \<times> reader" where
  "read_manifest r =
     ebind (r_u32 r) (\<lambda>(n, r).
     ebind (read_n r_account (unat n) r) (\<lambda>(accounts, r).
     ebind (r_u32 r) (\<lambda>(k, r).
     ebind (read_n r_entry (unat k) r) (\<lambda>(entries, r).
       Inr ((foldl (\<lambda>m a. omap_put (fst a) (snd a) m) [] accounts,
             foldl (\<lambda>m e. omap_put (fst e, fi_name (snd e)) (snd e) m) [] entries), r)))))"

section \<open>The backup\<close>

text \<open>
  The result is what \<open>apply_replicated\<close> returns (\<^term>\<open>False\<close>: close the link), or the
  \<open>ProtocolError\<close> it throws.
\<close>

definition apply_put ::
  "'p conn \<Rightarrow> string \<Rightarrow> 'a node_scheme \<Rightarrow> (protocol_error + bool) \<times> 'p conn \<times> 'a node_scheme" where
  "apply_put c body nd =
     (case ebind (r_str (new_reader body)) (\<lambda>(user, r).
             ebind (read_file_header r) (\<lambda>(info, r). Inr (user, info))) of
        Inl e \<Rightarrow> (Inl e, c, nd)
      | Inr (user, info) \<Rightarrow>
          (case new_temp_path (nd_store nd) (nd_os nd) of (temp, os) \<Rightarrow>
           case recv_file_body c temp (fi_size info) os of (result, _, c, os) \<Rightarrow>
             if result = T_ConnectionLost then (Inr False, c, nd\<lparr>nd_os := os\<rparr>)
             else
               case (if result = T_Ok \<and> is_valid_username user \<and> is_valid_path (fi_name info)
                     then store_commit (nd_store nd) user (fi_name info) temp (fi_mtime info) os
                     else (False, nd_store nd, os)) of (ok, st, os) \<Rightarrow>
                 if \<not> ok then
                   (case send_error c ''could not store the replicated file'' of (res, c) \<Rightarrow>
                      (res, c, nd\<lparr>nd_store := st, nd_os := snd (remove_file temp os)\<rparr>))
                 else (case conn_send c Msg_Ok [] of (sent, c) \<Rightarrow>
                         (Inr sent, c, nd\<lparr>nd_store := st, nd_os := os\<rparr>))))"

definition apply_delete ::
  "'p conn \<Rightarrow> string \<Rightarrow> 'a node_scheme \<Rightarrow> (protocol_error + bool) \<times> 'p conn \<times> 'a node_scheme" where
  "apply_delete c body nd =
     (case ebind (r_str (new_reader body)) (\<lambda>(user, r). ebind (r_str r) (\<lambda>(name, r). Inr (user, name))) of
        Inl e \<Rightarrow> (Inl e, c, nd)
      | Inr (user, name) \<Rightarrow>
          (case (if is_valid_username user \<and> is_valid_path name
                 then store_remove (nd_store nd) user name (nd_os nd)
                 else (False, nd_store nd, nd_os nd)) of (_, st, os) \<Rightarrow>
           case conn_send c Msg_Ok [] of (sent, c) \<Rightarrow> (Inr sent, c, nd\<lparr>nd_store := st, nd_os := os\<rparr>)))"

definition apply_membership ::
  "'p conn \<Rightarrow> string \<Rightarrow> 'a node_scheme \<Rightarrow> (protocol_error + bool) \<times> 'p conn \<times> 'a node_scheme" where
  "apply_membership c body nd =
     (case read_servers (new_reader body) of
        Inl e \<Rightarrow> (Inl e, c, nd)
      | Inr (members, r) \<Rightarrow>
          (case conn_send c Msg_Ok [] of (sent, c) \<Rightarrow>
             (Inr sent, c, nd\<lparr>nd_members := upsert members (nd_self nd)\<rparr>)))"

definition apply_account ::
  "'p conn \<Rightarrow> string \<Rightarrow> 'a node_scheme \<Rightarrow> (protocol_error + bool) \<times> 'p conn \<times> 'a node_scheme" where
  "apply_account c body nd =
     (case ebind (r_str (new_reader body)) (\<lambda>(user, r). ebind (r_str r) (\<lambda>(rec, r). Inr (user, rec))) of
        Inl e \<Rightarrow> (Inl e, c, nd)
      | Inr (user, rec) \<Rightarrow>
          (case (if is_valid_username user \<and> is_valid_record rec
                 then acc_put (accounts_dir (nd_store nd)) user rec (nd_os nd)
                 else (False, nd_os nd)) of (ok, os) \<Rightarrow>
             if \<not> ok then
               (case send_error c ''could not store the replicated account'' of (res, c) \<Rightarrow>
                  (res, c, nd\<lparr>nd_os := os\<rparr>))
             else (case conn_send c Msg_Ok [] of (sent, c) \<Rightarrow> (Inr sent, c, nd\<lparr>nd_os := os\<rparr>))))"

definition apply_replicated ::
  "'p conn \<Rightarrow> message \<Rightarrow> 'a node_scheme \<Rightarrow> (protocol_error + bool) \<times> 'p conn \<times> 'a node_scheme" where
  "apply_replicated c m nd =
     (if mtype m = Msg_ReplPut then apply_put c (payload m) nd
      else if mtype m = Msg_ReplDelete then apply_delete c (payload m) nd
      else if mtype m = Msg_Membership then apply_membership c (payload m) nd
      else if mtype m = Msg_ReplAccount then apply_account c (payload m) nd
      else if mtype m = Msg_Heartbeat then (case conn_send c Msg_Ok [] of (sent, c) \<Rightarrow> (Inr sent, c, nd))
      else (Inr False, c, nd))"

text \<open>
  The loop of \<open>handle_replica_attach\<close> over the messages that have arrived: the result says
  whether the link is still open (and waiting) when they are used up.
\<close>

fun serve_link :: "nat \<Rightarrow> 'p conn \<Rightarrow> 'a node_scheme \<Rightarrow> bool \<times> 'p conn \<times> 'a node_scheme" where
  "serve_link 0 c nd = (True, c, nd)"
| "serve_link (Suc n) c nd =
     (if inq c = [] then (True, c, nd)
      else case conn_recv c of
        (Received m, c) \<Rightarrow>
          (case apply_replicated c m nd of
             (Inr True, c, nd) \<Rightarrow> serve_link n c nd
           | (_, c, nd) \<Rightarrow> (False, c, nd))
      | (_, c) \<Rightarrow> (False, c, nd))"

text \<open>The first message: the members, and the manifest as the answer.\<close>

definition begin_attach :: "string \<Rightarrow> 'a node_scheme \<Rightarrow> (protocol_error + string) \<times> 'a node_scheme" where
  "begin_attach body nd =
     (case ebind (read_server (new_reader body)) (\<lambda>(primary, r).
             ebind (read_servers r) (\<lambda>(members, r). Inr (primary, members))) of
        Inl e \<Rightarrow> (Inl e, nd)
      | Inr (primary, members) \<Rightarrow> build_manifest (nd\<lparr>nd_members := upsert members (nd_self nd)\<rparr>))"

datatype link_phase = Fresh | Attached | Link_closed

text \<open>
  The backup's own end of the connection: its peer state collects what it has answered.
\<close>

definition replica_conn :: "message list \<Rightarrow> message list conn" where
  "replica_conn msgs =
     \<lparr>peer_state = [], respond = \<lambda>sent new. (sent @ new, []), outq = [], inq = msgs, sends_left = None,
      is_open = True, peer_is_server = True\<rparr>"

definition answers :: "message list conn \<Rightarrow> message list" where
  "answers c = peer_state c @ outq c"

definition serve_batch :: "'a node_scheme \<Rightarrow> message list \<Rightarrow> ('a node_scheme \<times> link_phase) \<times> message list" where
  "serve_batch nd msgs =
     (case serve_link (length msgs) (replica_conn msgs) nd of (open_still, c, nd) \<Rightarrow>
        ((nd, if open_still then Attached else Link_closed), answers c))"

definition replica_respond ::
  "'a node_scheme \<times> link_phase \<Rightarrow> message list \<Rightarrow> ('a node_scheme \<times> link_phase) \<times> message list" where
  "replica_respond = (\<lambda>(nd, phase) msgs.
     case phase of
       Link_closed \<Rightarrow> ((nd, Link_closed), [])
     | Attached \<Rightarrow> serve_batch nd msgs
     | Fresh \<Rightarrow>
         (case msgs of
            [] \<Rightarrow> ((nd, Fresh), [])
          | first # rest \<Rightarrow>
              if mtype first \<noteq> Msg_ReplicaAttach then ((nd, Link_closed), [])
              else case begin_attach (payload first) nd of
                (Inl e, nd) \<Rightarrow> ((nd, Link_closed), [])
              | (Inr manifest, nd) \<Rightarrow>
                  if length manifest > MAX_PAYLOAD then ((nd, Link_closed), [])
                  else case serve_batch nd rest of (s, replies) \<Rightarrow>
                    (s, \<lparr>mtype = Msg_ReplicaManifest, payload = manifest\<rparr> # replies)))"

section \<open>The primary\<close>

definition put_on_link ::
  "'p conn \<Rightarrow> store \<Rightarrow> os \<Rightarrow> string \<Rightarrow> string \<Rightarrow> (protocol_error + bool) \<times> 'p conn" where
  "put_on_link c st os user name =
     (case w_str user [] of
        Inl e \<Rightarrow> (Inl e, c)
      | Inr prefix \<Rightarrow>
          (case send_file c Msg_ReplPut prefix name (file_path st user name) os of
             (Inl e, c) \<Rightarrow> (Inl e, c)
           | (Inr (result, _), c) \<Rightarrow>
               if result = T_NotSent then (Inr True, c)
               else if result = T_ConnectionLost then (Inr False, c)
               else case conn_recv c of
                 (Received reply, c) \<Rightarrow> (Inr (mtype reply = Msg_Ok \<or> result = T_FileError), c)
               | (_, c) \<Rightarrow> (Inr False, c)))"

definition call_ok :: "call_result \<Rightarrow> bool" where
  "call_ok r = (case r of Call_Ok _ \<Rightarrow> True | _ \<Rightarrow> False)"

definition two_strings :: "string \<Rightarrow> string \<Rightarrow> protocol_error + string" where
  "two_strings a b = ebind (w_str a []) (w_str b)"

definition delete_on_link :: "'p conn \<Rightarrow> string \<Rightarrow> string \<Rightarrow> (protocol_error + bool) \<times> 'p conn" where
  "delete_on_link c user name =
     (case two_strings user name of
        Inl e \<Rightarrow> (Inl e, c)
      | Inr body \<Rightarrow> (case call c Msg_ReplDelete body Msg_Ok of (r, c) \<Rightarrow> (Inr (call_ok r), c)))"

definition account_on_link :: "'p conn \<Rightarrow> string \<Rightarrow> string \<Rightarrow> (protocol_error + bool) \<times> 'p conn" where
  "account_on_link c user rec =
     (case two_strings user rec of
        Inl e \<Rightarrow> (Inl e, c)
      | Inr body \<Rightarrow> (case call c Msg_ReplAccount body Msg_Ok of (r, c) \<Rightarrow> (Inr (call_ok r), c)))"

text \<open>The three loops of \<open>attach_replica\<close>.\<close>

fun send_accounts ::
  "'p conn \<Rightarrow> (string, string) omap \<Rightarrow> (string \<times> string) list \<Rightarrow> (protocol_error + bool) \<times> 'p conn" where
  "send_accounts c remote [] = (Inr True, c)"
| "send_accounts c remote ((user, rec) # accounts) =
     (if map_of remote user = Some rec then send_accounts c remote accounts
      else case account_on_link c user rec of
        (Inr True, c) \<Rightarrow> send_accounts c remote accounts
      | (r, c) \<Rightarrow> (r, c))"

definition same_file :: "file_info option \<Rightarrow> file_info \<Rightarrow> bool" where
  "same_file remote f =
     (case remote of None \<Rightarrow> False | Some g \<Rightarrow> fi_hash g = fi_hash f \<and> fi_size g = fi_size f)"

fun send_files ::
  "'p conn \<Rightarrow> store \<Rightarrow> os \<Rightarrow> (file_key, file_info) omap \<Rightarrow> (file_key \<times> file_info) list \<Rightarrow>
     (protocol_error + bool) \<times> 'p conn" where
  "send_files c st os remote [] = (Inr True, c)"
| "send_files c st os remote ((k, f) # files) =
     (if same_file (map_of remote k) f then send_files c st os remote files
      else case put_on_link c st os (fst k) (snd k) of
        (Inr True, c) \<Rightarrow> send_files c st os remote files
      | (r, c) \<Rightarrow> (r, c))"

fun send_deletes ::
  "'p conn \<Rightarrow> (file_key, file_info) omap \<Rightarrow> (file_key \<times> file_info) list \<Rightarrow> (protocol_error + bool) \<times> 'p conn" where
  "send_deletes c locals [] = (Inr True, c)"
| "send_deletes c locals ((k, f) # files) =
     (if map_of locals k \<noteq> None then send_deletes c locals files
      else case delete_on_link c (fst k) (snd k) of
        (Inr True, c) \<Rightarrow> send_deletes c locals files
      | (r, c) \<Rightarrow> (r, c))"

text \<open>The files of all users by user and name.\<close>

definition local_files :: "store \<Rightarrow> os \<Rightarrow> (file_key, file_info) omap \<times> store" where
  "local_files st os =
     (case list_users (store_users st os) os st of (entries, st) \<Rightarrow>
        (foldl (\<lambda>m e. omap_put (fst e, fi_name (snd e)) (snd e) m) [] entries, st))"

text \<open>
  \<open>attach_replica\<close> on a connection that \<open>connect_to\<close> has opened: the result (or the exception),
  the connection, and the state with the cache that the listing filled.
\<close>

definition attach_on ::
  "'p conn \<Rightarrow> 'a node_scheme \<Rightarrow> (protocol_error + bool) \<times> 'p conn \<times> 'a node_scheme" where
  "attach_on c nd =
     (case local_files (nd_store nd) (nd_os nd) of (locals, st) \<Rightarrow>
      let nd = nd\<lparr>nd_store := st\<rparr>; accounts = acc_all (accounts_dir st) (nd_os nd) in
      case ebind (write_server (nd_self nd) []) (write_servers (nd_members nd)) of
        Inl e \<Rightarrow> (Inl e, c, nd)
      | Inr body \<Rightarrow>
          (case call c Msg_ReplicaAttach body Msg_ReplicaManifest of
             (Call_Ok manifest, c) \<Rightarrow>
               (case read_manifest (new_reader (payload manifest)) of
                  Inl e \<Rightarrow> (Inr False, c, nd)
                | Inr ((remote_accounts, remote), r) \<Rightarrow>
                    (case send_accounts c remote_accounts accounts of
                       (Inr True, c) \<Rightarrow>
                         (case send_files c st (nd_os nd) remote locals of
                            (Inr True, c) \<Rightarrow>
                              (case send_deletes c locals remote of (r, c) \<Rightarrow> (r, c, nd))
                          | (r, c) \<Rightarrow> (r, c, nd))
                     | (r, c) \<Rightarrow> (r, c, nd)))
           | (_, c) \<Rightarrow> (Inr False, c, nd)))"

definition attach_replica ::
  "(server_address \<Rightarrow> 'p conn option) \<Rightarrow> server_address \<Rightarrow> 'a node_scheme \<Rightarrow>
     (protocol_error + 'p conn option) \<times> 'a node_scheme" where
  "attach_replica connect member nd =
     (case connect member of
        None \<Rightarrow> (Inr None, nd\<lparr>nd_store := snd (local_files (nd_store nd) (nd_os nd))\<rparr>)
      | Some c \<Rightarrow>
          (case attach_on c nd of
             (Inl e, c, nd) \<Rightarrow> (Inl e, nd)
           | (Inr True, c, nd) \<Rightarrow> (Inr (Some c), nd)
           | (Inr False, c, nd) \<Rightarrow> (Inr None, nd)))"

section \<open>The manifest survives the wire\<close>

interpretation caccount: codec w_account r_account "\<lambda>x. enc_str (fst x) @ enc_str (snd x)"
    "\<lambda>x. str_ok (fst x) \<and> str_ok (snd x)"
  unfolding w_account_def r_account_def by (rule codec_pair [OF cstr.codec_axioms cstr.codec_axioms])

interpretation centry: codec w_entry r_entry "\<lambda>x. enc_str (fst x) @ enc_info (snd x)"
    "\<lambda>x. str_ok (fst x) \<and> str_ok (fi_name (snd x))"
  unfolding w_entry_def r_entry_def by (rule codec_pair [OF cstr.codec_axioms cinfo.codec_axioms])

lemma w_str_Inr: "w_str s buf = Inr out \<Longrightarrow> str_ok s"
  by (simp add: w_str_def split: if_splits)

lemma write_accounts_ok:
  "write_each w_account xs buf = Inr out \<Longrightarrow> \<forall>x \<in> set xs. str_ok (fst x) \<and> str_ok (snd x)"
  by (induction xs arbitrary: buf) (auto simp: w_account_def wr_pair_def ebind_Inr_iff dest!: w_str_Inr)

lemma write_entries_ok:
  "write_each w_entry xs buf = Inr out \<Longrightarrow> \<forall>x \<in> set xs. str_ok (fst x) \<and> str_ok (fi_name (snd x))"
  by (induction xs arbitrary: buf)
     (auto simp: w_entry_def wr_pair_def write_file_info_def write_file_header_def ebind_Inr_iff dest!: w_str_Inr)

lemma length_concat_map: "(\<And>x. 0 < length (e x)) \<Longrightarrow> length xs \<le> length (concat (map e xs))"
proof (induction xs)
  case (Cons x xs)
  then have "1 + length xs \<le> length (e x) + length (concat (map e xs))"
    by (intro add_mono) (auto simp: Suc_le_eq)
  then show ?case by simp
qed simp

definition account_map :: "(string \<times> string) list \<Rightarrow> (string, string) omap" where
  "account_map accounts = foldl (\<lambda>m a. omap_put (fst a) (snd a) m) [] accounts"

definition entry_map :: "(string \<times> file_info) list \<Rightarrow> (file_key, file_info) omap" where
  "entry_map entries = foldl (\<lambda>m e. omap_put (fst e, fi_name (snd e)) (snd e) m) [] entries"

lemma unat_of_nat_u32: "n \<le> MAX_PAYLOAD \<Longrightarrow> unat (of_nat n :: u32) = n"
  by (simp add: unat_of_nat MAX_PAYLOAD_def)

lemma manifest_roundtrip:
  assumes "write_manifest accounts entries [] = Inr bs" "length bs \<le> MAX_PAYLOAD"
  shows "read_manifest (new_reader bs) = Inr ((account_map accounts, entry_map entries), cursor bs [])"
proof -
  let ?ea = "\<lambda>x. enc_str (fst x) @ enc_str (snd x)" and ?ee = "\<lambda>x. enc_str (fst x) @ enc_info (snd x)"
  obtain b1 where b1: "write_each w_account accounts (w_u32 (of_nat (length accounts)) []) = Inr b1"
    and b2: "write_each w_entry entries (w_u32 (of_nat (length entries)) b1) = Inr bs"
    using assms(1) by (auto simp: write_manifest_def ebind_Inr_iff)
  note oka = write_accounts_ok [OF b1] and oke = write_entries_ok [OF b2]
  have b1': "b1 = enc_u32 (of_nat (length accounts)) @ concat (map ?ea accounts)"
    using b1 caccount.write_each_enc [OF oka, of "w_u32 (of_nat (length accounts)) []"] by (simp add: wr_simps)
  have bs: "bs = b1 @ enc_u32 (of_nat (length entries)) @ concat (map ?ee entries)"
    using b2 centry.write_each_enc [OF oke, of "w_u32 (of_nat (length entries)) b1"] by (simp add: wr_simps)
  have e1: "0 < length (?ea x)" for x by (simp add: enc_str_def)
  have e2: "0 < length (?ee x)" for x by (simp add: enc_str_def)
  have "length accounts \<le> MAX_PAYLOAD" "length entries \<le> MAX_PAYLOAD"
    using length_concat_map [of ?ea accounts, OF e1] length_concat_map [of ?ee entries, OF e2] assms(2)
    by (simp_all add: bs b1')
  note n = this [THEN unat_of_nat_u32]
  show ?thesis
    by (simp add: read_manifest_def bs b1' new_reader_cursor c32.rd_enc n caccount.read_n_enc [OF oka]
        centry.read_n_enc [OF oke, where rest = "[]", simplified] account_map_def entry_map_def)
qed

text \<open>Maps filled one by one.\<close>

lemma map_of_functional:
  "(\<And>a b. (k, a) \<in> set xs \<Longrightarrow> (k, b) \<in> set xs \<Longrightarrow> a = b) \<Longrightarrow> map_of xs k = Some v \<longleftrightarrow> (k, v) \<in> set xs"
  by (metis map_of_SomeD weak_map_of_SomeI)

lemma omap_wf_entry_map [simp]: "omap_wf (entry_map es)" "omap_wf (account_map as)"
  using om.find_foldl_put [of "[]" "\<lambda>e. (fst e, fi_name (snd e))" snd es] om.find_foldl_put [of "[]" fst snd as]
  by (simp_all add: entry_map_def account_map_def)

lemma entry_map_lookup:
  assumes "\<And>u f g. (u, f) \<in> set es \<Longrightarrow> (u, g) \<in> set es \<Longrightarrow> fi_name f = fi_name g \<Longrightarrow> f = g"
  shows "map_of (entry_map es) (u, p) = Some f \<longleftrightarrow> (u, f) \<in> set es \<and> fi_name f = p"
proof -
  let ?xs = "rev (map (\<lambda>e. ((fst e, fi_name (snd e)), snd e)) es)"
  have "map_of (entry_map es) (u, p) = map_of ?xs (u, p)"
    using om.find_foldl_put [of "[]" "\<lambda>e. (fst e, fi_name (snd e))" snd es] by (simp add: entry_map_def)
  also have "\<dots> = Some f \<longleftrightarrow> ((u, p), f) \<in> set ?xs"
    using assms by (intro map_of_functional) auto
  also have "\<dots> \<longleftrightarrow> (u, f) \<in> set es \<and> fi_name f = p" by force
  finally show ?thesis .
qed

lemma account_map_lookup:
  assumes "distinct (map fst as)"
  shows "map_of (account_map as) = map_of as"
proof
  fix u
  have "map_of (account_map as) u = map_of (rev as) u"
    using om.find_foldl_put [of "[]" fst snd as] by (simp add: account_map_def)
  also have "map_of (rev as) = map_of as"
    using assms by (intro map_of_inject_set [THEN iffD2]) (auto simp: rev_map [symmetric])
  finally show "map_of (account_map as) u = map_of as u" .
qed

section \<open>What is in the manifest\<close>

abbreviation files_of :: "'a node_scheme \<Rightarrow> file_key \<Rightarrow> (string \<times> i64) option" where
  "files_of nd \<equiv> user_files (nd_store nd) (nd_os nd)"

abbreviation accs_of :: "'a node_scheme \<Rightarrow> string \<Rightarrow> string option" where
  "accs_of nd \<equiv> accounts_of (accounts_dir (nd_store nd)) (nd_os nd)"

definition node_ok :: "'a node_scheme \<Rightarrow> bool" where
  "node_ok nd \<longleftrightarrow> store_ok (nd_store nd, nd_os nd)"

lemma store_users_valid: "u \<in> set (store_users st os) \<Longrightarrow> is_valid_username u"
  by (auto simp: store_users_def split: option.splits)

lemma store_users_complete:
  assumes "wf_os os" "user_files st os (u, p) = Some v"
  shows "u \<in> set (store_users st os)"
proof -
  from user_files_valid [OF assms(2)] have valid: "is_valid_username u" "is_valid_path p" by simp_all
  obtain bs t where f: "os_node os (user_base st u @ split_on slash p) = Some (N_file bs t)"
    using assms(2) valid by (auto simp: user_files_def file_at_Some file_node_def)
  have base: "os_node os (user_base st u) = Some N_dir"
    by (rule os_node_ancestor [OF assms(1) f]) simp
  then have dir: "os_node os (resolve (users_dir st)) = Some N_dir"
    using os_node_ancestor [OF assms(1), of "resolve (users_dir st)" "[u]" N_dir] by (simp add: user_base_def)
  have "u \<in> set (children os (resolve (users_dir st)))"
    using base children_iff [OF assms(1), of u "resolve (users_dir st)"] by (simp add: user_base_def)
  moreover have "sys_is_dir (user_dir st u) os"
    using base valid user_dir_not_Nil by (simp add: sys_is_dir_def resolve_user_dir)
  moreover have "sys_is_dir (users_dir st) os" using dir paths_not_Nil by (simp add: sys_is_dir_def del: resolve_users_dir)
  ultimately show ?thesis using valid by (simp add: store_users_def sys_readdir_def del: resolve_users_dir)
qed

lemma list_users_spec:
  "store_ok (st, os) \<Longrightarrow> cut_at os = None \<Longrightarrow> list_all is_valid_username users \<Longrightarrow>
   list_users users os st = (entries, st') \<Longrightarrow>
   store_ok (st', os) \<and> st_root st' = st_root st \<and>
   ((u, f) \<in> set entries \<longleftrightarrow> u \<in> set users \<and> (\<exists>v. user_files st os (u, fi_name f) = Some v \<and> f = info_of (fi_name f) v))"
proof (induction users arbitrary: st entries st')
  case (Cons user users)
  obtain l st1 where l: "store_list st user os = (l, st1)" by fastforce
  obtain es st2 where es: "list_users users os st1 = (es, st2)" by fastforce
  note s = store_list_spec [OF Cons.prems(1,2) _ l]
  have ok1: "store_ok (st1, os)" using s(1) Cons.prems(1,3) by (simp add: store_ok_def)
  have root: "st_root st1 = st_root st" "user_files st1 = user_files st"
    using s(2) Cons.prems(3) user_files_root [of st1 st] by simp_all
  from Cons.IH [OF ok1 Cons.prems(2) _ es] Cons.prems(3,4) l es root s(4)
  show ?case by (auto simp: image_iff)
qed simp

lemma local_files_spec:
  assumes "store_ok (st, os)" "cut_at os = None" "local_files st os = (m, st')"
  shows "store_ok (st', os)" "st_root st' = st_root st" "omap_wf m"
    "map_of m (u, p) = map_option (info_of p) (user_files st os (u, p))"
proof -
  obtain entries where e: "list_users (store_users st os) os st = (entries, st')" and m: "m = entry_map entries"
    using assms(3) by (auto simp: local_files_def entry_map_def split: prod.splits)
  have valid: "list_all is_valid_username (store_users st os)"
    by (simp add: list_all_iff store_users_valid)
  note spec = list_users_spec [OF assms(1,2) valid e]
  show "store_ok (st', os)" "st_root st' = st_root st" using spec by blast+
  show "omap_wf m" by (simp add: m)
  have wf: "wf_os os" using assms(1) by (simp add: store_ok_def)
  have name: "fi_name (info_of q v) = q" for q v by (simp add: info_of_def)
  have set: "(u, f) \<in> set entries \<longleftrightarrow> (\<exists>v. user_files st os (u, fi_name f) = Some v \<and> f = info_of (fi_name f) v)" for u f
    using spec [of u f] store_users_complete [OF wf] by blast
  have look: "map_of m (u, p) = Some f \<longleftrightarrow> (u, f) \<in> set entries \<and> fi_name f = p" for f
    unfolding m
  proof (rule entry_map_lookup)
    fix u f g assume "(u, f) \<in> set entries" "(u, g) \<in> set entries" "fi_name f = fi_name g"
    then show "f = g" using set [of u f] set [of u g] by (metis option.inject)
  qed
  show "map_of m (u, p) = map_option (info_of p) (user_files st os (u, p))"
  proof (cases "user_files st os (u, p)")
    case None
    have "map_of m (u, p) \<noteq> Some f" for f using look [of f] set [of u f] None by auto
    then have "map_of m (u, p) = None" by (cases "map_of m (u, p)") auto
    with None show ?thesis by simp
  next
    case (Some v)
    have "map_of m (u, p) = Some (info_of p v)"
      using look [of "info_of p v"] set [of u "info_of p v"] Some by (simp add: name)
    with Some show ?thesis by simp
  qed
qed

section \<open>One exchange over a link\<close>

text \<open>A link to a backup that is attached, waiting, and in a coherent state.\<close>

definition linked :: "('a node_scheme \<times> link_phase) conn \<Rightarrow> 'a node_scheme \<Rightarrow> bool" where
  "linked c nb \<longleftrightarrow> live c \<and> inq c = [] \<and> outq c = [] \<and> respond c = replica_respond \<and>
     peer_state c = (nb, Attached) \<and> node_ok nb"

lemma node_ok_wf: "node_ok nb \<Longrightarrow> wf_os (nd_os nb)"
  by (simp add: node_ok_def store_ok_def)

lemma linked_peer:
  "linked c nb \<Longrightarrow> node_ok nb' \<Longrightarrow> linked (c\<lparr>peer_state := (nb', Attached)\<rparr>) nb'"
  by (simp add: linked_def live_def)

lemma conn_same [simp]: "outq c = [] \<Longrightarrow> inq c = [] \<Longrightarrow> c\<lparr>outq := [], inq := []\<rparr> = c"
  by (cases c) simp

text \<open>The answer of the backup to a batch that it serves with a single message of its own.\<close>

lemma recv_linked:
  assumes "linked c nb" "msgs \<noteq> []" "serve_batch nb msgs = ((nb', phase), [reply])"
  shows "conn_recv (c\<lparr>outq := msgs\<rparr>) = (Received reply, c\<lparr>peer_state := (nb', phase)\<rparr>)"
proof -
  have "(c\<lparr>outq := msgs\<rparr>)\<lparr>peer_state := (nb', phase), outq := [], inq := []\<rparr> = c\<lparr>peer_state := (nb', phase)\<rparr>"
    using assms(1) by (cases c) (simp add: linked_def)
  with assms show ?thesis
    by (simp add: conn_recv_def linked_def live_def replica_respond_def)
qed

lemma recv_linked_none:
  assumes "linked c nb" "msgs \<noteq> []" "serve_batch nb msgs = ((nb', phase), [])"
  shows "\<exists>c'. conn_recv (c\<lparr>outq := msgs\<rparr>) = (Recv_Timeout, c')"
  using assms by (simp add: conn_recv_def linked_def live_def replica_respond_def)

lemma replica_conn_simps [simp]:
  "is_open (replica_conn msgs)" "inq (replica_conn msgs) = msgs" "outq (replica_conn msgs) = []"
  "peer_state (replica_conn msgs) = []" "live (replica_conn msgs)"
  "(replica_conn msgs)\<lparr>inq := ms\<rparr> = replica_conn ms"
  by (simp_all add: replica_conn_def live_def)

lemma replica_send:
  "length body \<le> MAX_PAYLOAD \<Longrightarrow>
     conn_send (replica_conn []) ty body = (True, (replica_conn [])\<lparr>outq := [\<lparr>mtype = ty, payload = body\<rparr>]\<rparr>)"
  by (simp add: conn_send_live)

lemma replica_send_error:
  "str_ok why \<Longrightarrow> send_error (replica_conn []) why =
     (Inr True, (replica_conn [])\<lparr>outq := [\<lparr>mtype = Msg_Error, payload = enc_str why\<rparr>]\<rparr>)"
  using replica_send [of "enc_str why" Msg_Error]
  by (simp add: send_error_def cstr.wr_enc) (simp add: enc_str_def MAX_PAYLOAD_def)

text \<open>A batch of one request, with the messages that belong to it.\<close>

lemma serve_batch_one:
  assumes "apply_replicated (replica_conn ms) m nb = (Inr True, (replica_conn [])\<lparr>outq := [reply]\<rparr>, nb')"
  shows "serve_batch nb (m # ms) = ((nb', Attached), [reply])"
proof -
  have "conn_recv (replica_conn (m # ms)) = (Received m, replica_conn ms)"
    using conn_recv_queued [of "replica_conn (m # ms)" m ms] by simp
  moreover have "serve_link n ((replica_conn [])\<lparr>outq := [reply]\<rparr>) nb' = (True, (replica_conn [])\<lparr>outq := [reply]\<rparr>, nb')" for n
    by (cases n) simp_all
  ultimately show ?thesis using assms by (simp add: serve_batch_def answers_def)
qed

lemma call_linked:
  assumes "linked c nb" "length body \<le> MAX_PAYLOAD"
    and "apply_replicated (replica_conn []) \<lparr>mtype = ty, payload = body\<rparr> nb = (Inr True, (replica_conn [])\<lparr>outq := [reply]\<rparr>, nb')"
  shows "call c ty body expected =
    (if mtype reply = expected then Call_Ok reply else Call_Rejected reply, c\<lparr>peer_state := (nb', Attached)\<rparr>)"
proof -
  have "conn_send c ty body = (True, c\<lparr>outq := [\<lparr>mtype = ty, payload = body\<rparr>]\<rparr>)"
    using assms(1,2) conn_send_live [of c body ty] by (simp add: linked_def)
  with recv_linked [OF assms(1) _ serve_batch_one [OF assms(3)]] show ?thesis by (simp add: call_def)
qed

text \<open>What a request changes at the backup: one file, or one account.\<close>

definition only_files :: "'a node_scheme \<Rightarrow> 'a node_scheme \<Rightarrow> (file_key \<Rightarrow> (string \<times> i64) option) \<Rightarrow> bool" where
  "only_files nb nb' m \<longleftrightarrow> node_ok nb' \<and> files_of nb' = m \<and> accs_of nb' = accs_of nb"

definition only_accounts :: "'a node_scheme \<Rightarrow> 'a node_scheme \<Rightarrow> (string \<Rightarrow> string option) \<Rightarrow> bool" where
  "only_accounts nb nb' m \<longleftrightarrow> node_ok nb' \<and> files_of nb' = files_of nb \<and> accs_of nb' = m"

lemma resolve_accounts_dir [simp]: "resolve (accounts_dir st) = resolve (st_root st) @ [''accounts'']"
  by (simp add: accounts_dir_def resolve_join_name)

lemma accounts_of_cong:
  assumes "resolve dir = resolve dir'"
    and "\<And>u. is_valid_username u \<Longrightarrow> file_at os (resolve dir @ [u]) = file_at os' (resolve dir @ [u])"
  shows "accounts_of dir os = accounts_of dir' os'"
proof
  fix u
  show "accounts_of dir os u = accounts_of dir' os' u"
    using assms by (simp add: accounts_of_def acc_get_file)
qed

lemma accounts_not_file: "resolve (st_root st) @ [''accounts'', v] \<noteq> file_node st u p"
  by (simp add: file_node_def user_base_def)

lemma accounts_not_temp: "temp_ok st temp \<Longrightarrow> resolve (st_root st) @ [''accounts'', v] \<noteq> resolve temp"
proof
  assume "temp_ok st temp" "resolve (st_root st) @ [''accounts'', v] = resolve temp"
  then have "butlast (resolve (st_root st) @ [''accounts'', v]) = resolve (st_root st) @ [''tmp'']"
    by (simp add: temp_ok_def)
  then show False by (simp add: butlast_append)
qed

lemma valid_name_lengths:
  "is_valid_username u \<Longrightarrow> length u \<le> 32" "is_valid_path p \<Longrightarrow> length p \<le> 1024"
  by (auto simp: is_valid_username_def MAX_USERNAME_LENGTH_def split: if_splits dest: valid_path_length)

subsection \<open>Deleting\<close>

lemma two_strings_enc: "str_ok a \<Longrightarrow> str_ok b \<Longrightarrow> two_strings a b = Inr (enc_str a @ enc_str b)"
  by (simp add: two_strings_def cstr.wr_enc)

lemma two_strings_Inr: "two_strings a b = Inr body \<Longrightarrow> str_ok a \<and> str_ok b \<and> body = enc_str a @ enc_str b"
proof -
  assume t: "two_strings a b = Inr body"
  then have "str_ok a \<and> str_ok b" by (auto simp: two_strings_def ebind_Inr_iff dest!: w_str_Inr)
  with t show ?thesis using two_strings_enc [of a b] by simp
qed

lemma read_two_strings:
  "str_ok a \<Longrightarrow> str_ok b \<Longrightarrow>
     ebind (r_str (new_reader (enc_str a @ enc_str b))) (\<lambda>(a, r). ebind (r_str r) (\<lambda>(b, r). Inr (a, b))) = Inr (a, b)"
  using cstr.rd_enc [of b "enc_str a" "[]"] by (simp add: new_reader_cursor cstr.rd_enc)

lemma delete_on_link_effect:
  assumes "linked c nb" "is_valid_username u" "is_valid_path p" "delete_on_link c u p = (r, c')"
  shows "r = Inr True \<and> (\<exists>nb'. linked c' nb' \<and> only_files nb nb' ((files_of nb)((u, p) := None)))"
proof -
  have ok: "node_ok nb" using assms(1) by (simp add: linked_def)
  have str: "str_ok u" "str_ok p" using valid_name_lengths assms(2,3) by fastforce+
  let ?body = "enc_str u @ enc_str p"
  have len: "length ?body \<le> MAX_PAYLOAD" using str by (simp add: enc_str_def MAX_PAYLOAD_def)
  obtain b st os where rm: "store_remove (nd_store nb) u p (nd_os nb) = (b, st, os)" by (metis prod_cases3)
  let ?nb = "nb\<lparr>nd_store := st, nd_os := os\<rparr>" and ?ok = "\<lparr>mtype = Msg_Ok, payload = []\<rparr>"
  have ap: "apply_replicated (replica_conn []) \<lparr>mtype = Msg_ReplDelete, payload = ?body\<rparr> nb =
      (Inr True, (replica_conn [])\<lparr>outq := [?ok]\<rparr>, ?nb)"
    by (simp add: apply_replicated_def apply_delete_def read_two_strings [OF str] assms(2,3) rm replica_send)
  have res: "r = Inr True" "c' = c\<lparr>peer_state := (?nb, Attached)\<rparr>"
    using assms(4) call_linked [OF assms(1) len ap]
    by (simp_all add: delete_on_link_def two_strings_enc [OF str] call_ok_def)
  have st0: "store_ok (nd_store nb, nd_os nb)" using ok by (simp add: node_ok_def)
  note e = store_remove_effect [OF st0 assms(2,3) rm]
  have acc: "accounts_of (accounts_dir st) os = accounts_of (accounts_dir (nd_store nb)) (nd_os nb)"
    using store_remove_frame [OF node_ok_wf [OF ok] assms(2,3) rm] e(2) accounts_not_file
    by (intro accounts_of_cong) simp_all
  have files: "user_files st os = (files_of nb)((u, p) := None)"
    using e(3,4) by (cases b; cases "files_of nb (u, p)") (auto simp: fun_eq_iff)
  have "only_files nb ?nb ((files_of nb)((u, p) := None))"
    using e(1) files acc by (simp add: only_files_def node_ok_def)
  with res linked_peer [OF assms(1), of ?nb] show ?thesis by (auto simp: only_files_def)
qed

subsection \<open>Accounts\<close>

lemma account_on_link_effect:
  assumes "linked c nb" "is_valid_username u" "is_valid_record rec" "account_on_link c u rec = (Inr True, c')"
  shows "\<exists>nb'. linked c' nb' \<and> only_accounts nb nb' ((accs_of nb)(u \<mapsto> rec))"
proof -
  have ok: "node_ok nb" using assms(1) by (simp add: linked_def)
  obtain body where "two_strings u rec = Inr body"
    using assms(4) by (cases "two_strings u rec") (simp_all add: account_on_link_def)
  note b = two_strings_Inr [OF this]
  then have str: "str_ok u" "str_ok rec" and body: "two_strings u rec = Inr (enc_str u @ enc_str rec)"
    by (simp_all add: two_strings_enc)
  let ?body = "enc_str u @ enc_str rec"
  have len: "length ?body \<le> MAX_PAYLOAD" using str by (simp add: enc_str_def MAX_PAYLOAD_def)
  obtain ok1 os where put: "acc_put (accounts_dir (nd_store nb)) u rec (nd_os nb) = (ok1, os)" by fastforce
  let ?nb = "nb\<lparr>nd_os := os\<rparr>" and ?why = "''could not store the replicated account''"
  let ?reply = "if ok1 then \<lparr>mtype = Msg_Ok, payload = []\<rparr> else \<lparr>mtype = Msg_Error, payload = enc_str ?why\<rparr>"
  have ap: "apply_replicated (replica_conn []) \<lparr>mtype = Msg_ReplAccount, payload = ?body\<rparr> nb =
      (Inr True, (replica_conn [])\<lparr>outq := [?reply]\<rparr>, ?nb)"
    by (simp add: apply_replicated_def apply_account_def read_two_strings [OF str] assms(2,3) put replica_send
        replica_send_error)
  have res: "ok1" "c' = c\<lparr>peer_state := (?nb, Attached)\<rparr>"
    using assms(4) call_linked [OF assms(1) len ap]
    by (auto simp: account_on_link_def body call_ok_def split: if_splits)
  note wf = node_ok_wf [OF ok]
  have w: "acc_write (accounts_dir (nd_store nb)) u rec (nd_os nb) = (ok1, os)" using put by (simp add: acc_put_def)
  note e = accounts_of_write [OF wf assms(2,3) w] and f = acc_write_effect(5) [OF wf assms(2) w]
  have "butlast (file_node (nd_store nb) v p) \<noteq> resolve (accounts_dir (nd_store nb))" for v p
    by (simp add: file_node_def user_base_def butlast_append)
  then have "file_at os (file_node (nd_store nb) v p) = file_at (nd_os nb) (file_node (nd_store nb) v p)" for v p
    using f by (simp add: file_at_def)
  from store_ok_frame [OF _ e(1) this] ok e(2) res(1)
  have "only_accounts nb ?nb ((accs_of nb)(u \<mapsto> rec))" by (simp add: only_accounts_def node_ok_def)
  with res linked_peer [OF assms(1), of ?nb] show ?thesis by (auto simp: only_accounts_def)
qed

subsection \<open>Files\<close>

lemma serve_batch_silent:
  assumes "apply_replicated (replica_conn ms) m nb = (Inr False, (replica_conn [])\<lparr>inq := q\<rparr>, nb')"
  shows "serve_batch nb (m # ms) = ((nb', Link_closed), [])"
proof -
  have "conn_recv (replica_conn (m # ms)) = (Received m, replica_conn ms)"
    using conn_recv_queued [of "replica_conn (m # ms)" m ms] by simp
  with assms show ?thesis by (simp add: serve_batch_def answers_def)
qed

lemma replica_inq: "(replica_conn ms)\<lparr>inq := q\<rparr> = (replica_conn [])\<lparr>inq := q\<rparr>"
  by (simp add: replica_conn_def)

text \<open>Committing a file that was received into a temporary one.\<close>

lemma commit_only_files:
  assumes ok: "node_ok nb" and valid: "is_valid_username u" "is_valid_path p" and tok: "temp_ok (nd_store nb) temp"
    and os2: "wf_os os2" "\<And>q. q \<noteq> resolve temp \<Longrightarrow> file_at os2 q = file_at (nd_os nb) q" "file_at os2 (resolve temp) = Some (bs, t)"
    and commit: "store_commit (nd_store nb) u p temp m os2 = (True, st, os3)"
  shows "\<exists>m'. only_files nb (nb\<lparr>nd_store := st, nd_os := os3\<rparr>) ((files_of nb)((u, p) \<mapsto> (bs, m')))"
proof -
  let ?st = "nd_store nb" and ?nb = "nb\<lparr>nd_store := st, nd_os := os3\<rparr>"
  define m' where "m' = (if mtime_exact m then m else mtime_of t)"
  have fr: "file_at os2 (file_node ?st v q) = file_at (nd_os nb) (file_node ?st v q)" for v q
    using os2(2) [of "file_node ?st v q"] temp_not_file [OF tok, of v q] by metis
  have "store_ok (?st, nd_os nb)" using ok by (simp add: node_ok_def)
  note store2 = store_ok_frame [OF this os2(1) fr]
  have "received (?st, os2) (temp, m) = Some (bs, m')" by (simp add: received_def tok os2(3) m'_def)
  note e = store_commit_effect [OF store2(1) valid this commit] and f = store_commit_frame [OF os2(1) valid tok commit]
  have "file_at os3 (resolve (st_root ?st) @ [''accounts'', v]) = file_at (nd_os nb) (resolve (st_root ?st) @ [''accounts'', v])" for v
    using f(1) [of "resolve (st_root ?st) @ [''accounts'', v]"] accounts_not_file accounts_not_temp [OF tok] os2(2)
    by metis
  then have "accs_of ?nb = accs_of nb"
    using e(2) by (simp add: accounts_of_cong [of "accounts_dir st" "accounts_dir ?st"])
  then have "only_files nb ?nb ((files_of nb)((u, p) \<mapsto> (bs, m')))"
    using e(1,3) store2(2) by (simp add: only_files_def node_ok_def)
  then show ?thesis ..
qed

text \<open>The backup serves a whole transfer: no answer, an error, or the file is there.\<close>

lemma serve_put:
  fixes nb :: "'a node_scheme"
  assumes ok: "node_ok nb" and valid: "is_valid_username u" "is_valid_path p"
    and info: "fi_name info = p" "fi_size info = of_nat (length bs)" "fi_hash info = 0"
  defines "first \<equiv> \<lparr>mtype = Msg_ReplPut, payload = enc_str u @ enc_header info\<rparr>"
    and "ms \<equiv> map data_msg (file_chunks bs) @ [end_msg]"
  shows "(\<exists>nb'. serve_batch nb (first # ms) = ((nb', Link_closed), [])) \<or>
    (\<exists>nb' reply. serve_batch nb (first # ms) = ((nb', Attached), [reply]) \<and> mtype reply \<noteq> Msg_Ok) \<or>
    (\<exists>nb' reply m. serve_batch nb (first # ms) = ((nb', Attached), [reply]) \<and>
       only_files nb nb' ((files_of nb)((u, p) \<mapsto> (bs, m))))"
proof -
  let ?st = "nd_store nb" and ?c = "replica_conn ms"
  have str: "str_ok u" "str_ok (fi_name info)" using valid_name_lengths valid info(1) by fastforce+
  have "ebind (r_str (new_reader (enc_str u @ enc_header info))) (\<lambda>(user, r).
      ebind (read_file_header r) (\<lambda>(info, r). Inr (user, info))) = Inr (u, info\<lparr>fi_hash := 0\<rparr>)"
    using read_file_header_ok [OF str(2), of "enc_str u" "[]"] by (simp add: new_reader_cursor cstr.rd_enc [OF str(1)])
  moreover have "info\<lparr>fi_hash := 0\<rparr> = info" using info(3) by (cases info) simp
  ultimately have parse: "ebind (r_str (new_reader (enc_str u @ enc_header info))) (\<lambda>(user, r).
      ebind (read_file_header r) (\<lambda>(info, r). Inr (user, info))) = Inr (u, info)" by simp
  obtain temp os1 where temp: "new_temp_path ?st (nd_os nb) = (temp, os1)" by fastforce
  note tok = new_temp_path_ok [OF temp]
  have os1: "wf_os os1" "os_node os1 = os_node (nd_os nb)"
    using temp node_ok_wf [OF ok] by (auto simp: new_temp_path_def make_temp_path_eq)
  obtain res h c2 os2 where rb: "recv_file_body ?c temp (fi_size info) os1 = (res, h, c2, os2)" by (metis prod_cases4)
  have q: "is_open ?c" "inq ?c = map data_msg (file_chunks bs) @ end_msg # []" "mtype end_msg \<noteq> Msg_FileData"
    by (simp_all add: ms_def end_msg_def)
  have t0: "temp \<noteq> []" using tok by (simp add: temp_ok_def)
  note eff = recv_file_body_effect [OF os1(1) t0 rb]
  note unf = apply_replicated_def apply_put_def parse first_def message.select_convs
  show ?thesis
  proof (cases "res = T_ConnectionLost")
    case True
    obtain q where "c2 = (replica_conn [])\<lparr>inq := q\<rparr>"
      using recv_file_body_queue [OF q rb] replica_inq by blast
    then have "apply_replicated ?c first nb = (Inr False, (replica_conn [])\<lparr>inq := q\<rparr>, nb\<lparr>nd_os := os2\<rparr>)"
      unfolding unf by (simp add: temp rb True)
    from serve_batch_silent [OF this] show ?thesis by blast
  next
    case False
    have c2: "c2 = replica_conn []"
      using recv_file_body_sync(1) [OF q rb False] by simp
    obtain ok1 st os3 where cm: "(if res = T_Ok \<and> is_valid_username u \<and> is_valid_path (fi_name info)
        then store_commit ?st u (fi_name info) temp (fi_mtime info) os2 else (False, ?st, os2)) = (ok1, st, os3)"
      by (metis prod_cases3)
    show ?thesis
    proof (cases ok1)
      case False
      have "apply_replicated ?c first nb =
          (Inr True, (replica_conn [])\<lparr>outq := [\<lparr>mtype = Msg_Error, payload = enc_str ''could not store the replicated file''\<rparr>]\<rparr>,
           nb\<lparr>nd_store := st, nd_os := snd (remove_file temp os3)\<rparr>)"
        unfolding unf using \<open>res \<noteq> T_ConnectionLost\<close> cm False by (simp add: temp rb c2 replica_send_error)
      from serve_batch_one [OF this] show ?thesis by auto
    next
      case True
      then have res: "res = T_Ok" and commit: "store_commit ?st u p temp (fi_mtime info) os2 = (True, st, os3)"
        using cm info(1) by (auto split: if_splits)
      let ?nb = "nb\<lparr>nd_store := st, nd_os := os3\<rparr>"
      have ap: "apply_replicated ?c first nb =
          (Inr True, (replica_conn [])\<lparr>outq := [\<lparr>mtype = Msg_Ok, payload = []\<rparr>]\<rparr>, ?nb)"
        unfolding unf using cm res True by (simp add: temp rb c2 replica_send)
      obtain t where fa: "file_at os2 (resolve temp) = Some (bs, t)"
        using recv_file_body_content [OF os1(1) q] rb res by force
      have frame: "file_at os2 q = file_at (nd_os nb) q" if "q \<noteq> resolve temp" for q
        using eff(3) [OF that] os1(2) by (simp add: file_at_def)
      from commit_only_files [OF ok valid tok eff(1) frame fa commit]
      obtain m where "only_files nb ?nb ((files_of nb)((u, p) \<mapsto> (bs, m)))" ..
      with serve_batch_one [OF ap] show ?thesis by blast
    qed
  qed
qed

lemma put_on_link_effect:
  assumes link: "linked c nb" and uf: "user_files st os (u, p) = Some (bs, m)"
    and os: "cut_at os = None" "small bs" and put: "put_on_link c st os u p = (Inr True, c')"
  shows "\<exists>nb' m'. linked c' nb' \<and> only_files nb nb' ((files_of nb)((u, p) \<mapsto> (bs, m')))"
proof -
  have valid: "is_valid_username u" "is_valid_path p" using user_files_valid [OF uf] by simp_all
  obtain t where fa: "file_at os (resolve (file_path st u p)) = Some (bs, t)"
    using uf valid by (auto simp: user_files_def resolve_file_path)
  let ?info = "new_file_info\<lparr>fi_name := p, fi_size := of_nat (length bs), fi_mtime := mtime_of t\<rparr>"
  let ?msgs = "\<lparr>mtype = Msg_ReplPut, payload = enc_str u @ enc_header ?info\<rparr> # map data_msg (file_chunks bs) @ [end_msg]"
  have lens: "length u \<le> 32" "length p \<le> 1024" using valid_name_lengths valid by auto
  have prefix: "w_str u [] = Inr (enc_str u)" using cstr.wr_enc [of u "[]"] lens by simp
  have send: "send_file c Msg_ReplPut (enc_str u) p (file_path st u p) os = (Inr (T_Ok, ?info), c\<lparr>outq := ?msgs\<rparr>)"
    using send_file_live [OF _ file_path_not_Nil fa os, of c "enc_str u" p Msg_ReplPut] link lens
    by (simp add: linked_def enc_str_def MAX_PAYLOAD_def)
  have ok: "node_ok nb" using link by (simp add: linked_def)
  have info: "fi_name ?info = p" "fi_size ?info = of_nat (length bs)" "fi_hash ?info = 0"
    by (simp_all add: new_file_info_def)
  from serve_put [OF ok valid info] consider
      nb' where "serve_batch nb ?msgs = ((nb', Link_closed), [])"
    | nb' reply where "serve_batch nb ?msgs = ((nb', Attached), [reply])" "mtype reply \<noteq> Msg_Ok"
    | nb' reply m where "serve_batch nb ?msgs = ((nb', Attached), [reply])"
        "only_files nb nb' ((files_of nb)((u, p) \<mapsto> (bs, m)))"
    by blast
  then show ?thesis
  proof cases
    case 1
    then obtain c2 where "conn_recv (c\<lparr>outq := ?msgs\<rparr>) = (Recv_Timeout, c2)"
      using recv_linked_none [OF link, of ?msgs] by blast
    with put show ?thesis by (simp add: put_on_link_def prefix send)
  next
    case 2
    with recv_linked [OF link _ 2(1)] put show ?thesis by (simp add: put_on_link_def prefix send)
  next
    case 3
    then have "c' = c\<lparr>peer_state := (nb', Attached)\<rparr>"
      using recv_linked [OF link _ 3(1)] put by (simp add: put_on_link_def prefix send)
    with 3(2) linked_peer [OF link, of nb'] show ?thesis by (auto simp: only_files_def)
  qed
qed

section \<open>Bringing a backup up to date\<close>

text \<open>The same hash and the same announced size: what the manifest can tell.\<close>

definition same_content :: "(string \<times> i64) option \<Rightarrow> (string \<times> i64) option \<Rightarrow> bool" where
  "same_content a b \<longleftrightarrow>
     (case (a, b) of
        (None, None) \<Rightarrow> True
      | (Some x, Some y) \<Rightarrow>
          content_hash (fst x) = content_hash (fst y) \<and>
          (of_nat (length (fst x)) :: u64) = of_nat (length (fst y))
      | _ \<Rightarrow> False)"

definition small_files :: "os \<Rightarrow> bool" where
  "small_files os \<longleftrightarrow> list_all (\<lambda>e. case snd e of N_file bs _ \<Rightarrow> small bs | _ \<Rightarrow> True) (tree os)"

lemma small_files_at: "small_files os \<Longrightarrow> file_at os p = Some (bs, t) \<Longrightarrow> small bs"
  by (auto simp: small_files_def list_all_iff file_at_def os_node_def
      split: option.splits Posix.node.splits if_splits dest!: map_of_SomeD)

lemma small_user_file: "small_files os \<Longrightarrow> user_files st os k = Some v \<Longrightarrow> small (fst v)"
  by (auto simp: user_files_def split: if_splits prod.splits dest: small_files_at)

lemma same_content_refl [simp]: "same_content (Some (bs, m)) (Some (bs, m'))" "same_content None None"
  by (simp_all add: same_content_def)

lemma send_accounts_effect:
  "\<lbrakk>linked c nb; distinct (map fst as); \<forall>(u, rec) \<in> set as. is_valid_username u \<and> is_valid_record rec;
    \<forall>(u, rec) \<in> set as. map_of remote u = Some rec \<longrightarrow> accs_of nb u = Some rec;
    send_accounts c remote as = (Inr True, c')\<rbrakk> \<Longrightarrow>
   \<exists>nb'. linked c' nb' \<and> files_of nb' = files_of nb \<and> accs_of nb' = accs_of nb ++ map_of as"
proof (induction as arbitrary: c nb)
  case (Cons a as)
  obtain u rec where a: "a = (u, rec)" by (cases a)
  show ?case
  proof (cases "map_of remote u = Some rec")
    case True
    with Cons.prems obtain nb' where "linked c' nb'" "files_of nb' = files_of nb" "accs_of nb' = accs_of nb ++ map_of as"
      using Cons.IH [of c nb] by (auto simp: a)
    moreover have "accs_of nb ++ map_of (a # as) = accs_of nb ++ map_of as"
      using True Cons.prems(2,4) by (force simp: a fun_eq_iff map_add_def dest: map_of_SomeD split: option.splits)
    ultimately show ?thesis by metis
  next
    case False
    obtain c1 where one: "account_on_link c u rec = (Inr True, c1)" and rest: "send_accounts c1 remote as = (Inr True, c')"
      using Cons.prems(5) False by (auto simp: a split: prod.splits sum.splits bool.splits)
    have "is_valid_username u" "is_valid_record rec" using Cons.prems(3) by (auto simp: a)
    from account_on_link_effect [OF Cons.prems(1) this one] obtain nb1
      where nb1: "linked c1 nb1" "files_of nb1 = files_of nb" "accs_of nb1 = (accs_of nb)(u \<mapsto> rec)"
      by (auto simp: only_accounts_def)
    have "\<forall>(v, r) \<in> set as. map_of remote v = Some r \<longrightarrow> accs_of nb1 v = Some r"
      using Cons.prems(2,4) by (force simp: a nb1(3))
    with Cons.IH [OF nb1(1) _ _ this rest] Cons.prems(2,3) obtain nb'
      where nb': "linked c' nb'" "files_of nb' = files_of nb1" "accs_of nb' = accs_of nb1 ++ map_of as"
      by (auto simp: a)
    moreover have "accs_of nb' = (accs_of nb)(u \<mapsto> rec) ++ map_of as" "files_of nb' = files_of nb"
      by (simp_all only: nb' nb1)
    moreover have "(accs_of nb)(u \<mapsto> rec) ++ map_of as = accs_of nb ++ map_of (a # as)"
      using Cons.prems(2) by (simp add: a map_add_upd_left dom_map_of_conv_image_fst)
    ultimately show ?thesis by metis
  qed
qed auto

lemma send_files_effect:
  "\<lbrakk>linked c nb; cut_at os = None; small_files os; distinct (map fst fs);
    \<forall>(k, f) \<in> set fs. \<exists>v. user_files st os k = Some v \<and> f = info_of (snd k) v;
    \<forall>(k, f) \<in> set fs. same_file (map_of remote k) f \<longrightarrow> same_content (user_files st os k) (files_of nb k);
    send_files c st os remote fs = (Inr True, c')\<rbrakk> \<Longrightarrow>
   \<exists>nb'. linked c' nb' \<and> accs_of nb' = accs_of nb \<and>
     (\<forall>k \<in> fst ` set fs. same_content (user_files st os k) (files_of nb' k)) \<and>
     (\<forall>k. k \<notin> fst ` set fs \<longrightarrow> files_of nb' k = files_of nb k)"
proof (induction fs arbitrary: c nb)
  case (Cons e fs)
  obtain k f where e: "e = (k, f)" by (cases e)
  obtain u p where k: "k = (u, p)" by (cases k)
  have kn: "k \<notin> fst ` set fs" using Cons.prems(4) by (simp add: e)
  have sub: "distinct (map fst fs)" "\<forall>(k, f) \<in> set fs. \<exists>v. user_files st os k = Some v \<and> f = info_of (snd k) v"
    using Cons.prems(4,5) by auto
  show ?case
  proof (cases "same_file (map_of remote k) f")
    case True
    then have rest: "send_files c st os remote fs = (Inr True, c')" using Cons.prems(7) by (simp add: e)
    have "\<forall>(k, f) \<in> set fs. same_file (map_of remote k) f \<longrightarrow> same_content (user_files st os k) (files_of nb k)"
      using Cons.prems(6) by auto
    from Cons.IH [OF Cons.prems(1-3) sub this rest] obtain nb' where nb': "linked c' nb'" "accs_of nb' = accs_of nb"
      "\<forall>k \<in> fst ` set fs. same_content (user_files st os k) (files_of nb' k)"
      "\<forall>k. k \<notin> fst ` set fs \<longrightarrow> files_of nb' k = files_of nb k" by blast
    have "same_content (user_files st os k) (files_of nb' k)"
      using True Cons.prems(6) nb'(4) [rule_format, OF kn] by (auto simp: e)
    with nb' show ?thesis by (intro exI [of _ nb']) (auto simp: e)
  next
    case False
    obtain c1 where one: "put_on_link c st os u p = (Inr True, c1)" and rest: "send_files c1 st os remote fs = (Inr True, c')"
      using Cons.prems(7) False by (auto simp: e k split: prod.splits sum.splits bool.splits)
    obtain bs m where v: "user_files st os (u, p) = Some (bs, m)" using Cons.prems(5) by (auto simp: e k)
    have "small bs" using small_user_file [OF Cons.prems(3) v] by simp
    from put_on_link_effect [OF Cons.prems(1) v Cons.prems(2) this one] obtain nb1 m'
      where nb1: "linked c1 nb1" "accs_of nb1 = accs_of nb" "files_of nb1 = (files_of nb)((u, p) \<mapsto> (bs, m'))"
      by (auto simp: only_files_def)
    have "\<forall>(j, f) \<in> set fs. same_file (map_of remote j) f \<longrightarrow> same_content (user_files st os j) (files_of nb1 j)"
      using Cons.prems(6) kn by (force simp: nb1(3) k)
    from Cons.IH [OF nb1(1) Cons.prems(2,3) sub this rest] obtain nb' where nb': "linked c' nb'" "accs_of nb' = accs_of nb"
      "\<forall>k \<in> fst ` set fs. same_content (user_files st os k) (files_of nb' k)"
      "\<forall>k. k \<notin> fst ` set fs \<longrightarrow> files_of nb' k = files_of nb1 k" using nb1(2) by auto
    have "files_of nb' k = Some (bs, m')" using nb'(4) kn by (simp add: nb1(3) k)
    then have "same_content (user_files st os k) (files_of nb' k)" using v by (simp add: k)
    with nb' show ?thesis by (intro exI [of _ nb']) (auto simp: e nb1(3) k)
  qed
qed auto

lemma send_deletes_effect:
  "\<lbrakk>linked c nb; \<forall>(k, f) \<in> set fs. is_valid_username (fst k) \<and> is_valid_path (snd k);
    send_deletes c locals fs = (Inr True, c')\<rbrakk> \<Longrightarrow>
   \<exists>nb'. linked c' nb' \<and> accs_of nb' = accs_of nb \<and>
     (\<forall>k. files_of nb' k = (if k \<in> fst ` set fs \<and> map_of locals k = None then None else files_of nb k))"
proof (induction fs arbitrary: c nb)
  case (Cons e fs)
  obtain k f where e: "e = (k, f)" by (cases e)
  obtain u p where k: "k = (u, p)" by (cases k)
  show ?case
  proof (cases "map_of locals k = None")
    case False
    with Cons.IH [OF Cons.prems(1)] Cons.prems(2,3) obtain nb' where "linked c' nb'" "accs_of nb' = accs_of nb"
      "\<forall>k. files_of nb' k = (if k \<in> fst ` set fs \<and> map_of locals k = None then None else files_of nb k)"
      by (auto simp: e)
    with False show ?thesis by (intro exI [of _ nb']) (auto simp: e)
  next
    case True
    obtain c1 where one: "delete_on_link c u p = (Inr True, c1)" and rest: "send_deletes c1 locals fs = (Inr True, c')"
      using Cons.prems(3) True by (auto simp: e k split: prod.splits sum.splits bool.splits)
    have "is_valid_username u" "is_valid_path p" using Cons.prems(2) by (auto simp: e k)
    from delete_on_link_effect [OF Cons.prems(1) this one] obtain nb1
      where nb1: "linked c1 nb1" "accs_of nb1 = accs_of nb" "files_of nb1 = (files_of nb)((u, p) := None)"
      by (auto simp: only_files_def)
    from Cons.IH [OF nb1(1) _ rest] Cons.prems(2) obtain nb' where "linked c' nb'" "accs_of nb' = accs_of nb"
      "\<forall>k. files_of nb' k = (if k \<in> fst ` set fs \<and> map_of locals k = None then None else files_of nb1 k)"
      using nb1(2) by auto
    with True show ?thesis by (intro exI [of _ nb']) (auto simp: e nb1(3) k)
  qed
qed auto

text \<open>A new connection to a backup: nothing has been sent on it.\<close>

definition fresh_link :: "('a node_scheme \<times> link_phase) conn \<Rightarrow> 'a node_scheme \<Rightarrow> bool" where
  "fresh_link c nb \<longleftrightarrow> live c \<and> inq c = [] \<and> outq c = [] \<and> respond c = replica_respond \<and>
     peer_state c = (nb, Fresh) \<and> node_ok nb \<and> cut_at (nd_os nb) = None"

lemma build_manifest_spec:
  assumes ok: "node_ok nb" "cut_at (nd_os nb) = None"
    and b: "build_manifest nb = (Inr manifest, nb')" "length manifest \<le> MAX_PAYLOAD"
  obtains as remote where
    "read_manifest (new_reader manifest) = Inr ((account_map as, remote), cursor manifest [])"
    "\<And>u rec. map_of (account_map as) u = Some rec \<Longrightarrow> accs_of nb u = Some rec"
    "omap_wf remote"
    "\<And>u p. map_of remote (u, p) = map_option (info_of p) (files_of nb (u, p))"
    "node_ok nb'" "files_of nb' = files_of nb" "accs_of nb' = accs_of nb"
proof -
  let ?st = "nd_store nb" and ?os = "nd_os nb"
  obtain entries st where e: "list_users (store_users ?st ?os) ?os ?st = (entries, st)" by fastforce
  let ?as = "acc_all (accounts_dir ?st) ?os"
  have w: "write_manifest ?as entries [] = Inr manifest" and nb': "nb' = nb\<lparr>nd_store := st\<rparr>"
    using b(1) by (simp_all add: build_manifest_def e)
  have lf: "local_files ?st ?os = (entry_map entries, st)" by (simp add: local_files_def e entry_map_def)
  have st0: "store_ok (?st, ?os)" using ok(1) by (simp add: node_ok_def)
  note l = local_files_spec [OF st0 ok(2) lf]
  have "(u, rec) \<in> set ?as" if "map_of (account_map ?as) u = Some rec" for u rec
  proof -
    have "map_of (rev ?as) u = Some rec"
      using that om.find_foldl_put [of "[]" fst snd ?as] by (simp add: account_map_def)
    then show ?thesis by (auto dest: map_of_SomeD)
  qed
  moreover have "accounts_dir ?st \<noteq> []" by (simp add: accounts_dir_def join_path_def)
  ultimately have acc: "accs_of nb u = Some rec" if "map_of (account_map ?as) u = Some rec" for u rec
    using acc_all_iff [OF node_ok_wf [OF ok(1)], of "accounts_dir ?st" u rec] that by blast
  have same: "files_of nb' = files_of nb" "accs_of nb' = accs_of nb"
    using l(2) user_files_root [of st ?st] by (simp_all add: nb' accounts_dir_def)
  show ?thesis
  proof (rule that)
    show "read_manifest (new_reader manifest) = Inr ((account_map ?as, entry_map entries), cursor manifest [])"
      by (rule manifest_roundtrip [OF w b(2)])
    show "node_ok nb'" using l(1) by (simp add: nb' node_ok_def)
  qed (use acc l(3,4) same in auto)
qed

lemma node_ok_members [simp]: "node_ok (nb\<lparr>nd_members := ms\<rparr>) = node_ok nb"
  by (simp add: node_ok_def)

lemma acc_all_distinct:
  assumes "wf_os os"
  shows "distinct (map fst (acc_all dir os))" "\<forall>(u, rec) \<in> set (acc_all dir os). is_valid_username u \<and> is_valid_record rec"
proof -
  define us where "us = sort (case sys_readdir dir os of None \<Rightarrow> [] | Some names \<Rightarrow> filter is_valid_username names)"
  have us: "distinct us" using distinct_readdir [OF assms, of dir] by (auto simp: us_def split: option.splits)
  have all: "acc_all dir os = concat (map (\<lambda>user. case acc_get dir user os of None \<Rightarrow> [] | Some rec \<Rightarrow> [(user, rec)]) us)"
    by (simp add: acc_all_def us_def Let_def)
  show "distinct (map fst (acc_all dir os))"
    unfolding all using us
  proof (induction us)
    case (Cons u us)
    have "fst ` set (concat (map (\<lambda>user. case acc_get dir user os of None \<Rightarrow> [] | Some rec \<Rightarrow> [(user, rec)]) us)) \<subseteq> set us"
      by (auto split: option.splits)
    with Cons show ?case by (auto split: option.splits)
  qed simp
  show "\<forall>(u, rec) \<in> set (acc_all dir os). is_valid_username u \<and> is_valid_record rec"
    by (auto simp: acc_all_def Let_def acc_get_def split: option.splits if_splits)
qed

text \<open>The backup answers the request with its manifest.\<close>

lemma attach_answer:
  assumes fresh: "fresh_link c nb" and called: "call c Msg_ReplicaAttach body Msg_ReplicaManifest = (Call_Ok m, c1)"
  shows "\<exists>nb1. begin_attach body nb = (Inr (payload m), nb1) \<and> length (payload m) \<le> MAX_PAYLOAD \<and>
    c1 = c\<lparr>peer_state := (nb1, Attached)\<rparr>"
proof -
  obtain b c2 where snd: "conn_send c Msg_ReplicaAttach body = (b, c2)" by fastforce
  then have b: "b" using called by (cases b) (auto simp: call_def)
  then have c2: "c2 = c\<lparr>outq := [\<lparr>mtype = Msg_ReplicaAttach, payload = body\<rparr>]\<rparr>"
    using snd fresh by (auto simp: conn_send_def fresh_link_def live_def split: if_splits)
  obtain s replies where resp: "replica_respond (nb, Fresh) [\<lparr>mtype = Msg_ReplicaAttach, payload = body\<rparr>] = (s, replies)"
    by fastforce
  obtain e nb1 where ba: "begin_attach body nb = (e, nb1)" by fastforce
  have serve: "serve_batch nb1 [] = ((nb1, Attached), [])" by (simp add: serve_batch_def answers_def)
  have rcv: "conn_recv c2 = (Received m, c1)"
    using called snd b by (auto simp: call_def split: recv_result.splits prod.splits if_splits)
  then obtain manifest where e: "e = Inr manifest" "length manifest \<le> MAX_PAYLOAD"
    using fresh resp ba by (cases e) (auto simp: c2 conn_recv_def fresh_link_def live_def replica_respond_def split: if_splits)
  then have "payload m = manifest" "c1 = c\<lparr>peer_state := (nb1, Attached)\<rparr>"
    using rcv fresh ba serve
    by (cases c; auto simp: c2 conn_recv_def fresh_link_def live_def replica_respond_def)+
  with e ba show ?thesis by blast
qed

lemma acc_all_map:
  assumes "wf_os os"
  shows "map_of (acc_all (accounts_dir st) os) = accounts_of (accounts_dir st) os"
proof
  fix u
  have ne: "accounts_dir st \<noteq> []" by (simp add: accounts_dir_def join_path_def)
  show "map_of (acc_all (accounts_dir st) os) u = accounts_of (accounts_dir st) os u"
    using acc_all_iff [OF assms ne, of u] acc_all_distinct(1) [OF assms, of "accounts_dir st"]
    by (metis map_of_eq_Some_iff not_None_eq)
qed

text \<open>Sending what differs and deleting what is extra makes the files agree.\<close>

lemma mirror_files:
  fixes nb :: "'a node_scheme"
  assumes link: "linked c nb" and os: "cut_at os = None" "small_files os" and wf: "omap_wf locals"
    and local: "\<And>k. map_of locals k = map_option (info_of (snd k)) (user_files st os k)"
    and remote: "\<And>k. map_of remote k = map_option (info_of (snd k)) (files_of nb k)"
    and sent: "send_files c st os remote locals = (Inr True, c2)" "send_deletes c2 locals remote = (Inr True, c')"
  shows "\<exists>nb'. linked c' nb' \<and> accs_of nb' = accs_of nb \<and> (\<forall>k. same_content (user_files st os k) (files_of nb' k))"
proof -
  have keys: "k \<in> fst ` set locals \<longleftrightarrow> user_files st os k \<noteq> None" "k \<in> fst ` set remote \<longleftrightarrow> files_of nb k \<noteq> None" for k
    using local [of k] remote [of k] map_of_eq_None_iff [of locals k] map_of_eq_None_iff [of remote k] by auto
  have mem: "\<exists>v. user_files st os k = Some v \<and> f = info_of (snd k) v" if "(k, f) \<in> set locals" for k f
    using omap_wf_map_of [OF wf, of k f] that local [of k] by auto
  have eq: "same_content (user_files st os k) (files_of nb k)" if "(k, f) \<in> set locals" "same_file (map_of remote k) f" for k f
    using mem [OF that(1)] that(2) remote [of k]
    by (auto simp: same_file_def same_content_def info_of_def split: option.splits)
  have "\<forall>(k, f) \<in> set locals. \<exists>v. user_files st os k = Some v \<and> f = info_of (snd k) v"
    "\<forall>(k, f) \<in> set locals. same_file (map_of remote k) f \<longrightarrow> same_content (user_files st os k) (files_of nb k)"
    using mem eq by auto
  from send_files_effect [OF link os omap_wf_distinct [OF wf] this sent(1)] obtain nb3
    where nb3: "linked c2 nb3" "accs_of nb3 = accs_of nb"
      "\<forall>k \<in> fst ` set locals. same_content (user_files st os k) (files_of nb3 k)"
      "\<forall>k. k \<notin> fst ` set locals \<longrightarrow> files_of nb3 k = files_of nb k" by auto
  have "\<forall>(k, f) \<in> set remote. is_valid_username (fst k) \<and> is_valid_path (snd k)"
  proof clarify
    fix u p f assume "((u, p), f) \<in> set remote"
    then have "(u, p) \<in> fst ` set remote" by force
    with keys(2) obtain v where "files_of nb (u, p) = Some v" by auto
    from user_files_valid [OF this] show "is_valid_username (fst (u, p)) \<and> is_valid_path (snd (u, p))" by simp
  qed
  from send_deletes_effect [OF nb3(1) this sent(2)] obtain nb4
    where nb4: "linked c' nb4" "accs_of nb4 = accs_of nb3"
      "\<forall>k. files_of nb4 k = (if k \<in> fst ` set remote \<and> map_of locals k = None then None else files_of nb3 k)"
    by blast
  have "same_content (user_files st os k) (files_of nb4 k)" for k
  proof (cases "user_files st os k")
    case None
    then have "map_of locals k = None" "k \<notin> fst ` set locals" using local keys(1) by auto
    with nb4(3) nb3(4) keys(2) [of k] have "files_of nb4 k = None" by metis
    with None show ?thesis by simp
  next
    case (Some v)
    then have "map_of locals k \<noteq> None" "k \<in> fst ` set locals" using local keys(1) by auto
    with nb4(3) nb3(3) show ?thesis by (auto simp del: split_paired_All)
  qed
  with nb4(1,2) nb3(2) show ?thesis by auto
qed

text \<open>
  When attaching succeeds, the backup has the primary's files up to what the manifest can
  tell, no others, and all of its accounts.
\<close>

lemma attach_on_converges:
  assumes nd: "node_ok nd" "cut_at (nd_os nd) = None" "small_files (nd_os nd)"
    and fresh: "fresh_link c nb" and at: "attach_on c nd = (Inr True, c', nd')"
  shows "\<exists>nb'. linked c' nb' \<and> (\<forall>k. same_content (files_of nd k) (files_of nb' k)) \<and>
    accs_of nb' = accs_of nb ++ accs_of nd" "node_ok nd'" "files_of nd' = files_of nd"
proof -
  obtain locals st where lf: "local_files (nd_store nd) (nd_os nd) = (locals, st)" by fastforce
  have st0: "store_ok (nd_store nd, nd_os nd)" using nd(1) by (simp add: node_ok_def)
  note l = local_files_spec [OF st0 nd(2) lf] and wf = node_ok_wf [OF nd(1)]
  have roots: "user_files st = user_files (nd_store nd)" "accounts_dir st = accounts_dir (nd_store nd)"
    using l(2) user_files_root [of st "nd_store nd"] by (simp_all add: accounts_dir_def)
  let ?as = "acc_all (accounts_dir (nd_store nd)) (nd_os nd)"
  note unf = attach_on_def lf prod.case Let_def
  obtain body where body: "ebind (write_server (nd_self nd) []) (write_servers (nd_members nd)) = Inr body"
    using at by (auto simp: unf split: sum.splits)
  obtain m c1 where called: "call c Msg_ReplicaAttach body Msg_ReplicaManifest = (Call_Ok m, c1)"
    using at body by (auto simp: unf split: call_result.splits prod.splits)
  have nd': "nd' = nd\<lparr>nd_store := st\<rparr>"
    using at body called by (auto simp: unf split: sum.splits prod.splits bool.splits)
  show "node_ok nd'" "files_of nd' = files_of nd" using l(1) roots by (simp_all add: nd' node_ok_def)
  obtain nb1 where man: "begin_attach body nb = (Inr (payload m), nb1)" "length (payload m) \<le> MAX_PAYLOAD"
    "c1 = c\<lparr>peer_state := (nb1, Attached)\<rparr>"
    using attach_answer [OF fresh called] by blast
  obtain members where bm: "build_manifest (nb\<lparr>nd_members := members\<rparr>) = (Inr (payload m), nb1)"
    using man(1) by (auto simp: begin_attach_def split: sum.splits)
  have okb: "node_ok nb" "cut_at (nd_os nb) = None" using fresh by (simp_all add: fresh_link_def)
  obtain ras remote where r: "read_manifest (new_reader (payload m)) = Inr ((account_map ras, remote), cursor (payload m) [])"
    "\<And>u rec. map_of (account_map ras) u = Some rec \<Longrightarrow> accs_of nb u = Some rec" "omap_wf remote"
    "\<And>u p. map_of remote (u, p) = map_option (info_of p) (files_of nb (u, p))"
    "node_ok nb1" "files_of nb1 = files_of nb" "accs_of nb1 = accs_of nb"
    using build_manifest_spec [of "nb\<lparr>nd_members := members\<rparr>" "payload m" nb1] bm okb man(2) by auto
  have link1: "linked c1 nb1" using fresh r(5) by (simp add: man(3) linked_def fresh_link_def live_def)
  obtain c2 where s1: "send_accounts c1 (account_map ras) ?as = (Inr True, c2)"
    using at body called r(1) roots by (auto simp: unf split: sum.splits prod.splits bool.splits)
  obtain c3 where s2: "send_files c2 st (nd_os nd) remote locals = (Inr True, c3)"
    using at body called r(1) roots s1 by (auto simp: unf split: sum.splits prod.splits bool.splits)
  have s3: "send_deletes c3 locals remote = (Inr True, c')"
    using at body called r(1) roots s1 s2 by (auto simp: unf split: sum.splits prod.splits bool.splits)
  have "\<forall>(u, rec) \<in> set ?as. map_of (account_map ras) u = Some rec \<longrightarrow> accs_of nb1 u = Some rec"
    using r(2,7) by auto
  from send_accounts_effect [OF link1 acc_all_distinct [OF wf] this s1] obtain nb2
    where nb2: "linked c2 nb2" "files_of nb2 = files_of nb" "accs_of nb2 = accs_of nb ++ accs_of nd"
    using r(6,7) acc_all_map [OF wf, of "nd_store nd"] by auto
  have "map_of locals k = map_option (info_of (snd k)) (user_files st (nd_os nd) k)"
    "map_of remote k = map_option (info_of (snd k)) (files_of nb2 k)" for k
    using l(4) [of "fst k" "snd k"] r(4) [of "fst k" "snd k"] nb2(2) roots(1) by simp_all
  from mirror_files [OF nb2(1) nd(2,3) l(3) this s2 s3] roots(1) nb2(3)
  show "\<exists>nb'. linked c' nb' \<and> (\<forall>k. same_content (files_of nd k) (files_of nb' k)) \<and>
    accs_of nb' = accs_of nb ++ accs_of nd" by auto
qed

end
