(* ===== verification/Cluster.thy ===== *)
theory Cluster
  imports Replication
begin

text \<open>
  \<open>server/cluster.hpp\<close> and \<open>server/cluster.cpp\<close>: membership, the links of the primary, and
  the reactions of a server to the messages of the others. \<open>connect\<close> stands for \<open>connect_to\<close>:
  the connection it opens to a member, or \<^term>\<open>None\<close>. Times are in milliseconds. A thread
  that the code starts (an election, the reassurance of a backup) is a step of its own;
  \<open>cl_electing\<close> and \<open>cl_reassure\<close> record that it has been started.
\<close>

definition FIRST_ID :: u32 where "FIRST_ID = 1000"
definition PRIMARY_TIMEOUT :: int where "PRIMARY_TIMEOUT = 3000"
definition ATTACH_GRACE :: int where "ATTACH_GRACE = 5000"

datatype role = Joining | Backup | Primary

record 'p link =
  lk_member :: server_address
  lk_conn :: "'p conn"

record 'p cluster = node +
  cl_role :: role
  cl_primary :: server_address
  cl_primary_known :: bool
  cl_lowest :: u32
  cl_links :: "(u32, 'p link) omap"
  cl_primary_link :: "nat option" \<comment> \<open>the link from the primary, by the identity of its connection\<close>
  cl_last_heard :: int
  cl_building :: bool
  cl_coordinator_seen :: bool
  cl_electing :: bool
  cl_reassure :: "server_address list"
  cl_notified :: "server_address list list" \<comment> \<open>the calls of the membership listener\<close>

type_synonym 'p connector = "server_address \<Rightarrow> 'p conn option"

section \<open>Membership\<close>

definition start_as_primary :: "'p cluster \<Rightarrow> 'p cluster" where
  "start_as_primary cl =
     (let self = (nd_self cl)\<lparr>sa_id := FIRST_ID\<rparr> in
      cl\<lparr>nd_self := self, cl_lowest := FIRST_ID, cl_role := Primary, cl_primary := self,
         cl_primary_known := True, nd_members := [self]\<rparr>)"

definition is_primary :: "'p cluster \<Rightarrow> bool" where
  "is_primary cl \<longleftrightarrow> cl_role cl = Primary"

definition primary_address :: "'p cluster \<Rightarrow> server_address option" where
  "primary_address cl = (if cl_primary_known cl then Some (cl_primary cl) else None)"

definition add_member :: "server_address \<Rightarrow> 'p cluster \<Rightarrow> 'p cluster" where
  "add_member member cl =
     cl\<lparr>nd_members := upsert (nd_members cl) member,
        cl_lowest := min (if cl_lowest cl = 0 then sa_id member else cl_lowest cl) (sa_id member)\<rparr>"

definition remove_member :: "u32 \<Rightarrow> 'p cluster \<Rightarrow> 'p cluster" where
  "remove_member i cl = cl\<lparr>nd_members := filter (\<lambda>m. sa_id m \<noteq> i) (nd_members cl)\<rparr>"

definition notify_membership :: "'p cluster \<Rightarrow> 'p cluster" where
  "notify_membership cl = cl\<lparr>cl_notified := cl_notified cl @ [nd_members cl]\<rparr>"

section \<open>Changes on every link\<close>

text \<open>One exchange on each link in turn: the ids of the links on which it failed.\<close>

fun each_link ::
  "('p conn \<Rightarrow> (protocol_error + bool) \<times> 'p conn) \<Rightarrow> (u32, 'p link) omap \<Rightarrow>
     (protocol_error + u32 list) \<times> (u32, 'p link) omap" where
  "each_link f [] = (Inr [], [])"
| "each_link f ((i, l) # links) =
     (case f (lk_conn l) of
        (Inl e, c) \<Rightarrow> (Inl e, (i, l\<lparr>lk_conn := c\<rparr>) # links)
      | (Inr ok, c) \<Rightarrow>
          (case each_link f links of
             (Inl e, links) \<Rightarrow> (Inl e, (i, l\<lparr>lk_conn := c\<rparr>) # links)
           | (Inr failed, links) \<Rightarrow>
               (Inr (if ok then failed else sa_id (lk_member l) # failed), (i, l\<lparr>lk_conn := c\<rparr>) # links)))"

definition call_link :: "msg \<Rightarrow> string \<Rightarrow> 'p conn \<Rightarrow> (protocol_error + bool) \<times> 'p conn" where
  "call_link ty body c = (case call c ty body Msg_Ok of (r, c) \<Rightarrow> (Inr (call_ok r), c))"

definition membership_calls :: "'p cluster \<Rightarrow> (protocol_error + u32 list) \<times> 'p cluster" where
  "membership_calls cl =
     (case write_servers (nd_members cl) [] of
        Inl e \<Rightarrow> (Inl e, cl)
      | Inr body \<Rightarrow>
          (case each_link (call_link Msg_Membership body) (cl_links cl) of
             (r, links) \<Rightarrow> (r, cl\<lparr>cl_links := links\<rparr>)))"

lemma each_link_ids: "map fst (snd (each_link f links)) = map fst links"
  by (induction f links rule: each_link.induct) (auto split: prod.splits sum.splits)

lemma each_link_length [simp]: "length (snd (each_link f links)) = length links"
  using each_link_ids [of f links] by (metis length_map)

lemma membership_calls_length [simp]: "length (cl_links (snd (membership_calls cl))) = length (cl_links cl)"
proof -
  have "length links = length (cl_links cl)" if "each_link f (cl_links cl) = (r, links)" for f :: "'a conn \<Rightarrow> (protocol_error + bool) \<times> 'a conn" and r links
    using each_link_length [of f "cl_links cl"] that by simp
  then show ?thesis by (auto simp: membership_calls_def split: sum.splits prod.splits)
qed

lemma omap_del_shorter: "map_of m k = Some v \<Longrightarrow> length (omap_del k m) < length m"
  unfolding omap_del_def by (rule length_filter_less [where x = "(k, v)"]) (auto dest: map_of_SomeD)

text \<open>
  \<open>drop_link\<close> for each of the ids. Dropping a link announces the new membership on the others,
  and the links on which that fails are dropped first (the code does so by recursion).
\<close>

function drop_links :: "u32 list \<Rightarrow> 'p cluster \<Rightarrow> (protocol_error + unit) \<times> 'p cluster" where
  "drop_links [] cl = (Inr (), cl)"
| "drop_links (i # ids) cl =
     (case map_of (cl_links cl) i of
        None \<Rightarrow> drop_links ids cl
      | Some l \<Rightarrow>
          (case membership_calls (remove_member i (cl\<lparr>cl_links := omap_del i (cl_links cl)\<rparr>)) of
             (Inl e, cl) \<Rightarrow> (Inl e, cl)
           | (Inr failed, cl) \<Rightarrow> drop_links (failed @ ids) (notify_membership cl)))"
  by pat_completeness auto
termination
proof (relation "inv_image (less_than <*lex*> less_than) (\<lambda>(ids, cl). (length (cl_links cl), length ids))")
  fix i :: u32 and ids failed :: "u32 list" and cl cl' :: "'p cluster" and l r
  assume l: "map_of (cl_links cl) i = Some l"
    and m: "(r, cl') = membership_calls (remove_member i (cl\<lparr>cl_links := omap_del i (cl_links cl)\<rparr>))"
  have "length (cl_links cl') = length (omap_del i (cl_links cl))"
    using membership_calls_length [of "remove_member i (cl\<lparr>cl_links := omap_del i (cl_links cl)\<rparr>)"]
    by (simp add: m [symmetric]) (simp add: remove_member_def)
  with omap_del_shorter [OF l]
  show "((failed @ ids, notify_membership cl'), (i # ids, cl)) \<in>
      inv_image (less_than <*lex*> less_than) (\<lambda>(ids, cl). (length (cl_links cl), length ids))"
    by (simp add: notify_membership_def)
qed auto

declare drop_links.simps [simp del]

definition broadcast_membership :: "'p cluster \<Rightarrow> (protocol_error + unit) \<times> 'p cluster" where
  "broadcast_membership cl =
     (case membership_calls cl of
        (Inl e, cl) \<Rightarrow> (Inl e, cl)
      | (Inr failed, cl) \<Rightarrow> drop_links failed (notify_membership cl))"

definition replicate_change ::
  "('p conn \<Rightarrow> (protocol_error + bool) \<times> 'p conn) \<Rightarrow> 'p cluster \<Rightarrow> (protocol_error + unit) \<times> 'p cluster" where
  "replicate_change f cl =
     (case each_link f (cl_links cl) of
        (Inl e, links) \<Rightarrow> (Inl e, cl\<lparr>cl_links := links\<rparr>)
      | (Inr failed, links) \<Rightarrow> drop_links failed (cl\<lparr>cl_links := links\<rparr>))"

definition replicate_put :: "string \<Rightarrow> string \<Rightarrow> 'p cluster \<Rightarrow> (protocol_error + unit) \<times> 'p cluster" where
  "replicate_put user name cl =
     replicate_change (\<lambda>c. put_on_link c (nd_store cl) (nd_os cl) user name) cl"

definition replicate_delete :: "string \<Rightarrow> string \<Rightarrow> 'p cluster \<Rightarrow> (protocol_error + unit) \<times> 'p cluster" where
  "replicate_delete user name cl = replicate_change (\<lambda>c. delete_on_link c user name) cl"

definition replicate_account :: "string \<Rightarrow> string \<Rightarrow> 'p cluster \<Rightarrow> (protocol_error + unit) \<times> 'p cluster" where
  "replicate_account user rec cl = replicate_change (\<lambda>c. account_on_link c user rec) cl"

definition heartbeat_links :: "'p cluster \<Rightarrow> (protocol_error + unit) \<times> 'p cluster" where
  "heartbeat_links cl = replicate_change (call_link Msg_Heartbeat []) cl"

section \<open>Joining\<close>

text \<open>
  The id of a joining server, and the lowest id handed out: a server on a known address keeps
  its id (the last match of the loop), a new one gets the next lower id.
\<close>

definition join_id :: "string \<Rightarrow> u16 \<Rightarrow> 'p cluster \<Rightarrow> u32 \<times> u32" where
  "join_id host port cl =
     (let known = foldl (\<lambda>i m. if sa_host m = host \<and> sa_port m = port then sa_id m else i) 0 (nd_members cl) in
      if known \<noteq> 0 then (known, cl_lowest cl)
      else
        let lowest = foldl (\<lambda>l m. min l (sa_id m)) (cl_lowest cl) (nd_members cl) in (lowest - 1, lowest))"

definition cl_attach ::
  "'p connector \<Rightarrow> server_address \<Rightarrow> 'p cluster \<Rightarrow> (protocol_error + bool) \<times> 'p cluster" where
  "cl_attach connect member cl =
     (case attach_replica connect member cl of
        (Inl e, cl) \<Rightarrow> (Inl e, cl)
      | (Inr None, cl) \<Rightarrow> (Inr False, cl)
      | (Inr (Some c), cl) \<Rightarrow>
          (Inr True, cl\<lparr>cl_links := omap_put (sa_id member) \<lparr>lk_member = member, lk_conn = c\<rparr> (cl_links cl)\<rparr>))"

text \<open>\<open>c\<close> is the connection of the joining server.\<close>

definition join_redirect :: "'q conn \<Rightarrow> 'p cluster \<Rightarrow> (protocol_error + unit) \<times> 'q conn" where
  "join_redirect c cl =
     (case w_str (if cl_primary_known cl then sa_host (cl_primary cl) else []) [] of
        Inl e \<Rightarrow> (Inl e, c)
      | Inr buf \<Rightarrow>
          (Inr (), snd (conn_send c Msg_Redirect (w_u16 (if cl_primary_known cl then sa_port (cl_primary cl) else 0) buf))))"

definition join_accept ::
  "'p connector \<Rightarrow> server_address \<Rightarrow> 'q conn \<Rightarrow> 'p cluster \<Rightarrow> (protocol_error + unit) \<times> 'q conn \<times> 'p cluster" where
  "join_accept connect member c cl =
     (let cl = add_member member cl;
          c = snd (conn_send c Msg_JoinOk (w_u32 (sa_id (nd_self cl)) (w_u32 (sa_id member) [])))
      in case cl_attach connect member cl of
           (Inl e, cl) \<Rightarrow> (Inl e, c, cl)
         | (Inr ok, cl) \<Rightarrow>
             (case broadcast_membership (if ok then cl else remove_member (sa_id member) cl) of
                (r, cl) \<Rightarrow> (r, c, cl)))"

definition handle_join ::
  "'p connector \<Rightarrow> 'q conn \<Rightarrow> string \<Rightarrow> 'p cluster \<Rightarrow> (protocol_error + unit) \<times> 'q conn \<times> 'p cluster" where
  "handle_join connect c body cl =
     (case ebind (r_str (new_reader body)) (\<lambda>(host, r). ebind (r_u16 r) (\<lambda>(port, r). Inr (host, port))) of
        Inl e \<Rightarrow> (Inl e, c, cl)
      | Inr (host, port) \<Rightarrow>
          if cl_role cl \<noteq> Primary then (case join_redirect c cl of (r, c) \<Rightarrow> (r, c, cl))
          else
            (case join_id host port cl of (i, lowest) \<Rightarrow>
               if i = 0 then
                 (case send_error c ''no more server ids available'' of
                    (r, c) \<Rightarrow> (map_sum id (\<lambda>_. ()) r, c, cl\<lparr>cl_lowest := lowest\<rparr>))
               else join_accept connect \<lparr>sa_id = i, sa_host = host, sa_port = port\<rparr> c (cl\<lparr>cl_lowest := lowest\<rparr>)))"

text \<open>
  \<open>join\<close>: at most \<open>attempts\<close> rounds (the code makes 10). Each round has its own outcome of
  \<open>connect_to\<close>; the result says whether a primary has accepted this server.
\<close>

fun join_loop ::
  "nat \<Rightarrow> (nat \<Rightarrow> string \<Rightarrow> u16 \<Rightarrow> 'q conn option) \<Rightarrow> int \<Rightarrow> string \<Rightarrow> u16 \<Rightarrow> 'p cluster \<Rightarrow>
     (protocol_error + bool) \<times> 'p cluster" where
  "join_loop 0 dial time host port cl = (Inr False, cl)"
| "join_loop (Suc attempts) dial time host port cl =
     (case dial attempts host port of
        None \<Rightarrow> join_loop attempts dial time host port cl
      | Some c \<Rightarrow>
          (case w_str (sa_host (nd_self cl)) [] of
             Inl e \<Rightarrow> (Inl e, cl)
           | Inr buf \<Rightarrow>
               (case fst (call c Msg_Join (w_u16 (sa_port (nd_self cl)) buf) Msg_JoinOk) of
                  Call_Ok reply \<Rightarrow>
                    (case ebind (r_u32 (new_reader (payload reply))) (\<lambda>(i, r).
                            ebind (r_u32 r) (\<lambda>(p, r). Inr (i, p))) of
                       Inl e \<Rightarrow> (Inl e, cl)
                     | Inr (i, p) \<Rightarrow>
                         let self = (nd_self cl)\<lparr>sa_id := i\<rparr>;
                             primary = \<lparr>sa_id = p, sa_host = host, sa_port = port\<rparr>
                         in (Inr True,
                             cl\<lparr>nd_self := self, cl_role := Backup, cl_primary := primary, cl_primary_known := True,
                                nd_members := [primary, self], cl_last_heard := time + ATTACH_GRACE\<rparr>))
                | Call_Rejected reply \<Rightarrow>
                    if mtype reply = Msg_Redirect then
                      (case ebind (r_str (new_reader (payload reply))) (\<lambda>(h, r).
                              ebind (r_u16 r) (\<lambda>(q, r). Inr (h, q))) of
                         Inl e \<Rightarrow> (Inl e, cl)
                       | Inr (h, q) \<Rightarrow>
                           if h \<noteq> [] then join_loop attempts dial time h q cl
                           else join_loop attempts dial time host port cl)
                    else join_loop attempts dial time host port cl
                | Call_Failed \<Rightarrow> join_loop attempts dial time host port cl)))"

definition join_cluster ::
  "(nat \<Rightarrow> string \<Rightarrow> u16 \<Rightarrow> 'q conn option) \<Rightarrow> int \<Rightarrow> string \<Rightarrow> u16 \<Rightarrow> 'p cluster \<Rightarrow>
     (protocol_error + bool) \<times> 'p cluster" where
  "join_cluster dial time host port cl = join_loop 10 dial time host port cl"

section \<open>Changing roles\<close>

text \<open>The start of \<open>handle_replica_attach\<close>: the manifest that is sent as the answer.\<close>

definition attach_as_backup ::
  "nat \<Rightarrow> int \<Rightarrow> string \<Rightarrow> 'p cluster \<Rightarrow> (protocol_error + string) \<times> 'p cluster" where
  "attach_as_backup conn_no time body cl =
     (case ebind (read_server (new_reader body)) (\<lambda>(primary, r).
             ebind (read_servers r) (\<lambda>(members, r). Inr (primary, members))) of
        Inl e \<Rightarrow> (Inl e, cl)
      | Inr (primary, members) \<Rightarrow>
          (case build_manifest (notify_membership (cl\<lparr>
                  cl_links := if cl_role cl = Primary then [] else cl_links cl,
                  cl_primary_link := Some conn_no, cl_role := Backup, cl_primary := primary,
                  cl_primary_known := True, cl_coordinator_seen := True,
                  nd_members := upsert members (nd_self cl), cl_building := True\<rparr>)) of
             (manifest, cl) \<Rightarrow> (manifest, cl\<lparr>cl_building := False, cl_last_heard := time\<rparr>)))"

text \<open>Its end, when the link is closed: an election starts if this was still the link in use.\<close>

definition link_lost :: "nat \<Rightarrow> 'p cluster \<Rightarrow> 'p cluster" where
  "link_lost conn_no cl =
     (if cl_primary_link cl = Some conn_no
      then cl\<lparr>cl_primary_link := None, cl_electing := True\<rparr> else cl)"

definition handle_coordinator ::
  "int \<Rightarrow> 'q conn \<Rightarrow> string \<Rightarrow> 'p cluster \<Rightarrow> (protocol_error + unit) \<times> 'q conn \<times> 'p cluster" where
  "handle_coordinator time c body cl =
     (case read_server (new_reader body) of
        Inl e \<Rightarrow> (Inl e, c, cl)
      | Inr (leader, r) \<Rightarrow>
          (Inr (), snd (conn_send c Msg_Ok []),
           if sa_id leader < sa_id (nd_self cl) then cl\<lparr>cl_electing := True\<rparr>
           else cl\<lparr>cl_links := if cl_role cl = Primary then [] else cl_links cl, cl_role := Backup,
                   cl_primary := leader, cl_primary_known := True, cl_coordinator_seen := True,
                   cl_last_heard := time + ATTACH_GRACE, nd_members := upsert (nd_members cl) leader\<rparr>))"

definition handle_election ::
  "'q conn \<Rightarrow> string \<Rightarrow> 'p cluster \<Rightarrow> (protocol_error + unit) \<times> 'q conn \<times> 'p cluster" where
  "handle_election c body cl =
     (case read_server (new_reader body) of
        Inl e \<Rightarrow> (Inl e, c, cl)
      | Inr (candidate, r) \<Rightarrow>
          (Inr (), snd (conn_send c Msg_Ok []),
           if cl_role cl \<noteq> Primary then cl\<lparr>cl_electing := True\<rparr>
           else cl\<lparr>cl_reassure := cl_reassure cl @ [candidate]\<rparr>))"

definition handle_status :: "'q conn \<Rightarrow> 'p cluster \<Rightarrow> (protocol_error + unit) \<times> 'q conn" where
  "handle_status c cl =
     (let role = (case cl_role cl of Primary \<Rightarrow> 2 | Backup \<Rightarrow> 1 | Joining \<Rightarrow> 0) in
      case write_server (if cl_primary_known cl then cl_primary cl else no_server)
             (w_u8 (if cl_primary_known cl then 1 else 0) (w_u8 role [])) of
        Inl e \<Rightarrow> (Inl e, c)
      | Inr body \<Rightarrow> (Inr (), snd (conn_send c Msg_Status body)))"

section \<open>Elections\<close>

text \<open>Whether the member has confirmed the announcement (the callers do not look at it).\<close>

definition announce_to :: "'p connector \<Rightarrow> server_address \<Rightarrow> server_address \<Rightarrow> protocol_error + bool" where
  "announce_to connect self member =
     (case connect member of
        None \<Rightarrow> Inr False
      | Some c \<Rightarrow> ebind (write_server self []) (\<lambda>body.
          Inr (call_ok (fst (call c Msg_Coordinator body Msg_Ok)))))"

text \<open>The thread that \<open>handle_election\<close> of the primary starts.\<close>

definition reassure ::
  "'p connector \<Rightarrow> server_address \<Rightarrow> 'p cluster \<Rightarrow> (protocol_error + unit) \<times> 'p cluster" where
  "reassure connect candidate cl =
     (case announce_to connect (nd_self cl) candidate of
        Inl e \<Rightarrow> (Inl e, cl)
      | Inr _ \<Rightarrow>
          if map_of (cl_links cl) (sa_id candidate) \<noteq> None then (Inr (), cl)
          else case cl_attach connect candidate (add_member candidate cl) of
            (Inl e, cl) \<Rightarrow> (Inl e, cl)
          | (Inr True, cl) \<Rightarrow> broadcast_membership cl
          | (Inr False, cl) \<Rightarrow> (Inr (), remove_member (sa_id candidate) cl))"

fun announce_all :: "'p connector \<Rightarrow> server_address \<Rightarrow> server_address list \<Rightarrow> protocol_error + unit" where
  "announce_all connect self [] = Inr ()"
| "announce_all connect self (m # ms) =
     ebind (announce_to connect self m) (\<lambda>_. announce_all connect self ms)"

fun attach_all :: "'p connector \<Rightarrow> server_address list \<Rightarrow> 'p cluster \<Rightarrow> (protocol_error + unit) \<times> 'p cluster" where
  "attach_all connect [] cl = (Inr (), cl)"
| "attach_all connect (m # ms) cl =
     (case cl_attach connect m cl of
        (Inl e, cl) \<Rightarrow> (Inl e, cl)
      | (Inr ok, cl) \<Rightarrow> attach_all connect ms (if ok then cl else remove_member (sa_id m) cl))"

text \<open>The first, locked part of \<open>become_primary\<close>.\<close>

definition take_over :: "'p cluster \<Rightarrow> 'p cluster" where
  "take_over cl =
     (let self = nd_self cl; old = sa_id (cl_primary cl);
          members = (if old \<noteq> sa_id self then filter (\<lambda>m. sa_id m \<noteq> old) (nd_members cl) else nd_members cl)
      in cl\<lparr>cl_role := Primary, cl_primary := self, cl_primary_known := True, nd_members := members,
            cl_lowest := foldl (\<lambda>l m. min l (sa_id m)) (sa_id self) members, cl_primary_link := None\<rparr>)"

definition become_primary :: "'p connector \<Rightarrow> 'p cluster \<Rightarrow> (protocol_error + unit) \<times> 'p cluster" where
  "become_primary connect cl =
     (let cl = take_over cl; others = filter (\<lambda>m. sa_id m \<noteq> sa_id (nd_self cl)) (nd_members cl) in
      case announce_all connect (nd_self cl) others of
        Inl e \<Rightarrow> (Inl e, cl)
      | Inr _ \<Rightarrow>
          (case attach_all connect others cl of
             (Inl e, cl) \<Rightarrow> (Inl e, cl)
           | (Inr _, cl) \<Rightarrow> broadcast_membership cl))"

text \<open>Asking the members with a higher id; \<^term>\<open>True\<close> if one of them answers.\<close>

fun ask_higher :: "'p connector \<Rightarrow> server_address \<Rightarrow> server_address list \<Rightarrow> protocol_error + bool" where
  "ask_higher connect me [] = Inr False"
| "ask_higher connect me (m # ms) =
     (case connect m of
        None \<Rightarrow> ask_higher connect me ms
      | Some c \<Rightarrow>
          ebind (write_server me []) (\<lambda>body.
          ebind (ask_higher connect me ms) (\<lambda>alive.
            Inr (call_ok (fst (call c Msg_Election body Msg_Ok)) \<or> alive))))"

datatype round_result = Already_primary | Elected | Outranked

text \<open>
  One round of \<open>run_election\<close>. After \<open>Outranked\<close> the code waits for a coordinator and starts
  another round if none has announced itself.
\<close>

definition election_round ::
  "'p connector \<Rightarrow> 'p cluster \<Rightarrow> (protocol_error + round_result) \<times> 'p cluster" where
  "election_round connect cl =
     (if cl_role cl = Primary then (Inr Already_primary, cl)
      else
        let cl = cl\<lparr>cl_primary_known := False, cl_coordinator_seen := False\<rparr>;
            higher = filter (\<lambda>m. sa_id (nd_self cl) < sa_id m) (nd_members cl)
        in case ask_higher connect (nd_self cl) higher of
             Inl e \<Rightarrow> (Inl e, cl)
           | Inr True \<Rightarrow> (Inr Outranked, cl)
           | Inr False \<Rightarrow>
               (case become_primary connect cl of
                  (Inl e, cl) \<Rightarrow> (Inl e, cl)
                | (Inr _, cl) \<Rightarrow> (Inr Elected, cl)))"

text \<open>One turn of \<open>monitor_loop\<close>.\<close>

definition monitor_tick :: "int \<Rightarrow> 'p cluster \<Rightarrow> (protocol_error + unit) \<times> 'p cluster" where
  "monitor_tick time cl =
     (if cl_role cl = Primary then heartbeat_links cl
      else if cl_role cl = Backup \<and> \<not> cl_building cl \<and> time - cl_last_heard cl > PRIMARY_TIMEOUT \<and> \<not> cl_electing cl
      then (Inr (), cl\<lparr>cl_electing := True\<rparr>)
      else (Inr (), cl))"

section \<open>A change reaches every backup\<close>

text \<open>
  What the operations of the primary need to know about one kind of change: \<open>before\<close> holds for the
  connection of a usable link, the exchange \<open>change\<close> makes \<open>done_on\<close> true when it succeeds, and
  announcing the membership keeps it. Then, once the failed links are dropped, every link that is
  left has the change.
\<close>

definition keyed :: "(u32, 'p link) omap \<Rightarrow> bool" where
  "keyed links \<longleftrightarrow> omap_wf links \<and> list_all (\<lambda>(i, l). sa_id (lk_member l) = i) links"

definition links_all :: "('p conn \<Rightarrow> bool) \<Rightarrow> u32 set \<Rightarrow> (u32, 'p link) omap \<Rightarrow> bool" where
  "links_all P except links \<longleftrightarrow> (\<forall>(i, l) \<in> set links. i \<notin> except \<longrightarrow> P (lk_conn l))"

lemma keyed_each_link: "keyed links \<Longrightarrow> keyed (snd (each_link f links))"
proof -
  have "list_all (\<lambda>(i, l). sa_id (lk_member l) = i) links \<Longrightarrow>
      list_all (\<lambda>(i, l). sa_id (lk_member l) = i) (snd (each_link f links))"
    by (induction f links rule: each_link.induct) (auto split: prod.splits sum.splits)
  then show "keyed links \<Longrightarrow> keyed (snd (each_link f links))"
    by (simp add: keyed_def omap_wf_def each_link_ids)
qed

lemma keyed_del: "keyed links \<Longrightarrow> keyed (omap_del i links)"
  by (simp add: keyed_def omap_wf_del) (auto simp: omap_del_def list_all_iff)

lemma keyed_put: "keyed links \<Longrightarrow> sa_id (lk_member l) = i \<Longrightarrow> keyed (omap_put i l links)"
  by (auto simp: keyed_def omap_wf_put list_all_iff dest!: omap_put_set)

lemma links_all_mono: "links_all P A links \<Longrightarrow> A \<subseteq> B \<Longrightarrow> links_all P B links"
  by (auto simp: links_all_def)

lemma each_link_all:
  assumes step: "\<And>c c'. P c \<Longrightarrow> f c = (Inr True, c') \<Longrightarrow> Q c'"
  shows "\<lbrakk>list_all (\<lambda>(i, l). sa_id (lk_member l) = i) links; links_all P A links;
    each_link f links = (Inr failed, links')\<rbrakk> \<Longrightarrow> links_all Q (A \<union> set failed) links'"
proof (induction links arbitrary: failed links')
  case (Cons e links)
  obtain i l where e: "e = (i, l)" by (cases e)
  obtain ok c where f: "f (lk_conn l) = (Inr ok, c)"
    using Cons.prems(3) by (auto simp: e split: prod.splits sum.splits)
  obtain failed1 links1 where r: "each_link f links = (Inr failed1, links1)"
    using Cons.prems(3) f by (auto simp: e split: prod.splits sum.splits)
  have eq: "failed = (if ok then failed1 else sa_id (lk_member l) # failed1)" "links' = (i, l\<lparr>lk_conn := c\<rparr>) # links1"
    using Cons.prems(3) f r by (auto simp: e)
  have "links_all Q (A \<union> set failed1) links1"
    using Cons.IH [OF _ _ r] Cons.prems(1,2) by (auto simp: links_all_def)
  then have rest: "links_all Q (A \<union> set failed) links1" by (rule links_all_mono) (auto simp: eq(1))
  have "i \<notin> A \<union> set failed \<Longrightarrow> Q c"
    using step [of "lk_conn l" c] f Cons.prems(1,2) by (auto simp: e eq(1) links_all_def split: if_splits)
  with rest show ?case by (auto simp: eq(2) links_all_def)
qed (simp add: links_all_def)

lemma remove_member_links [simp]: "cl_links (remove_member i cl) = cl_links cl"
  by (simp add: remove_member_def)

lemma notify_links [simp]: "cl_links (notify_membership cl) = cl_links cl"
  by (simp add: notify_membership_def)

locale replicated_change =
  fixes before :: "'p conn \<Rightarrow> bool"
    and change :: "'p conn \<Rightarrow> (protocol_error + bool) \<times> 'p conn"
    and done_on :: "'p conn \<Rightarrow> bool"
  assumes change_done: "before c \<Longrightarrow> change c = (Inr True, c') \<Longrightarrow> done_on c'"
    and membership_keeps: "done_on c \<Longrightarrow> call_link Msg_Membership body c = (Inr True, c') \<Longrightarrow> done_on c'"
begin

lemma membership_calls_done:
  assumes "keyed (cl_links cl)" "links_all done_on A (cl_links cl)" "membership_calls cl = (Inr failed, cl')"
  shows "keyed (cl_links cl')" "links_all done_on (A \<union> set failed) (cl_links cl')"
proof -
  obtain body where b: "write_servers (nd_members cl) [] = Inr body"
    using assms(3) by (auto simp: membership_calls_def split: sum.splits)
  obtain links where l: "each_link (call_link Msg_Membership body) (cl_links cl) = (Inr failed, links)"
    "cl_links cl' = links"
    using assms(3) b by (auto simp: membership_calls_def split: prod.splits)
  show "keyed (cl_links cl')"
    using keyed_each_link [OF assms(1), of "call_link Msg_Membership body"] l by simp
  show "links_all done_on (A \<union> set failed) (cl_links cl')"
    unfolding l(2)
    by (rule each_link_all [OF membership_keeps _ assms(2) l(1)]) (use assms(1) in \<open>auto simp: keyed_def\<close>)
qed

lemma drop_links_done:
  "\<lbrakk>keyed (cl_links cl); links_all done_on (set ids) (cl_links cl); drop_links ids cl = (Inr (), cl')\<rbrakk> \<Longrightarrow>
     keyed (cl_links cl') \<and> links_all done_on {} (cl_links cl')"
proof (induction ids cl rule: drop_links.induct)
  case (1 cl)
  then show ?case by (simp add: drop_links.simps)
next
  case (2 i ids cl)
  show ?case
  proof (cases "map_of (cl_links cl) i")
    case None
    then have "i \<notin> fst ` set (cl_links cl)" by (simp add: map_of_eq_None_iff)
    then have "links_all done_on (set ids) (cl_links cl)" using "2.prems"(2) by (force simp: links_all_def)
    with "2.IH"(1) [OF None "2.prems"(1)] "2.prems"(3) None show ?thesis by (simp add: drop_links.simps)
  next
    case (Some l)
    let ?cl = "remove_member i (cl\<lparr>cl_links := omap_del i (cl_links cl)\<rparr>)"
    have keyed: "keyed (cl_links ?cl)" using "2.prems"(1) by (simp add: keyed_del)
    have all: "links_all done_on (set ids) (cl_links ?cl)"
      using "2.prems"(2) by (auto simp: links_all_def omap_del_def)
    obtain failed cl1 where m: "membership_calls ?cl = (Inr failed, cl1)"
      using "2.prems"(3) Some by (auto simp: drop_links.simps split: sum.splits prod.splits)
    note d = membership_calls_done [OF keyed all m]
    have all1: "links_all done_on (set (failed @ ids)) (cl_links (notify_membership cl1))"
      using d(2) by (simp add: Un_commute)
    have "drop_links (failed @ ids) (notify_membership cl1) = (Inr (), cl')"
      using "2.prems"(3) Some m by (simp add: drop_links.simps)
    with "2.IH"(2) [OF Some m [symmetric] refl] d(1) all1 show ?thesis by simp
  qed
qed

lemma replicate_change_done:
  assumes "keyed (cl_links cl)" "links_all before {} (cl_links cl)" "replicate_change change cl = (Inr (), cl')"
  shows "keyed (cl_links cl') \<and> links_all done_on {} (cl_links cl')"
proof -
  obtain failed links where l: "each_link change (cl_links cl) = (Inr failed, links)"
    using assms(3) by (auto simp: replicate_change_def split: prod.splits sum.splits)
  have "links_all done_on ({} \<union> set failed) links"
    by (rule each_link_all [OF change_done _ assms(2) l]) (use assms(1) in \<open>auto simp: keyed_def\<close>)
  with drop_links_done [of "cl\<lparr>cl_links := links\<rparr>" failed cl'] keyed_each_link [OF assms(1), of change] assms(3) l
  show ?thesis by (simp add: replicate_change_def)
qed

end

text \<open>The links to backups, and what a change leaves there.\<close>

definition backup_link :: "('a node_scheme \<times> link_phase) conn \<Rightarrow> bool" where
  "backup_link c \<longleftrightarrow> (\<exists>nb. linked c nb)"

definition backup_has :: "file_key \<Rightarrow> string option \<Rightarrow> ('a node_scheme \<times> link_phase) conn \<Rightarrow> bool" where
  "backup_has k content c \<longleftrightarrow> (\<exists>nb. linked c nb \<and> map_option fst (files_of nb k) = content)"

definition backup_account :: "string \<Rightarrow> string \<Rightarrow> ('a node_scheme \<times> link_phase) conn \<Rightarrow> bool" where
  "backup_account user rec c \<longleftrightarrow> (\<exists>nb. linked c nb \<and> accs_of nb user = Some rec)"

lemma serve_batch_throws:
  assumes "apply_replicated (replica_conn []) m nb = (Inl e, replica_conn [], nb')"
  shows "serve_batch nb [m] = ((nb', Link_closed), [])"
proof -
  have "conn_recv (replica_conn [m]) = (Received m, replica_conn [])"
    using conn_recv_queued [of "replica_conn [m]" m "[]"] by simp
  with assms show ?thesis by (simp add: serve_batch_def answers_def)
qed

lemma membership_linked:
  assumes "linked c nb" "call_link Msg_Membership body c = (Inr True, c')"
  shows "\<exists>nb'. linked c' nb' \<and> files_of nb' = files_of nb \<and> accs_of nb' = accs_of nb"
proof -
  let ?m = "\<lparr>mtype = Msg_Membership, payload = body\<rparr>"
  have len: "length body \<le> MAX_PAYLOAD"
    using assms(2) by (auto simp: call_link_def call_def conn_send_def call_ok_def split: if_splits)
  have ok: "node_ok nb" using assms(1) by (simp add: linked_def)
  show ?thesis
  proof (cases "read_servers (new_reader body)")
    case (Inl e)
    then have "apply_replicated (replica_conn []) ?m nb = (Inl e, replica_conn [], nb)"
      by (simp add: apply_replicated_def apply_membership_def)
    from recv_linked_none [OF assms(1) _ serve_batch_throws [OF this]] obtain c2
      where r: "conn_recv (c\<lparr>outq := [?m]\<rparr>) = (Recv_Timeout, c2)" by auto
    have "conn_send c Msg_Membership body = (True, c\<lparr>outq := [?m]\<rparr>)"
      using assms(1) len conn_send_live [of c body Msg_Membership] by (simp add: linked_def)
    with r assms(2) show ?thesis by (simp add: call_link_def call_def call_ok_def)
  next
    case (Inr p)
    obtain members r where p: "p = (members, r)" by (cases p)
    let ?nb = "nb\<lparr>nd_members := upsert members (nd_self nb)\<rparr>"
    have "apply_replicated (replica_conn []) ?m nb = (Inr True, (replica_conn [])\<lparr>outq := [\<lparr>mtype = Msg_Ok, payload = []\<rparr>]\<rparr>, ?nb)"
      by (simp add: apply_replicated_def apply_membership_def Inr p replica_send)
    from call_linked [OF assms(1) len this, of Msg_Ok] assms(2)
    have "c' = c\<lparr>peer_state := (?nb, Attached)\<rparr>" by (simp add: call_link_def)
    with linked_peer [OF assms(1), of ?nb] ok show ?thesis by auto
  qed
qed

text \<open>The three kinds of changes, and the heartbeat.\<close>

lemma put_change:
  assumes "user_files st os (u, p) = Some (bs, m)" "cut_at os = None" "small bs"
  shows "replicated_change backup_link (\<lambda>c. put_on_link c st os u p) (backup_has (u, p) (Some bs))"
proof
  fix c c' :: "('a node_scheme \<times> link_phase) conn" and body
  show "backup_has (u, p) (Some bs) c'" if "backup_link c" "put_on_link c st os u p = (Inr True, c')"
    using put_on_link_effect [OF _ assms that(2)] that(1)
    by (fastforce simp: backup_link_def backup_has_def only_files_def)
  show "backup_has (u, p) (Some bs) c'" if "backup_has (u, p) (Some bs) c" "call_link Msg_Membership body c = (Inr True, c')"
    using membership_linked [OF _ that(2)] that(1) unfolding backup_has_def by metis
qed

interpretation deletion: replicated_change
  "\<lambda>c. backup_link c \<and> is_valid_username u \<and> is_valid_path p"
  "\<lambda>c :: ('a node_scheme \<times> link_phase) conn. delete_on_link c u p" "backup_has (u, p) None" for u p
proof
  fix c c' :: "('a node_scheme \<times> link_phase) conn" and body
  show "backup_has (u, p) None c'"
    if "backup_link c \<and> is_valid_username u \<and> is_valid_path p" "delete_on_link c u p = (Inr True, c')"
    using delete_on_link_effect [OF _ _ _ that(2)] that(1)
    by (fastforce simp: backup_link_def backup_has_def only_files_def)
  show "backup_has (u, p) None c'" if "backup_has (u, p) None c" "call_link Msg_Membership body c = (Inr True, c')"
    using membership_linked [OF _ that(2)] that(1) unfolding backup_has_def by metis
qed

interpretation account: replicated_change
  "\<lambda>c. backup_link c \<and> is_valid_username u \<and> is_valid_record rec"
  "\<lambda>c :: ('a node_scheme \<times> link_phase) conn. account_on_link c u rec" "backup_account u rec" for u rec
proof
  fix c c' :: "('a node_scheme \<times> link_phase) conn" and body
  show "backup_account u rec c'"
    if "backup_link c \<and> is_valid_username u \<and> is_valid_record rec" "account_on_link c u rec = (Inr True, c')"
    using account_on_link_effect [OF _ _ _ that(2)] that(1)
    by (fastforce simp: backup_link_def backup_account_def only_accounts_def)
  show "backup_account u rec c'" if "backup_account u rec c" "call_link Msg_Membership body c = (Inr True, c')"
    using membership_linked [OF _ that(2)] that(1) unfolding backup_account_def by metis
qed

section \<open>The ids of the members\<close>

text \<open>
  The bully invariant: the ids of the members are distinct, none is above the primary's own,
  none is below the lowest id handed out, and that is not 0.
\<close>

definition ids_ok :: "'p cluster \<Rightarrow> bool" where
  "ids_ok cl \<longleftrightarrow> distinct (map sa_id (nd_members cl)) \<and>
     list_all (\<lambda>m. cl_lowest cl \<le> sa_id m \<and> sa_id m \<le> sa_id (nd_self cl)) (nd_members cl) \<and>
     0 < cl_lowest cl \<and> cl_lowest cl \<le> sa_id (nd_self cl)"

lemma upsert_ids: "set (map sa_id (upsert ms s)) = insert (sa_id s) (set (map sa_id ms))"
  by (induction ms s rule: upsert.induct) auto

lemma upsert_set: "m \<in> set (upsert ms s) \<Longrightarrow> m = s \<or> m \<in> set ms"
  by (induction ms s rule: upsert.induct) (auto split: if_splits)

lemma upsert_distinct: "distinct (map sa_id ms) \<Longrightarrow> distinct (map sa_id (upsert ms s))"
proof (induction ms s rule: upsert.induct)
  case (2 e l s)
  then show ?case using upsert_ids [of l s] by auto
qed simp

text \<open>What the exchanges on the links leave alone.\<close>

definition same_ids :: "'p cluster \<Rightarrow> 'p cluster \<Rightarrow> bool" where
  "same_ids cl cl' \<longleftrightarrow> nd_self cl' = nd_self cl \<and> cl_lowest cl' = cl_lowest cl \<and> cl_role cl' = cl_role cl \<and>
     cl_primary cl' = cl_primary cl \<and> cl_primary_known cl' = cl_primary_known cl \<and>
     set (nd_members cl') \<subseteq> set (nd_members cl) \<and> (distinct (map sa_id (nd_members cl)) \<longrightarrow> distinct (map sa_id (nd_members cl')))"

lemma same_ids_refl [simp]: "same_ids cl cl"
  by (simp add: same_ids_def)

lemma same_ids_trans [trans]: "same_ids a b \<Longrightarrow> same_ids b c \<Longrightarrow> same_ids a c"
  by (auto simp: same_ids_def)

lemma same_ids_ok: "same_ids cl cl' \<Longrightarrow> ids_ok cl \<Longrightarrow> ids_ok cl'"
  by (auto simp: same_ids_def ids_ok_def list_all_iff)

lemma same_ids_links [simp]: "same_ids cl (cl\<lparr>cl_links := links\<rparr>)" "same_ids cl (notify_membership cl)"
  by (simp_all add: same_ids_def notify_membership_def)

lemma same_ids_remove [simp]: "same_ids cl (remove_member i cl)"
  by (auto simp: same_ids_def remove_member_def distinct_map inj_on_def)

text \<open>
  What every exchange on the links leaves alone: a relation that survives a change of the
  links, an announcement and the removal of a member survives all of them.
\<close>

locale link_stable =
  fixes R :: "'p cluster \<Rightarrow> 'p cluster \<Rightarrow> bool"
  assumes stable_refl: "R cl cl"
    and stable_trans: "R cl1 cl2 \<Longrightarrow> R cl2 cl3 \<Longrightarrow> R cl1 cl3"
    and stable_links: "R cl (cl\<lparr>cl_links := links\<rparr>)"
    and stable_notify: "R cl (notify_membership cl)"
    and stable_remove: "R cl (remove_member i cl)"
begin

lemma membership_calls_stable: "R cl (snd (membership_calls cl))"
  using stable_refl stable_links by (auto simp: membership_calls_def split: sum.split prod.split)

lemma drop_links_stable: "R cl (snd (drop_links ids cl))"
proof (induction ids cl rule: drop_links.induct)
  case (1 cl)
  show ?case using stable_refl by (simp add: drop_links.simps)
next
  case (2 i ids cl)
  show ?case
  proof (cases "map_of (cl_links cl) i")
    case None
    with "2.IH"(1) [OF None] show ?thesis by (simp add: drop_links.simps)
  next
    case (Some l)
    let ?cl = "remove_member i (cl\<lparr>cl_links := omap_del i (cl_links cl)\<rparr>)"
    obtain r cl1 where m: "membership_calls ?cl = (r, cl1)" by fastforce
    have "R cl ?cl" by (rule stable_trans [OF stable_links stable_remove])
    moreover have "R ?cl cl1" using membership_calls_stable [of ?cl] m by simp
    ultimately have s1: "R cl cl1" by (rule stable_trans)
    show ?thesis
    proof (cases r)
      case (Inl e)
      with Some m s1 show ?thesis by (simp add: drop_links.simps)
    next
      case (Inr failed)
      have "R (notify_membership cl1) (snd (drop_links (failed @ ids) (notify_membership cl1)))"
        using "2.IH"(2) [OF Some m [symmetric] Inr] .
      with stable_trans [OF s1 stable_notify] have "R cl (snd (drop_links (failed @ ids) (notify_membership cl1)))"
        by (rule stable_trans)
      then show ?thesis using Some m Inr by (simp add: drop_links.simps)
    qed
  qed
qed

lemma broadcast_stable: "R cl (snd (broadcast_membership cl))"
proof -
  obtain r cl1 where m: "membership_calls cl = (r, cl1)" by fastforce
  have s1: "R cl cl1" using membership_calls_stable [of cl] m by simp
  show ?thesis
  proof (cases r)
    case (Inr failed)
    from stable_trans [OF stable_trans [OF s1 stable_notify] drop_links_stable] show ?thesis
      using m Inr by (simp add: broadcast_membership_def)
  qed (use m s1 in \<open>simp add: broadcast_membership_def\<close>)
qed

lemma replicate_change_stable: "R cl (snd (replicate_change f cl))"
proof -
  obtain r links where l: "each_link f (cl_links cl) = (r, links)" by fastforce
  show ?thesis
    using l stable_links stable_trans [OF stable_links drop_links_stable]
    by (cases r) (simp_all add: replicate_change_def)
qed

end

interpretation ids: link_stable same_ids
  by unfold_locales (auto intro: same_ids_trans)

lemmas broadcast_ids = ids.broadcast_stable
lemmas replicate_change_ids = ids.replicate_change_stable

text \<open>The files, the accounts and the identity of the server.\<close>

definition same_server :: "'p cluster \<Rightarrow> 'p cluster \<Rightarrow> bool" where
  "same_server cl cl' \<longleftrightarrow> nd_store cl' = nd_store cl \<and> nd_os cl' = nd_os cl \<and> nd_self cl' = nd_self cl \<and>
     cl_role cl' = cl_role cl"

interpretation unmoved: link_stable same_server
  by unfold_locales (simp_all add: same_server_def notify_membership_def remove_member_def)

lemma replicate_change_ok:
  "ids_ok cl \<Longrightarrow> ids_ok (snd (replicate_change f cl)) \<and> nd_self (snd (replicate_change f cl)) = nd_self cl \<and>
     cl_role (snd (replicate_change f cl)) = cl_role cl"
  using replicate_change_ids [of cl f] same_ids_ok [OF replicate_change_ids] by (simp add: same_ids_def)

lemma attach_on_rest:
  fixes cl :: "'p cluster"
  assumes "attach_on c cl = (r, c', cl')"
  shows "\<exists>st. cl' = cl\<lparr>nd_store := st\<rparr>"
proof -
  obtain locals st where l: "local_files (nd_store cl) (nd_os cl) = (locals, st)" by fastforce
  have "cl' = cl\<lparr>nd_store := st\<rparr>"
    using assms unfolding attach_on_def l
    by (auto simp: Let_def split: sum.splits prod.splits call_result.splits bool.splits)
  then show ?thesis ..
qed

lemma cl_attach_rest:
  "\<exists>st links. snd (cl_attach connect member cl) = cl\<lparr>nd_store := st, cl_links := links\<rparr>"
proof (cases "connect member")
  case None
  then have "snd (cl_attach connect member cl) =
      cl\<lparr>nd_store := snd (local_files (nd_store cl) (nd_os cl)), cl_links := cl_links cl\<rparr>"
    by (simp add: cl_attach_def attach_replica_def)
  then show ?thesis by blast
next
  case (Some c)
  obtain r c' cl1 where a: "attach_on c cl = (r, c', cl1)" by (metis prod_cases3)
  from attach_on_rest [OF a] obtain st where "cl1 = cl\<lparr>nd_store := st\<rparr>" ..
  then have "\<exists>links. snd (cl_attach connect member cl) = cl\<lparr>nd_store := st, cl_links := links\<rparr>"
    using Some a by (auto simp: cl_attach_def attach_replica_def split: sum.split bool.split)
      (metis cluster.surjective cluster.update_convs(5))+
  then show ?thesis by blast
qed

lemma cl_attach_ids: "same_ids cl (snd (cl_attach connect member cl))"
  using cl_attach_rest [of connect member cl] by (auto simp: same_ids_def)

lemma foldl_min_le: "foldl (\<lambda>l m. min l (sa_id m)) l ms \<le> l \<and> (\<forall>m \<in> set ms. foldl (\<lambda>l m. min l (sa_id m)) l ms \<le> sa_id m)"
proof (induction ms arbitrary: l)
  case (Cons m ms)
  from Cons [of "min l (sa_id m)"] show ?case by auto
qed simp

lemma foldl_min_same: "\<forall>m \<in> set ms. l \<le> sa_id m \<Longrightarrow> foldl (\<lambda>l m. min l (sa_id m)) l ms = l"
  by (induction ms) auto

lemma word_minus_one: "0 < w \<Longrightarrow> w - 1 < w \<and> (\<forall>v. w - 1 < v \<longleftrightarrow> w \<le> v)" for w :: u32
proof -
  assume w: "0 < w"
  then have "w \<noteq> 0" by auto
  from unat_minus_one [OF this] w have u: "unat (w - 1) = unat w - 1" "0 < unat w"
    by (simp_all add: word_less_nat_alt)
  then show ?thesis by (auto simp: word_less_nat_alt word_le_nat_alt)
qed

text \<open>A new id is below all the others; it is 0, and refused, when there is none left.\<close>

lemma join_id_cases:
  assumes "ids_ok cl" "join_id host port cl = (i, lowest)"
  shows "lowest = cl_lowest cl \<and>
    (i \<in> set (map sa_id (nd_members cl)) \<or>
     i = cl_lowest cl - 1 \<and> list_all (\<lambda>m. i < sa_id m) (nd_members cl))"
proof -
  define known where "known = foldl (\<lambda>i m. if sa_host m = host \<and> sa_port m = port then sa_id m else i) 0 (nd_members cl)"
  have k: "foldl (\<lambda>i m. if sa_host m = host \<and> sa_port m = port then sa_id m else i) z ms \<in> insert z (set (map sa_id ms))" for z ms
    by (induction ms arbitrary: z) (auto split: if_splits)
  have low: "foldl (\<lambda>l m. min l (sa_id m)) (cl_lowest cl) (nd_members cl) = cl_lowest cl"
    using assms(1) by (intro foldl_min_same) (auto simp: ids_ok_def list_all_iff)
  show ?thesis
  proof (cases "known = 0")
    case False
    with k [of 0 "nd_members cl"] assms(2) show ?thesis by (auto simp: join_id_def Let_def known_def)
  next
    case True
    then have "i = cl_lowest cl - 1" "lowest = cl_lowest cl"
      using assms(2) low by (auto simp: join_id_def Let_def known_def)
    with assms(1) word_minus_one [of "cl_lowest cl"] show ?thesis by (auto simp: ids_ok_def list_all_iff)
  qed
qed

lemma add_member_ids:
  assumes "ids_ok cl" "0 < sa_id m" "sa_id m \<le> sa_id (nd_self cl)"
  shows "ids_ok (add_member m cl)"
proof -
  have low: "cl_lowest (add_member m cl) = min (cl_lowest cl) (sa_id m)"
    using assms(1) by (auto simp: add_member_def ids_ok_def)
  show ?thesis
    using assms upsert_distinct [of "nd_members cl" m]
    by (auto simp: ids_ok_def low list_all_iff min_le_iff_disj dest!: upsert_set) (auto simp: add_member_def dest!: upsert_set)
qed

lemma join_accept_ids:
  assumes "ids_ok cl" "0 < sa_id m" "sa_id m \<le> sa_id (nd_self cl)" "join_accept connect m c cl = (r, c', cl')"
  shows "ids_ok cl' \<and> nd_self cl' = nd_self cl \<and> cl_role cl' = cl_role cl"
proof -
  have added: "ids_ok (add_member m cl)" by (rule add_member_ids [OF assms(1-3)])
  have self: "nd_self (add_member m cl) = nd_self cl" "cl_role (add_member m cl) = cl_role cl"
    by (simp_all add: add_member_def)
  obtain r1 cl1 where a: "cl_attach connect m (add_member m cl) = (r1, cl1)" by fastforce
  have s1: "same_ids (add_member m cl) cl1" using cl_attach_ids [of "add_member m cl" connect m] a by simp
  have "same_ids (add_member m cl) cl'"
  proof (cases r1)
    case (Inl e)
    with assms(4) a have "cl' = cl1" by (simp add: join_accept_def Let_def)
    with s1 show ?thesis by simp
  next
    case (Inr ok)
    let ?cl = "if ok then cl1 else remove_member (sa_id m) cl1"
    have "same_ids cl1 ?cl" by simp
    from same_ids_trans [OF same_ids_trans [OF s1 this] broadcast_ids] assms(4) a Inr show ?thesis
      by (auto simp: join_accept_def Let_def split: prod.splits)
  qed
  with added self same_ids_ok [of "add_member m cl" cl'] show ?thesis by (simp add: same_ids_def)
qed

lemma handle_join_ids:
  assumes "ids_ok cl" "handle_join connect c body cl = (r, c', cl')"
  shows "ids_ok cl' \<and> nd_self cl' = nd_self cl \<and> cl_role cl' = cl_role cl"
proof (cases "ebind (r_str (new_reader body)) (\<lambda>(host, r). ebind (r_u16 r) (\<lambda>(port, r). Inr (host, port)))")
  case (Inl e)
  with assms show ?thesis by (simp add: handle_join_def)
next
  case (Inr hp)
  obtain host port where hp: "hp = (host, port)" by (cases hp)
  obtain i lowest where j: "join_id host port cl = (i, lowest)" by fastforce
  note jc = join_id_cases [OF assms(1) j]
  have keep: "cl\<lparr>cl_lowest := lowest\<rparr> = cl" using jc by simp
  consider "cl_role cl \<noteq> Primary" | "cl_role cl = Primary" "i = 0" | "cl_role cl = Primary" "i \<noteq> 0" by blast
  then show ?thesis
  proof cases
    case 1
    with assms Inr hp show ?thesis by (auto simp: handle_join_def split: prod.splits)
  next
    case 2
    with assms Inr hp j keep show ?thesis by (auto simp: handle_join_def split: prod.splits)
  next
    case 3
    let ?m = "\<lparr>sa_id = i, sa_host = host, sa_port = port\<rparr>"
    have "cl_lowest cl - 1 < cl_lowest cl" using assms(1) word_minus_one by (simp add: ids_ok_def)
    then have "i \<le> sa_id (nd_self cl)" using jc assms(1) by (auto simp: ids_ok_def list_all_iff)
    have "join_accept connect ?m c cl = (r, c', cl')" using assms(2) Inr hp j keep 3 by (simp add: handle_join_def)
    moreover have "0 < i" using 3(2) by (simp add: word_neq_0_conv)
    ultimately show ?thesis
      using join_accept_ids [OF assms(1), of ?m connect c r c' cl'] \<open>i \<le> sa_id (nd_self cl)\<close> by simp
  qed
qed

text \<open>The operations of a primary that has started a cluster, in any order.\<close>

datatype 'p primary_op =
    Join_request "'p connector" "unit conn" string
  | Replicate_put string string
  | Replicate_delete string string
  | Replicate_account string string
  | Heartbeats

fun primary_step :: "'p primary_op \<Rightarrow> 'p cluster \<Rightarrow> 'p cluster" where
  "primary_step (Join_request connect c body) cl = snd (snd (handle_join connect c body cl))"
| "primary_step (Replicate_put u n) cl = snd (replicate_put u n cl)"
| "primary_step (Replicate_delete u n) cl = snd (replicate_delete u n cl)"
| "primary_step (Replicate_account u r) cl = snd (replicate_account u r cl)"
| "primary_step Heartbeats cl = snd (heartbeat_links cl)"

lemma primary_step_ids:
  "ids_ok cl \<Longrightarrow> ids_ok (primary_step op cl) \<and> nd_self (primary_step op cl) = nd_self cl \<and> cl_role (primary_step op cl) = cl_role cl"
proof (cases op)
  case (Join_request connect c body)
  assume "ids_ok cl"
  with handle_join_ids [of cl connect c body] show ?thesis
    by (cases "handle_join connect c body cl") (simp add: Join_request)
qed (simp_all add: replicate_put_def replicate_delete_def replicate_account_def heartbeat_links_def replicate_change_ok)

lemma primary_run_ids:
  "ids_ok cl \<Longrightarrow> ids_ok (fold primary_step ops cl) \<and> nd_self (fold primary_step ops cl) = nd_self cl \<and>
     cl_role (fold primary_step ops cl) = cl_role cl"
proof (induction ops arbitrary: cl)
  case (Cons op ops)
  from primary_step_ids [OF Cons.prems, of op] Cons.IH [of "primary_step op cl"] show ?case by simp
qed simp

lemma start_ids: "ids_ok (start_as_primary cl)"
  by (simp add: ids_ok_def start_as_primary_def FIRST_ID_def Let_def)

end
