(* ===== verification/SyncState.thy ===== *)
theory SyncState
  imports FileTransfer
begin

text \<open>
  \<open>client/sync_state.hpp\<close> and \<open>client/sync_state.cpp\<close>: the client's record of each file as
  it was when it was last in sync, and its text format. Reading follows the formatted input
  of the standard streams (\<open>operator>>\<close> on a \<open>std::string\<close> and on 64-bit integers, which accepts
  a sign and refuses what does not fit) and \<open>std::stoull\<close>, which throws.
\<close>

definition STATE_HEADER :: string where "STATE_HEADER = ''sisop-sync-state 1''"

type_synonym entries = "(string, file_info) omap"

record sync_state =
  ss_path :: string
  ss_entries :: entries

section \<open>Formatted input\<close>

definition is_space :: "char \<Rightarrow> bool" where
  "is_space c \<longleftrightarrow> c = CHR '' '' \<or> 9 \<le> (of_char c :: nat) \<and> (of_char c :: nat) \<le> 13"

definition skip_ws :: "string \<Rightarrow> string" where
  "skip_ws s = dropWhile is_space s"

definition take_sign :: "string \<Rightarrow> bool \<times> string" where
  "take_sign s =
     (case s of [] \<Rightarrow> (False, s)
      | c # r \<Rightarrow> if c = CHR ''-'' then (True, r) else if c = CHR ''+'' then (False, r) else (False, s))"

definition get_word :: "string \<Rightarrow> (string \<times> string) option" where
  "get_word s =
     (let r = skip_ws s; w = takeWhile (\<lambda>c. \<not> is_space c) r in
      if w = [] then None else Some (w, drop (length w) r))"

text \<open>Sign, magnitude and the rest of the input.\<close>

definition get_digits :: "string \<Rightarrow> (bool \<times> nat \<times> string) option" where
  "get_digits s =
     (case take_sign (skip_ws s) of (neg, r) \<Rightarrow>
        let ds = takeWhile is_digit r in
        if ds = [] then None else Some (neg, dec_value ds, drop (length ds) r))"

definition get_u64 :: "string \<Rightarrow> (u64 \<times> string) option" where
  "get_u64 s =
     (case get_digits s of None \<Rightarrow> None
      | Some (neg, v, r) \<Rightarrow>
          if v \<ge> 2 ^ 64 then None else Some (if neg then - of_nat v else of_nat v, r))"

definition get_i64 :: "string \<Rightarrow> (i64 \<times> string) option" where
  "get_i64 s =
     (case get_digits s of None \<Rightarrow> None
      | Some (neg, v, r) \<Rightarrow>
          if v > (if neg then 2 ^ 63 else 2 ^ 63 - 1) then None
          else Some (if neg then - of_nat v else of_nat v, r))"

datatype stoull_error = Invalid_argument | Out_of_range

definition is_hex :: "char \<Rightarrow> bool" where
  "is_hex c \<longleftrightarrow> hex_digit c \<noteq> None"

definition skip_0x :: "string \<Rightarrow> string" where
  "skip_0x s =
     (case s of
        a # b # c # r \<Rightarrow>
          if a = CHR ''0'' \<and> (b = CHR ''x'' \<or> b = CHR ''X'') \<and> is_hex c then c # r else s
      | _ \<Rightarrow> s)"

definition stoull16 :: "string \<Rightarrow> stoull_error + u64" where
  "stoull16 s =
     (case take_sign (skip_ws s) of (neg, r) \<Rightarrow>
        let ds = takeWhile is_hex (skip_0x r) in
        if ds = [] then Inl Invalid_argument
        else if hex_value ds \<ge> 2 ^ 64 then Inl Out_of_range
        else Inr (if neg then - of_nat (hex_value ds) else of_nat (hex_value ds)))"

section \<open>Loading and saving\<close>

definition parse_state_line :: "string \<Rightarrow> (string \<times> file_info) option" where
  "parse_state_line line =
     (case get_word line of None \<Rightarrow> None
      | Some (hash_hex, r) \<Rightarrow>
          (case get_u64 r of None \<Rightarrow> None
           | Some (n, r) \<Rightarrow>
               (case get_i64 r of None \<Rightarrow> None
                | Some (t, r) \<Rightarrow>
                    Some (hash_hex, new_file_info\<lparr>fi_name := drop 1 r, fi_size := n, fi_mtime := t\<rparr>))))"

fun load_lines :: "string list \<Rightarrow> entries \<Rightarrow> stoull_error + entries" where
  "load_lines [] m = Inr m"
| "load_lines (line # lines) m =
     (case parse_state_line line of
        None \<Rightarrow> load_lines lines m
      | Some (hash_hex, info) \<Rightarrow>
          if \<not> is_valid_path (fi_name info) then load_lines lines m
          else ebind (stoull16 hash_hex) (\<lambda>h.
                 load_lines lines (omap_put (fi_name info) (info\<lparr>fi_hash := h\<rparr>) m)))"

definition parse_state :: "string \<Rightarrow> stoull_error + entries" where
  "parse_state bs =
     (case getlines newline bs of
        [] \<Rightarrow> Inr []
      | line # lines \<Rightarrow> if line \<noteq> STATE_HEADER then Inr [] else load_lines lines [])"

definition state_load :: "sync_state \<Rightarrow> os \<Rightarrow> stoull_error + sync_state" where
  "state_load st os =
     (case sys_open_reg (ss_path st) os of
        None \<Rightarrow> Inr (st\<lparr>ss_entries := []\<rparr>)
      | Some (bs, _) \<Rightarrow> ebind (parse_state bs) (\<lambda>m. Inr (st\<lparr>ss_entries := m\<rparr>)))"

definition i64_dec :: "i64 \<Rightarrow> string" where
  "i64_dec t = (if sint t < 0 then CHR ''-'' # to_dec (nat (- sint t)) else to_dec (nat (sint t)))"

definition state_line :: "file_info \<Rightarrow> string" where
  "state_line info =
     hex_fixed 16 (unat (fi_hash info)) @ CHR '' '' # to_dec (unat (fi_size info)) @ CHR '' '' #
     i64_dec (fi_mtime info) @ CHR '' '' # fi_name info"

definition state_text :: "entries \<Rightarrow> string" where
  "state_text m = concat (map (\<lambda>l. l @ [newline]) (STATE_HEADER # map (\<lambda>e. state_line (snd e)) m))"

definition state_save :: "sync_state \<Rightarrow> os \<Rightarrow> bool \<times> os" where
  "state_save st os =
     (let temp = ss_path st @ ''.tmp'' in
      case sys_create temp os of
        (Some e, os) \<Rightarrow> (False, os)
      | (None, os) \<Rightarrow>
          (case sys_write temp (state_text (ss_entries st)) os of
             (Some e, os) \<Rightarrow> (False, os)
           | (None, os) \<Rightarrow> replace_file temp (ss_path st) os))"

definition state_get :: "string \<Rightarrow> sync_state \<Rightarrow> file_info option" where
  "state_get name st = map_of (ss_entries st) name"

definition state_set :: "file_info \<Rightarrow> sync_state \<Rightarrow> sync_state" where
  "state_set info st = st\<lparr>ss_entries := omap_put (fi_name info) info (ss_entries st)\<rparr>"

definition state_erase :: "string \<Rightarrow> sync_state \<Rightarrow> sync_state" where
  "state_erase name st = st\<lparr>ss_entries := omap_del name (ss_entries st)\<rparr>"

definition state_names :: "sync_state \<Rightarrow> string list" where
  "state_names st = map fst (ss_entries st)"

section \<open>The invariant\<close>

text \<open>Every entry is filed under its own, valid name.\<close>

definition entries_ok :: "entries \<Rightarrow> bool" where
  "entries_ok m \<longleftrightarrow> omap_wf m \<and> list_all (\<lambda>e. fi_name (snd e) = fst e \<and> is_valid_path (fst e)) m"

lemma entries_ok_Nil [simp]: "entries_ok []"
  by (simp add: entries_ok_def)

lemma entries_ok_put: "entries_ok m \<Longrightarrow> is_valid_path (fi_name i) \<Longrightarrow> entries_ok (omap_put (fi_name i) i m)"
  by (auto simp: entries_ok_def omap_wf_put list_all_iff dest: omap_put_set)

lemma entries_ok_del: "entries_ok m \<Longrightarrow> entries_ok (omap_del n m)"
  by (simp add: entries_ok_def omap_wf_del) (simp add: omap_del_def list_all_iff)

lemma entries_ok_put_hash:
  "entries_ok m \<Longrightarrow> is_valid_path (fi_name i) \<Longrightarrow> entries_ok (omap_put (fi_name i) (i\<lparr>fi_hash := h\<rparr>) m)"
  using entries_ok_put [of m "i\<lparr>fi_hash := h\<rparr>"] by simp

lemma load_lines_ok: "entries_ok m \<Longrightarrow> load_lines lines m = Inr m' \<Longrightarrow> entries_ok m'"
  by (induction lines m rule: load_lines.induct)
     (auto simp: ebind_Inr_iff entries_ok_put_hash split: option.splits if_splits)

lemma parse_state_ok: "parse_state bs = Inr m \<Longrightarrow> entries_ok m"
  by (auto simp: parse_state_def dest: load_lines_ok [OF entries_ok_Nil] split: list.splits if_splits)

section \<open>Round trip\<close>

lemma digit_not_space: "is_digit c \<Longrightarrow> \<not> is_space c \<and> c \<noteq> CHR ''-'' \<and> c \<noteq> CHR ''+''"
  by (auto simp: digit_range is_space_def)

lemma hex_not_space: "is_hex c \<Longrightarrow> \<not> is_space c \<and> c \<noteq> CHR ''-'' \<and> c \<noteq> CHR ''+'' \<and> c \<noteq> CHR ''x'' \<and> c \<noteq> CHR ''X''"
  by (auto simp: is_hex_def hex_digit_def digit_range is_space_def less_eq_char_def split: if_splits)

lemma get_digits_pos: "get_digits (CHR '' '' # to_dec n @ CHR '' '' # r) = Some (False, n, CHR '' '' # r)"
proof -
  obtain c cs where d: "to_dec n = c # cs" by (cases "to_dec n") auto
  have all: "\<forall>c \<in> set (to_dec n). is_digit c" using to_dec_digits by blast
  have sp: "\<not> is_digit (CHR '' '')" "is_space (CHR '' '')" by (simp_all add: is_digit_def less_eq_char_def is_space_def)
  have "skip_ws (CHR '' '' # to_dec n @ CHR '' '' # r) = to_dec n @ CHR '' '' # r"
    using all digit_not_space sp by (simp add: skip_ws_def d)
  moreover have "take_sign (to_dec n @ CHR '' '' # r) = (False, to_dec n @ CHR '' '' # r)"
    using all digit_not_space by (simp add: take_sign_def d)
  moreover have "takeWhile is_digit (to_dec n @ CHR '' '' # r) = to_dec n"
    using all sp by (simp add: takeWhile_append2)
  ultimately show ?thesis by (simp add: get_digits_def)
qed

lemma get_digits_neg:
  "get_digits (CHR '' '' # CHR ''-'' # to_dec n @ CHR '' '' # r) = Some (True, n, CHR '' '' # r)"
proof -
  have all: "\<forall>c \<in> set (to_dec n). is_digit c" using to_dec_digits by blast
  have sp: "\<not> is_digit (CHR '' '')" "is_space (CHR '' '')" "\<not> is_space (CHR ''-'')"
    by (simp_all add: is_digit_def less_eq_char_def is_space_def)
  then have "takeWhile is_digit (to_dec n @ CHR '' '' # r) = to_dec n"
    using all by (simp add: takeWhile_append2)
  then show ?thesis using sp by (simp add: get_digits_def skip_ws_def take_sign_def)
qed

lemma get_u64_dec: "get_u64 (CHR '' '' # to_dec (unat n) @ CHR '' '' # r) = Some (n, CHR '' '' # r)" for n :: u64
proof -
  have "\<not> 2 ^ 64 \<le> unat n" using unsigned_less [of n, where 'a = nat] by simp
  then show ?thesis by (simp add: get_u64_def get_digits_pos)
qed

lemma sint_range: "- (2 ^ 63) \<le> sint t \<and> sint t < 2 ^ 63" for t :: i64
  using sint_greater_eq [of t] sint_less [of t] by simp

lemma get_i64_dec: "get_i64 (CHR '' '' # i64_dec t @ CHR '' '' # r) = Some (t, CHR '' '' # r)"
proof (cases "sint t < 0")
  case True
  then have "nat (- sint t) \<le> 2 ^ 63" using sint_range [of t] by simp
  moreover have "- of_nat (nat (- sint t)) = t" using True by simp
  ultimately show ?thesis using True by (simp add: get_i64_def i64_dec_def get_digits_neg)
next
  case False
  then have "nat (sint t) \<le> 2 ^ 63 - 1" using sint_range [of t] by simp
  moreover have "of_nat (nat (sint t)) = t" using False by simp
  ultimately show ?thesis using False by (simp add: get_i64_def i64_dec_def get_digits_pos)
qed

lemma hex_fixed_hex: "\<forall>c \<in> set (hex_fixed w n). is_hex c"
  using hex_fixed_digits [of _ w n] by (auto simp: is_hex_def)

lemma three_chars: "3 \<le> length s \<Longrightarrow> (\<And>a b c r. s = a # b # c # r \<Longrightarrow> thesis) \<Longrightarrow> thesis"
  by (cases s rule: remdups_adj.cases) (auto simp: Suc_le_length_iff numeral_3_eq_3)

lemma stoull16_hex: "stoull16 (hex_fixed 16 (unat h)) = Inr h" for h :: u64
proof -
  let ?s = "hex_fixed 16 (unat h)"
  have all: "\<forall>c \<in> set ?s. is_hex c" by (rule hex_fixed_hex)
  obtain a b c r where s: "?s = a # b # c # r"
    by (rule three_chars [of ?s]) simp
  have tidy: "skip_ws ?s = ?s" "take_sign ?s = (False, ?s)" "skip_0x ?s = ?s"
    using all hex_not_space by (auto simp: s skip_ws_def take_sign_def skip_0x_def)
  have "?s \<noteq> []" using s by simp
  have "unat h < 2 ^ 64" using unsigned_less [of h, where 'a = nat] by simp
  then have v: "hex_value ?s = unat h" by (simp add: hex_value_fixed)
  have tw: "takeWhile is_hex ?s = ?s" using all by (simp add: takeWhile_eq_all_conv)
  show ?thesis
    unfolding stoull16_def tidy prod.case tw Let_def v
    using \<open>?s \<noteq> []\<close> \<open>unat h < 2 ^ 64\<close> by simp
qed

lemma get_word_hex: "get_word (hex_fixed 16 n @ CHR '' '' # r) = Some (hex_fixed 16 n, CHR '' '' # r)"
proof -
  let ?s = "hex_fixed 16 n"
  have all: "\<forall>c \<in> set ?s. \<not> is_space c" using hex_fixed_hex hex_not_space by blast
  have "length ?s = 16" by simp
  then obtain a as where s: "?s = a # as" by (cases ?s) auto
  have sp: "is_space (CHR '' '')" by (simp add: is_space_def)
  have "skip_ws (?s @ CHR '' '' # r) = ?s @ CHR '' '' # r" using all by (simp add: skip_ws_def s)
  moreover have "takeWhile (\<lambda>c. \<not> is_space c) (?s @ CHR '' '' # r) = ?s"
    using all sp by (simp add: takeWhile_append2)
  ultimately show ?thesis using s by (simp add: get_word_def)
qed

lemma parse_state_line_ok:
  "parse_state_line (state_line info) = Some (hex_fixed 16 (unat (fi_hash info)), info\<lparr>fi_hash := 0\<rparr>)"
  by (simp add: parse_state_line_def state_line_def get_word_hex get_u64_dec get_i64_dec new_file_info_def)

text \<open>The whole file.\<close>

lemma valid_path_no_newline: "is_valid_path p \<Longrightarrow> newline \<notin> set p"
  using valid_path_chars [of p newline] by (auto simp: name_char_def)

lemma state_line_no_newline: "is_valid_path (fi_name info) \<Longrightarrow> newline \<notin> set (state_line info)"
proof -
  have d: "newline \<notin> set (to_dec n)" for n using to_dec_digits [of newline n] by (auto simp: is_digit_def less_eq_char_def)
  have h: "newline \<notin> set (hex_fixed w n)" for w n
    using hex_fixed_digits [of newline w n] by (auto simp: hex_digit_def is_digit_def less_eq_char_def)
  show "is_valid_path (fi_name info) \<Longrightarrow> newline \<notin> set (state_line info)"
    using d h valid_path_no_newline by (simp add: state_line_def i64_dec_def)
qed

lemma load_lines_state:
  "\<forall>e \<in> set es. fi_name (snd e) = fst e \<and> is_valid_path (fst e) \<Longrightarrow>
     load_lines (map (\<lambda>e. state_line (snd e)) es) m = Inr (foldl (\<lambda>m e. omap_put (fst e) (snd e) m) m es)"
proof (induction es arbitrary: m)
  case (Cons e es)
  have "snd e\<lparr>fi_hash := fi_hash (snd e)\<rparr> = snd e" by simp
  with Cons show ?case by (simp add: parse_state_line_ok stoull16_hex)
qed simp

lemma foldl_put_entries:
  assumes "omap_wf m"
  shows "foldl (\<lambda>m e. omap_put (fst e) (snd e) m) [] m = m"
proof (rule omap_eqI)
  have "map_of (rev m) = map_of m"
    using omap_wf_distinct [OF assms] by (intro map_of_inject_set [THEN iffD2]) (auto simp: rev_map [symmetric])
  with om.find_foldl_put [of "[]" fst snd m]
  show "omap_wf (foldl (\<lambda>m e. omap_put (fst e) (snd e) m) [] m)"
    "map_of (foldl (\<lambda>m e. omap_put (fst e) (snd e) m) [] m) = map_of m" by simp_all
qed (rule assms)

lemma parse_state_text: "entries_ok m \<Longrightarrow> parse_state (state_text m) = Inr m"
proof -
  assume ok: "entries_ok m"
  have "newline \<notin> set STATE_HEADER" by (simp add: STATE_HEADER_def)
  then have "getlines newline (state_text m) = STATE_HEADER # map (\<lambda>e. state_line (snd e)) m"
    unfolding state_text_def
    by (intro getlines_terminated) (use ok state_line_no_newline in \<open>auto simp: entries_ok_def list_all_iff\<close>)
  then show ?thesis
    using ok load_lines_state [of m "[]"] foldl_put_entries [of m]
    by (simp add: parse_state_def entries_ok_def list_all_iff)
qed

section \<open>The file on disk\<close>

lemma split_on_append_plain:
  "c \<notin> set t \<Longrightarrow> split_on c (s @ t) = butlast (split_on c s) @ [last (split_on c s) @ t]"
proof (induction s)
  case (Cons x xs)
  then show ?case by (cases "split_on c xs") (auto split: list.splits)
qed simp

lemma resolve_tmp: "resolve (path @ ''.tmp'') \<noteq> resolve path"
proof -
  let ?cs = "split_on slash path"
  let ?p = "foldl resolve_step [] (butlast ?cs)" and ?l = "last ?cs"
  have "split_on slash (path @ ''.tmp'') = butlast ?cs @ [?l @ ''.tmp'']"
    by (rule split_on_append_plain) simp
  moreover have "?l @ ''.tmp'' \<noteq> ''.''" "?l @ ''.tmp'' \<noteq> ''..''"
    by (cases ?l, simp, cases "tl ?l"; simp)+
  ultimately have "resolve (path @ ''.tmp'') = ?p @ [?l @ ''.tmp'']"
    by (simp add: resolve_def resolve_step_def)
  moreover have "resolve path = resolve_step ?p ?l"
    unfolding resolve_def by (metis append_butlast_last_id foldl_Cons foldl_Nil foldl_append split_on_not_Nil)
  moreover have "length (butlast ?p) \<le> length ?p" by simp
  ultimately show ?thesis
    by (auto simp: resolve_step_def) (metis append_butlast_last_id append_eq_conv_conj append_self_conv
        length_append_singleton length_butlast lessI less_imp_diff_less nat_neq_iff)
qed

lemma state_save_effect:
  assumes wf: "wf_os os" and save: "state_save st os = (ok, os')"
  shows "wf_os os'"
    "ok \<Longrightarrow> \<exists>t. file_at os' (resolve (ss_path st)) = Some (state_text (ss_entries st), t)"
    "q \<noteq> resolve (ss_path st @ ''.tmp'') \<Longrightarrow> \<not> ok \<or> q \<noteq> resolve (ss_path st) \<Longrightarrow> os_node os' q = os_node os q"
proof -
  let ?temp = "ss_path st @ ''.tmp''" and ?text = "state_text (ss_entries st)"
  have *: "wf_os os' \<and> (ok \<longrightarrow> (\<exists>t. file_at os' (resolve (ss_path st)) = Some (?text, t))) \<and>
    (q \<noteq> resolve ?temp \<longrightarrow> \<not> ok \<or> q \<noteq> resolve (ss_path st) \<longrightarrow> os_node os' q = os_node os q)"
  proof (cases "sys_create ?temp os")
    case (Pair e os1)
    show ?thesis
    proof (cases e)
      case (Some a)
      then have "os1 = os" using Pair sys_create_err by blast
      with Pair Some wf save show ?thesis by (simp add: state_save_def)
    next
      case None
      note c = sys_create_ok [OF wf Pair [unfolded None]]
      obtain e2 os2 where w: "sys_write ?temp ?text os1 = (e2, os2)" by fastforce
      show ?thesis
      proof (cases e2)
        case (Some a)
        then have "os2 = os1" using w sys_write_err by blast
        with Pair None Some w c(1,2) save show ?thesis by (auto simp: state_save_def)
      next
        case e2: None
        from sys_write_ok [OF c(1) w [unfolded e2]] c(2)
        have wf2: "wf_os os2" and n2: "os_node os2 = (os_node os)(resolve ?temp \<mapsto> N_file ?text (now os1))"
          by auto
        have rep: "replace_file ?temp (ss_path st) os2 = (ok, os')"
          using save Pair None w e2 by (simp add: state_save_def)
        show ?thesis
        proof (cases ok)
          case True
          then have rep': "replace_file ?temp (ss_path st) os2 = (True, os')" using rep by simp
          from True replace_file_ok [OF wf2 rep' resolve_tmp] n2 show ?thesis by (auto simp: file_at_Some)
        next
          case False
          with rep have "os' = os2" by (simp add: replace_file_err)
          with wf2 n2 False show ?thesis by auto
        qed
      qed
    qed
  qed
  from * show "wf_os os'"
    "ok \<Longrightarrow> \<exists>t. file_at os' (resolve (ss_path st)) = Some (?text, t)"
    "q \<noteq> resolve ?temp \<Longrightarrow> \<not> ok \<or> q \<noteq> resolve (ss_path st) \<Longrightarrow> os_node os' q = os_node os q"
    by auto
qed

lemma state_load_text:
  "ss_path st \<noteq> [] \<Longrightarrow> entries_ok m \<Longrightarrow> file_at os (resolve (ss_path st)) = Some (state_text m, t) \<Longrightarrow>
     state_load st os = Inr (st\<lparr>ss_entries := m\<rparr>)"
  by (simp add: state_load_def sys_open_reg_Some [THEN iffD2] parse_state_text)

section \<open>Properties\<close>

text \<open>
  C38. The sync state survives a restart: after a successful \<open>save\<close>, \<open>load\<close> restores exactly
  the saved entries, whatever was in memory, for all sizes, times, hashes and valid names
  (names with spaces included).
\<close>

theorem state_save_load:
  assumes "wf_os os" "ss_path st \<noteq> []" "entries_ok (ss_entries st)" "fst (state_save st os)"
  shows "state_load (st\<lparr>ss_entries := other\<rparr>) (snd (state_save st os)) = Inr st"
proof -
  have s: "state_save st os = (True, snd (state_save st os))" using assms(4) by (metis prod.collapse)
  obtain t where "file_at (snd (state_save st os)) (resolve (ss_path st)) = Some (state_text (ss_entries st), t)"
    using state_save_effect(2) [OF assms(1) s] by blast
  then show ?thesis
    using state_load_text [of "st\<lparr>ss_entries := other\<rparr>" "ss_entries st"] assms(2,3) by simp
qed

theorem state_save_load_witness:
  "state_load (\<lparr>ss_path = ''s'', ss_entries = [(''a b'', \<lparr>fi_name = ''a b'', fi_size = 3, fi_mtime = - 5, fi_hash = 255\<rparr>)]\<rparr>\<lparr>ss_entries := []\<rparr>)
     (snd (state_save \<lparr>ss_path = ''s'', ss_entries = [(''a b'', \<lparr>fi_name = ''a b'', fi_size = 3, fi_mtime = - 5, fi_hash = 255\<rparr>)]\<rparr>
        \<lparr>tree = [], file_limit = None, cut_at = None, now = 0, rnd = \<lambda>_. 0, rnd_pos = 0\<rparr>)) =
   Inr \<lparr>ss_path = ''s'', ss_entries = [(''a b'', \<lparr>fi_name = ''a b'', fi_size = 3, fi_mtime = - 5, fi_hash = 255\<rparr>)]\<rparr>"
proof (rule state_save_load)
  show "entries_ok (ss_entries \<lparr>ss_path = ''s'', ss_entries = [(''a b'', \<lparr>fi_name = ''a b'', fi_size = 3, fi_mtime = - 5, fi_hash = 255\<rparr>)]\<rparr>)"
    by (simp add: entries_ok_def omap_wf_def is_valid_path_iff valid_components_def is_valid_file_name_def name_char_def
        RESERVED_PREFIX_def MAX_NAME_LENGTH_def MAX_PATH_LENGTH_def MAX_PATH_DEPTH_def)
qed (simp_all add: wf_os_def state_save_def sys_create_def sys_write_def replace_file_def sys_rename_def resolve_def
      resolve_step_def os_node_def os_put_def os_del_def omap_del_def Let_def)

text \<open>
  Whatever is in the state file, the entries after \<open>load\<close> are filed under their own, valid
  names in order; a file that is missing or has another header gives no entries.
\<close>

theorem state_load_entries_ok:
  "case state_load st os of Inl e \<Rightarrow> True | Inr st' \<Rightarrow> entries_ok (ss_entries st')"
  using parse_state_ok
  by (auto simp: state_load_def ebind_def split: option.splits sum.splits)



end
