(* ===== verification/Backup_Link.thy ===== *)
theory Backup_Link
  imports Cluster
begin

text \<open>
  The whole of \<open>handle_replica_attach\<close> in \<open>server/cluster.cpp\<close>: the link is answered with the
  manifest, then serves the primary's messages until it closes or is replaced by the link of
  another primary. Between two messages the other threads of the server run; \<open>others\<close> gives what
  they do to the state, one entry for each message the loop waits for, with the time at which
  the message arrives.
\<close>

text \<open>A membership change is also announced to the clients.\<close>

definition apply_on_cluster ::
  "'q conn \<Rightarrow> message \<Rightarrow> 'p cluster \<Rightarrow> (protocol_error + bool) \<times> 'q conn \<times> 'p cluster" where
  "apply_on_cluster c m cl =
     (case apply_replicated c m cl of (r, c, cl) \<Rightarrow>
        (r, c, if mtype m = Msg_Membership \<and> (case r of Inl _ \<Rightarrow> False | Inr _ \<Rightarrow> True)
               then notify_membership cl else cl))"

text \<open>One turn of the loop: whether it goes on.\<close>

definition replica_turn ::
  "nat \<Rightarrow> int \<Rightarrow> 'q conn \<Rightarrow> 'p cluster \<Rightarrow> bool \<times> 'q conn \<times> 'p cluster" where
  "replica_turn conn_no time c cl =
     (case conn_recv c of
        (Received m, c) \<Rightarrow>
          if cl_primary_link cl \<noteq> Some conn_no then (False, c, cl)
          else (case apply_on_cluster c m (cl\<lparr>cl_last_heard := time\<rparr>) of
                  (Inr ok, c, cl) \<Rightarrow> (ok, c, cl)
                | (Inl e, c, cl) \<Rightarrow> (False, c, cl))
      | (_, c) \<Rightarrow> (False, c, cl))"

fun replica_loop ::
  "nat \<Rightarrow> (int \<times> ('p cluster \<Rightarrow> 'p cluster)) list \<Rightarrow> 'q conn \<Rightarrow> 'p cluster \<Rightarrow> bool \<times> 'q conn \<times> 'p cluster" where
  "replica_loop conn_no [] c cl = (True, c, cl)"
| "replica_loop conn_no ((time, others) # env) c cl =
     (case replica_turn conn_no time c (others cl) of
        (True, c, cl) \<Rightarrow> replica_loop conn_no env c cl
      | (False, c, cl) \<Rightarrow> (False, c, cl))"

text \<open>
  The result says whether the link is still served when the given turns are over; if not, it
  has been closed, and an election starts if it was the link to the current primary.
\<close>

definition handle_replica_attach ::
  "nat \<Rightarrow> int \<Rightarrow> (int \<times> ('p cluster \<Rightarrow> 'p cluster)) list \<Rightarrow> 'q conn \<Rightarrow> string \<Rightarrow> 'p cluster \<Rightarrow>
     (protocol_error + bool) \<times> 'q conn \<times> 'p cluster" where
  "handle_replica_attach conn_no time env c body cl =
     (case attach_as_backup conn_no time body cl of
        (Inl e, cl) \<Rightarrow> (Inl e, c, cl)
      | (Inr manifest, cl) \<Rightarrow>
          (case conn_send c Msg_ReplicaManifest manifest of
             (False, c) \<Rightarrow> (Inr False, conn_shutdown c, link_lost conn_no cl)
           | (True, c) \<Rightarrow>
               (case replica_loop conn_no env c cl of
                  (True, c, cl) \<Rightarrow> (Inr True, c, cl)
                | (False, c, cl) \<Rightarrow> (Inr False, conn_shutdown c, link_lost conn_no cl))))"

section \<open>What a backup takes from its links\<close>

lemma apply_put_self:
  "nd_self (snd (snd (apply_put c body nd))) = nd_self nd \<and>
   node.more (snd (snd (apply_put c body nd))) = node.more nd"
  by (auto simp: apply_put_def split: sum.split prod.split)

lemma apply_replicated_more:
  "node.more (snd (snd (apply_replicated c m nd))) = node.more nd"
  by (auto simp: apply_replicated_def apply_put_self apply_delete_def apply_membership_def apply_account_def
      split: sum.split prod.split)

lemma cluster_more:
  "node.more (cl' :: 'p cluster) = node.more cl \<Longrightarrow>
     cl_role cl' = cl_role cl \<and> cl_primary_link cl' = cl_primary_link cl \<and> cl_primary cl' = cl_primary cl \<and>
     cl_links cl' = cl_links cl"
  by (cases cl; cases cl') simp

lemma apply_on_cluster_rest:
  assumes "apply_on_cluster c m cl = (r, c', cl')"
  shows "cl_role cl' = cl_role cl \<and> cl_primary_link cl' = cl_primary_link cl \<and> cl_primary cl' = cl_primary cl \<and>
     cl_links cl' = cl_links cl"
proof -
  obtain r1 c1 cl1 where a: "apply_replicated c m cl = (r1, c1, cl1)" by (metis prod_cases3)
  from apply_replicated_more [of c m cl] a have "node.more cl1 = node.more cl" by simp
  from cluster_more [OF this] assms a show ?thesis
    by (auto simp: apply_on_cluster_def notify_membership_def split: if_splits)
qed

lemma replica_turn_rest:
  "replica_turn conn_no time c cl = (b, c', cl') \<Longrightarrow>
     cl_role cl' = cl_role cl \<and> cl_primary_link cl' = cl_primary_link cl \<and> cl_primary cl' = cl_primary cl \<and>
     cl_links cl' = cl_links cl"
  by (auto simp: replica_turn_def split: recv_result.splits prod.splits if_splits sum.splits
      dest!: apply_on_cluster_rest)

text \<open>A link that has been replaced serves at most until its next message, and changes nothing.\<close>

lemma replaced_turn:
  "cl_primary_link cl \<noteq> Some conn_no \<Longrightarrow>
     fst (replica_turn conn_no time c cl) = False \<and> snd (snd (replica_turn conn_no time c cl)) = cl"
  by (auto simp: replica_turn_def split: recv_result.split prod.split)

lemma replica_loop_replaced:
  assumes "\<And>t f cl. (t, f) \<in> set env \<Longrightarrow> cl_primary_link (f cl) \<noteq> Some conn_no"
  shows "replica_loop conn_no env c cl =
    (case env of [] \<Rightarrow> (True, c, cl) | (t, f) # _ \<Rightarrow> replica_turn conn_no t c (f cl))"
proof (cases env)
  case (Cons e env')
  obtain t f where e: "e = (t, f)" by (cases e)
  have "cl_primary_link (f cl) \<noteq> Some conn_no" using assms Cons e by auto
  from replaced_turn [OF this, of t c] Cons e show ?thesis
    by (auto split: prod.split bool.split)
qed simp

end
