(* ===== verification/Server.thy ===== *)
theory Server
  imports Backup_Link Sessions
begin

text \<open>
  \<open>server/server.hpp\<close> and \<open>server/server.cpp\<close>: what a server does for the clients. A connection
  is named by a number; \<open>sv_syncs\<close> gives the state of the sync connections that have been
  attached, the command connection is passed along. The locks only order the steps of
  different threads: each operation is one step here, and what other threads do between two
  requests of a session is an argument (\<open>others\<close>). The log is not modelled.
\<close>

record ('p, 'q) server =
  sv_cluster :: "'p cluster"
  sv_sessions :: sessions
  sv_syncs :: "conn_id \<Rightarrow> 'q conn"
  sv_problems :: string \<comment> \<open>\<open>health_.problems()\<close>\<close>

definition MIN_PASSWORD_LENGTH :: nat where "MIN_PASSWORD_LENGTH = 6"
definition MAX_PASSWORD_LENGTH :: nat where "MAX_PASSWORD_LENGTH = 256"

abbreviation sv_os :: "('p, 'q) server \<Rightarrow> os" where
  "sv_os sv \<equiv> nd_os (sv_cluster sv)"

abbreviation sv_store :: "('p, 'q) server \<Rightarrow> store" where
  "sv_store sv \<equiv> nd_store (sv_cluster sv)"

definition sv_set_files :: "store \<Rightarrow> os \<Rightarrow> ('p, 'q) server \<Rightarrow> ('p, 'q) server" where
  "sv_set_files st os sv = sv\<lparr>sv_cluster := (sv_cluster sv)\<lparr>nd_store := st, nd_os := os\<rparr>\<rparr>"

section \<open>Pushes\<close>

text \<open>
  One action on each of the connections; those for which it gives \<^term>\<open>False\<close> are shut down.
\<close>

fun push_each ::
  "('q conn \<Rightarrow> (protocol_error + bool) \<times> 'q conn) \<Rightarrow> conn_id list \<Rightarrow> (conn_id \<Rightarrow> 'q conn) \<Rightarrow>
     (protocol_error + unit) \<times> (conn_id \<Rightarrow> 'q conn)" where
  "push_each f [] syncs = (Inr (), syncs)"
| "push_each f (i # ids) syncs =
     (case f (syncs i) of
        (Inl e, c) \<Rightarrow> (Inl e, syncs(i := c))
      | (Inr ok, c) \<Rightarrow> push_each f ids (syncs(i := if ok then c else conn_shutdown c)))"

definition push_file ::
  "string \<Rightarrow> string \<Rightarrow> string \<Rightarrow> ('p, 'q) server \<Rightarrow> (protocol_error + unit) \<times> ('p, 'q) server" where
  "push_file user path except sv =
     (case push_each
             (\<lambda>c. case send_file c Msg_PushFile [] path (file_path (sv_store sv) user path) (sv_os sv) of
                    (Inl e, c) \<Rightarrow> (Inl e, c)
                  | (Inr (result, _), c) \<Rightarrow> (Inr (result \<noteq> T_ConnectionLost), c))
             (sync_connections user except (sv_sessions sv)) (sv_syncs sv) of
        (r, syncs) \<Rightarrow> (r, sv\<lparr>sv_syncs := syncs\<rparr>))"

definition push_delete ::
  "string \<Rightarrow> string \<Rightarrow> string \<Rightarrow> ('p, 'q) server \<Rightarrow> (protocol_error + unit) \<times> ('p, 'q) server" where
  "push_delete user path except sv =
     (case w_str path [] of
        Inl e \<Rightarrow> (Inl e, sv)
      | Inr body \<Rightarrow>
          (case push_each (\<lambda>c. case conn_send c Msg_PushDelete body of (ok, c) \<Rightarrow> (Inr ok, c))
                  (sync_connections user except (sv_sessions sv)) (sv_syncs sv) of
             (r, syncs) \<Rightarrow> (r, sv\<lparr>sv_syncs := syncs\<rparr>)))"

text \<open>The same message on every sync connection, whether or not it can be sent.\<close>

definition push_all :: "msg \<Rightarrow> string \<Rightarrow> ('p, 'q) server \<Rightarrow> ('p, 'q) server" where
  "push_all ty body sv =
     sv\<lparr>sv_syncs := snd (push_each (\<lambda>c. (Inr True, snd (conn_send c ty body)))
                        (all_sync_connections (sv_sessions sv)) (sv_syncs sv))\<rparr>"

definition push_notice :: "string \<Rightarrow> ('p, 'q) server \<Rightarrow> (protocol_error + unit) \<times> ('p, 'q) server" where
  "push_notice notice sv =
     (if \<not> is_primary (sv_cluster sv) then (Inr (), sv)
      else case w_str notice [] of
        Inl e \<Rightarrow> (Inl e, sv)
      | Inr body \<Rightarrow> (Inr (), push_all Msg_Notice body sv))"

definition push_server_list ::
  "server_address list \<Rightarrow> ('p, 'q) server \<Rightarrow> (protocol_error + unit) \<times> ('p, 'q) server" where
  "push_server_list servers sv =
     (case write_servers servers [] of
        Inl e \<Rightarrow> (Inl e, sv)
      | Inr body \<Rightarrow> (Inr (), push_all Msg_ServerList body sv))"

text \<open>
  The membership listener: the changes that an operation of the cluster has announced are
  pushed to the clients. (The list has been encoded for the backups just before, so the
  encoding does not fail here.)
\<close>

definition tell_clients :: "('p, 'q) server \<Rightarrow> ('p, 'q) server" where
  "tell_clients sv =
     fold (\<lambda>servers sv. snd (push_server_list servers sv)) (cl_notified (sv_cluster sv))
       (sv\<lparr>sv_cluster := (sv_cluster sv)\<lparr>cl_notified := []\<rparr>\<rparr>)"

definition sv_on_cluster ::
  "('p cluster \<Rightarrow> (protocol_error + unit) \<times> 'p cluster) \<Rightarrow> ('p, 'q) server \<Rightarrow>
     (protocol_error + unit) \<times> ('p, 'q) server" where
  "sv_on_cluster f sv = (case f (sv_cluster sv) of (r, cl) \<Rightarrow> (r, tell_clients (sv\<lparr>sv_cluster := cl\<rparr>)))"

section \<open>Logging in\<close>

text \<open>
  \<open>authenticate\<close>. The key derivation and the random salt are arguments. The delay after a
  wrong password is not modelled.
\<close>

definition check_password ::
  "kdf \<Rightarrow> string \<Rightarrow> string \<Rightarrow> 'c conn \<Rightarrow> ('p, 'q) server \<Rightarrow>
     (protocol_error + bool) \<times> 'c conn \<times> ('p, 'q) server" where
  "check_password derive rec password c sv =
     (if verify_record derive rec password then (Inr True, c, sv)
      else case send_error c ''wrong password'' of (r, c) \<Rightarrow> (map_sum id (\<lambda>_. False) r, c, sv))"

definition authenticate ::
  "kdf \<Rightarrow> string option \<Rightarrow> string \<Rightarrow> string \<Rightarrow> 'c conn \<Rightarrow> ('p, 'q) server \<Rightarrow>
     (protocol_error + bool) \<times> 'c conn \<times> ('p, 'q) server" where
  "authenticate derive salt user password c sv =
     (let dir = accounts_dir (sv_store sv) in
      case acc_get dir user (sv_os sv) of
        Some rec \<Rightarrow> check_password derive rec password c sv
      | None \<Rightarrow>
          let new_record = make_record derive salt password in
          case (if new_record = [] then (False, sv_os sv) else acc_create dir user new_record (sv_os sv)) of
            (created, os) \<Rightarrow>
              let sv = sv_set_files (sv_store sv) os sv in
              if created then
                (case sv_on_cluster (replicate_account user new_record) sv of
                   (Inl e, sv) \<Rightarrow> (Inl e, c, sv)
                 | (Inr _, sv) \<Rightarrow> (Inr True, c, sv))
              else case acc_get dir user os of
                None \<Rightarrow>
                  (case send_error c ''the server could not create the account'' of
                     (r, c) \<Rightarrow> (map_sum id (\<lambda>_. False) r, c, sv))
              | Some rec \<Rightarrow> check_password derive rec password c sv)"

definition send_redirect :: "'c conn \<Rightarrow> ('p, 'q) server \<Rightarrow> (protocol_error + unit) \<times> 'c conn" where
  "send_redirect c sv =
     (case (case primary_address (sv_cluster sv) of Some p \<Rightarrow> (sa_host p, sa_port p) | None \<Rightarrow> ([], 0)) of
        (host, port) \<Rightarrow>
          (case w_str host [] of
             Inl e \<Rightarrow> (Inl e, c)
           | Inr body \<Rightarrow> (Inr (), snd (conn_send c Msg_Redirect (w_u16 port body)))))"

section \<open>Requests\<close>

text \<open>
  Each handler gives the result of the C++ function (\<^term>\<open>False\<close>: the session ends) or the
  \<open>ProtocolError\<close> it throws.
\<close>

definition file_list_body :: "file_info list \<Rightarrow> protocol_error + string" where
  "file_list_body files = write_each write_file_info files (w_u32 (of_nat (length files)) [])"

definition handle_list ::
  "string \<Rightarrow> 'c conn \<Rightarrow> ('p, 'q) server \<Rightarrow> (protocol_error + bool) \<times> 'c conn \<times> ('p, 'q) server" where
  "handle_list user c sv =
     (case store_list (sv_store sv) user (sv_os sv) of (files, st) \<Rightarrow>
      let sv = sv_set_files st (sv_os sv) sv in
      case file_list_body files of
        Inl e \<Rightarrow> (Inl e, c, sv)
      | Inr body \<Rightarrow>
          if length body > MAX_PAYLOAD
          then (case send_error c ''too many files to list'' of (r, c) \<Rightarrow> (r, c, sv))
          else (case conn_send c Msg_FileList body of (ok, c) \<Rightarrow> (Inr ok, c, sv)))"

text \<open>A change of this session's own directory (\<open>Origin::Sync\<close>) is not pushed back to it.\<close>

definition push_except :: "u8 \<Rightarrow> string \<Rightarrow> string" where
  "push_except origin token = (if origin = Origin_Sync then token else [])"

definition reply_and_push ::
  "'c conn \<Rightarrow> ('p, 'q) server \<Rightarrow> (('p, 'q) server \<Rightarrow> (protocol_error + unit) \<times> ('p, 'q) server) \<Rightarrow>
     (protocol_error + bool) \<times> 'c conn \<times> ('p, 'q) server" where
  "reply_and_push c sv push =
     (case conn_send c Msg_Ok [] of
        (False, c) \<Rightarrow> (Inr False, c, sv)
      | (True, c) \<Rightarrow> (case push sv of (Inl e, sv) \<Rightarrow> (Inl e, c, sv) | (Inr _, sv) \<Rightarrow> (Inr True, c, sv)))"

text \<open>\<open>handle_upload\<close> once the body has been received and its name is valid.\<close>

definition store_upload ::
  "string \<Rightarrow> string \<Rightarrow> u8 \<Rightarrow> file_info \<Rightarrow> string \<Rightarrow> 'c conn \<Rightarrow> ('p, 'q) server \<Rightarrow>
     (protocol_error + bool) \<times> 'c conn \<times> ('p, 'q) server" where
  "store_upload user token origin info temp c sv =
     (case store_commit (sv_store sv) user (fi_name info) temp (fi_mtime info) (sv_os sv) of
        (stored, st, os) \<Rightarrow>
          let sv = sv_set_files st os sv in
          if \<not> stored then
            (case send_error c (''the server could not store '' @ fi_name info @
                 '' (a file and a folder can'' @ [CHR 0x27] @ ''t have the same name)'') of
               (r, c) \<Rightarrow> (r, c, sv_set_files (sv_store sv) (snd (remove_file temp (sv_os sv))) sv))
          else
            (case sv_on_cluster (replicate_put user (fi_name info)) sv of
               (Inl e, sv) \<Rightarrow> (Inl e, c, sv)
             | (Inr _, sv) \<Rightarrow> reply_and_push c sv (push_file user (fi_name info) (push_except origin token))))"

definition handle_upload ::
  "string \<Rightarrow> string \<Rightarrow> string \<Rightarrow> 'c conn \<Rightarrow> ('p, 'q) server \<Rightarrow>
     (protocol_error + bool) \<times> 'c conn \<times> ('p, 'q) server" where
  "handle_upload user token body c sv =
     (case ebind (r_u8 (new_reader body)) (\<lambda>(origin, r).
             ebind (read_file_header r) (\<lambda>(info, r). Inr (origin, info))) of
        Inl e \<Rightarrow> (Inl e, c, sv)
      | Inr (origin, info) \<Rightarrow>
          (case new_temp_path (sv_store sv) (sv_os sv) of (temp, os) \<Rightarrow>
           case recv_file_body c temp (fi_size info) os of (result, _, c, os) \<Rightarrow>
             let sv = sv_set_files (sv_store sv) os sv in
             if result = T_ConnectionLost then (Inr False, c, sv)
             else if result \<noteq> T_Ok then
               (case send_error c ''the upload was not completed'' of (r, c) \<Rightarrow> (r, c, sv))
             else if \<not> is_valid_path (fi_name info) then
               (case send_error c ''invalid file name'' of
                  (r, c) \<Rightarrow> (r, c, sv_set_files (sv_store sv) (snd (remove_file temp (sv_os sv))) sv))
             else store_upload user token origin info temp c sv))"

definition handle_download ::
  "string \<Rightarrow> string \<Rightarrow> 'c conn \<Rightarrow> ('p, 'q) server \<Rightarrow> (protocol_error + bool) \<times> 'c conn" where
  "handle_download user body c sv =
     (case r_str (new_reader body) of
        Inl e \<Rightarrow> (Inl e, c)
      | Inr (path, r) \<Rightarrow>
          if \<not> is_valid_path path then send_error c ''invalid file name''
          else case send_file c Msg_File [] path (file_path (sv_store sv) user path) (sv_os sv) of
            (Inl e, c) \<Rightarrow> (Inl e, c)
          | (Inr (result, _), c) \<Rightarrow>
              if result = T_NotSent then send_error c ''no such file on the server''
              else (Inr (result \<noteq> T_ConnectionLost), c))"

definition handle_delete ::
  "string \<Rightarrow> string \<Rightarrow> string \<Rightarrow> 'c conn \<Rightarrow> ('p, 'q) server \<Rightarrow>
     (protocol_error + bool) \<times> 'c conn \<times> ('p, 'q) server" where
  "handle_delete user token body c sv =
     (case ebind (r_u8 (new_reader body)) (\<lambda>(origin, r).
             ebind (r_str r) (\<lambda>(path, r). Inr (origin, path))) of
        Inl e \<Rightarrow> (Inl e, c, sv)
      | Inr (origin, path) \<Rightarrow>
          if \<not> is_valid_path path then
            (case send_error c ''invalid file name'' of (r, c) \<Rightarrow> (r, c, sv))
          else
            case store_remove (sv_store sv) user path (sv_os sv) of (existed, st, os) \<Rightarrow>
              let sv = sv_set_files st os sv in
              if \<not> existed then
                (case send_error c ''no such file on the server'' of (r, c) \<Rightarrow> (r, c, sv))
              else
                (case sv_on_cluster (replicate_delete user path) sv of
                   (Inl e, sv) \<Rightarrow> (Inl e, c, sv)
                 | (Inr _, sv) \<Rightarrow>
                     reply_and_push c sv (push_delete user path (push_except origin token))))"

definition handle_request ::
  "string \<Rightarrow> string \<Rightarrow> message \<Rightarrow> 'c conn \<Rightarrow> ('p, 'q) server \<Rightarrow>
     (protocol_error + bool) \<times> 'c conn \<times> ('p, 'q) server" where
  "handle_request user token m c sv =
     (if mtype m = Msg_Ping then (case conn_send c Msg_Pong [] of (ok, c) \<Rightarrow> (Inr ok, c, sv))
      else if mtype m = Msg_Logout then (Inr False, snd (conn_send c Msg_Ok []), sv)
      else if mtype m = Msg_ListFiles then handle_list user c sv
      else if mtype m = Msg_Upload then handle_upload user token (payload m) c sv
      else if mtype m = Msg_Download then
        (case handle_download user (payload m) c sv of (r, c) \<Rightarrow> (r, c, sv))
      else if mtype m = Msg_Delete then handle_delete user token (payload m) c sv
      else (case send_error c (''unexpected '' @ msg_name (mtype m)) of
              (r, c) \<Rightarrow> (map_sum id (\<lambda>_. False) r, c, sv)))"

section \<open>A session\<close>

text \<open>One turn of the loop of \<open>serve_client\<close>: whether the session goes on.\<close>

definition serve_request ::
  "string \<Rightarrow> string \<Rightarrow> 'c conn \<Rightarrow> ('p, 'q) server \<Rightarrow> bool \<times> 'c conn \<times> ('p, 'q) server" where
  "serve_request user token c sv =
     (case conn_recv c of
        (Received m, c) \<Rightarrow>
          if \<not> is_primary (sv_cluster sv)
          then (False, snd (send_error c ''this server is no longer the primary''), sv)
          else (case handle_request user token m c sv of
                  (Inr ok, c, sv) \<Rightarrow> (ok, c, sv)
                | (Inl e, c, sv) \<Rightarrow> (False, c, sv))
      | (_, c) \<Rightarrow> (False, c, sv))"

fun serve_requests ::
  "string \<Rightarrow> string \<Rightarrow> (('p, 'q) server \<Rightarrow> ('p, 'q) server) list \<Rightarrow> 'c conn \<Rightarrow> ('p, 'q) server \<Rightarrow>
     bool \<times> 'c conn \<times> ('p, 'q) server" where
  "serve_requests user token [] c sv = (True, c, sv)"
| "serve_requests user token (others # env) c sv =
     (case serve_request user token c (others sv) of
        (True, c, sv) \<Rightarrow> serve_requests user token env c sv
      | (False, c, sv) \<Rightarrow> (False, c, sv))"

text \<open>The end of a session: both of its connections are shut down.\<close>

definition close_session ::
  "string \<Rightarrow> 'c conn \<Rightarrow> ('p, 'q) server \<Rightarrow> 'c conn \<times> ('p, 'q) server" where
  "close_session token c sv =
     (case session_close token (sv_sessions sv) of (conns, ss) \<Rightarrow>
        (if conns = [] then c else conn_shutdown c,
         sv\<lparr>sv_sessions := ss,
            sv_syncs := fold (\<lambda>i syncs. syncs(i := conn_shutdown (syncs i))) (tl conns) (sv_syncs sv)\<rparr>))"

text \<open>
  \<open>serve_client\<close> on the connection numbered \<open>cid\<close>. The result says whether the session is
  still open when the given turns are over.
\<close>

definition refuse :: "'c conn \<Rightarrow> string \<Rightarrow> ('p, 'q) server \<Rightarrow> (protocol_error + bool) \<times> 'c conn \<times> ('p, 'q) server" where
  "refuse c reason sv = (case send_error c reason of (r, c) \<Rightarrow> (map_sum id (\<lambda>_. False) r, c, sv))"

definition start_session ::
  "string \<Rightarrow> conn_id \<Rightarrow> u8 list option \<Rightarrow> (('p, 'q) server \<Rightarrow> ('p, 'q) server) list \<Rightarrow> 'c conn \<Rightarrow>
     ('p, 'q) server \<Rightarrow> (protocol_error + bool) \<times> 'c conn \<times> ('p, 'q) server" where
  "start_session user cid random env c sv =
     (case session_open user cid random (sv_sessions sv) of (token, ss) \<Rightarrow>
        if token = [] then
          refuse c (''this user already has '' @ to_dec MAX_SESSIONS_PER_USER @ '' active sessions'') sv
        else
          let sv = sv\<lparr>sv_sessions := ss\<rparr> in
          case ebind (w_str token []) (write_servers (nd_members (sv_cluster sv))) of
            Inl e \<Rightarrow> (Inl e, c, sv)
          | Inr body \<Rightarrow>
              (case conn_send c Msg_LoginOk body of
                 (False, c) \<Rightarrow> (case close_session token c sv of (c, sv) \<Rightarrow> (Inr False, c, sv))
               | (True, c) \<Rightarrow>
                   (case serve_requests user token env c sv of
                      (True, c, sv) \<Rightarrow> (Inr True, c, sv)
                    | (False, c, sv) \<Rightarrow> (case close_session token c sv of (c, sv) \<Rightarrow> (Inr False, c, sv)))))"

definition serve_client ::
  "kdf \<Rightarrow> string option \<Rightarrow> u8 list option \<Rightarrow> (('p, 'q) server \<Rightarrow> ('p, 'q) server) list \<Rightarrow> conn_id \<Rightarrow>
     string \<Rightarrow> 'c conn \<Rightarrow> ('p, 'q) server \<Rightarrow> (protocol_error + bool) \<times> 'c conn \<times> ('p, 'q) server" where
  "serve_client derive salt random env cid body c sv =
     (case ebind (r_str (new_reader body)) (\<lambda>(user, r).
             ebind (r_str r) (\<lambda>(password, r). Inr (user, password))) of
        Inl e \<Rightarrow> (Inl e, c, sv)
      | Inr (user, password) \<Rightarrow>
          if \<not> is_primary (sv_cluster sv) then
            (case send_redirect c sv of (r, c) \<Rightarrow> (map_sum id (\<lambda>_. False) r, c, sv))
          else if \<not> is_valid_username user then
            refuse c (''invalid username (use letters, digits, '' @ [CHR 0x27] @ ''_'' @ [CHR 0x27] @ '' or '' @
              [CHR 0x27] @ ''-'' @ [CHR 0x27] @ '', up to 32 characters)'') sv
          else if length password < MIN_PASSWORD_LENGTH \<or> length password > MAX_PASSWORD_LENGTH then
            refuse c (''passwords must have between '' @ to_dec MIN_PASSWORD_LENGTH @ '' and '' @
              to_dec MAX_PASSWORD_LENGTH @ '' characters'') sv
          else
            case authenticate derive salt user password c sv of
              (Inl e, c, sv) \<Rightarrow> (Inl e, c, sv)
            | (Inr False, c, sv) \<Rightarrow> (Inr False, c, sv)
            | (Inr True, c, sv) \<Rightarrow>
                (case ensure_user (sv_store sv) user (sv_os sv) of (ok, os) \<Rightarrow>
                 let sv = sv_set_files (sv_store sv) os sv in
                 if \<not> ok then refuse c (''the server could not create the user'' @ [CHR 0x27] @ ''s directory'') sv
                 else start_session user cid random env c sv))"

section \<open>The sync connection\<close>

text \<open>The loop that splits the report of the health monitor into notices.\<close>

function problem_lines :: "string \<Rightarrow> nat \<Rightarrow> string list" where
  "problem_lines problems start =
     (if start < length problems then
        let end_pos = (case find_char newline problems start of None \<Rightarrow> length problems | Some i \<Rightarrow> i)
        in substr problems start (end_pos - start) # problem_lines problems (Suc end_pos)
      else [])"
  by pat_completeness auto

termination
  by (relation "measure (\<lambda>(problems, start). length problems - start)")
     (auto split: option.splits dest!: find_char_bounds)

declare problem_lines.simps [simp del]

fun send_notices :: "string list \<Rightarrow> 'q conn \<Rightarrow> (protocol_error + unit) \<times> 'q conn" where
  "send_notices [] c = (Inr (), c)"
| "send_notices (l # ls) c =
     (case w_str l [] of
        Inl e \<Rightarrow> (Inl e, c)
      | Inr body \<Rightarrow> send_notices ls (snd (conn_send c Msg_Notice body)))"

text \<open>
  \<open>serve_sync\<close> up to its waiting loop: the result says whether the connection, numbered \<open>cid\<close>,
  is attached to a session now. \<open>end_sync\<close> is what follows when it has closed.
\<close>

definition serve_sync ::
  "conn_id \<Rightarrow> string \<Rightarrow> 'q conn \<Rightarrow> ('p, 'q) server \<Rightarrow> (protocol_error + bool) \<times> 'q conn \<times> ('p, 'q) server" where
  "serve_sync cid body c sv =
     (case r_str (new_reader body) of
        Inl e \<Rightarrow> (Inl e, c, sv)
      | Inr (token, r) \<Rightarrow>
          (case (if is_primary (sv_cluster sv) then attach_sync token cid (sv_sessions sv)
                 else (False, sv_sessions sv)) of
             (False, _) \<Rightarrow> (case send_error c ''unknown session'' of (r, c) \<Rightarrow> (map_sum id (\<lambda>_. False) r, c, sv))
           | (True, ss) \<Rightarrow>
               (case send_notices (problem_lines (sv_problems sv) 0) (snd (conn_send c Msg_Ok [])) of
                  (r, c) \<Rightarrow> (map_sum id (\<lambda>_. True) r, c,
                             sv\<lparr>sv_sessions := ss, sv_syncs := (sv_syncs sv)(cid := c)\<rparr>))))"

definition end_sync :: "string \<Rightarrow> conn_id \<Rightarrow> ('p, 'q) server \<Rightarrow> ('p, 'q) server" where
  "end_sync token cid sv = sv\<lparr>sv_sessions := detach_sync token cid (sv_sessions sv)\<rparr>"

section \<open>Connections\<close>

definition is_cluster_message :: "msg \<Rightarrow> bool" where
  "is_cluster_message ty \<longleftrightarrow>
     ty = Msg_Join \<or> ty = Msg_Election \<or> ty = Msg_Coordinator \<or> ty = Msg_ReplicaAttach \<or> ty = Msg_StatusRequest"

text \<open>
  What the operations on one connection take from outside: \<open>connect_to\<close>, the clock, OpenSSL's
  key derivation and random bytes, and the steps of the other threads.
\<close>

record ('p, 'q) world =
  wd_connect :: "'p connector"
  wd_time :: int
  wd_derive :: kdf
  wd_salt :: "string option"
  wd_random :: "u8 list option"
  wd_others :: "(('p, 'q) server \<Rightarrow> ('p, 'q) server) list"
  wd_replica :: "(int \<times> ('p cluster \<Rightarrow> 'p cluster)) list"

definition on_cluster3 ::
  "(protocol_error + 'r) \<times> 'c conn \<times> 'p cluster \<Rightarrow> ('p, 'q) server \<Rightarrow> 'c conn \<times> ('p, 'q) server" where
  "on_cluster3 res sv = (case res of (_, c, cl) \<Rightarrow> (c, tell_clients (sv\<lparr>sv_cluster := cl\<rparr>)))"

text \<open>\<open>handle_connection\<close> after the TLS handshake; a \<open>ProtocolError\<close> only ends it.\<close>

definition handle_connection ::
  "('p, 'q) world \<Rightarrow> conn_id \<Rightarrow> 'q conn \<Rightarrow> ('p, 'q) server \<Rightarrow> 'q conn \<times> ('p, 'q) server" where
  "handle_connection w cid c sv =
     (case conn_recv c of
        (Received first, c) \<Rightarrow>
          (let ty = mtype first; body = payload first; cl = sv_cluster sv in
           if is_cluster_message ty \<and> \<not> peer_is_server c then
             (snd (send_error c ''a server certificate is required''), sv)
           else if ty = Msg_Login then
             snd (serve_client (wd_derive w) (wd_salt w) (wd_random w) (wd_others w) cid body c sv)
           else if ty = Msg_SyncAttach then snd (serve_sync cid body c sv)
           else if ty = Msg_Join then on_cluster3 (handle_join (wd_connect w) c body cl) sv
           else if ty = Msg_Election then on_cluster3 (handle_election c body cl) sv
           else if ty = Msg_Coordinator then on_cluster3 (handle_coordinator (wd_time w) c body cl) sv
           else if ty = Msg_ReplicaAttach then
             on_cluster3 (handle_replica_attach cid (wd_time w) (wd_replica w) c body cl) sv
           else if ty = Msg_StatusRequest then (snd (handle_status c cl), sv)
           else (snd (send_error c ''unexpected message''), sv))
      | (_, c) \<Rightarrow> (c, sv))"

end
