(* ===== verification/Samples.thy ===== *)
theory Samples
  imports Cluster "HOL-Library.Code_Target_Numeral"
begin

text \<open>
  Small concrete servers, at which the properties of replication and of the cluster are
  evaluated: a data directory \<open>r\<close> with the directories that \<open>Storage::init\<close> creates, and the
  given entries below it; a primary with one file; a backup with another one.
\<close>

section \<open>Code equations for evaluating words\<close>

definition pow2 :: "nat \<Rightarrow> int" where
  "pow2 n = (if n = 64 then 18446744073709551616 else if n = 32 then 4294967296
     else if n = 16 then 65536 else if n = 8 then 256 else 2 ^ n)"

lemma pow2_eq: "pow2 n = 2 ^ n"
  by (simp add: pow2_def)

lemma word_push_code [code]:
  "push_bit n (w :: 'a::len word) = word_of_int (uint w * pow2 n)"
  by (metis pow2_eq push_bit_eq_mult push_bit_of_int word_of_int_uint)

lemma int_take_code [code]:
  "take_bit n (k :: int) = (let m = pow2 n in if 0 \<le> k \<and> k < m then k else k mod m)"
  by (simp add: pow2_eq take_bit_eq_mod Let_def)

section \<open>Servers\<close>

definition data_dir :: "(fpath \<times> Posix.node) list \<Rightarrow> os" where
  "data_dir entries =
     \<lparr>tree = [([''r''], N_dir), ([''r'', ''accounts''], N_dir), ([''r'', ''tmp''], N_dir), ([''r'', ''users''], N_dir)] @ entries,
      file_limit = None, cut_at = None, now = 0, rnd = \<lambda>_. 0, rnd_pos = 0\<rparr>"

definition user_u :: "string \<Rightarrow> string \<Rightarrow> (fpath \<times> Posix.node) list" where
  "user_u name content = [([''r'', ''users'', ''u''], N_dir), ([''r'', ''users'', ''u'', name], N_file content 3)]"

definition server_no :: "u32 \<Rightarrow> server_address" where
  "server_no i = \<lparr>sa_id = i, sa_host = ''h'', sa_port = ucast i\<rparr>"

definition primary_node :: node where
  "primary_node = \<lparr>nd_self = server_no 1000, nd_members = [server_no 1000, server_no 999],
     nd_store = new_store ''r'', nd_os = data_dir (user_u ''f'' ''x'')\<rparr>"

definition backup_node :: node where
  "backup_node = \<lparr>nd_self = server_no 999, nd_members = [server_no 1000, server_no 999],
     nd_store = new_store ''r'', nd_os = data_dir (user_u ''f'' ''x'' @ [([''r'', ''users'', ''u'', ''g''], N_file ''y'' 4)])\<rparr>"

definition new_link :: "link_phase \<Rightarrow> (node \<times> link_phase) conn" where
  "new_link phase = \<lparr>peer_state = (backup_node, phase), respond = replica_respond, outq = [], inq = [],
     sends_left = None, is_open = True, peer_is_server = True\<rparr>"

lemma data_dir_ok:
  "wf_os (data_dir (user_u ''f'' ''x''))" "wf_os (data_dir (user_u ''f'' ''x'' @ [([''r'', ''users'', ''u'', ''g''], N_file ''y'' 4)]))"
  "cut_at (data_dir entries) = None"
  by (code_simp, code_simp, simp add: data_dir_def)

lemma sample_nodes_ok: "node_ok primary_node" "node_ok backup_node"
  by (simp_all add: node_ok_def primary_node_def backup_node_def store_ok_new data_dir_ok)

lemma new_link_fresh: "fresh_link (new_link Fresh) backup_node"
  using sample_nodes_ok(2)
  by (simp add: fresh_link_def new_link_def live_def) (simp add: backup_node_def data_dir_ok)

lemma new_link_linked: "linked (new_link Attached) backup_node"
  using sample_nodes_ok(2) by (simp add: linked_def new_link_def live_def)

lemma sample_attach: "fst (attach_on (new_link Fresh) primary_node) = Inr True"
  by code_simp

lemma sample_put:
  "fst (put_on_link (new_link Attached) (new_store ''r'') (data_dir (user_u ''f'' ''x'')) ''u'' ''f'') = Inr True"
  by code_simp

lemma sample_file:
  "user_files (new_store ''r'') (data_dir (user_u ''f'' ''x'')) (''u'', ''f'') = Some (''x'', 3)"
  by code_simp

lemma sample_small: "small ''x''" "small_files (data_dir (user_u ''f'' ''x''))"
  by (simp_all add: small_files_def data_dir_def user_u_def)

text \<open>The primary with the backup on its link, and the backup before it becomes one.\<close>

definition primary_cluster :: "(node \<times> link_phase) cluster" where
  "primary_cluster =
     \<lparr>nd_self = server_no 1000, nd_members = [server_no 1000, server_no 999],
      nd_store = new_store ''r'', nd_os = data_dir (user_u ''f'' ''x''),
      cl_role = Primary, cl_primary = server_no 1000, cl_primary_known = True, cl_lowest = 999,
      cl_links = [(999, \<lparr>lk_member = server_no 999, lk_conn = new_link Attached\<rparr>)], cl_primary_link = None,
      cl_last_heard = 0, cl_building = False, cl_coordinator_seen = False, cl_electing = False,
      cl_reassure = [], cl_notified = []\<rparr>"

definition backup_cluster :: "(node \<times> link_phase) cluster" where
  "backup_cluster = primary_cluster\<lparr>nd_self := server_no 999, cl_role := Backup, cl_links := []\<rparr>"

lemma primary_cluster_links:
  "keyed (cl_links primary_cluster)" "links_all backup_link {} (cl_links primary_cluster)"
  using new_link_linked
  by (auto simp: primary_cluster_def keyed_def omap_wf_def server_no_def links_all_def backup_link_def)

lemma sample_replicate: "fst (replicate_put ''u'' ''f'' primary_cluster) = Inr ()"
proof -
  obtain c where "put_on_link (new_link Attached) (new_store ''r'') (data_dir (user_u ''f'' ''x'')) ''u'' ''f'' = (Inr True, c)"
    using sample_put by (metis prod.collapse)
  then show ?thesis
    by (simp add: replicate_put_def replicate_change_def primary_cluster_def drop_links.simps)
qed

text \<open>A network in which no connection can be opened.\<close>

definition unreachable :: "(node \<times> link_phase) connector" where
  "unreachable = (\<lambda>_. None)"

end
