(* ===== verification/Cluster_Properties.thy ===== *)
theory Cluster_Properties
  imports Samples
begin

text \<open>
  What replication and elections guarantee: a backup that has been brought up to date has the
  files and accounts of its primary, an acknowledged change is on every link that is left, the
  ids of the members keep the order that elections rely on, and who wins an election.
\<close>

section \<open>Replication\<close>

text \<open>
  C8. When \<open>attach_replica\<close> succeeds, the backup has exactly the files of the primary, up to
  what the manifest can tell apart (size and content hash), has all of the primary's accounts,
  and the link is ready for the next change; the primary's own files are unchanged.
\<close>

theorem attach_brings_up_to_date:
  assumes "node_ok nd" "cut_at (nd_os nd) = None" "small_files (nd_os nd)"
    and "fresh_link c nb" "fst (attach_on c nd) = Inr True"
  shows "(\<exists>nb'. linked (fst (snd (attach_on c nd))) nb' \<and>
      (\<forall>k. same_content (files_of nd k) (files_of nb' k)) \<and> accs_of nb' = accs_of nb ++ accs_of nd) \<and>
    files_of (snd (snd (attach_on c nd))) = files_of nd"
proof -
  obtain c' nd' where a: "attach_on c nd = (Inr True, c', nd')" using assms(5) by (metis prod.collapse)
  from attach_on_converges [OF assms(1-4) a] show ?thesis by (simp add: a)
qed

theorem attach_brings_up_to_date_witness:
  "(\<exists>nb'. linked (fst (snd (attach_on (new_link Fresh) primary_node))) nb' \<and>
      (\<forall>k. same_content (files_of primary_node k) (files_of nb' k)) \<and>
      accs_of nb' = accs_of backup_node ++ accs_of primary_node) \<and>
    files_of (snd (snd (attach_on (new_link Fresh) primary_node))) = files_of primary_node"
  by (rule attach_brings_up_to_date [OF sample_nodes_ok(1) _ _ new_link_fresh sample_attach])
    (use sample_small in \<open>simp_all add: primary_node_def data_dir_ok\<close>)

text \<open>
  A replicated upload is on every backup: when \<open>replicate_put\<close> returns, each link that has
  not been dropped leads to a backup that holds the file with the primary's contents.
\<close>

theorem put_reaches_every_backup:
  assumes "keyed (cl_links cl)" "links_all backup_link {} (cl_links cl)"
    and "user_files (nd_store cl) (nd_os cl) (u, p) = Some (bs, m)" "cut_at (nd_os cl) = None" "small bs"
    and "fst (replicate_put u p cl) = Inr ()"
  shows "keyed (cl_links (snd (replicate_put u p cl))) \<and>
    links_all (backup_has (u, p) (Some bs)) {} (cl_links (snd (replicate_put u p cl)))"
  using replicated_change.replicate_change_done [OF put_change [OF assms(3-5)] assms(1,2)] assms(6)
  unfolding replicate_put_def by (metis prod.collapse)

theorem put_reaches_every_backup_witness:
  "keyed (cl_links (snd (replicate_put ''u'' ''f'' primary_cluster))) \<and>
    links_all (backup_has (''u'', ''f'') (Some ''x'')) {} (cl_links (snd (replicate_put ''u'' ''f'' primary_cluster)))"
  by (rule put_reaches_every_backup [where m = 3, OF primary_cluster_links])
    (simp_all add: sample_file sample_small sample_replicate, simp_all add: primary_cluster_def data_dir_ok sample_file)

text \<open>
  A replicated deletion is on every backup: when \<open>replicate_delete\<close> returns, no backup whose
  link has been kept still has the file.
\<close>

theorem delete_reaches_every_backup:
  assumes "keyed (cl_links cl)" "links_all backup_link {} (cl_links cl)"
    and "is_valid_username u" "is_valid_path p" "fst (replicate_delete u p cl) = Inr ()"
  shows "keyed (cl_links (snd (replicate_delete u p cl))) \<and>
    links_all (backup_has (u, p) None) {} (cl_links (snd (replicate_delete u p cl)))"
proof -
  have "links_all (\<lambda>c. backup_link c \<and> is_valid_username u \<and> is_valid_path p) {} (cl_links cl)"
    using assms(2-4) by (simp add: links_all_def)
  from deletion.replicate_change_done [OF assms(1) this] assms(5) show ?thesis
    unfolding replicate_delete_def by (metis prod.collapse)
qed

theorem delete_reaches_every_backup_witness:
  "keyed (cl_links (snd (replicate_delete ''u'' ''g'' primary_cluster))) \<and>
    links_all (backup_has (''u'', ''g'') None) {} (cl_links (snd (replicate_delete ''u'' ''g'' primary_cluster)))"
  by (rule delete_reaches_every_backup [OF primary_cluster_links]; code_simp)

text \<open>
  A replicated account is on every backup: when \<open>replicate_account\<close> returns, each backup
  whose link has been kept has the record, so a failover does not lose the account.
\<close>

theorem account_reaches_every_backup:
  assumes "keyed (cl_links cl)" "links_all backup_link {} (cl_links cl)"
    and "is_valid_username u" "is_valid_record rec" "fst (replicate_account u rec cl) = Inr ()"
  shows "keyed (cl_links (snd (replicate_account u rec cl))) \<and>
    links_all (backup_account u rec) {} (cl_links (snd (replicate_account u rec cl)))"
proof -
  have "links_all (\<lambda>c. backup_link c \<and> is_valid_username u \<and> is_valid_record rec) {} (cl_links cl)"
    using assms(2-4) by (simp add: links_all_def)
  from account.replicate_change_done [OF assms(1) this] assms(5) show ?thesis
    unfolding replicate_account_def by (metis prod.collapse)
qed

theorem account_reaches_every_backup_witness:
  "keyed (cl_links (snd (replicate_account ''u'' (''pbkdf2-sha256$1$00$'' @ replicate 64 CHR ''a'') primary_cluster))) \<and>
    links_all (backup_account ''u'' (''pbkdf2-sha256$1$00$'' @ replicate 64 CHR ''a'')) {}
      (cl_links (snd (replicate_account ''u'' (''pbkdf2-sha256$1$00$'' @ replicate 64 CHR ''a'') primary_cluster)))"
  by (rule account_reaches_every_backup [OF primary_cluster_links]; code_simp)

section \<open>Ids\<close>


section \<open>Elections\<close>

definition answers_election :: "'p connector \<Rightarrow> server_address \<Rightarrow> server_address \<Rightarrow> bool" where
  "answers_election connect me m =
     (case connect m of
        None \<Rightarrow> False
      | Some c \<Rightarrow> (case write_server me [] of
                     Inl e \<Rightarrow> False
                   | Inr body \<Rightarrow> call_ok (fst (call c Msg_Election body Msg_Ok))))"

lemma ask_higher_iff:
  "ask_higher connect me ms = Inr alive \<Longrightarrow> alive = (\<exists>m \<in> set ms. answers_election connect me m)"
proof (induction ms arbitrary: alive)
  case (Cons m ms)
  then show ?case
    by (cases "connect m"; cases "write_server me []"; cases "ask_higher connect me ms")
      (auto simp: answers_election_def)
qed simp

lemma attach_all_ids: "same_ids cl (snd (attach_all connect ms cl))"
proof (induction connect ms cl rule: attach_all.induct)
  case (2 connect m ms cl)
  obtain r cl1 where a: "cl_attach connect m cl = (r, cl1)" by fastforce
  have s1: "same_ids cl cl1" using cl_attach_ids [of cl connect m] a by simp
  show ?case
  proof (cases r)
    case (Inr ok)
    have "same_ids cl (if ok then cl1 else remove_member (sa_id m) cl1)"
      using s1 same_ids_trans [OF s1 same_ids_remove] by simp
    from same_ids_trans [OF this "2.IH" [OF a [symmetric] Inr]] a Inr show ?thesis by simp
  qed (use a s1 in simp)
qed simp

lemma become_primary_ids: "same_ids (take_over cl) (snd (become_primary connect cl))"
proof -
  let ?cl = "take_over cl"
  let ?others = "filter (\<lambda>m. sa_id m \<noteq> sa_id (nd_self ?cl)) (nd_members ?cl)"
  obtain r cl1 where a: "attach_all connect ?others ?cl = (r, cl1)" by fastforce
  have s1: "same_ids ?cl cl1" using attach_all_ids [of ?cl connect ?others] a by simp
  from same_ids_trans [OF s1 broadcast_ids] s1 a show ?thesis
    by (auto simp: become_primary_def Let_def split: sum.split)
qed

lemma take_over_facts:
  "cl_role (take_over cl) = Primary" "cl_primary (take_over cl) = nd_self cl" "cl_primary_known (take_over cl)"
  "nd_self (take_over cl) = nd_self cl" "set (nd_members (take_over cl)) \<subseteq> set (nd_members cl)"
  "cl_links (take_over cl) = cl_links cl"
  by (auto simp: take_over_def Let_def)

lemma election_round_cases:
  assumes "election_round connect cl = (Inr Elected, cl')"
  shows "cl_role cl \<noteq> Primary"
    "\<forall>m \<in> set (nd_members cl). sa_id (nd_self cl) < sa_id m \<longrightarrow> \<not> answers_election connect (nd_self cl) m"
    "cl_role cl' = Primary \<and> cl_primary cl' = nd_self cl \<and> cl_primary_known cl' \<and> nd_self cl' = nd_self cl \<and>
     set (nd_members cl') \<subseteq> set (nd_members cl)"
proof -
  show role: "cl_role cl \<noteq> Primary" using assms by (auto simp: election_round_def)
  let ?cl = "cl\<lparr>cl_primary_known := False, cl_coordinator_seen := False\<rparr>"
  let ?higher = "filter (\<lambda>m. sa_id (nd_self cl) < sa_id m) (nd_members cl)"
  have ask: "ask_higher connect (nd_self cl) ?higher = Inr False"
    and bec: "snd (become_primary connect ?cl) = cl'"
    using assms role by (auto simp: election_round_def Let_def split: sum.splits bool.splits prod.splits)
  from ask_higher_iff [OF ask]
  show "\<forall>m \<in> set (nd_members cl). sa_id (nd_self cl) < sa_id m \<longrightarrow> \<not> answers_election connect (nd_self cl) m"
    by auto
  have "same_ids (take_over ?cl) cl'" using become_primary_ids [of ?cl connect] bec by simp
  with take_over_facts [of ?cl]
  show "cl_role cl' = Primary \<and> cl_primary cl' = nd_self cl \<and> cl_primary_known cl' \<and> nd_self cl' = nd_self cl \<and>
     set (nd_members cl') \<subseteq> set (nd_members cl)"
    by (auto simp: same_ids_def)
qed

text \<open>
  C20. An election is only won unchallenged: a server that becomes the primary was not the
  primary, no member with a higher id has answered its election message, and afterwards it is
  the primary it announces, under the id it had.
\<close>

theorem elected_unchallenged:
  assumes "fst (election_round connect cl) = Inr Elected"
  shows "cl_role cl \<noteq> Primary \<and> cl_role (snd (election_round connect cl)) = Primary \<and>
    primary_address (snd (election_round connect cl)) = Some (nd_self cl) \<and>
    filter (\<lambda>m. sa_id (nd_self cl) < sa_id m \<and> answers_election connect (nd_self cl) m) (nd_members cl) = []"
proof -
  obtain cl' where e: "election_round connect cl = (Inr Elected, cl')" using assms by (metis prod.collapse)
  from election_round_cases [OF e] show ?thesis by (auto simp: e primary_address_def filter_empty_conv)
qed

theorem elected_unchallenged_witness:
  "cl_role backup_cluster \<noteq> Primary \<and> cl_role (snd (election_round unreachable backup_cluster)) = Primary \<and>
    primary_address (snd (election_round unreachable backup_cluster)) = Some (nd_self backup_cluster) \<and>
    filter (\<lambda>m. sa_id (nd_self backup_cluster) < sa_id m \<and>
      answers_election unreachable (nd_self backup_cluster) m) (nd_members backup_cluster) = []"
  by (rule elected_unchallenged) code_simp

text \<open>An election of a server that reaches nobody.\<close>

lemma ask_higher_alone: "ask_higher (\<lambda>_. None) me ms = Inr False"
  by (induction ms) simp_all

lemma announce_all_alone: "announce_all (\<lambda>_. None) me ms = Inr ()"
  by (induction ms) (simp_all add: announce_to_def)

lemma attach_all_alone:
  "fst (attach_all (\<lambda>_. None) ms cl) = Inr () \<and> cl_links (snd (attach_all (\<lambda>_. None) ms cl)) = cl_links cl \<and>
   nd_members (snd (attach_all (\<lambda>_. None) ms cl)) = filter (\<lambda>m. sa_id m \<notin> sa_id ` set ms) (nd_members cl)"
proof (induction ms arbitrary: cl)
  case (Cons m ms)
  have "cl_attach (\<lambda>_. None) m cl = (Inr False, cl\<lparr>nd_store := snd (local_files (nd_store cl) (nd_os cl))\<rparr>)"
    by (simp add: cl_attach_def attach_replica_def)
  with Cons [of "remove_member (sa_id m) (cl\<lparr>nd_store := snd (local_files (nd_store cl) (nd_os cl))\<rparr>)"]
  show ?case by (auto simp: remove_member_def intro: filter_cong)
qed simp

lemma elected_alone:
  assumes "cl_role cl \<noteq> Primary" "cl_links cl = []"
    and "servers_ok (nd_members cl)"
  shows "fst (election_round (\<lambda>_. None) cl) = Inr Elected"
    and "\<forall>m \<in> set (nd_members (snd (election_round (\<lambda>_. None) cl))). sa_id m = sa_id (nd_self cl)"
proof -
  let ?cl = "take_over (cl\<lparr>cl_primary_known := False, cl_coordinator_seen := False\<rparr>)"
  let ?others = "filter (\<lambda>m. sa_id m \<noteq> sa_id (nd_self ?cl)) (nd_members ?cl)"
  define cl1 where "cl1 = snd (attach_all (\<lambda>_. None) ?others ?cl)"
  have at: "attach_all (\<lambda>_. None) ?others ?cl = (Inr (), cl1)"
    using attach_all_alone [of ?others ?cl] by (metis cl1_def prod.collapse)
  have self: "nd_self ?cl = nd_self cl" by (simp add: take_over_facts)
  have mem: "set (nd_members cl1) \<subseteq> set (nd_members cl)" "\<forall>m \<in> set (nd_members cl1). sa_id m = sa_id (nd_self cl)"
    "length (nd_members cl1) \<le> length (nd_members ?cl)"
    using attach_all_alone [of ?others ?cl] take_over_facts(5) [of "cl\<lparr>cl_primary_known := False, cl_coordinator_seen := False\<rparr>"] self
    by (auto simp: cl1_def length_filter_le)
  have links: "cl_links cl1 = []" using attach_all_alone [of ?others ?cl] assms(2) by (simp add: cl1_def take_over_facts)
  have "length (nd_members ?cl) \<le> length (nd_members cl)" by (simp add: take_over_def Let_def)
  with mem(1,3) assms(3) have "servers_ok (nd_members cl1)" by (auto simp: servers_ok_def)
  then obtain body where b: "write_servers (nd_members cl1) [] = Inr body" using cservers.wr_enc by blast
  have "broadcast_membership cl1 = (Inr (), notify_membership (cl1\<lparr>cl_links := []\<rparr>))"
    by (simp add: broadcast_membership_def membership_calls_def b links drop_links.simps)
  with at have r: "election_round (\<lambda>_. None) cl = (Inr Elected, notify_membership (cl1\<lparr>cl_links := []\<rparr>))"
    using assms(1) by (simp add: election_round_def become_primary_def ask_higher_alone announce_all_alone self)
  from r mem(2) show "fst (election_round (\<lambda>_. None) cl) = Inr Elected"
    "\<forall>m \<in> set (nd_members (snd (election_round (\<lambda>_. None) cl))). sa_id m = sa_id (nd_self cl)"
    by (simp_all add: notify_membership_def)
qed

text \<open>
  C21. Failover, also in a partition: a backup that can reach no other server wins its election
  in the first round and is a primary without any other member. It does not matter whether the
  old primary is still running; if it is, there are two primaries from then on.
\<close>

theorem isolated_backup_takes_over:
  assumes "cl_role cl \<noteq> Primary" "cl_links cl = []" "servers_ok (nd_members cl)"
  shows "case election_round (\<lambda>_. None) cl of (r, cl') \<Rightarrow>
    r = Inr Elected \<and> is_primary cl' \<and> primary_address cl' = Some (nd_self cl) \<and>
    set (map sa_id (nd_members cl')) \<subseteq> {sa_id (nd_self cl)}"
proof -
  obtain cl' where e: "election_round (\<lambda>_. None) cl = (Inr Elected, cl')"
    using elected_alone(1) [OF assms] by (metis prod.collapse)
  from election_round_cases(3) [OF e] elected_alone(2) [OF assms] show ?thesis
    by (auto simp: e is_primary_def primary_address_def)
qed

theorem isolated_backup_takes_over_witness:
  "case election_round (\<lambda>_. None) backup_cluster of (r, cl') \<Rightarrow>
    r = Inr Elected \<and> is_primary cl' \<and> primary_address cl' = Some (nd_self backup_cluster) \<and>
    set (map sa_id (nd_members cl')) \<subseteq> {sa_id (nd_self backup_cluster)}"
  by (rule isolated_backup_takes_over)
    (simp_all add: backup_cluster_def primary_cluster_def servers_ok_def server_no_def)

text \<open>
  A coordinator of a lower id is never followed: after any \<open>Coordinator\<close> message a server
  either has the role, the primary and the links it had, or it is a backup that follows a
  leader whose id is at least its own and keeps no links of a primary.
\<close>

theorem coordinator_outranks:
  "case handle_coordinator time c body cl of (r, c', cl') \<Rightarrow>
    (cl_role cl' = cl_role cl \<and> cl_primary cl' = cl_primary cl \<and> cl_links cl' = cl_links cl \<and>
       nd_members cl' = nd_members cl) \<or>
    (cl_role cl' = Backup \<and> sa_id (nd_self cl) \<le> sa_id (cl_primary cl') \<and>
       cl_primary cl' \<in> set (nd_members cl') \<and> cl_links cl' = (if cl_role cl = Primary then [] else cl_links cl))"
proof -
  have leader: "m \<in> set (upsert ms m)" for m ms by (induction ms m rule: upsert.induct) auto
  show ?thesis
  proof (cases "read_server (new_reader body)")
    case (Inr p)
    obtain leader r where p: "p = (leader, r)" by (cases p)
    show ?thesis
      using leader
      by (cases "sa_id leader < sa_id (nd_self cl)") (auto simp: handle_coordinator_def Inr p)
  qed (auto simp: handle_coordinator_def)
qed

end
