(* ===== verification/Server_Properties.thy ===== *)
theory Server_Properties
  imports Server Samples
begin

text \<open>
  What a client can rely on: an acknowledged change is on the server and on every backup, no
  request touches the files of another user, a login needs the password, cluster messages need
  a certificate, and a backup serves no client.
\<close>

section \<open>What the pushes leave alone\<close>

lemma sv_set_files_simps [simp]:
  "sv_cluster (sv_set_files st os sv) = (sv_cluster sv)\<lparr>nd_store := st, nd_os := os\<rparr>"
  "sv_sessions (sv_set_files st os sv) = sv_sessions sv" "sv_syncs (sv_set_files st os sv) = sv_syncs sv"
  by (simp_all add: sv_set_files_def)

lemma push_server_list_rest:
  "sv_cluster (snd (push_server_list l sv)) = sv_cluster sv \<and> sv_sessions (snd (push_server_list l sv)) = sv_sessions sv"
  by (simp add: push_server_list_def push_all_def split: sum.split)

lemma push_server_lists_rest:
  "sv_cluster (fold (\<lambda>l sv. snd (push_server_list l sv)) ls sv) = sv_cluster sv \<and>
   sv_sessions (fold (\<lambda>l sv. snd (push_server_list l sv)) ls sv) = sv_sessions sv"
  by (induction ls arbitrary: sv) (simp_all add: push_server_list_rest)

lemma tell_clients_rest [simp]:
  "sv_cluster (tell_clients sv) = (sv_cluster sv)\<lparr>cl_notified := []\<rparr>"
  "sv_sessions (tell_clients sv) = sv_sessions sv"
  by (simp_all add: tell_clients_def push_server_lists_rest)

lemma push_file_rest [simp]:
  "sv_cluster (snd (push_file u p e sv)) = sv_cluster sv" "sv_sessions (snd (push_file u p e sv)) = sv_sessions sv"
  by (simp_all add: push_file_def split: prod.split)

lemma push_delete_rest [simp]:
  "sv_cluster (snd (push_delete u p e sv)) = sv_cluster sv" "sv_sessions (snd (push_delete u p e sv)) = sv_sessions sv"
  by (simp_all add: push_delete_def split: prod.split sum.split)

lemma replicate_change_same:
  "nd_store (snd (replicate_change f cl)) = nd_store cl" "nd_os (snd (replicate_change f cl)) = nd_os cl"
  using unmoved.replicate_change_stable [of cl f] by (simp_all add: same_server_def)

lemma replicate_same [simp]:
  "nd_store (snd (replicate_put u p cl)) = nd_store cl" "nd_os (snd (replicate_put u p cl)) = nd_os cl"
  "nd_store (snd (replicate_delete u p cl)) = nd_store cl" "nd_os (snd (replicate_delete u p cl)) = nd_os cl"
  "nd_store (snd (replicate_account u r cl)) = nd_store cl" "nd_os (snd (replicate_account u r cl)) = nd_os cl"
  by (simp_all add: replicate_put_def replicate_delete_def replicate_account_def replicate_change_same)

lemma sv_on_cluster_rest:
  "sv_on_cluster f sv = (r, sv') \<Longrightarrow>
     r = fst (f (sv_cluster sv)) \<and> sv_cluster sv' = (snd (f (sv_cluster sv)))\<lparr>cl_notified := []\<rparr> \<and>
     sv_sessions sv' = sv_sessions sv"
  by (auto simp: sv_on_cluster_def split: prod.splits)

section \<open>Receiving into a temporary file\<close>

lemma store_commit_env:
  assumes "wf_os os" "store_commit st u p temp m os = (ok, st', os')"
  shows "same_env os os'"
proof -
  obtain b1 os1 where e: "ensure_user st u os = (b1, os1)" by fastforce
  obtain b2 os2 where mp: "make_parent_dirs (user_dir st u) p os1 = (b2, os2)" by fastforce
  have a1: "adds_dirs os os1" using make_dirs_adds [OF assms(1) e [unfolded ensure_user_def]] .
  then have "adds_dirs os1 os2" using make_parent_dirs_adds [OF _ mp] by (simp add: adds_dirs_def)
  with a1 have env: "same_env os os1" "same_env os os2"
    by (auto simp: adds_dirs_def intro: same_env_trans)
  have env3: "same_env os os'" if "set_mtime t i os = (b, os')" for t i os b os'
    using that same_env_calls(7) [of os t "tdiv (sint i) 1000000000" "tmod (sint i) 1000000000"]
    by (auto simp: set_mtime_def simp del: same_env_calls split: prod.splits)
  have env4: "same_env os os'" if "replace_file f t os = (b, os')" for f t os b os'
    using that same_env_calls(4) [of os f t] by (auto simp: replace_file_def simp del: same_env_calls split: prod.splits)
  obtain b3 os3 where s: "set_mtime temp m os2 = (b3, os3)" by fastforce
  obtain b4 os4 where r: "replace_file temp (file_path st u p) os3 = (b4, os4)" by fastforce
  have "os' \<in> {os1, os2, os4}"
    using assms(2) e mp s r by (auto simp: store_commit_def commit_prepare_def split: prod.splits bool.splits)
  with env env3 [OF s] env4 [OF r] show ?thesis by (auto intro: same_env_trans)
qed

lemma store_remove_env:
  assumes "wf_os os" "store_remove st u p os = (ok, st', os')"
  shows "same_env os os'"
proof -
  obtain e os1 where un: "sys_unlink (file_path st u p) os = (e, os1)" by fastforce
  have env: "same_env os os1" using same_env_calls(3) [of os "file_path st u p"] un by (simp del: same_env_calls)
  show ?thesis
  proof (cases e)
    case None
    have "wf_os os1" using sys_unlink_ok(1) [OF assms(1)] un None by blast
    then have "same_env os1 os'"
      using remove_empty_parents_drops [of os1 "user_dir st u" p] assms(2) un None
      by (simp add: store_remove_def remove_file_def drops_dirs_def)
    with env show ?thesis by (rule same_env_trans)
  qed (use assms(2) un env in \<open>simp add: store_remove_def remove_file_def\<close>)
qed

text \<open>
  A transfer into a fresh temporary file changes no user's file and no account; what has been
  received completely is ready to be committed.
\<close>

lemma receive_temp:
  assumes ok: "store_ok (st, os)" and temp: "new_temp_path st os = (temp, os1)"
    and rb: "recv_file_body c temp n os1 = (res, h, c', os2)"
  shows "store_ok (st, os2)" "user_files st os2 = user_files st os" "temp_ok st temp" "cut_at os2 = cut_at os"
    "res = T_Ok \<Longrightarrow> \<exists>bs t. file_at os2 (resolve temp) = Some (bs, t) \<and>
       (\<forall>m. received (st, os2) (temp, m) = Some (bs, if mtime_exact m then m else mtime_of t))"
    "accounts_of (accounts_dir st) os2 = accounts_of (accounts_dir st) os"
proof -
  have wf: "wf_os os" using ok by (simp add: store_ok_def)
  show tok: "temp_ok st temp" by (rule new_temp_path_ok [OF temp])
  have t0: "temp \<noteq> []" using tok by (simp add: temp_ok_def)
  have os1: "wf_os os1" "os_node os1 = os_node os" "cut_at os1 = cut_at os"
    using temp wf same_env_random [of os] by (auto simp: new_temp_path_def make_temp_path_eq same_env_def)
  note eff = recv_file_body_effect [OF os1(1) t0 rb]
  have frame: "file_at os2 q = file_at os q" if "q \<noteq> resolve temp" for q
    using eff(3) [OF that] os1(2) by (simp add: file_at_def)
  have fr: "file_at os2 (file_node st v q) = file_at os (file_node st v q)" for v q
    using frame [of "file_node st v q"] temp_not_file [OF tok, of v q] by metis
  show "store_ok (st, os2)" "user_files st os2 = user_files st os"
    using store_ok_frame [OF ok eff(1) fr] by simp_all
  show "cut_at os2 = cut_at os" using eff(2) os1(3) by (simp add: same_env_def)
  show "accounts_of (accounts_dir st) os2 = accounts_of (accounts_dir st) os"
    by (rule accounts_of_cong) (use frame accounts_not_temp [OF tok] in simp_all)
  show "\<exists>bs t. file_at os2 (resolve temp) = Some (bs, t) \<and>
       (\<forall>m. received (st, os2) (temp, m) = Some (bs, if mtime_exact m then m else mtime_of t))" if "res = T_Ok"
    using eff(4) [OF that] tok by (auto simp: received_def)
qed

lemma accounts_frame:
  assumes "st_root st' = st_root st"
    and "\<And>v. file_at os' (resolve (st_root st) @ [''accounts'', v]) = file_at os (resolve (st_root st) @ [''accounts'', v])"
  shows "accounts_of (accounts_dir st') os' = accounts_of (accounts_dir st) os"
  by (rule accounts_of_cong) (use assms in simp_all)

text \<open>Removing the temporary file.\<close>

lemma remove_file_env: "same_env os (snd (remove_file p os))"
  using same_env_calls(3) [of os p] by (cases "sys_unlink p os") (simp add: remove_file_def del: same_env_calls)

lemma remove_temp:
  assumes "store_ok (st, os)" "temp_ok st temp"
  shows "store_ok (st, snd (remove_file temp os))"
    "user_files st (snd (remove_file temp os)) = user_files st os"
    "accounts_of (accounts_dir st) (snd (remove_file temp os)) = accounts_of (accounts_dir st) os"
    "cut_at (snd (remove_file temp os)) = cut_at os"
proof -
  obtain e os' where u: "sys_unlink temp os = (e, os')" by fastforce
  have wf: "wf_os os" using assms(1) by (simp add: store_ok_def)
  have un: "wf_os os'" "\<And>q. q \<noteq> resolve temp \<Longrightarrow> file_at os' q = file_at os q"
    using sys_unlink_ok(1,2) [OF wf, of temp os'] sys_unlink_err [of temp os _ os'] u wf
    by (cases e; auto simp: file_at_def)+
  have "file_at os' (file_node st v q) = file_at os (file_node st v q)" for v q
    using un(2) temp_not_file [OF assms(2), of v q] by metis
  from store_ok_frame [OF assms(1) un(1) this] u
  show "store_ok (st, snd (remove_file temp os))" "user_files st (snd (remove_file temp os)) = user_files st os"
    by (simp_all add: remove_file_def)
  have "accounts_of (accounts_dir st) os' = accounts_of (accounts_dir st) os"
    by (rule accounts_frame) (use un(2) accounts_not_temp [OF assms(2)] in simp_all)
  with u show "accounts_of (accounts_dir st) (snd (remove_file temp os)) = accounts_of (accounts_dir st) os"
    by (simp add: remove_file_def)
  show "cut_at (snd (remove_file temp os)) = cut_at os" using remove_file_env [of os temp] by (simp add: same_env_def)
qed

text \<open>A received file that is committed, or not.\<close>

lemma commit_received:
  assumes ok: "store_ok (st, os)" and temp: "temp_ok st temp" and valid: "is_valid_username u" "is_valid_path p"
    and recd: "received (st, os) (temp, m) = Some v" and commit: "store_commit st u p temp m os = (b, st', os')"
  shows "store_ok (st', os')" "st_root st' = st_root st" "cut_at os' = cut_at os"
    "accounts_of (accounts_dir st') os' = accounts_of (accounts_dir st) os" "temp_ok st' temp"
    "user_files st' os' = (if b then (user_files st os)((u, p) \<mapsto> v) else user_files st os)"
proof -
  have wf: "wf_os os" using ok by (simp add: store_ok_def)
  note e = store_commit_effect [OF ok valid recd commit] and f = store_commit_frame [OF wf valid temp commit]
  show "store_ok (st', os')" "st_root st' = st_root st"
    "user_files st' os' = (if b then (user_files st os)((u, p) \<mapsto> v) else user_files st os)" by (fact e)+
  show "temp_ok st' temp" using temp e(2) by (simp add: temp_ok_def)
  show "cut_at os' = cut_at os" using store_commit_env [OF wf commit] by (simp add: same_env_def)
  show "accounts_of (accounts_dir st') os' = accounts_of (accounts_dir st) os"
    by (rule accounts_frame) (use e(2) f(1) accounts_not_temp [OF temp] accounts_not_file in simp_all)
qed

section \<open>Replication does not throw\<close>

lemma each_link_total:
  assumes "\<And>c. \<exists>ok c'. f c = (Inr ok, c')"
  shows "\<exists>failed links'. each_link f links = (Inr failed, links')"
proof (induction links)
  case (Cons e links)
  obtain i l where e: "e = (i, l)" by (cases e)
  obtain ok c' where "f (lk_conn l) = (Inr ok, c')" using assms by blast
  with Cons show ?case by (auto simp: e)
qed simp

lemma membership_calls_total:
  assumes "servers_ok (nd_members cl)"
  shows "\<exists>failed cl'. membership_calls cl = (Inr failed, cl') \<and> nd_members cl' = nd_members cl"
proof -
  have "\<exists>ok c'. call_link Msg_Membership body c = (Inr ok, c')" for body and c :: "'a conn"
    by (simp add: call_link_def split: prod.split)
  from each_link_total [of "call_link Msg_Membership (enc_servers (nd_members cl))", OF this] obtain failed links
    where "each_link (call_link Msg_Membership (enc_servers (nd_members cl))) (cl_links cl) = (Inr failed, links)"
    by blast
  then show ?thesis using cservers.wr_enc [OF assms, of "[]"] by (simp add: membership_calls_def)
qed

lemma drop_links_total:
  "servers_ok (nd_members cl) \<Longrightarrow> \<exists>cl'. drop_links ids cl = (Inr (), cl')"
proof (induction ids cl rule: drop_links.induct)
  case (1 cl)
  show ?case by (simp add: drop_links.simps)
next
  case (2 i ids cl)
  show ?case
  proof (cases "map_of (cl_links cl) i")
    case None
    with "2.IH"(1) [OF None "2.prems"] show ?thesis by (simp add: drop_links.simps)
  next
    case (Some l)
    let ?cl = "remove_member i (cl\<lparr>cl_links := omap_del i (cl_links cl)\<rparr>)"
    have "servers_ok (nd_members ?cl)"
      using "2.prems" le_trans [OF length_filter_le] by (auto simp: servers_ok_def remove_member_def)
    from membership_calls_total [OF this] obtain failed cl1
      where m: "membership_calls ?cl = (Inr failed, cl1)" "nd_members cl1 = nd_members ?cl" by blast
    have "servers_ok (nd_members (notify_membership cl1))"
      using \<open>servers_ok (nd_members ?cl)\<close> m(2) by (simp add: notify_membership_def)
    from "2.IH"(2) [OF Some m(1) [symmetric] refl this] show ?thesis using Some m(1) by (simp add: drop_links.simps)
  qed
qed

lemma replicate_change_total:
  assumes "servers_ok (nd_members cl)" "\<And>c. \<exists>ok c'. f c = (Inr ok, c')"
  shows "fst (replicate_change f cl) = Inr ()"
proof -
  obtain failed links where l: "each_link f (cl_links cl) = (Inr failed, links)"
    using each_link_total [where f = f and links = "cl_links cl"] assms(2) by blast
  have "servers_ok (nd_members (cl\<lparr>cl_links := links\<rparr>))" using assms(1) by simp
  from drop_links_total [OF this, of failed] l show ?thesis by (auto simp: replicate_change_def)
qed

lemma send_file_total:
  "str_ok name \<Longrightarrow> \<exists>x c'. send_file c ty prefix name path os = (Inr x, c')"
  using write_file_header_ok [of "new_file_info\<lparr>fi_name := name, fi_size := n, fi_mtime := t\<rparr>" "[]" for n t]
  by (auto simp: send_file_def Let_def split: option.split prod.split bool.split transfer_result.split)

lemma put_on_link_total:
  assumes "is_valid_username u" "is_valid_path p"
  shows "\<exists>ok c'. put_on_link c st os u p = (Inr ok, c')"
proof -
  have str: "str_ok u" "str_ok p" using valid_name_lengths assms by fastforce+
  obtain x c' where "send_file c Msg_ReplPut (enc_str u) p (file_path st u p) os = (Inr x, c')"
    using send_file_total [OF str(2)] by blast
  with str show ?thesis
    by (cases x) (auto simp: put_on_link_def cstr.wr_enc split: prod.split recv_result.split)
qed

lemma delete_on_link_total:
  assumes "is_valid_username u" "is_valid_path p"
  shows "\<exists>ok c'. delete_on_link c u p = (Inr ok, c')"
proof -
  have str: "str_ok u" "str_ok p" using valid_name_lengths assms by fastforce+
  then show ?thesis by (simp add: delete_on_link_def two_strings_enc split: prod.split)
qed

lemma replicate_put_total:
  "\<lbrakk>servers_ok (nd_members cl); is_valid_username u; is_valid_path p\<rbrakk> \<Longrightarrow> fst (replicate_put u p cl) = Inr ()"
  unfolding replicate_put_def by (rule replicate_change_total) (use put_on_link_total in blast)+

lemma replicate_delete_total:
  "\<lbrakk>servers_ok (nd_members cl); is_valid_username u; is_valid_path p\<rbrakk> \<Longrightarrow> fst (replicate_delete u p cl) = Inr ()"
  unfolding replicate_delete_def by (rule replicate_change_total) (use delete_on_link_total in blast)+

lemma push_each_total:
  assumes "\<And>c. \<exists>ok c'. f c = (Inr ok, c')"
  shows "\<exists>syncs'. push_each f ids syncs = (Inr (), syncs')"
proof (induction ids arbitrary: syncs)
  case (Cons i ids)
  obtain ok c' where "f (syncs i) = (Inr ok, c')" using assms by blast
  with Cons show ?case by simp
qed simp

lemma push_file_total:
  assumes "str_ok path"
  shows "fst (push_file user path except sv) = Inr ()"
proof -
  let ?f = "\<lambda>c. case send_file c Msg_PushFile [] path (file_path (sv_store sv) user path) (sv_os sv) of
      (Inl e, c) \<Rightarrow> (Inl e, c) | (Inr (result, _), c) \<Rightarrow> (Inr (result \<noteq> T_ConnectionLost), c)"
  have "\<exists>ok c'. ?f c = (Inr ok, c')" for c
    using send_file_total [OF assms, of c Msg_PushFile "[]" "file_path (sv_store sv) user path" "sv_os sv"] by fastforce
  from push_each_total [where f = ?f, OF this] obtain syncs
    where "push_each ?f (sync_connections user except (sv_sessions sv)) (sv_syncs sv) = (Inr (), syncs)"
    by blast
  then show ?thesis by (simp add: push_file_def)
qed

lemma push_delete_total:
  assumes "str_ok path"
  shows "fst (push_delete user path except sv) = Inr ()"
proof -
  let ?f = "\<lambda>c. case conn_send c Msg_PushDelete (enc_str path) of (ok, c) \<Rightarrow> (Inr ok, c)"
  have "\<exists>ok c'. ?f c = (Inr ok, c')" for c by (simp split: prod.split)
  from push_each_total [where f = ?f, OF this] obtain syncs
    where "push_each ?f (sync_connections user except (sv_sessions sv)) (sv_syncs sv) = (Inr (), syncs)"
    by blast
  with assms show ?thesis by (simp add: push_delete_def cstr.wr_enc)
qed

section \<open>A body of the announced size\<close>

lemma recv_body_loop_exact:
  "\<lbrakk>is_open c; inq c = map data_msg cs @ end_msg # rest; k + length (concat cs) = N; N < 2 ^ 64;
    recv_body_loop c dest (of_nat N) wok (of_nat k) fnv os = (st, wok', fnv', c', os')\<rbrakk> \<Longrightarrow> st = Body_complete"
proof (induction cs arbitrary: c k wok fnv os)
  case Nil
  then show ?case
    by (subst (asm) recv_body_loop.simps) (auto simp: conn_recv_queued end_msg_def split: if_splits)
next
  case (Cons b cs)
  let ?c = "c\<lparr>inq := map data_msg cs @ end_msg # rest\<rparr>"
  have rv: "conn_recv c = (Received (data_msg b), ?c)"
    using Cons.prems(1,2) by (simp add: conn_recv_queued)
  obtain e os1 where w: "(if wok then sys_write dest b os else (Some EINVAL, os)) = (e, os1)"
    by fastforce
  have room: "\<not> (of_nat N - of_nat k :: u64) < of_nat (length b)"
    using Cons.prems(3,4) by (intro u64_room) auto
  have "recv_body_loop ?c dest (of_nat N) (e = None) (of_nat (k + length b)) (fnv_update fnv b) os1 =
      (st, wok', fnv', c', os')"
    using Cons.prems(5) w room
    by (subst (asm) recv_body_loop.simps) (auto simp: rv data_msg_def split: if_splits)
  from Cons.IH [OF _ _ _ Cons.prems(4) this] Cons.prems(1,3) show ?case by simp
qed

lemma recv_file_body_exact:
  assumes "is_open c" "inq c = map data_msg (file_chunks bs) @ end_msg # rest" "small bs"
    and "recv_file_body c dest (of_nat (length bs)) os = (res, h, c', os')"
  shows "res \<noteq> T_ConnectionLost"
proof -
  obtain e os1 where cr: "sys_create dest os = (e, os1)" by fastforce
  obtain st wok fnv c2 os2 where lp:
    "recv_body_loop c dest (of_nat (length bs)) (e = None) 0 fnv_init os1 = (st, wok, fnv, c2, os2)"
    by (metis prod_cases5)
  have "st = Body_complete"
    using recv_body_loop_exact [OF assms(1,2), of 0 "length bs" dest "e = None" fnv_init os1] lp assms(3) by simp
  then show ?thesis using assms(4) by (auto simp: recv_file_body_def cr lp split: if_splits)
qed

section \<open>Uploads and deletions\<close>

abbreviation sv_files :: "('p, 'q) server \<Rightarrow> file_key \<Rightarrow> (string \<times> i64) option" where
  "sv_files sv \<equiv> user_files (sv_store sv) (sv_os sv)"

text \<open>A server whose files are coherent and whose links lead to backups.\<close>

definition serving :: "(('a node_scheme \<times> link_phase), 'q) server \<Rightarrow> bool" where
  "serving sv \<longleftrightarrow> store_ok (sv_store sv, sv_os sv) \<and> cut_at (sv_os sv) = None \<and>
     servers_ok (nd_members (sv_cluster sv)) \<and> keyed (cl_links (sv_cluster sv)) \<and>
     links_all backup_link {} (cl_links (sv_cluster sv))"

text \<open>What a handler leaves: such a server, in the same role.\<close>

definition keeps_serving :: "(('a node_scheme \<times> link_phase), 'q) server \<Rightarrow> (('a node_scheme \<times> link_phase), 'q) server \<Rightarrow> bool" where
  "keeps_serving sv sv' \<longleftrightarrow> serving sv' \<and> is_primary (sv_cluster sv') = is_primary (sv_cluster sv)"

interpretation sendable: link_stable "\<lambda>cl cl'. servers_ok (nd_members cl) \<longrightarrow> servers_ok (nd_members cl')"
proof
  fix i and cl :: "'a cluster"
  show "servers_ok (nd_members cl) \<longrightarrow> servers_ok (nd_members (remove_member i cl))"
    using le_trans [OF length_filter_le] by (auto simp: servers_ok_def remove_member_def)
qed (simp_all add: notify_membership_def)

lemma has_backup_link: "links_all (backup_has k v) A links \<Longrightarrow> links_all backup_link A links"
  by (auto simp: links_all_def backup_has_def backup_link_def)

lemma replicated_serving:
  fixes sv :: "(('a node_scheme \<times> link_phase), 'q) server"
  assumes "serving sv" and repl: "sv_on_cluster f sv = (r, sv')" and f: "f (sv_cluster sv) = replicate_change g (sv_cluster sv)"
    and links: "keyed (cl_links (sv_cluster sv'))" "links_all backup_link {} (cl_links (sv_cluster sv'))"
  shows "keeps_serving sv sv'"
proof -
  note rest = sv_on_cluster_rest [OF repl]
  have "nd_store (sv_cluster sv') = nd_store (sv_cluster sv)" "nd_os (sv_cluster sv') = nd_os (sv_cluster sv)"
    "cl_role (sv_cluster sv') = cl_role (sv_cluster sv)" "servers_ok (nd_members (sv_cluster sv'))"
    using rest unmoved.replicate_change_stable [of "sv_cluster sv" g] sendable.replicate_change_stable [of "sv_cluster sv" g] assms(1)
    by (simp_all add: f same_server_def serving_def)
  with assms(1) links show ?thesis by (simp add: keeps_serving_def serving_def is_primary_def)
qed

definition replied :: "msg \<Rightarrow> 'c conn \<Rightarrow> bool" where
  "replied ty c \<longleftrightarrow> (case outq c of [m] \<Rightarrow> mtype m = ty | _ \<Rightarrow> False)"

lemma send_error_live:
  assumes "live c" "outq c = []" "str_ok why"
  shows "\<exists>c'. send_error c why = (Inr True, c') \<and> replied Msg_Error c' \<and> inq c' = inq c \<and> peer_state c' = peer_state c"
  using assms conn_send_live [OF assms(1), of "enc_str why" Msg_Error]
  by (simp add: send_error_def cstr.wr_enc) (simp add: enc_str_def MAX_PAYLOAD_def replied_def)

lemma reply_and_push_live:
  assumes "live c" "outq c = []" "fst (push sv) = Inr ()"
  shows "\<exists>sv' c'. reply_and_push c sv push = (Inr True, c', sv') \<and> replied Msg_Ok c' \<and> inq c' = inq c \<and>
    peer_state c' = peer_state c \<and> sv' = snd (push sv)"
  using assms conn_send_live [OF assms(1), of "[]" Msg_Ok]
  by (auto simp: reply_and_push_def replied_def split: prod.split sum.split)

text \<open>Committing what has been received, and replicating it.\<close>

lemma commit_and_replicate:
  fixes sv :: "(('a node_scheme \<times> link_phase), 'q) server"
  assumes sv: "serving sv" and valid: "is_valid_username user" "is_valid_path path"
    and recd: "received (sv_store sv, sv_os sv) (temp, mt) = Some (bs, m)" and small: "small bs"
    and commit: "store_commit (sv_store sv) user path temp mt (sv_os sv) = (True, st, os)"
    and repl: "sv_on_cluster (replicate_put user path) (sv_set_files st os sv) = (r, sv')"
  shows "r = Inr ()" "sv_files sv' = (sv_files sv)((user, path) \<mapsto> (bs, m))"
    "store_ok (sv_store sv', sv_os sv')" "sv_sessions sv' = sv_sessions sv"
    "links_all (backup_has (user, path) (Some bs)) {} (cl_links (sv_cluster sv'))" "keeps_serving sv sv'"
proof -
  have ok: "store_ok (sv_store sv, sv_os sv)" using sv by (simp add: serving_def)
  then have wf: "wf_os (sv_os sv)" by (simp add: store_ok_def)
  note e = store_commit_effect [OF ok valid recd commit]
  let ?sv = "sv_set_files st os sv"
  note rest = sv_on_cluster_rest [OF repl]
  have total: "fst (replicate_put user path (sv_cluster ?sv)) = Inr ()"
    using sv by (intro replicate_put_total valid) (simp add: serving_def)
  with rest show "r = Inr ()" "sv_sessions sv' = sv_sessions sv" by simp_all
  show "sv_files sv' = (sv_files sv)((user, path) \<mapsto> (bs, m))" "store_ok (sv_store sv', sv_os sv')"
    using rest e by simp_all
  have cut: "cut_at os = None"
    using store_commit_env [OF wf commit] sv by (simp add: same_env_def serving_def)
  obtain cl where cl: "replicate_put user path (sv_cluster ?sv) = (Inr (), cl)" using total by (metis prod.collapse)
  have "keyed (cl_links cl)" "links_all (backup_has (user, path) (Some bs)) {} (cl_links cl)"
    using replicated_change.replicate_change_done [OF put_change, of st os user path bs m "sv_cluster ?sv" cl]
      cl e(3) cut small sv by (simp_all add: serving_def replicate_put_def)
  with rest cl have links: "keyed (cl_links (sv_cluster sv'))"
    "links_all (backup_has (user, path) (Some bs)) {} (cl_links (sv_cluster sv'))" by simp_all
  then show "links_all (backup_has (user, path) (Some bs)) {} (cl_links (sv_cluster sv'))" by simp
  have "keeps_serving sv ?sv" using sv e(1) cut by (simp add: keeps_serving_def serving_def is_primary_def)
  with replicated_serving [OF _ repl replicate_put_def links(1) has_backup_link [OF links(2)]]
  show "keeps_serving sv sv'" by (simp add: keeps_serving_def)
qed

definition announced :: "string \<Rightarrow> string \<Rightarrow> i64 \<Rightarrow> file_info" where
  "announced path bs mt = new_file_info\<lparr>fi_name := path, fi_size := of_nat (length bs), fi_mtime := mt\<rparr>"

lemma upload_parse:
  assumes "is_valid_path path"
  shows "ebind (r_u8 (new_reader (enc_u8 origin @ enc_header (announced path bs mt)))) (\<lambda>(origin, r).
      ebind (read_file_header r) (\<lambda>(info, r). Inr (origin, info))) = Inr (origin, announced path bs mt)"
proof -
  let ?info = "announced path bs mt"
  have str: "str_ok (fi_name ?info)" using valid_name_lengths(2) [OF assms] by (simp add: announced_def)
  have "?info\<lparr>fi_hash := 0\<rparr> = ?info" by (simp add: announced_def new_file_info_def)
  with read_file_header_ok [OF str, of "enc_u8 origin" "[]"] show ?thesis
    by (simp add: new_reader_cursor c8.rd_enc)
qed

lemma store_upload_durable:
  fixes sv :: "(('a node_scheme \<times> link_phase), 'q) server" and c :: "'c conn"
  assumes sv: "serving sv" and valid: "is_valid_username user" "is_valid_path path" and small: "small bs"
    and recd: "received (sv_store sv, sv_os sv) (temp, mt) = Some (bs, m)" and temp: "temp_ok (sv_store sv) temp"
    and c: "live c" "outq c = []"
  shows "case store_upload user token origin (announced path bs mt) temp c sv of (r, c', sv') \<Rightarrow>
    r = Inr True \<and> keeps_serving sv sv' \<and> inq c' = inq c \<and> peer_state c' = peer_state c \<and>
    (replied Msg_Ok c' \<and> sv_files sv' = (sv_files sv)((user, path) \<mapsto> (bs, m)) \<and>
       links_all (backup_has (user, path) (Some bs)) {} (cl_links (sv_cluster sv')) \<or>
     replied Msg_Error c' \<and> sv_files sv' = sv_files sv)"
proof -
  have ok: "store_ok (sv_store sv, sv_os sv)" using sv by (simp add: serving_def)
  have info: "fi_name (announced path bs mt) = path" "fi_mtime (announced path bs mt) = mt"
    by (simp_all add: announced_def)
  obtain stored st os where commit: "store_commit (sv_store sv) user path temp mt (sv_os sv) = (stored, st, os)"
    by (metis prod_cases3)
  note unf = store_upload_def info commit prod.case Let_def
  show ?thesis
  proof (cases stored)
    case False
    let ?why = "''the server could not store '' @ path @ '' (a file and a folder can'' @ [CHR 0x27] @ ''t have the same name)''"
    have "str_ok ?why" using valid_name_lengths(2) [OF valid(2)] by simp
    from send_error_live [OF c this] obtain c3
      where err: "send_error c ?why = (Inr True, c3)" "replied Msg_Error c3" "inq c3 = inq c" "peer_state c3 = peer_state c" by auto
    note e = store_commit_effect [OF ok valid recd commit]
    have "temp_ok st temp" using temp e(2) by (simp add: temp_ok_def)
    note rm = remove_temp [OF e(1) this]
    have "store_upload user token origin (announced path bs mt) temp c sv =
        (Inr True, c3, sv_set_files st (snd (remove_file temp os)) (sv_set_files st os sv))"
      unfolding unf using False err(1) by simp
    moreover have "keeps_serving sv (sv_set_files st (snd (remove_file temp os)) (sv_set_files st os sv))"
      using sv rm(1) store_commit_env [OF _ commit] remove_file_env [of os temp] ok
      by (simp add: keeps_serving_def serving_def is_primary_def same_env_def store_ok_def)
    ultimately show ?thesis using err rm e(3) False by simp
  next
    case True
    obtain r1 sv1 where repl: "sv_on_cluster (replicate_put user path) (sv_set_files st os sv) = (r1, sv1)" by fastforce
    note cr = commit_and_replicate [OF sv valid recd small commit [unfolded eqTrueI [OF True]] repl]
    have "fst (push_file user path (push_except origin token) sv1) = Inr ()"
      by (rule push_file_total) (use valid_name_lengths(2) [OF valid(2)] in simp)
    from reply_and_push_live [OF c, where push = "push_file user path (push_except origin token)", OF this] obtain sv' c'
      where rp: "reply_and_push c sv1 (push_file user path (push_except origin token)) = (Inr True, c', sv')"
      "replied Msg_Ok c'" "inq c' = inq c" "peer_state c' = peer_state c"
      "sv' = snd (push_file user path (push_except origin token) sv1)" by blast
    have "store_upload user token origin (announced path bs mt) temp c sv = (Inr True, c', sv')"
      unfolding unf using True repl cr(1) rp(1) by simp
    moreover have "keeps_serving sv sv'" using cr(6) rp(5) by (simp add: keeps_serving_def serving_def)
    ultimately show ?thesis using rp cr by simp
  qed
qed

lemma handle_upload_durable:
  fixes sv :: "(('a node_scheme \<times> link_phase), 'q) server" and c :: "'c conn"
  assumes sv: "serving sv" and valid: "is_valid_username user" "is_valid_path path" and small: "small bs"
    and c: "live c" "outq c = []" "inq c = map data_msg (file_chunks bs) @ end_msg # rest"
  shows "case handle_upload user token (enc_u8 origin @ enc_header (announced path bs mt)) c sv of (r, c', sv') \<Rightarrow>
    r = Inr True \<and> keeps_serving sv sv' \<and> inq c' = rest \<and> peer_state c' = peer_state c \<and>
    (replied Msg_Ok c' \<and>
       (\<exists>m. sv_files sv' = (sv_files sv)((user, path) \<mapsto> (bs, m))) \<and>
       links_all (backup_has (user, path) (Some bs)) {} (cl_links (sv_cluster sv')) \<or>
     replied Msg_Error c' \<and> sv_files sv' = sv_files sv)"
proof -
  let ?st = "sv_store sv" and ?info = "announced path bs mt"
  have ok: "store_ok (?st, sv_os sv)" using sv by (simp add: serving_def)
  have info: "fi_name ?info = path" "fi_size ?info = of_nat (length bs)" by (simp_all add: announced_def)
  obtain temp os1 where temp: "new_temp_path ?st (sv_os sv) = (temp, os1)" by fastforce
  obtain res h c2 os2 where rb: "recv_file_body c temp (of_nat (length bs)) os1 = (res, h, c2, os2)" by (metis prod_cases4)
  have opn: "is_open c" "mtype end_msg \<noteq> Msg_FileData" using c(1) by (simp_all add: live_def end_msg_def)
  have res: "res \<noteq> T_ConnectionLost" by (rule recv_file_body_exact [OF opn(1) c(3) small rb])
  have c2: "c2 = c\<lparr>inq := rest\<rparr>" by (rule recv_file_body_sync(1) [OF opn(1) c(3) opn(2) rb res])
  have live2: "live c2" "outq c2 = []" "inq c2 = rest" "peer_state c2 = peer_state c" using c(1,2) by (simp_all add: c2 live_def)
  note tmp = receive_temp [OF ok temp rb]
  let ?sv = "sv_set_files ?st os2 sv"
  have keeps: "keeps_serving sv ?sv" using sv tmp(1,4) by (simp add: keeps_serving_def serving_def is_primary_def)
  note parse = upload_parse [OF valid(2), of origin bs mt]
  note unf = handle_upload_def parse sum.case prod.case temp rb info
  show ?thesis
  proof (cases "res = T_Ok")
    case False
    obtain c3 where "send_error c2 ''the upload was not completed'' = (Inr True, c3)" "replied Msg_Error c3" "inq c3 = rest"
      "peer_state c3 = peer_state c"
      using send_error_live [OF live2(1,2), of "''the upload was not completed''"] live2(3,4) by auto
    with False res tmp(2) keeps show ?thesis by (simp add: unf Let_def)
  next
    case True
    have "wf_os os1" using temp ok by (auto simp: new_temp_path_def make_temp_path_eq store_ok_def)
    from recv_file_body_content [OF this opn(1) c(3) opn(2) rb [unfolded True]]
    obtain m where recd: "received (?st, os2) (temp, mt) = Some (bs, m)" using tmp(5) [OF True] by auto
    have "serving ?sv" using keeps by (simp add: keeps_serving_def)
    from store_upload_durable [OF this valid small _ _ live2(1,2), of temp mt m token origin] recd tmp(3)
    have "case store_upload user token origin ?info temp c2 ?sv of (r, c', sv') \<Rightarrow>
      r = Inr True \<and> keeps_serving ?sv sv' \<and> inq c' = inq c2 \<and> peer_state c' = peer_state c2 \<and>
      (replied Msg_Ok c' \<and> sv_files sv' = (sv_files ?sv)((user, path) \<mapsto> (bs, m)) \<and>
         links_all (backup_has (user, path) (Some bs)) {} (cl_links (sv_cluster sv')) \<or>
       replied Msg_Error c' \<and> sv_files sv' = sv_files ?sv)" by simp
    moreover have "handle_upload user token (enc_u8 origin @ enc_header ?info) c sv =
        store_upload user token origin ?info temp c2 ?sv"
      unfolding unf using True valid(2) by (simp add: Let_def)
    ultimately show ?thesis using tmp(2) live2(3,4) keeps by (auto simp: keeps_serving_def)
  qed
qed

text \<open>
  C1. An acknowledged upload is durable: a client that uploads a file (its header and its body
  are on the connection) gets exactly one answer. If it is \<open>Ok\<close>, the server has the file with
  exactly those contents and so has every backup it still has a link to; if it is an error, no
  file of any user has changed. No other file changes either way.
\<close>

theorem upload_durable:
  fixes sv :: "(('a node_scheme \<times> link_phase), 'q) server" and c :: "'c conn"
  assumes sv: "serving sv" and valid: "is_valid_username user" "is_valid_path path" and small: "small bs"
    and c: "live c" "outq c = []" "inq c = map data_msg (file_chunks bs) @ end_msg # rest"
  shows "case handle_upload user token (enc_u8 origin @ enc_header (announced path bs mt)) c sv of (r, c', sv') \<Rightarrow>
    store_ok (sv_store sv', sv_os sv') \<and> inq c' = rest \<and> peer_state c' = peer_state c \<and>
    (replied Msg_Ok c' \<and>
       (\<exists>m. sv_files sv' = (sv_files sv)((user, path) \<mapsto> (bs, m))) \<and>
       links_all (backup_has (user, path) (Some bs)) {} (cl_links (sv_cluster sv')) \<or>
     replied Msg_Error c' \<and> r = Inr True \<and> sv_files sv' = sv_files sv)"
  using handle_upload_durable [OF assms, of token origin mt] by (auto simp: keeps_serving_def serving_def split: prod.splits)

definition sample_server :: "((node \<times> link_phase), unit) server" where
  "sample_server = \<lparr>sv_cluster = primary_cluster, sv_sessions = [], sv_syncs = \<lambda>_. undefined, sv_problems = []\<rparr>"

definition client_conn :: "message list \<Rightarrow> unit conn" where
  "client_conn msgs = \<lparr>peer_state = (), respond = \<lambda>p _. (p, []), outq = [], inq = msgs, sends_left = None,
     is_open = True, peer_is_server = False\<rparr>"

lemma sample_server_serving: "serving sample_server"
  using sample_nodes_ok(1) primary_cluster_links
  by (simp add: serving_def sample_server_def node_ok_def primary_node_def data_dir_ok)
    (simp add: primary_cluster_def node_ok_def primary_node_def data_dir_ok servers_ok_def server_no_def)

lemma client_conn_live: "live (client_conn msgs)" "outq (client_conn msgs) = []" "inq (client_conn msgs) = msgs"
  by (simp_all add: client_conn_def live_def)

theorem upload_durable_witness:
  "case handle_upload ''u'' ''t'' (enc_u8 1 @ enc_header (announced ''d/n'' ''z'' 7))
      (client_conn (map data_msg (file_chunks ''z'') @ end_msg # [])) sample_server of (r, c', sv') \<Rightarrow>
    store_ok (sv_store sv', sv_os sv') \<and> inq c' = [] \<and> peer_state c' = peer_state (client_conn (map data_msg (file_chunks ''z'') @ end_msg # [])) \<and>
    (replied Msg_Ok c' \<and>
       (\<exists>m. sv_files sv' = (sv_files sample_server)((''u'', ''d/n'') \<mapsto> (''z'', m))) \<and>
       links_all (backup_has (''u'', ''d/n'') (Some ''z'')) {} (cl_links (sv_cluster sv')) \<or>
     replied Msg_Error c' \<and> r = Inr True \<and> sv_files sv' = sv_files sample_server)"
  by (rule upload_durable [OF sample_server_serving _ _ _ client_conn_live(1,2)])
    (code_simp, code_simp, simp, simp add: client_conn_live)

lemma handle_delete_durable:
  fixes sv :: "(('a node_scheme \<times> link_phase), 'q) server" and c :: "'c conn"
  assumes sv: "serving sv" and valid: "is_valid_username user" "is_valid_path path"
    and c: "live c" "outq c = []"
  shows "case handle_delete user token (enc_u8 origin @ enc_str path) c sv of (r, c', sv') \<Rightarrow>
    r = Inr True \<and> keeps_serving sv sv' \<and> inq c' = inq c \<and> peer_state c' = peer_state c \<and> sv_files sv' = (sv_files sv)((user, path) := None) \<and>
    (replied Msg_Ok c' \<and> links_all (backup_has (user, path) None) {} (cl_links (sv_cluster sv')) \<or>
     replied Msg_Error c' \<and> sv_files sv (user, path) = None)"
proof -
  have str: "str_ok path" using valid_name_lengths(2) [OF valid(2)] by simp
  have parse: "ebind (r_u8 (new_reader (enc_u8 origin @ enc_str path))) (\<lambda>(origin, r).
      ebind (r_str r) (\<lambda>(path, r). Inr (origin, path))) = Inr (origin, path)"
    using cstr.rd_enc [OF str, of "enc_u8 origin" "[]"] by (simp add: new_reader_cursor c8.rd_enc)
  obtain existed st os where rm: "store_remove (sv_store sv) user path (sv_os sv) = (existed, st, os)" by (metis prod_cases3)
  have ok: "store_ok (sv_store sv, sv_os sv)" using sv by (simp add: serving_def)
  note e = store_remove_effect [OF ok valid rm]
  have cut: "cut_at os = None"
    using store_remove_env [OF _ rm] sv ok by (simp add: same_env_def serving_def store_ok_def)
  note unf = handle_delete_def parse sum.case prod.case rm
  show ?thesis
  proof (cases existed)
    case False
    obtain c1 where "send_error c ''no such file on the server'' = (Inr True, c1)" "replied Msg_Error c1"
      "inq c1 = inq c" "peer_state c1 = peer_state c"
      using send_error_live [OF c, of "''no such file on the server''"] by auto
    moreover have none: "sv_files sv (user, path) = None" using e(4) False by blast
    moreover have "(sv_files sv)((user, path) := None) = sv_files sv" by (rule fun_upd_idem) (rule none)
    moreover have "keeps_serving sv (sv_set_files st os sv)"
      using sv e(1) cut by (simp add: keeps_serving_def serving_def is_primary_def)
    ultimately show ?thesis using False valid(2) e by (simp add: unf Let_def)
  next
    case True
    let ?sv = "sv_set_files st os sv"
    obtain r1 sv1 where repl: "sv_on_cluster (replicate_delete user path) ?sv = (r1, sv1)" by fastforce
    note rest = sv_on_cluster_rest [OF repl]
    have total: "fst (replicate_delete user path (sv_cluster ?sv)) = Inr ()"
      using sv by (intro replicate_delete_total valid) (simp add: serving_def)
    then obtain cl where cl: "replicate_delete user path (sv_cluster ?sv) = (Inr (), cl)" by (metis prod.collapse)
    have "links_all (\<lambda>c. backup_link c \<and> is_valid_username user \<and> is_valid_path path) {} (cl_links (sv_cluster ?sv))"
      using sv valid by (simp add: serving_def links_all_def)
    from deletion.replicate_change_done [OF _ this, of cl] cl sv
    have "keyed (cl_links cl)" "links_all (backup_has (user, path) None) {} (cl_links cl)"
      by (simp_all add: serving_def replicate_delete_def)
    then have links: "keyed (cl_links (sv_cluster sv1))" "links_all (backup_has (user, path) None) {} (cl_links (sv_cluster sv1))"
      using rest cl by simp_all
    have "keeps_serving sv ?sv" using sv e(1) cut by (simp add: keeps_serving_def serving_def is_primary_def)
    with replicated_serving [OF _ repl replicate_delete_def links(1) has_backup_link [OF links(2)]]
    have keeps: "keeps_serving sv sv1" by (simp add: keeps_serving_def)
    from reply_and_push_live [OF c, where push = "push_delete user path (push_except origin token)", OF push_delete_total [OF str]]
    obtain sv' c'
      where rp: "reply_and_push c sv1 (push_delete user path (push_except origin token)) = (Inr True, c', sv')"
      "replied Msg_Ok c'" "inq c' = inq c" "peer_state c' = peer_state c" "sv' = snd (push_delete user path (push_except origin token) sv1)"
      by blast
    have "handle_delete user token (enc_u8 origin @ enc_str path) c sv = (Inr True, c', sv')"
      unfolding unf using True valid(2) repl rest total rp(1) by (simp add: Let_def)
    moreover have "keeps_serving sv sv'" using keeps rp(5) by (simp add: keeps_serving_def serving_def)
    ultimately show ?thesis using rp links rest e True by simp
  qed
qed

text \<open>
  C7. An acknowledged deletion is durable: the request gets exactly one answer. \<open>Ok\<close> means the
  file was there, is gone, and is gone from every backup the server still has a link to; an
  error means that there was no such file. No other file changes either way.
\<close>

theorem delete_durable:
  fixes sv :: "(('a node_scheme \<times> link_phase), 'q) server" and c :: "'c conn"
  assumes sv: "serving sv" and valid: "is_valid_username user" "is_valid_path path"
    and c: "live c" "outq c = []"
  shows "case handle_delete user token (enc_u8 origin @ enc_str path) c sv of (r, c', sv') \<Rightarrow>
    store_ok (sv_store sv', sv_os sv') \<and> inq c' = inq c \<and> peer_state c' = peer_state c \<and> sv_files sv' = (sv_files sv)((user, path) := None) \<and>
    (replied Msg_Ok c' \<and> links_all (backup_has (user, path) None) {} (cl_links (sv_cluster sv')) \<or>
     replied Msg_Error c' \<and> r = Inr True \<and> sv_files sv (user, path) = None)"
  using handle_delete_durable [OF assms, of token origin] by (auto simp: keeps_serving_def serving_def split: prod.splits)

theorem delete_durable_witness:
  "case handle_delete ''u'' ''t'' (enc_u8 0 @ enc_str ''f'') (client_conn []) sample_server of (r, c', sv') \<Rightarrow>
    store_ok (sv_store sv', sv_os sv') \<and> inq c' = inq (client_conn []) \<and> peer_state c' = peer_state (client_conn []) \<and> sv_files sv' = (sv_files sample_server)((''u'', ''f'') := None) \<and>
    (replied Msg_Ok c' \<and> links_all (backup_has (''u'', ''f'') None) {} (cl_links (sv_cluster sv')) \<or>
     replied Msg_Error c' \<and> r = Inr True \<and> sv_files sample_server (''u'', ''f'') = None)"
  by (rule delete_durable [OF sample_server_serving _ _ client_conn_live(1,2)]) code_simp+

section \<open>Isolation\<close>

text \<open>Whatever arrives, a request touches only files of its own user, and no account.\<close>

definition only_user :: "string \<Rightarrow> ('p, 'q) server \<Rightarrow> ('p, 'q) server \<Rightarrow> bool" where
  "only_user user sv sv' \<longleftrightarrow> store_ok (sv_store sv', sv_os sv') \<and> cut_at (sv_os sv') = None \<and>
     st_root (sv_store sv') = st_root (sv_store sv) \<and>
     (\<forall>v p. v = user \<or> sv_files sv' (v, p) = sv_files sv (v, p)) \<and>
     accounts_of (accounts_dir (sv_store sv')) (sv_os sv') = accounts_of (accounts_dir (sv_store sv)) (sv_os sv)"

lemma only_user_same:
  "only_user u sv sv1 \<Longrightarrow> nd_store (sv_cluster sv2) = nd_store (sv_cluster sv1) \<Longrightarrow>
     nd_os (sv_cluster sv2) = nd_os (sv_cluster sv1) \<Longrightarrow> only_user u sv sv2"
  by (simp add: only_user_def)

lemma reply_and_push_rest:
  assumes "\<And>sv. sv_cluster (snd (push sv)) = sv_cluster sv" "reply_and_push c sv push = (r, c', sv')"
  shows "sv_cluster sv' = sv_cluster sv"
  using assms(1) [of sv] assms(2) by (auto simp: reply_and_push_def split: prod.splits bool.splits sum.splits)

lemma only_user_trans: "only_user u a b \<Longrightarrow> only_user u b c \<Longrightarrow> only_user u a c"
  unfolding only_user_def by metis

lemma only_user_removed:
  assumes "only_user user sv sv1" "sv_store sv1 = st" "sv_os sv1 = os" "temp_ok st temp"
  shows "only_user user sv (sv_set_files st (snd (remove_file temp os)) sv1)"
proof -
  have "store_ok (st, os)" using assms(1-3) by (simp add: only_user_def)
  from remove_temp [OF this assms(4)] assms(1-3) show ?thesis by (simp add: only_user_def)
qed

lemma store_upload_only:
  assumes ok: "store_ok (sv_store sv, sv_os sv)" "cut_at (sv_os sv) = None" "temp_ok (sv_store sv) temp"
    and valid: "is_valid_username user" "is_valid_path (fi_name info)"
    and recd: "received (sv_store sv, sv_os sv) (temp, fi_mtime info) = Some v"
    and up: "store_upload user token origin info temp c sv = (r, c', sv')"
  shows "only_user user sv sv'"
proof -
  let ?p = "fi_name info"
  obtain stored st os where commit: "store_commit (sv_store sv) user ?p temp (fi_mtime info) (sv_os sv) = (stored, st, os)"
    by (metis prod_cases3)
  note e = commit_received [OF ok(1,3) valid recd commit]
  let ?sv = "sv_set_files st os sv"
  have base: "only_user user sv ?sv" using e ok(2) by (auto simp: only_user_def)
  note unf = store_upload_def commit prod.case Let_def
  show ?thesis
  proof (cases stored)
    case False
    then have "sv' = sv_set_files st (snd (remove_file temp os)) ?sv" using up by (auto simp: unf split: prod.splits)
    with only_user_removed [OF base _ _ e(5)] show ?thesis by simp
  next
    case True
    obtain r1 sv1 where repl: "sv_on_cluster (replicate_put user ?p) ?sv = (r1, sv1)" by fastforce
    from sv_on_cluster_rest [OF repl] have one: "only_user user sv sv1"
      by (intro only_user_same [OF base]) simp_all
    have "sv_cluster sv' = sv_cluster sv1"
    proof (cases r1)
      case (Inl e)
      with up True repl show ?thesis by (simp add: unf)
    next
      case (Inr x)
      obtain r3 c3 sv3 where rp: "reply_and_push c sv1 (push_file user ?p (push_except origin token)) = (r3, c3, sv3)"
        by (metis prod_cases3)
      have "store_upload user token origin info temp c sv = (r3, c3, sv3)" unfolding unf using True repl Inr rp by simp
      with reply_and_push_rest [OF _ rp] up show ?thesis by simp
    qed
    with one only_user_same [of user sv sv1 sv'] show ?thesis by simp
  qed
qed

lemma handle_upload_only:
  assumes ok: "store_ok (sv_store sv, sv_os sv)" "cut_at (sv_os sv) = None" and user: "is_valid_username user"
    and up: "handle_upload user token body c sv = (r, c', sv')"
  shows "only_user user sv sv'"
proof (cases "ebind (r_u8 (new_reader body)) (\<lambda>(origin, r).
      ebind (read_file_header r) (\<lambda>(info, r). Inr (origin, info)))")
  case (Inl e)
  with assms show ?thesis by (simp add: handle_upload_def only_user_def)
next
  case (Inr oi)
  obtain origin info where oi: "oi = (origin, info)" by (cases oi)
  let ?st = "sv_store sv"
  obtain temp os1 where temp: "new_temp_path ?st (sv_os sv) = (temp, os1)" by fastforce
  obtain res h c2 os2 where rb: "recv_file_body c temp (fi_size info) os1 = (res, h, c2, os2)" by (metis prod_cases4)
  note tmp = receive_temp [OF ok(1) temp rb]
  let ?sv = "sv_set_files ?st os2 sv"
  have base: "only_user user sv ?sv" using tmp ok(2) by (simp add: only_user_def)
  note unf = handle_upload_def Inr oi sum.case prod.case temp rb Let_def
  consider "res \<noteq> T_Ok" | "res = T_Ok" "\<not> is_valid_path (fi_name info)" | "res = T_Ok" "is_valid_path (fi_name info)" by blast
  then show ?thesis
  proof cases
    case 1
    with up base show ?thesis by (auto simp: unf split: prod.splits if_splits)
  next
    case 2
    then have "sv' = sv_set_files ?st (snd (remove_file temp os2)) ?sv" using up by (auto simp: unf split: prod.splits)
    with only_user_removed [OF base _ _ tmp(3)] show ?thesis by simp
  next
    case 3
    obtain v where recd: "received (?st, os2) (temp, fi_mtime info) = Some v" using tmp(5) [OF 3(1)] by auto
    have st: "store_upload user token origin info temp c2 ?sv = (r, c', sv')" using up 3 by (simp add: unf)
    have "only_user user ?sv sv'"
      by (rule store_upload_only [OF _ _ _ user 3(2) _ st]) (use tmp(1,3,4) ok(2) recd in simp_all)
    with base show ?thesis by (rule only_user_trans)
  qed
qed

lemma handle_delete_only:
  assumes ok: "store_ok (sv_store sv, sv_os sv)" "cut_at (sv_os sv) = None" and user: "is_valid_username user"
    and del: "handle_delete user token body c sv = (r, c', sv')"
  shows "only_user user sv sv'"
proof (cases "ebind (r_u8 (new_reader body)) (\<lambda>(origin, r). ebind (r_str r) (\<lambda>(path, r). Inr (origin, path)))")
  case (Inl e)
  with assms show ?thesis by (simp add: handle_delete_def only_user_def)
next
  case (Inr op)
  obtain origin path where op: "op = (origin, path)" by (cases op)
  note unf = handle_delete_def Inr op sum.case prod.case Let_def
  show ?thesis
  proof (cases "is_valid_path path")
    case False
    with del ok show ?thesis by (auto simp: unf only_user_def split: prod.splits)
  next
    case True
    obtain existed st os where rm: "store_remove (sv_store sv) user path (sv_os sv) = (existed, st, os)" by (metis prod_cases3)
    note e = store_remove_effect [OF ok(1) user True rm]
    have wf: "wf_os (sv_os sv)" using ok(1) by (simp add: store_ok_def)
    let ?sv = "sv_set_files st os sv"
    have "accounts_of (accounts_dir st) os = accounts_of (accounts_dir (sv_store sv)) (sv_os sv)"
      by (rule accounts_frame) (use e(2) store_remove_frame [OF wf user True rm] accounts_not_file in simp_all)
    moreover have "cut_at os = None"
      using store_remove_env [OF wf rm] ok(2) by (simp add: same_env_def)
    ultimately have base: "only_user user sv ?sv" using e by (auto simp: only_user_def)
    show ?thesis
    proof (cases existed)
      case False
      then have "sv' = ?sv" using del True rm by (auto simp: unf split: prod.splits)
      with base show ?thesis by simp
    next
      case existed: True
      obtain r1 sv1 where repl: "sv_on_cluster (replicate_delete user path) ?sv = (r1, sv1)" by fastforce
      from sv_on_cluster_rest [OF repl] have one: "only_user user sv sv1"
        by (intro only_user_same [OF base]) simp_all
      have "sv_cluster sv' = sv_cluster sv1"
      proof (cases r1)
        case (Inl e)
        with del True existed rm repl show ?thesis by (simp add: unf)
      next
        case (Inr x)
        obtain r3 c3 sv3 where rp: "reply_and_push c sv1 (push_delete user path (push_except origin token)) = (r3, c3, sv3)"
          by (metis prod_cases3)
        have "handle_delete user token body c sv = (r3, c3, sv3)"
          unfolding unf using True existed rm repl Inr rp by simp
        with reply_and_push_rest [OF _ rp] del show ?thesis by simp
      qed
      with one only_user_same [of user sv sv1 sv'] show ?thesis by simp
    qed
  qed
qed

lemma handle_list_only:
  assumes ok: "store_ok (sv_store sv, sv_os sv)" "cut_at (sv_os sv) = None" and user: "is_valid_username user"
    and ls: "handle_list user c sv = (r, c', sv')"
  shows "only_user user sv sv'"
proof -
  obtain files st where l: "store_list (sv_store sv) user (sv_os sv) = (files, st)" by fastforce
  note s = store_list_spec [OF ok user l]
  have "sv' = sv_set_files st (sv_os sv) sv"
    using ls by (auto simp: handle_list_def l Let_def split: sum.splits prod.splits if_splits)
  moreover have "store_ok (st, sv_os sv)" using ok(1) s(1) by (simp add: store_ok_def)
  moreover have "accounts_dir st = accounts_dir (sv_store sv)" using s(2) by (simp add: accounts_dir_def)
  ultimately show ?thesis using ok(2) s(2) user_files_root [OF s(2)] by (simp add: only_user_def)
qed

lemma handle_request_only:
  assumes "store_ok (sv_store sv, sv_os sv)" "cut_at (sv_os sv) = None" "is_valid_username user"
  shows "only_user user sv (snd (snd (handle_request user token m c sv)))"
proof -
  have same: "only_user user sv sv" using assms by (simp add: only_user_def)
  obtain r1 c1 sv1 where u: "handle_upload user token (payload m) c sv = (r1, c1, sv1)" by (metis prod_cases3)
  obtain r2 c2 sv2 where d: "handle_delete user token (payload m) c sv = (r2, c2, sv2)" by (metis prod_cases3)
  obtain r3 c3 sv3 where l: "handle_list user c sv = (r3, c3, sv3)" by (metis prod_cases3)
  from same handle_upload_only [OF assms u] handle_delete_only [OF assms d] handle_list_only [OF assms l] u d l
  show ?thesis by (auto simp: handle_request_def split: prod.split)
qed

text \<open>
  C14. Users are isolated: whatever request arrives in a session, with whatever file body behind
  it, and whether or not it succeeds, the files of every other user and all accounts stay as
  they are, and the store stays coherent.
\<close>

theorem request_isolation:
  assumes "store_ok (sv_store sv, sv_os sv)" "cut_at (sv_os sv) = None" "is_valid_username user"
  shows "only_user user sv (snd (snd (handle_request user token m c sv)))"
  by (rule handle_request_only [OF assms])

theorem request_isolation_witness:
  "only_user ''u'' sample_server (snd (snd (handle_request ''u'' ''t''
     \<lparr>mtype = Msg_Delete, payload = enc_u8 0 @ enc_str ''../x''\<rparr> (client_conn []) sample_server)))"
proof (rule request_isolation)
  show "store_ok (sv_store sample_server, sv_os sample_server)" "cut_at (sv_os sample_server) = None"
    using sample_server_serving by (simp_all add: serving_def)
  show "is_valid_username ''u''" by code_simp
qed

section \<open>Who is served\<close>


definition idle_world :: "('a, 'b) world" where
  "idle_world = \<lparr>wd_connect = (\<lambda>_. None), wd_time = 0, wd_derive = (\<lambda>_ _ _. None), wd_salt = None,
     wd_random = None, wd_others = [], wd_replica = []\<rparr>"


text \<open>
  A login: the account that the user has afterwards. The key derivation gives hashes of the
  expected length, and OpenSSL gives as many random bytes as it is asked for.
\<close>

definition kdf_ok :: "kdf \<Rightarrow> bool" where
  "kdf_ok derive \<longleftrightarrow> (\<forall>password salt n h. derive password salt n = Some h \<longrightarrow> length h = HASH_SIZE)"

lemma check_password_True:
  "check_password derive rec password c sv = (Inr True, c', sv') \<Longrightarrow> verify_record derive rec password \<and> sv' = sv"
  by (auto simp: check_password_def map_sum_def split: if_splits prod.splits sum.splits)

lemma authenticate_True:
  assumes wf: "wf_os (sv_os sv)" and user: "is_valid_username user" and kdf: "kdf_ok derive"
    and salt: "case salt of None \<Rightarrow> True | Some s \<Rightarrow> length s = SALT_SIZE"
    and auth: "authenticate derive salt user password c sv = (Inr True, c', sv')"
  shows "\<exists>rec. accounts_of (accounts_dir (sv_store sv')) (sv_os sv') user = Some rec \<and> verify_record derive rec password"
    and "accounts_of (accounts_dir (sv_store sv')) (sv_os sv') = accounts_of (accounts_dir (sv_store sv)) (sv_os sv) \<or>
      accounts_of (accounts_dir (sv_store sv)) (sv_os sv) user = None"
proof -
  let ?dir = "accounts_dir (sv_store sv)"
  let ?new = "make_record derive salt password"
  have acc: "acc_get ?dir user os = accounts_of ?dir os user" for os using user by (simp add: accounts_of_def)
  have "(\<exists>rec. accounts_of (accounts_dir (sv_store sv')) (sv_os sv') user = Some rec \<and> verify_record derive rec password) \<and>
    (accounts_of (accounts_dir (sv_store sv')) (sv_os sv') = accounts_of ?dir (sv_os sv) \<or> accounts_of ?dir (sv_os sv) user = None)"
  proof (cases "acc_get ?dir user (sv_os sv)")
    case (Some rec)
    then have "check_password derive rec password c sv = (Inr True, c', sv')"
      using auth by (simp add: authenticate_def Let_def)
    from check_password_True [OF this] Some show ?thesis by (simp add: acc)
  next
    case None
    obtain created os where cr: "(if ?new = [] then (False, sv_os sv) else acc_create ?dir user ?new (sv_os sv)) = (created, os)"
      by fastforce
    let ?sv = "sv_set_files (sv_store sv) os sv"
    note unf = authenticate_def Let_def None option.case cr prod.case
    show ?thesis
    proof (cases created)
      case True
      then have new: "?new \<noteq> []" and w: "acc_create ?dir user ?new (sv_os sv) = (True, os)" using cr by (auto split: if_splits)
      obtain s h where sh: "salt = Some s" "derive password s ITERATIONS = Some h"
        using new by (auto simp: make_record_def split: option.splits)
      have len: "length h = HASH_SIZE" "length s = SALT_SIZE" using kdf salt sh by (auto simp: kdf_ok_def)
      have valid: "is_valid_record ?new" "verify_record derive ?new password"
        using parse_make_record [OF len(2,1)] sh len
        by (simp_all add: make_record_def is_valid_record_def verify_record_def)
      have "acc_write ?dir user ?new (sv_os sv) = (True, os)" using w by (auto simp: acc_create_def split: if_splits)
      from accounts_of_write [OF wf user valid(1) this]
      have upd: "accounts_of ?dir os = (accounts_of ?dir (sv_os sv))(user \<mapsto> ?new)" by simp
      obtain r1 sv1 where repl: "sv_on_cluster (replicate_account user ?new) ?sv = (r1, sv1)" by fastforce
      have "sv' = sv1" using auth True repl by (auto simp: unf split: sum.splits)
      with sv_on_cluster_rest [OF repl] upd valid(2) None show ?thesis by (simp add: acc)
    next
      case False
      obtain rec where get: "acc_get ?dir user os = Some rec"
        using auth False by (auto simp: unf map_sum_def split: option.splits prod.splits sum.splits)
      then have "check_password derive rec password c ?sv = (Inr True, c', sv')" using auth False by (simp add: unf)
      from check_password_True [OF this] get None show ?thesis by (simp add: acc)
    qed
  qed
  note both = this
  show "\<exists>rec. accounts_of (accounts_dir (sv_store sv')) (sv_os sv') user = Some rec \<and> verify_record derive rec password"
    using both by (rule conjunct1)
  show "accounts_of (accounts_dir (sv_store sv')) (sv_os sv') = accounts_of ?dir (sv_os sv) \<or> accounts_of ?dir (sv_os sv) user = None"
    using both by (rule conjunct2)
qed

text \<open>
  C15. A login needs the password: when \<open>authenticate\<close> accepts, the user has an account whose
  record verifies the given password; if the user already had an account, that is the same
  account and no account has changed, otherwise it has just been created.
\<close>

theorem login_needs_password:
  assumes "wf_os (sv_os sv)" "is_valid_username user" "kdf_ok derive" "length salt = SALT_SIZE"
    and "fst (authenticate derive (Some salt) user password c sv) = Inr True"
  shows "case snd (snd (authenticate derive (Some salt) user password c sv)) of sv' \<Rightarrow>
    (case accounts_of (accounts_dir (sv_store sv')) (sv_os sv') user of
       None \<Rightarrow> False | Some rec \<Rightarrow> verify_record derive rec password) \<and>
    (accounts_of (accounts_dir (sv_store sv')) (sv_os sv') = accounts_of (accounts_dir (sv_store sv)) (sv_os sv) \<or>
     accounts_of (accounts_dir (sv_store sv)) (sv_os sv) user = None)"
proof -
  obtain c' sv' where a: "authenticate derive (Some salt) user password c sv = (Inr True, c', sv')"
    using assms(5) by (metis prod.collapse)
  have "case Some salt of None \<Rightarrow> True | Some s \<Rightarrow> length s = SALT_SIZE" using assms(4) by simp
  from authenticate_True [OF assms(1-3) this a] show ?thesis by (auto simp: a)
qed

definition sample_kdf :: kdf where
  "sample_kdf password salt n = Some (take 32 (password @ replicate 32 CHR ''0''))"

theorem login_needs_password_witness:
  "case snd (snd (authenticate sample_kdf (Some (replicate 16 CHR ''s'')) ''u'' ''secret'' (client_conn []) sample_server)) of sv' \<Rightarrow>
    (case accounts_of (accounts_dir (sv_store sv')) (sv_os sv') ''u'' of
       None \<Rightarrow> False | Some rec \<Rightarrow> verify_record sample_kdf rec ''secret'') \<and>
    (accounts_of (accounts_dir (sv_store sv')) (sv_os sv') = accounts_of (accounts_dir (sv_store sample_server)) (sv_os sample_server) \<or>
     accounts_of (accounts_dir (sv_store sample_server)) (sv_os sample_server) ''u'' = None)"
proof (rule login_needs_password)
  show "wf_os (sv_os sample_server)" using sample_server_serving by (simp add: serving_def store_ok_def)
  show "is_valid_username ''u''" by code_simp
  show "kdf_ok sample_kdf" by (auto simp: kdf_ok_def sample_kdf_def HASH_SIZE_def min_def)
  show "length (replicate 16 CHR ''s'') = SALT_SIZE" by (simp add: SALT_SIZE_def)
  show "fst (authenticate sample_kdf (Some (replicate 16 CHR ''s'')) ''u'' ''secret'' (client_conn []) sample_server) = Inr True"
    by code_simp
qed

section \<open>Notices\<close>

lemma problem_lines_from:
  "problem_lines s n = (if n < length s then getlines newline (drop n s) else [])"
proof (induction s n rule: problem_lines.induct)
  case (1 s n)
  show ?case
  proof (cases "n < length s")
    case True
    note IH = 1 [OF True refl]
    show ?thesis
    proof (cases "find_char newline s n")
      case None
      then have "split_on newline (drop n s) = [drop n s]" by (subst split_on_find) simp
      with True None show ?thesis
        by (subst problem_lines.simps) (simp add: getlines_def substr_def problem_lines.simps [of s "Suc (length s)"])
    next
      case (Some i)
      have split: "split_on newline (drop n s) = substr s n (i - n) # split_on newline (drop (Suc i) s)"
        using Some by (subst split_on_find) simp
      have "problem_lines s n = substr s n (i - n) # problem_lines s (Suc i)"
        using True Some by (subst problem_lines.simps) simp
      moreover have "getlines newline (drop n s) =
          substr s n (i - n) # (if Suc i < length s then getlines newline (drop (Suc i) s) else [])"
        using split_on_not_Nil [of newline "drop (Suc i) s"] by (simp add: getlines_def split Let_def)
      ultimately show ?thesis using IH True Some by simp
    qed
  qed (simp add: problem_lines.simps)
qed

text \<open>
  The notices that a client gets when it attaches are exactly the lines of the health
  report: the loop that cuts it up agrees with reading it line by line.
\<close>

theorem problem_lines_are_lines: "problem_lines problems 0 = getlines newline problems"
  by (simp add: problem_lines_from) (simp add: getlines_def)

end
