(* ===== verification/Client.thy ===== *)
theory Client
  imports SyncState Listing "HOL-Library.Code_Target_Numeral"
begin

text \<open>
  \<open>client/client.hpp\<close> and \<open>client/client.cpp\<close>: the connection to the server, the exchanges on the
  command connection and the synchronization of \<open>sync_dir\<close>. Each function that takes a lock is
  one step; what other threads do in between is an argument of the loops. What is printed is
  collected in \<open>ct_output\<close>, before \<open>format_size\<close> and the table of \<open>file_table\<close> are laid out.
\<close>

record client_options =
  op_user :: string
  op_password :: string
  op_host :: string
  op_port :: u16
  op_sync_dir :: string
  op_ca_file :: string

datatype client_output =
  Said string
| Said_size string u64 string  \<comment> \<open>the number is printed by \<open>format_size\<close>\<close>
| Said_table string "file_info list"

text \<open>
  \<open>ct_conns\<close> counts the connections made so far: it stands for the identity of the object that
  \<open>cmd_\<close> points to. \<open>ct_stamp\<close> is the local time as \<open>strftime\<close> writes it for \<open>conflict_name\<close>.
\<close>

record 'q client =
  ct_options :: client_options
  ct_os :: os
  ct_state :: sync_state
  ct_cmd :: "'q conn option"
  ct_sync :: "'q conn option"
  ct_conns :: nat
  ct_connected :: bool
  ct_servers :: "server_address list"
  ct_stopping :: bool
  ct_queue :: "string list"
  ct_queued :: "string set"
  ct_output :: "client_output list"
  ct_stamp :: string

abbreviation sync_dir :: "'q client \<Rightarrow> string" where
  "sync_dir cl \<equiv> op_sync_dir (ct_options cl)"

definition same_content :: "file_info \<Rightarrow> file_info \<Rightarrow> bool" where
  "same_content a b \<longleftrightarrow> fi_hash a = fi_hash b \<and> fi_size a = fi_size b"

definition say :: "string \<Rightarrow> 'q client \<Rightarrow> 'q client" where
  "say txt cl = cl\<lparr>ct_output := ct_output cl @ [Said txt]\<rparr>"

definition say_size :: "string \<Rightarrow> u64 \<Rightarrow> string \<Rightarrow> 'q client \<Rightarrow> 'q client" where
  "say_size a n b cl = cl\<lparr>ct_output := ct_output cl @ [Said_size a n b]\<rparr>"

abbreviation quote :: char where "quote \<equiv> CHR 0x27"
abbreviation dquote :: char where "dquote \<equiv> CHR 0x22"

section \<open>The connection\<close>

datatype connect_result = Connected | Unreachable | Refused

text \<open>
  The \<open>n\<close>-th turn of the loop of \<open>connect_once\<close>, on the candidate \<open>host:port\<close>: \<open>dial k\<close> is the
  \<open>k\<close>-th call of \<open>connect_to\<close>. A \<open>ProtocolError\<close> inside the \<open>try\<close> block moves on to the next
  candidate; one while the login is written is not caught.
\<close>

type_synonym 'q dialer = "nat \<Rightarrow> string \<Rightarrow> u16 \<Rightarrow> 'q conn option"

datatype try_result = Try_next | Try_redirect string u16 | Try_refused | Try_connected

definition attach_session ::
  "'q dialer \<Rightarrow> nat \<Rightarrow> string \<Rightarrow> u16 \<Rightarrow> 'q conn \<Rightarrow> string \<Rightarrow> server_address list \<Rightarrow> 'q client \<Rightarrow>
     try_result \<times> 'q client" where
  "attach_session dial n host port cmd token servers cl =
     (case (dial (2 * n + 1) host port, w_str token []) of
        (Some sync, Inr body) \<Rightarrow>
          (case call sync Msg_SyncAttach body Msg_Ok of
             (Call_Ok ack, sync) \<Rightarrow>
               (Try_connected,
                say (''Connected to '' @ host @ '':'' @ to_dec (unat port) @ '' as '' @ op_user (ct_options cl) @ ''.'')
                  (cl\<lparr>ct_cmd := Some cmd, ct_sync := Some sync, ct_conns := Suc (ct_conns cl),
                      ct_servers := servers, ct_connected := True\<rparr>))
           | (_, sync) \<Rightarrow> (Try_next, cl))
      | _ \<Rightarrow> (Try_next, cl))"

definition try_candidate ::
  "'q dialer \<Rightarrow> nat \<Rightarrow> string \<Rightarrow> u16 \<Rightarrow> 'q client \<Rightarrow> (protocol_error + try_result) \<times> 'q client" where
  "try_candidate dial n host port cl =
     (case dial (2 * n) host port of
        None \<Rightarrow> (Inr Try_next, cl)
      | Some cmd \<Rightarrow>
          (case ebind (w_str (op_user (ct_options cl)) []) (w_str (op_password (ct_options cl))) of
             Inl e \<Rightarrow> (Inl e, cl)
           | Inr login \<Rightarrow>
               (case call cmd Msg_Login login Msg_LoginOk of
                  (Call_Failed, cmd) \<Rightarrow> (Inr Try_next, cl)
                | (Call_Rejected reply, cmd) \<Rightarrow>
                    if mtype reply = Msg_Redirect then
                      (case ebind (r_str (new_reader (payload reply))) (\<lambda>(h, r).
                              ebind (r_u16 r) (\<lambda>(p, r). Inr (h, p))) of
                         Inl e \<Rightarrow> (Inr Try_next, cl)
                       | Inr (h, p) \<Rightarrow> (Inr (if h = [] then Try_next else Try_redirect h p), cl))
                    else (Inr Try_refused,
                          say (''Login refused by '' @ host @ '':'' @ to_dec (unat port) @ '': '' @ error_reason reply) cl)
                | (Call_Ok reply, cmd) \<Rightarrow>
                    (case ebind (r_str (new_reader (payload reply))) (\<lambda>(token, r).
                            ebind (read_servers r) (\<lambda>(servers, r). Inr (token, servers))) of
                       Inl e \<Rightarrow> (Inr Try_next, cl)
                     | Inr (token, servers) \<Rightarrow>
                         (case attach_session dial n host port cmd token servers cl of
                            (res, cl) \<Rightarrow> (Inr res, cl))))))"

text \<open>
  The loop over the candidates. A redirect is inserted after the candidate that gave it, which
  makes it the next one; at most 20 candidates are tried.
\<close>

definition MAX_CANDIDATES :: nat where "MAX_CANDIDATES = 20"

function connect_loop ::
  "'q dialer \<Rightarrow> nat \<Rightarrow> (string \<times> u16) list \<Rightarrow> connect_result \<Rightarrow> 'q client \<Rightarrow>
     (protocol_error + connect_result) \<times> 'q client" where
  "connect_loop dial i candidates result cl =
     (case candidates of
        [] \<Rightarrow> (Inr result, cl)
      | (host, port) # rest \<Rightarrow>
          if MAX_CANDIDATES \<le> i \<or> ct_stopping cl then (Inr result, cl)
          else case try_candidate dial i host port cl of
            (Inl e, cl) \<Rightarrow> (Inl e, cl)
          | (Inr Try_next, cl) \<Rightarrow> connect_loop dial (Suc i) rest result cl
          | (Inr (Try_redirect h p), cl) \<Rightarrow> connect_loop dial (Suc i) ((h, p) # rest) result cl
          | (Inr Try_refused, cl) \<Rightarrow> connect_loop dial (Suc i) rest Refused cl
          | (Inr Try_connected, cl) \<Rightarrow> (Inr Connected, cl))"
  by pat_completeness auto

termination
  by (relation "measure (\<lambda>(dial, i, candidates, result, cl). MAX_CANDIDATES - i)") auto

declare connect_loop.simps [simp del]

definition candidates :: "'q client \<Rightarrow> (string \<times> u16) list" where
  "candidates cl =
     map (\<lambda>s. (sa_host s, sa_port s)) (sort_key (\<lambda>s. - int (unat (sa_id s))) (ct_servers cl)) @
     [(op_host (ct_options cl), op_port (ct_options cl))]"

definition connect_once :: "'q dialer \<Rightarrow> 'q client \<Rightarrow> (protocol_error + connect_result) \<times> 'q client" where
  "connect_once dial cl = connect_loop dial 0 (candidates cl) Unreachable cl"

text \<open>
  The loop of \<open>reconnect\<close>: one dialer and one step of the other threads for each attempt. The
  result is \<^term>\<open>None\<close> when it is still trying after them.
\<close>

fun reconnect ::
  "nat \<Rightarrow> ('q dialer \<times> ('q client \<Rightarrow> 'q client)) list \<Rightarrow> 'q client \<Rightarrow>
     (protocol_error + bool option) \<times> 'q client" where
  "reconnect attempts [] cl = (Inr (if ct_stopping cl then Some False else None), cl)"
| "reconnect attempts ((dial, others) # env) cl =
     (if ct_stopping cl then (Inr (Some False), cl)
      else case connect_once dial cl of
        (Inl e, cl) \<Rightarrow> (Inl e, cl)
      | (Inr Connected, cl) \<Rightarrow> (Inr (Some True), cl)
      | (Inr _, cl) \<Rightarrow>
          reconnect (Suc attempts) env
            (others (if Suc attempts mod 10 = 0 then say ''Still trying to reach a server...'' cl else cl)))"

text \<open>\<open>mark_disconnected\<close>; \<^term>\<open>None\<close> is the null pointer.\<close>

definition mark_disconnected :: "nat option \<Rightarrow> 'q client \<Rightarrow> 'q client" where
  "mark_disconnected cmd cl =
     (if \<not> ct_connected cl \<or> (case cmd of None \<Rightarrow> False | Some k \<Rightarrow> k \<noteq> ct_conns cl) then cl
      else cl\<lparr>ct_connected := False, ct_cmd := map_option conn_shutdown (ct_cmd cl),
              ct_sync := map_option conn_shutdown (ct_sync cl)\<rparr>)"

text \<open>\<open>wait_for_connection\<close>, when its wait is over.\<close>

definition wait_for_connection :: "'q client \<Rightarrow> 'q conn option" where
  "wait_for_connection cl = (if ct_connected cl \<and> \<not> ct_stopping cl then ct_cmd cl else None)"

text \<open>\<open>busy\<close>: another exchange holds the command connection.\<close>

definition ping :: "bool \<Rightarrow> 'q client \<Rightarrow> bool \<times> 'q client" where
  "ping busy cl =
     (if busy then (True, cl)
      else case (if ct_connected cl then ct_cmd cl else None) of
        None \<Rightarrow> (False, cl)
      | Some cmd \<Rightarrow>
          (case call cmd Msg_Ping [] Msg_Pong of
             (res, cmd) \<Rightarrow> ((case res of Call_Ok reply \<Rightarrow> True | _ \<Rightarrow> False), cl\<lparr>ct_cmd := Some cmd\<rparr>)))"

section \<open>Exchanges on the command connection\<close>

text \<open>
  The result of an exchange with its \<open>error\<close> argument. An exchange that throws has failed, and
  a failed one drops the connection.
\<close>

datatype 'a outcome = X_Ok 'a | X_Rejected string | X_Failed string

type_synonym ('q, 'a) exchange = "'q conn \<Rightarrow> os \<Rightarrow> (protocol_error + 'a outcome) \<times> 'q conn \<times> os"

definition transact :: "('q, 'a) exchange \<Rightarrow> 'q client \<Rightarrow> 'a outcome \<times> 'q client" where
  "transact exchange cl =
     (case wait_for_connection cl of
        None \<Rightarrow> (X_Failed ''not connected to a server'', cl)
      | Some cmd \<Rightarrow>
          (case exchange cmd (ct_os cl) of
             (res, cmd, os) \<Rightarrow>
               let cl = cl\<lparr>ct_os := os, ct_cmd := Some cmd\<rparr> in
               case (case res of Inl e \<Rightarrow> X_Failed [] | Inr res \<Rightarrow> res) of
                 X_Failed error \<Rightarrow>
                   (X_Failed (if error = [] then ''lost the connection to the server'' else error),
                    mark_disconnected (Some (ct_conns cl)) cl)
               | res \<Rightarrow> (res, cl)))"

definition upload_exchange :: "string \<Rightarrow> string \<Rightarrow> u8 \<Rightarrow> ('q, unit) exchange" where
  "upload_exchange path name origin conn os =
     (case send_file conn Msg_Upload (w_u8 origin []) name path os of
        (Inl e, conn) \<Rightarrow> (Inl e, conn, os)
      | (Inr (sent, _), conn) \<Rightarrow>
          if sent = T_NotSent then (Inr (X_Rejected (''cannot read '' @ path)), conn, os)
          else if sent = T_ConnectionLost then (Inr (X_Failed []), conn, os)
          else case conn_recv conn of
            (Received reply, conn) \<Rightarrow>
              if mtype reply \<noteq> Msg_Ok
              then (Inr (X_Rejected (if sent = T_FileError then path @ '' changed while it was being read''
                                     else error_reason reply)), conn, os)
              else (Inr (X_Ok ()), conn, os)
          | (_, conn) \<Rightarrow> (Inr (X_Failed []), conn, os))"

definition upload :: "string \<Rightarrow> string \<Rightarrow> u8 \<Rightarrow> 'q client \<Rightarrow> unit outcome \<times> 'q client" where
  "upload path name origin = transact (upload_exchange path name origin)"

text \<open>The header, its hash filled in, and the path of the temporary file.\<close>

definition download_exchange :: "string \<Rightarrow> string \<Rightarrow> ('q, file_info \<times> string) exchange" where
  "download_exchange name dir conn os =
     (case w_str name [] of
        Inl e \<Rightarrow> (Inl e, conn, os)
      | Inr request \<Rightarrow>
          (case conn_send conn Msg_Download request of
             (False, conn) \<Rightarrow> (Inr (X_Failed []), conn, os)
           | (True, conn) \<Rightarrow>
               (case conn_recv conn of
                  (Received reply, conn) \<Rightarrow>
                    if mtype reply = Msg_Error then (Inr (X_Rejected (error_reason reply)), conn, os)
                    else if mtype reply \<noteq> Msg_File then (Inr (X_Failed []), conn, os)
                    else (case read_file_header (new_reader (payload reply)) of
                        Inl e \<Rightarrow> (Inl e, conn, os)
                      | Inr (got, r) \<Rightarrow>
                          (case make_temp_path dir os of (temp, os) \<Rightarrow>
                           case recv_file_body conn temp (fi_size got) os of (received, hash, conn, os) \<Rightarrow>
                             if received = T_ConnectionLost then (Inr (X_Failed []), conn, os)
                             else if received \<noteq> T_Ok then
                               (Inr (X_Rejected (''the download of '' @ name @ '' was not completed'')), conn, os)
                             else (Inr (X_Ok (got\<lparr>fi_hash := hash\<rparr>, temp)), conn, os)))
                | (_, conn) \<Rightarrow> (Inr (X_Failed []), conn, os))))"

definition download ::
  "string \<Rightarrow> string \<Rightarrow> 'q client \<Rightarrow> (file_info \<times> string) outcome \<times> 'q client" where
  "download name dir = transact (download_exchange name dir)"

definition remove_exchange :: "string \<Rightarrow> u8 \<Rightarrow> ('q, unit) exchange" where
  "remove_exchange name origin conn os =
     (case w_str name (w_u8 origin []) of
        Inl e \<Rightarrow> (Inl e, conn, os)
      | Inr request \<Rightarrow>
          (case call conn Msg_Delete request Msg_Ok of
             (Call_Ok reply, conn) \<Rightarrow> (Inr (X_Ok ()), conn, os)
           | (Call_Rejected reply, conn) \<Rightarrow> (Inr (X_Rejected (error_reason reply)), conn, os)
           | (Call_Failed, conn) \<Rightarrow> (Inr (X_Failed []), conn, os)))"

definition remove_remote :: "string \<Rightarrow> u8 \<Rightarrow> 'q client \<Rightarrow> unit outcome \<times> 'q client" where
  "remove_remote name origin = transact (remove_exchange name origin)"

definition read_file_list :: "string \<Rightarrow> protocol_error + file_info list" where
  "read_file_list body =
     ebind (r_u32 (new_reader body)) (\<lambda>(n, r).
     ebind (read_n read_file_info (unat n) r) (\<lambda>(files, r). Inr files))"

definition list_exchange :: "('q, file_info list) exchange" where
  "list_exchange conn os =
     (case call conn Msg_ListFiles [] Msg_FileList of
        (Call_Rejected reply, conn) \<Rightarrow> (Inr (X_Rejected (error_reason reply)), conn, os)
      | (Call_Failed, conn) \<Rightarrow> (Inr (X_Failed []), conn, os)
      | (Call_Ok reply, conn) \<Rightarrow>
          (case read_file_list (payload reply) of
             Inl e \<Rightarrow> (Inl e, conn, os)
           | Inr files \<Rightarrow> (Inr (X_Ok files), conn, os)))"

definition list_remote :: "'q client \<Rightarrow> file_info list outcome \<times> 'q client" where
  "list_remote = transact list_exchange"

section \<open>Local files\<close>

definition fill_hash :: "file_info \<Rightarrow> 'q client \<Rightarrow> file_info option" where
  "fill_hash f cl =
     (case state_get (fi_name f) (ct_state cl) of
        Some base \<Rightarrow>
          if fi_size base = fi_size f \<and> fi_mtime base = fi_mtime f then Some (f\<lparr>fi_hash := fi_hash base\<rparr>)
          else map_option (\<lambda>h. f\<lparr>fi_hash := h\<rparr>) (hash_file (join_path (sync_dir cl) (fi_name f)) (ct_os cl))
      | None \<Rightarrow> map_option (\<lambda>h. f\<lparr>fi_hash := h\<rparr>) (hash_file (join_path (sync_dir cl) (fi_name f)) (ct_os cl)))"

definition local_file :: "string \<Rightarrow> 'q client \<Rightarrow> file_info option" where
  "local_file name cl =
     (case stat_file (join_path (sync_dir cl) name) (new_file_info\<lparr>fi_name := name\<rparr>) False (ct_os cl) of
        None \<Rightarrow> None
      | Some info \<Rightarrow> fill_hash info cl)"

text \<open>
  \<open>conflict_name\<close>: the loop looks for a name that is not a regular file yet. (The 32 bytes of
  \<open>stamp\<close> keep \<open>room\<close> positive, so its subtraction does not wrap.)
\<close>

definition extension_dot :: "string \<Rightarrow> nat" where
  "extension_dot f =
     (case rfind_char (CHR ''.'') f of None \<Rightarrow> length f | Some d \<Rightarrow> if d = 0 then length f else d)"

definition conflict_tag :: "string \<Rightarrow> nat \<Rightarrow> string" where
  "conflict_tag stamp attempt =
     '' (conflicted copy '' @ stamp @ (if 1 < attempt then '' '' @ to_dec attempt else []) @ '')''"

definition conflict_file :: "string \<Rightarrow> string \<Rightarrow> nat \<Rightarrow> string" where
  "conflict_file stamp f attempt =
     (let stem = take (extension_dot f) f;
          extension = drop (extension_dot f) f;
          tag = conflict_tag stamp attempt;
          room = MAX_NAME_LENGTH - length tag - min (length extension) 32
      in take room stem @ tag @ take 32 extension)"

definition conflict_candidate :: "string \<Rightarrow> string \<Rightarrow> nat \<Rightarrow> string" where
  "conflict_candidate stamp name attempt =
     (let dir = parent_path name; candidate = conflict_file stamp (base_name name) attempt
      in if dir = [] then candidate else dir @ slash # candidate)"

partial_function (option) conflict_loop :: "string \<Rightarrow> string \<Rightarrow> string \<Rightarrow> nat \<Rightarrow> os \<Rightarrow> string option" where
  "conflict_loop dir stamp name attempt os =
     (if stat_file (join_path dir (conflict_candidate stamp name attempt)) new_file_info False os = None
      then Some (conflict_candidate stamp name attempt)
      else conflict_loop dir stamp name (Suc attempt) os)"

definition conflict_name :: "string \<Rightarrow> 'q client \<Rightarrow> string option" where
  "conflict_name name cl = conflict_loop (sync_dir cl) (ct_stamp cl) name 1 (ct_os cl)"

definition save_state :: "'q client \<Rightarrow> 'q client" where
  "save_state cl = cl\<lparr>ct_os := snd (state_save (ct_state cl) (ct_os cl))\<rparr>"

definition on_state :: "(sync_state \<Rightarrow> sync_state) \<Rightarrow> 'q client \<Rightarrow> 'q client" where
  "on_state f cl = cl\<lparr>ct_state := f (ct_state cl)\<rparr>"

text \<open>
  \<open>install\<close>, in its two parts. The first keeps a local version that was never synced; a file
  name for it that is not found (see \<open>conflict_name\<close>) would be a loop without end, here
  \<^term>\<open>None\<close>.
\<close>

definition unsynced :: "string \<Rightarrow> file_info \<Rightarrow> 'q client \<Rightarrow> bool" where
  "unsynced name info cl \<longleftrightarrow>
     (case local_file name cl of
        None \<Rightarrow> False
      | Some current \<Rightarrow> \<not> same_content current info \<and>
          \<not> (case state_get name (ct_state cl) of None \<Rightarrow> False | Some base \<Rightarrow> same_content base current))"

definition keep_conflicted :: "string \<Rightarrow> file_info \<Rightarrow> 'q client \<Rightarrow> 'q client option" where
  "keep_conflicted name info cl =
     (if \<not> unsynced name info cl then Some cl
      else case conflict_name name cl of
        None \<Rightarrow> None
      | Some copy \<Rightarrow>
          (case replace_file (join_path (sync_dir cl) name) (join_path (sync_dir cl) copy) (ct_os cl) of
             (moved, os) \<Rightarrow>
               let cl = cl\<lparr>ct_os := os\<rparr> in
               Some (if moved
                     then say (''[sync] '' @ name @ '' was changed both here and elsewhere; your version was kept as '' @
                            [dquote] @ copy @ [dquote]) cl
                     else cl)))"

definition place_file :: "string \<Rightarrow> string \<Rightarrow> file_info \<Rightarrow> 'q client \<Rightarrow> 'q client" where
  "place_file temp name info cl =
     (let path = join_path (sync_dir cl) name;
          cl = on_state (state_set (info\<lparr>fi_name := name\<rparr>))
                 (cl\<lparr>ct_os := snd (set_mtime temp (fi_mtime info) (ct_os cl))\<rparr>)
      in case make_parent_dirs (sync_dir cl) name (ct_os cl) of (made, os) \<Rightarrow>
         case (if made then replace_file temp path os else (False, os)) of
           (True, os) \<Rightarrow> save_state (cl\<lparr>ct_os := os\<rparr>)
         | (False, os) \<Rightarrow>
             save_state (say (''Could not write '' @ path @ '' (a file and a folder can'' @ [quote] @
                               ''t have the same name)'')
                           (on_state (state_erase name) (cl\<lparr>ct_os := snd (remove_file temp os)\<rparr>))))"

definition install :: "string \<Rightarrow> string \<Rightarrow> file_info \<Rightarrow> 'q client \<Rightarrow> 'q client option" where
  "install temp name info cl = map_option (place_file temp name info) (keep_conflicted name info cl)"

end
