(* ===== verification/Client_Sync.thy ===== *)
theory Client_Sync
  imports Client
begin

text \<open>
  \<open>client/client.cpp\<close>, synchronization: \<open>reconcile\<close> and what follows local changes and the
  server's pushes, the queue of the worker, and the loops of the supervisor and the worker.
  A step that installs a file is \<^term>\<open>None\<close> when \<open>conflict_name\<close> does not end (it always
  does: \<open>Client_Properties\<close>).
\<close>

section \<open>Reconciling\<close>

text \<open>What the loop of \<open>reconcile\<close> decides for one name.\<close>

datatype sync_action = Keep_same | Forget | Push_file | Push_deletion | Pull_file | Delete_here

definition changed :: "file_info option \<Rightarrow> file_info option \<Rightarrow> bool" where
  "changed side base \<longleftrightarrow>
     (case side of
        None \<Rightarrow> base \<noteq> None
      | Some f \<Rightarrow> \<not> (case base of None \<Rightarrow> False | Some b \<Rightarrow> same_content b f))"

definition decide :: "file_info option \<Rightarrow> file_info option \<Rightarrow> file_info option \<Rightarrow> sync_action" where
  "decide here there base =
     (if (case (here, there) of (Some l, Some r) \<Rightarrow> same_content l r | _ \<Rightarrow> False) then Keep_same
      else if here = None \<and> there = None then Forget
      else
        let push = (if changed here base \<noteq> changed there base then changed here base
                    else if here \<noteq> None \<and> there \<noteq> None then False
                    else here \<noteq> None)
        in if push \<and> here \<noteq> None then Push_file
           else if push then Push_deletion
           else if there \<noteq> None then Pull_file
           else Delete_here)"

record sync_counts =
  n_uploaded :: nat
  n_downloaded :: nat
  n_deleted_here :: nat
  n_deleted_there :: nat

definition no_counts :: sync_counts where
  "no_counts = \<lparr>n_uploaded = 0, n_downloaded = 0, n_deleted_here = 0, n_deleted_there = 0\<rparr>"

definition delete_here :: "string \<Rightarrow> 'q client \<Rightarrow> 'q client" where
  "delete_here name cl =
     on_state (state_erase name)
       (cl\<lparr>ct_os := remove_empty_parents (sync_dir cl) name
                      (snd (remove_file (join_path (sync_dir cl) name) (ct_os cl)))\<rparr>)"

definition reconcile_one ::
  "string \<Rightarrow> file_info option \<Rightarrow> file_info option \<Rightarrow> sync_counts \<Rightarrow> 'q client \<Rightarrow>
     (unit outcome \<times> sync_counts \<times> 'q client) option" where
  "reconcile_one name here there counts cl =
     (case decide here there (state_get name (ct_state cl)) of
        Keep_same \<Rightarrow> Some (X_Ok (), counts, on_state (state_set (the here)) cl)
      | Forget \<Rightarrow> Some (X_Ok (), counts, on_state (state_erase name) cl)
      | Push_file \<Rightarrow>
          (case upload (join_path (sync_dir cl) name) name Origin_Sync cl of
             (X_Ok u, cl) \<Rightarrow>
               Some (X_Ok (), counts\<lparr>n_uploaded := Suc (n_uploaded counts)\<rparr>, on_state (state_set (the here)) cl)
           | (res, cl) \<Rightarrow> Some (res, counts, cl))
      | Push_deletion \<Rightarrow>
          (case remove_remote name Origin_Sync cl of
             (X_Failed e, cl) \<Rightarrow> Some (X_Failed e, counts, cl)
           | (res, cl) \<Rightarrow>
               Some (res, counts\<lparr>n_deleted_there := Suc (n_deleted_there counts)\<rparr>, on_state (state_erase name) cl))
      | Pull_file \<Rightarrow>
          (case download name (sync_dir cl) cl of
             (X_Ok (got, temp), cl) \<Rightarrow>
               (case install temp name got cl of
                  None \<Rightarrow> None
                | Some cl \<Rightarrow> Some (X_Ok (), counts\<lparr>n_downloaded := Suc (n_downloaded counts)\<rparr>, cl))
           | (X_Rejected e, cl) \<Rightarrow> Some (X_Rejected e, counts, cl)
           | (X_Failed e, cl) \<Rightarrow> Some (X_Failed e, counts, cl))
      | Delete_here \<Rightarrow>
          Some (X_Ok (), counts\<lparr>n_deleted_here := Suc (n_deleted_here counts)\<rparr>, delete_here name cl))"

fun reconcile_loop ::
  "(string \<Rightarrow> file_info option) \<Rightarrow> (string \<Rightarrow> file_info option) \<Rightarrow> string list \<Rightarrow> sync_counts \<Rightarrow>
     'q client \<Rightarrow> (bool \<times> sync_counts \<times> 'q client) option" where
  "reconcile_loop local remote [] counts cl = Some (True, counts, cl)"
| "reconcile_loop local remote (name # names) counts cl =
     (case reconcile_one name (local name) (remote name) counts cl of
        None \<Rightarrow> None
      | Some (X_Failed e, counts, cl) \<Rightarrow> Some (False, counts, cl)
      | Some (X_Rejected e, counts, cl) \<Rightarrow>
          reconcile_loop local remote names counts (say (''Could not sync '' @ name @ '': '' @ e) cl)
      | Some (X_Ok u, counts, cl) \<Rightarrow> reconcile_loop local remote names counts cl)"

text \<open>The two maps, and the names in the order of the \<open>std::set\<close>.\<close>

definition local_map :: "'q client \<Rightarrow> (string, file_info) omap" where
  "local_map cl =
     foldl (\<lambda>m f. case fill_hash f cl of None \<Rightarrow> m | Some f \<Rightarrow> omap_put (fi_name f) f m) []
       (list_tree (sync_dir cl) (ct_os cl))"

definition remote_map :: "file_info list \<Rightarrow> (string, file_info) omap" where
  "remote_map files =
     foldl (\<lambda>m f. if is_valid_path (fi_name f) then omap_put (fi_name f) f m else m) [] files"

definition sync_names ::
  "(string, file_info) omap \<Rightarrow> (string, file_info) omap \<Rightarrow> sync_state \<Rightarrow> string list" where
  "sync_names local remote st = sort (remdups (map fst local @ map fst remote @ state_names st))"

definition counts_report :: "sync_counts \<Rightarrow> string" where
  "counts_report n =
     ''Synchronized with the server: '' @ to_dec (n_uploaded n) @ '' uploaded, '' @
     to_dec (n_downloaded n) @ '' downloaded, '' @ to_dec (n_deleted_there n) @
     '' deleted on the server, '' @ to_dec (n_deleted_here n) @ '' deleted locally.''"

definition reconcile :: "bool \<Rightarrow> 'q client \<Rightarrow> (bool \<times> 'q client) option" where
  "reconcile report cl =
     (case list_remote cl of
        (X_Failed e, cl) \<Rightarrow> Some (False, cl)
      | (X_Rejected e, cl) \<Rightarrow> Some (True, say (''Could not list the files on the server: '' @ e) cl)
      | (X_Ok files, cl) \<Rightarrow>
          (let local = local_map cl; remote = remote_map files in
           case reconcile_loop (map_of local) (map_of remote) (sync_names local remote (ct_state cl)) no_counts cl of
             None \<Rightarrow> None
           | Some (False, counts, cl) \<Rightarrow> Some (False, save_state cl)
           | Some (True, counts, cl) \<Rightarrow>
               let cl = save_state cl in
               Some (True,
                 if report \<and>
                    0 < n_uploaded counts + n_downloaded counts + n_deleted_here counts + n_deleted_there counts
                 then say (counts_report counts) cl else cl)))"

section \<open>Local changes\<close>

definition sync_local_change :: "string \<Rightarrow> 'q client \<Rightarrow> 'q client" where
  "sync_local_change name cl =
     (case (local_file name cl, state_get name (ct_state cl)) of
        (None, None) \<Rightarrow> cl
      | (Some here, base) \<Rightarrow>
          if (case base of None \<Rightarrow> False | Some b \<Rightarrow> same_content b here) then cl
          else (case upload (join_path (sync_dir cl) name) name Origin_Sync cl of
              (X_Ok u, cl) \<Rightarrow> say (''[sync] uploaded '' @ name) (save_state (on_state (state_set here) cl))
            | (X_Rejected e, cl) \<Rightarrow> say (''[sync] could not upload '' @ name @ '': '' @ e) cl
            | (X_Failed e, cl) \<Rightarrow> cl)
      | (None, Some base) \<Rightarrow>
          (case remove_remote name Origin_Sync cl of
             (X_Failed e, cl) \<Rightarrow> cl
           | (X_Ok u, cl) \<Rightarrow>
               say (''[sync] deleted '' @ name @ '' on the server'') (save_state (on_state (state_erase name) cl))
           | (X_Rejected e, cl) \<Rightarrow> save_state (on_state (state_erase name) cl)))"

definition rescan_names :: "'q client \<Rightarrow> string list" where
  "rescan_names cl =
     sort (remdups (map fi_name (list_tree (sync_dir cl) (ct_os cl)) @ state_names (ct_state cl)))"

definition rescan_local :: "'q client \<Rightarrow> 'q client" where
  "rescan_local cl = fold sync_local_change (rescan_names cl) cl"

text \<open>The queue of names, each at most once.\<close>

definition enqueue :: "string \<Rightarrow> 'q client \<Rightarrow> 'q client" where
  "enqueue name cl =
     (if name \<in> ct_queued cl then cl
      else cl\<lparr>ct_queued := insert name (ct_queued cl), ct_queue := ct_queue cl @ [name]\<rparr>)"

text \<open>
  One turn of \<open>worker_loop\<close>, \<open>others\<close> being what happens while it waits for a connection. The
  result says whether the thread goes on.
\<close>

definition worker_turn :: "('q client \<Rightarrow> 'q client) \<Rightarrow> 'q client \<Rightarrow> bool \<times> 'q client" where
  "worker_turn others cl =
     (if ct_stopping cl then (False, cl)
      else case ct_queue cl of
        [] \<Rightarrow> (True, cl)
      | name # rest \<Rightarrow>
          (let cl = others (cl\<lparr>ct_queue := rest, ct_queued := ct_queued cl - {name}\<rparr>) in
           (True,
            if wait_for_connection cl = None then cl
            else if name = [] then rescan_local cl
            else sync_local_change name cl)))"

section \<open>Pushes\<close>

text \<open>Whether the sync connection can still be trusted.\<close>

definition push_file_received :: "'q conn \<Rightarrow> string \<Rightarrow> 'q client \<Rightarrow> (bool \<times> 'q conn \<times> 'q client) option" where
  "push_file_received sync body cl =
     (case read_file_header (new_reader body) of
        Inl e \<Rightarrow> Some (False, sync, cl)
      | Inr (info, r) \<Rightarrow>
          (case make_temp_path (sync_dir cl) (ct_os cl) of (temp, os) \<Rightarrow>
           case recv_file_body sync temp (fi_size info) os of (received, hash, sync, os) \<Rightarrow>
             let cl = cl\<lparr>ct_os := os\<rparr>; info = info\<lparr>fi_hash := hash\<rparr> in
             if received = T_ConnectionLost then Some (False, sync, cl)
             else if received \<noteq> T_Ok \<or> \<not> is_valid_path (fi_name info) then
               Some (True, sync, cl\<lparr>ct_os := snd (remove_file temp os)\<rparr>)
             else map_option
               (\<lambda>cl. (True, sync, say_size (''[sync] received '' @ fi_name info @ '' ('') (fi_size info) '')'' cl))
               (install temp (fi_name info) info cl)))"

definition push_delete_received :: "string \<Rightarrow> 'q client \<Rightarrow> bool \<times> 'q client" where
  "push_delete_received body cl =
     (case r_str (new_reader body) of
        Inl e \<Rightarrow> (False, cl)
      | Inr (name, r) \<Rightarrow>
          if \<not> is_valid_path name then (True, cl)
          else
            let cl = save_state (on_state (state_erase name) cl) in
            case remove_file (join_path (sync_dir cl) name) (ct_os cl) of
              (False, os) \<Rightarrow> (True, cl\<lparr>ct_os := os\<rparr>)
            | (True, os) \<Rightarrow>
                (True, say (''[sync] '' @ name @ '' was deleted on the server'')
                         (cl\<lparr>ct_os := remove_empty_parents (sync_dir cl) name os\<rparr>)))"

definition handle_push :: "'q conn \<Rightarrow> message \<Rightarrow> 'q client \<Rightarrow> (bool \<times> 'q conn \<times> 'q client) option" where
  "handle_push sync m cl =
     (if mtype m = Msg_PushFile then push_file_received sync (payload m) cl
      else if mtype m = Msg_PushDelete then
        (case push_delete_received (payload m) cl of (ok, cl) \<Rightarrow> Some (ok, sync, cl))
      else if mtype m = Msg_ServerList then
        (case read_servers (new_reader (payload m)) of
           Inl e \<Rightarrow> Some (False, sync, cl)
         | Inr (servers, r) \<Rightarrow> Some (True, sync, cl\<lparr>ct_servers := servers\<rparr>))
      else if mtype m = Msg_Notice then
        (case r_str (new_reader (payload m)) of
           Inl e \<Rightarrow> Some (False, sync, cl)
         | Inr (notice, r) \<Rightarrow> Some (True, sync, say (''[cluster] '' @ notice) cl))
      else Some (True, sync, cl))"

section \<open>The supervisor\<close>

text \<open>
  One turn of \<open>receive_loop\<close>: \<open>due\<close> says whether the ping interval is over, \<open>busy\<close> whether the
  command connection is in use, and \<open>others\<close> is what other threads did meanwhile.
\<close>

record 'q turn =
  tn_due :: bool
  tn_busy :: bool
  tn_others :: "'q client \<Rightarrow> 'q client"

definition receive_turn :: "'q turn \<Rightarrow> 'q client \<Rightarrow> (bool \<times> 'q client) option" where
  "receive_turn t cl =
     (case ct_sync cl of
        None \<Rightarrow> Some (False, cl)
      | Some sync \<Rightarrow>
          (case conn_recv sync of (status, sync) \<Rightarrow>
           let cl = cl\<lparr>ct_sync := Some sync\<rparr> in
           case (case status of
                   Recv_Closed \<Rightarrow> Some (False, cl)
                 | Recv_Timeout \<Rightarrow> Some (True, cl)
                 | Received m \<Rightarrow>
                     map_option (\<lambda>(ok, sync, cl). (ok, cl\<lparr>ct_sync := Some sync\<rparr>)) (handle_push sync m cl)) of
             None \<Rightarrow> None
           | Some (False, cl) \<Rightarrow> Some (False, cl)
           | Some (True, cl) \<Rightarrow>
               (case (if tn_due t then ping (tn_busy t) cl else (True, cl)) of
                  (False, cl) \<Rightarrow> Some (False, cl)
                | (True, cl) \<Rightarrow> let cl = tn_others t cl in Some (ct_connected cl, cl))))"

fun receive_loop :: "'q turn list \<Rightarrow> 'q client \<Rightarrow> 'q client option" where
  "receive_loop [] cl = Some cl"
| "receive_loop (t # ts) cl =
     (if ct_stopping cl then Some cl
      else case receive_turn t cl of
        None \<Rightarrow> None
      | Some (False, cl) \<Rightarrow> Some cl
      | Some (True, cl) \<Rightarrow> receive_loop ts cl)"

text \<open>
  One turn of \<open>supervisor_loop\<close> after the reconnection, on the connection it has then.
\<close>

definition supervise :: "'q turn list \<Rightarrow> 'q client \<Rightarrow> 'q client option" where
  "supervise turns cl =
     (let cmd = ct_conns cl in
      case reconcile True cl of
        None \<Rightarrow> None
      | Some (ok, cl) \<Rightarrow>
          map_option (mark_disconnected (Some cmd)) (if ok then receive_loop turns cl else Some cl))"

definition supervisor_turn ::
  "bool \<Rightarrow> ('q dialer \<times> ('q client \<Rightarrow> 'q client)) list \<Rightarrow> 'q turn list \<Rightarrow> 'q client \<Rightarrow>
     (protocol_error + bool option) \<times> 'q client option" where
  "supervisor_turn first env turns cl =
     (if ct_stopping cl then (Inr (Some False), Some cl)
      else case (if first then (Inr (Some True), cl)
                 else reconnect 0 env (say ''Connection to the server lost. Reconnecting...'' cl)) of
        (Inr (Some True), cl) \<Rightarrow> (Inr (Some True), supervise turns cl)
      | (res, cl) \<Rightarrow> (res, Some cl))"

end
