(* ===== verification/Client_Commands.thy ===== *)
theory Client_Commands
  imports Client_Sync
begin

text \<open>
  \<open>client/client.cpp\<close>: the commands of the user, the start and the end of the client. Commands
  run while the other threads wait; where one waits for a connection, the state given is the
  one at the end of the wait.
\<close>

definition is_blank :: "char \<Rightarrow> bool" where
  "is_blank c \<longleftrightarrow> c = CHR '' '' \<or> c = CHR 0x09 \<or> c = CHR 0x0D \<or> c = CHR 0x0A"

definition trim :: "string \<Rightarrow> string" where
  "trim s = dropWhile is_blank (rev (dropWhile is_blank (rev s)))"

definition split_command :: "string \<Rightarrow> string \<times> string" where
  "split_command s =
     (let p = (\<lambda>c. c \<noteq> CHR '' '' \<and> c \<noteq> CHR 0x09) in (takeWhile p s, trim (dropWhile p s)))"

definition HELP :: string where
  "HELP =
     ''Commands:'' @ [newline] @
     ''  upload <path>     send a file to the server; it then shows up in every synced sync_dir'' @ [newline] @
     ''  download <path>   copy a file from the server into the current directory'' @ [newline] @
     ''  delete <path>     delete a file from the server and from every synced sync_dir'' @ [newline] @
     ''  list_server       list your files on the server'' @ [newline] @
     ''  list_client       list the files in your sync_dir'' @ [newline] @
     ''  sync              compare sync_dir with the server again (get_sync_dir also works)'' @ [newline] @
     ''  exit              log out and quit'' @ [newline] @
     ''Files you add, change or delete in sync_dir (subfolders included) are synced automatically.''"

definition cmd_upload :: "string \<Rightarrow> 'q client \<Rightarrow> 'q client" where
  "cmd_upload path cl =
     (let name = base_name path in
      if path = [] \<or> \<not> is_valid_file_name name then say ''Usage: upload <path to a file>'' cl
      else case stat_file path new_file_info False (ct_os cl) of
        None \<Rightarrow> say (''Cannot read '' @ path @ '' (it must be an existing regular file)'') cl
      | Some info \<Rightarrow>
          (case upload path name Origin_Command cl of
             (X_Ok u, cl) \<Rightarrow> say_size (''Uploaded '' @ name @ '' ('') (fi_size info) '').'' cl
           | (X_Rejected e, cl) \<Rightarrow> say (''Upload failed: '' @ e) cl
           | (X_Failed e, cl) \<Rightarrow> say (''Upload failed: '' @ e) cl))"

definition cmd_download :: "string \<Rightarrow> 'q client \<Rightarrow> 'q client" where
  "cmd_download name cl =
     (if \<not> is_valid_path name then say ''Usage: download <file path, as shown by list_server>'' cl
      else case download name ''.'' cl of
        (X_Rejected e, cl) \<Rightarrow> say (''Download failed: '' @ e) cl
      | (X_Failed e, cl) \<Rightarrow> say (''Download failed: '' @ e) cl
      | (X_Ok (got, temp), cl) \<Rightarrow>
          (let dest = base_name name;
               os = snd (set_mtime temp (fi_mtime got) (ct_os cl))
           in case replace_file temp dest os of
                (True, os) \<Rightarrow>
                  say_size (''Downloaded '' @ name @ '' ('') (fi_size got) ('') to ./'' @ dest) (cl\<lparr>ct_os := os\<rparr>)
              | (False, os) \<Rightarrow>
                  say (''Could not write ./'' @ dest) (cl\<lparr>ct_os := snd (remove_file temp os)\<rparr>)))"

definition cmd_delete :: "string \<Rightarrow> 'q client \<Rightarrow> 'q client" where
  "cmd_delete name cl =
     (if \<not> is_valid_path name then say ''Usage: delete <file path, as shown by list_server>'' cl
      else case remove_remote name Origin_Command cl of
        (X_Ok u, cl) \<Rightarrow> say (''Deleted '' @ name @ '' on the server.'') cl
      | (X_Rejected e, cl) \<Rightarrow> say (''Delete failed: '' @ e) cl
      | (X_Failed e, cl) \<Rightarrow> say (''Delete failed: '' @ e) cl)"

definition say_table :: "string \<Rightarrow> file_info list \<Rightarrow> 'q client \<Rightarrow> 'q client" where
  "say_table title files cl = cl\<lparr>ct_output := ct_output cl @ [Said_table title files]\<rparr>"

definition cmd_list_server :: "'q client \<Rightarrow> 'q client" where
  "cmd_list_server cl =
     (case list_remote cl of
        (X_Ok files, cl) \<Rightarrow> say_table (''Files on the server:'' @ [newline]) files cl
      | (X_Rejected e, cl) \<Rightarrow> say (''Could not list the server'' @ [quote] @ ''s files: '' @ e) cl
      | (X_Failed e, cl) \<Rightarrow> say (''Could not list the server'' @ [quote] @ ''s files: '' @ e) cl)"

definition cmd_list_client :: "'q client \<Rightarrow> 'q client" where
  "cmd_list_client cl =
     say_table (''Files in '' @ sync_dir cl @ '':'' @ [newline]) (list_tree (sync_dir cl) (ct_os cl)) cl"

definition cmd_sync :: "'q client \<Rightarrow> 'q client option" where
  "cmd_sync cl =
     (if wait_for_connection cl = None then Some (say ''Not connected to a server.'' cl)
      else case reconcile True cl of
        None \<Rightarrow> None
      | Some (True, cl) \<Rightarrow> Some (say ''The sync directory is up to date.'' cl)
      | Some (False, cl) \<Rightarrow>
          Some (say ''Lost the connection while synchronizing; it will be retried after reconnecting.'' cl))"

definition do_command :: "string \<Rightarrow> string \<Rightarrow> 'q client \<Rightarrow> 'q client option" where
  "do_command command argument cl =
     (if command = ''help'' then Some (say HELP cl)
      else if command = ''upload'' then Some (cmd_upload argument cl)
      else if command = ''download'' then Some (cmd_download argument cl)
      else if command = ''delete'' then Some (cmd_delete argument cl)
      else if command = ''list_server'' then Some (cmd_list_server cl)
      else if command = ''list_client'' then Some (cmd_list_client cl)
      else if command = ''sync'' \<or> command = ''get_sync_dir'' then cmd_sync cl
      else Some (say (''Unknown command '' @ [quote] @ command @ [quote] @
                      ''. Type '' @ [quote] @ ''help'' @ [quote] @ '' for the list of commands.'') cl))"

text \<open>\<open>run_command\<close>: whether the client goes on, or \<^term>\<open>None\<close> where \<open>cmd_sync\<close> is.\<close>

definition run_command :: "string \<Rightarrow> 'q client \<Rightarrow> (bool \<times> 'q client) option" where
  "run_command line cl =
     (let s = trim line in
      if s = [] then Some (True, cl)
      else case split_command s of (command, argument) \<Rightarrow>
        if command = ''exit'' \<or> command = ''quit'' then Some (False, cl)
        else map_option (Pair True) (do_command command argument cl))"

text \<open>
  The lines of the input, each with what the other threads do before it is read. The result
  says whether the loop has ended.
\<close>

fun command_loop ::
  "(string \<times> ('q client \<Rightarrow> 'q client)) list \<Rightarrow> 'q client \<Rightarrow> 'q client option" where
  "command_loop [] cl = Some cl"
| "command_loop ((line, others) # lines) cl =
     (if ct_stopping cl then Some cl
      else case run_command line (others cl) of
        None \<Rightarrow> None
      | Some (False, cl) \<Rightarrow> Some cl
      | Some (True, cl) \<Rightarrow> command_loop lines cl)"

section \<open>Start and end\<close>

definition shutdown_client :: "'q client \<Rightarrow> 'q client" where
  "shutdown_client cl =
     (if ct_stopping cl then cl
      else
        let cl = cl\<lparr>ct_stopping := True\<rparr> in
        case (if ct_connected cl then ct_cmd cl else None) of
          None \<Rightarrow> mark_disconnected None cl
        | Some cmd \<Rightarrow>
            say ''Logged out.''
              (mark_disconnected None (cl\<lparr>ct_cmd := Some (snd (call cmd Msg_Logout [] Msg_Ok))\<rparr>)))"

text \<open>
  \<open>run\<close>, up to the start of the threads: \<open>watching\<close> says whether the watcher could be started.
  An exception that it does not catch is \<open>Start_throws\<close>.
\<close>

datatype start_result = Start_running | Start_exit nat | Start_throws

definition client_start :: "'q dialer \<Rightarrow> bool \<Rightarrow> 'q client \<Rightarrow> start_result \<times> 'q client" where
  "client_start dial watching cl =
     (case make_dirs (sync_dir cl) (ct_os cl) of
        (False, os) \<Rightarrow>
          (Start_exit 1, say (''Could not create the sync directory '' @ sync_dir cl) (cl\<lparr>ct_os := os\<rparr>))
      | (True, os) \<Rightarrow>
          let cl = cl\<lparr>ct_os := os\<rparr> in
          (case state_load (ct_state cl) os of
             Inl e \<Rightarrow> (Start_throws, cl)
           | Inr st \<Rightarrow>
               (case connect_once dial (cl\<lparr>ct_state := st\<rparr>) of
                  (Inl e, cl) \<Rightarrow> (Start_throws, cl)
                | (Inr Unreachable, cl) \<Rightarrow>
                    (Start_exit 1, say (''Could not connect to '' @ op_host (ct_options cl) @ '':'' @
                                        to_dec (unat (op_port (ct_options cl)))) cl)
                | (Inr Refused, cl) \<Rightarrow> (Start_exit 1, cl)
                | (Inr Connected, cl) \<Rightarrow>
                    if watching then (Start_running, say (''Type '' @ [quote] @ ''help'' @ [quote] @ '' for the list of commands.'') cl)
                    else (Start_exit 1,
                          shutdown_client (say (''Could not watch '' @ sync_dir cl @ '' for changes'') cl)))))"

definition new_client :: "client_options \<Rightarrow> os \<Rightarrow> string \<Rightarrow> 'q client" where
  "new_client opts os stamp =
     \<lparr>ct_options = opts, ct_os = os,
      ct_state = \<lparr>ss_path = join_path (op_sync_dir opts) (RESERVED_PREFIX @ ''_state''), ss_entries = []\<rparr>,
      ct_cmd = None, ct_sync = None, ct_conns = 0, ct_connected = False, ct_servers = [], ct_stopping = False,
      ct_queue = [], ct_queued = {}, ct_output = [], ct_stamp = stamp\<rparr>"

end
