(* ===== verification/Conflict_Names.thy ===== *)
theory Conflict_Names
  imports Client
begin

text \<open>
  The names of conflicted copies: \<open>conflict_name\<close> always finds one, in the directory of the
  file, and it is a name that is synced like any other.
\<close>

text \<open>What \<open>strftime\<close> may write: less than the 32 bytes of its buffer, and characters of names.\<close>

definition stamp_ok :: "string \<Rightarrow> bool" where
  "stamp_ok stamp \<longleftrightarrow> length stamp < 32 \<and> list_all name_char stamp"

lemma digit_name_char: "is_digit c \<Longrightarrow> name_char c"
  by (auto simp: name_char_def digit_range)

lemma conflict_tag_chars: "stamp_ok stamp \<Longrightarrow> c \<in> set (conflict_tag stamp n) \<Longrightarrow> name_char c"
proof -
  assume ok: "stamp_ok stamp" and c: "c \<in> set (conflict_tag stamp n)"
  have "list_all name_char '' (conflicted copy ''" "list_all name_char '' ''" "list_all name_char '')''"
    by (simp_all add: name_char_def)
  moreover have "list_all name_char (to_dec n)"
    using to_dec_digits digit_name_char by (auto simp: list_all_iff)
  moreover have "list_all name_char stamp" using ok by (simp add: stamp_ok_def)
  ultimately have "list_all name_char (conflict_tag stamp n)"
    unfolding conflict_tag_def by (simp only: list_all_append split: if_split) simp
  with c show ?thesis by (simp add: list_all_iff)
qed

lemma conflict_file_chars:
  assumes "stamp_ok stamp" "c \<in> set (conflict_file stamp f n)"
  shows "c \<in> set f \<or> name_char c"
  using assms(2) conflict_tag_chars [OF assms(1)]
  unfolding conflict_file_def Let_def set_append
  by (auto dest!: in_set_takeD in_set_dropD)

lemma conflict_file_no_slash:
  "stamp_ok stamp \<Longrightarrow> slash \<notin> set f \<Longrightarrow> slash \<notin> set (conflict_file stamp f n)"
  using conflict_file_chars by fastforce

lemma conflict_file_long: "18 < length (conflict_file stamp f n)"
  by (simp add: conflict_file_def conflict_tag_def Let_def)

lemma conflict_file_good: "stamp_ok stamp \<Longrightarrow> slash \<notin> set f \<Longrightarrow> good_name (conflict_file stamp f n)"
  using conflict_file_long [of stamp f n] conflict_file_no_slash by (auto simp: good_name_def)

lemma last_digits_inj:
  assumes "p @ '' '' @ to_dec m @ s = q @ '' '' @ to_dec n @ s"
  shows "m = n"
proof -
  have tw: "takeWhile is_digit (rev (p @ '' '' @ to_dec k)) = rev (to_dec k)" for p k
  proof -
    have "\<forall>c \<in> set (rev (to_dec k)). is_digit c" using to_dec_digits by simp
    then have "takeWhile is_digit (rev (to_dec k) @ CHR '' '' # rev p) = rev (to_dec k)"
      by (subst takeWhile_append2) (auto simp: is_digit_def less_eq_char_def)
    then show ?thesis by simp
  qed
  have "p @ '' '' @ to_dec m = q @ '' '' @ to_dec n" using assms by simp
  then have "rev (to_dec m) = rev (to_dec n)" by (metis tw)
  then show ?thesis by (metis dec_value_to_dec rev_rev_ident)
qed

lemma conflict_file_inj:
  assumes "conflict_file stamp f m = conflict_file stamp f n" "1 < m" "1 < n"
  shows "m = n"
proof -
  have eq: "\<exists>p. conflict_file stamp f k = p @ '' '' @ to_dec k @ '')'' @ take 32 (drop (extension_dot f) f)"
    if "1 < k" for k
  proof -
    obtain r where "conflict_file stamp f k =
        take r (take (extension_dot f) f) @ conflict_tag stamp k @ take 32 (drop (extension_dot f) f)"
      by (auto simp: conflict_file_def Let_def)
    moreover have "conflict_tag stamp k = ('' (conflicted copy '' @ stamp) @ '' '' @ to_dec k @ '')''"
      using that by (simp add: conflict_tag_def)
    ultimately have "conflict_file stamp f k = (take r (take (extension_dot f) f) @ '' (conflicted copy '' @ stamp) @
        '' '' @ to_dec k @ '')'' @ take 32 (drop (extension_dot f) f)"
      by (simp only: append.assoc)
    then show ?thesis
      by (rule exI [where x = "take r (take (extension_dot f) f) @ '' (conflicted copy '' @ stamp"])
  qed
  let ?s = "'')'' @ take 32 (drop (extension_dot f) f)"
  obtain p where p: "conflict_file stamp f m = p @ '' '' @ to_dec m @ ?s" using eq [OF assms(2)] by blast
  obtain q where q: "conflict_file stamp f n = q @ '' '' @ to_dec n @ ?s" using eq [OF assms(3)] by blast
  show ?thesis by (rule last_digits_inj) (rule trans [OF p [symmetric] trans [OF assms(1) q]])
qed

lemma candidate_split:
  assumes "is_valid_path name" "stamp_ok stamp"
  shows "split_on slash (conflict_candidate stamp name n) =
    butlast (split_on slash name) @ [conflict_file stamp (base_name name) n]"
proof -
  have "slash \<notin> set (base_name name)" using path_parts(1) [of name] split_on_parts by (metis list.set_intros(1))
  then have ns: "slash \<notin> set (conflict_file stamp (base_name name) n)"
    using conflict_file_no_slash assms(2) by blast
  show ?thesis
  proof (cases "slash \<in> set name")
    case True
    then have "parent_path name \<noteq> []"
      using valid_parent [OF assms(1)] by (auto simp: is_valid_path_def)
    with True ns show ?thesis
      by (simp add: conflict_candidate_def split_on_append_sep butlast_split_parent)
  next
    case False
    with ns show ?thesis using path_parts(3) [OF False] by (simp add: conflict_candidate_def)
  qed
qed

lemma resolve_candidate:
  assumes "is_valid_path name" "stamp_ok stamp"
  shows "resolve (join_path dir (conflict_candidate stamp name n)) =
    resolve dir @ butlast (split_on slash name) @ [conflict_file stamp (base_name name) n]"
proof -
  have "slash \<notin> set (base_name name)" using path_parts(1) [of name] split_on_parts by (metis list.set_intros(1))
  then have "list_all good_name (butlast (split_on slash name) @ [conflict_file stamp (base_name name) n])"
    using valid_path_good [OF assms(1)] conflict_file_good [OF assms(2)]
    by (auto simp: list_all_iff dest: in_set_butlastD)
  then show ?thesis
    by (simp del: foldl_append list_all_append add: resolve_join candidate_split assms foldl_resolve_names)
qed

section \<open>The loop ends\<close>

lemma conflict_loop_finds:
  "a \<le> k \<Longrightarrow> stat_file (join_path dir (conflict_candidate stamp name k)) new_file_info False os = None \<Longrightarrow>
     \<exists>j. a \<le> j \<and> j \<le> k \<and> conflict_loop dir stamp name a os = Some (conflict_candidate stamp name j) \<and>
       stat_file (join_path dir (conflict_candidate stamp name j)) new_file_info False os = None"
proof (induction "k - a" arbitrary: a)
  case 0
  then show ?case by (subst conflict_loop.simps) auto
next
  case (Suc d)
  show ?case
  proof (cases "stat_file (join_path dir (conflict_candidate stamp name a)) new_file_info False os = None")
    case True
    with Suc.prems show ?thesis by (subst conflict_loop.simps) auto
  next
    case False
    have "d = k - Suc a" "Suc a \<le> k" using Suc by auto
    from Suc.hyps(1) [OF this Suc.prems(2)] obtain j where
      "Suc a \<le> j" "j \<le> k" "conflict_loop dir stamp name (Suc a) os = Some (conflict_candidate stamp name j)"
      "stat_file (join_path dir (conflict_candidate stamp name j)) new_file_info False os = None" by blast
    with False show ?thesis by (subst conflict_loop.simps) (auto intro: Suc_leD)
  qed
qed

lemma stat_file_Some:
  "stat_file path info False os \<noteq> None \<longleftrightarrow> path \<noteq> [] \<and> (\<exists>f. file_at os (resolve path) = Some f)"
  by (auto simp: stat_file_def sys_open_reg_Some sys_open_reg_None split: option.splits prod.splits)

lemma some_candidate_free:
  assumes name: "is_valid_path name" "stamp_ok stamp"
  shows "\<exists>k. 1 \<le> k \<and> k \<le> length (tree os) + 2 \<and>
    stat_file (join_path dir (conflict_candidate stamp name k)) new_file_info False os = None"
proof (rule ccontr)
  let ?r = "\<lambda>k. resolve (join_path dir (conflict_candidate stamp name k))"
  let ?K = "{2..length (tree os) + 2}"
  assume "\<not> ?thesis"
  then have taken: "stat_file (join_path dir (conflict_candidate stamp name k)) new_file_info False os \<noteq> None"
    if "k \<in> ?K" for k using that by (metis Suc_1 Suc_leD atLeastAtMost_iff le_numeral_extra(4) numeral_1_eq_Suc_0 numerals(1))
  have "?r ` ?K \<subseteq> set (map fst (tree os))"
  proof
    fix p assume "p \<in> ?r ` ?K"
    then obtain k where k: "k \<in> ?K" "p = ?r k" by blast
    then obtain bs t where "os_node os p = Some (N_file bs t)"
      using taken [OF k(1)] by (auto simp del: not_None_eq simp: stat_file_Some file_at_Some)
    moreover have "p \<noteq> []" using k by (simp add: resolve_candidate name)
    ultimately show "p \<in> set (map fst (tree os))"
      by (auto simp: os_node_def dest!: map_of_SomeD intro: rev_image_eqI)
  qed
  then have "card (?r ` ?K) \<le> length (map fst (tree os))"
    by (meson card_length card_mono finite_set le_trans)
  moreover have "inj_on ?r ?K"
    by (rule inj_onI) (auto simp: resolve_candidate name dest: conflict_file_inj)
  then have "card (?r ` ?K) = length (tree os) + 1" by (simp add: card_image)
  ultimately show False by simp
qed

lemma conflict_loop_total:
  assumes "is_valid_path name" "stamp_ok stamp"
  obtains k where "1 \<le> k" "k \<le> length (tree os) + 2"
    "conflict_loop dir stamp name 1 os = Some (conflict_candidate stamp name k)"
    "stat_file (join_path dir (conflict_candidate stamp name k)) new_file_info False os = None"
  using some_candidate_free [OF assms, of os dir] conflict_loop_finds [of 1] by (metis le_trans)

section \<open>Its result is a valid name\<close>

lemma length_to_dec: "n < 10 ^ Suc w \<Longrightarrow> length (to_dec n) \<le> Suc w"
proof (induction w arbitrary: n)
  case 0
  then show ?case by (subst to_dec.simps) simp
next
  case (Suc w)
  have "n div 10 < 10 ^ Suc w" using Suc.prems by simp
  from Suc.IH [OF this] show ?case by (subst to_dec.simps) simp
qed

lemma length_conflict_file:
  assumes "stamp_ok stamp" "n < 10 ^ 10" "is_valid_file_name f"
  shows "length (conflict_file stamp f n) \<le> MAX_NAME_LENGTH \<and> length (conflict_file stamp f n) \<le> length f + 62"
proof -
  have "length (to_dec n) \<le> 10" using length_to_dec [of n 9] assms(2) by simp
  with assms show ?thesis
    by (auto simp: conflict_file_def conflict_tag_def Let_def stamp_ok_def MAX_NAME_LENGTH_def min_def)
qed

lemma take_prefix_blank:
  assumes "take 6 (take r s @ CHR '' '' # u) = ''.sisop''" "6 \<le> r"
  shows "take 6 s = ''.sisop''"
proof (cases "6 \<le> length s")
  case True
  with assms show ?thesis by simp
next
  case False
  then have "take r s = s" using assms(2) by simp
  obtain m where "6 - length s = Suc m" using False by (metis diff_is_0_eq not0_implies_Suc)
  then have "take 6 (s @ CHR '' '' # u) ! length s = CHR '' ''" by (simp add: nth_append)
  moreover have "CHR '' '' \<notin> set ''.sisop''" by simp
  moreover have "length s < length (take 6 (s @ CHR '' '' # u))" using False by simp
  ultimately have False using assms(1) \<open>take r s = s\<close> by (metis nth_mem)
  then show ?thesis ..
qed

lemma conflict_file_valid:
  assumes "stamp_ok stamp" "n < 10 ^ 10" "is_valid_file_name f"
  shows "is_valid_file_name (conflict_file stamp f n)"
proof -
  let ?g = "conflict_file stamp f n"
  define r where "r = MAX_NAME_LENGTH - length (conflict_tag stamp n) - min (length (drop (extension_dot f) f)) 32"
  have "length (to_dec n) \<le> 10" using length_to_dec [of n 9] assms(2) by simp
  then have "length (conflict_tag stamp n) \<le> 62" using assms(1) by (simp add: conflict_tag_def stamp_ok_def)
  then have r: "6 \<le> r" by (simp add: r_def MAX_NAME_LENGTH_def)
  obtain v where "conflict_tag stamp n = CHR '' '' # v" by (simp add: conflict_tag_def)
  then obtain u where g: "?g = take r (take (extension_dot f) f) @ CHR '' '' # u"
    by (simp add: conflict_file_def Let_def r_def)
  have "take (length RESERVED_PREFIX) ?g \<noteq> RESERVED_PREFIX"
  proof
    assume "take (length RESERVED_PREFIX) ?g = RESERVED_PREFIX"
    moreover have "length RESERVED_PREFIX = 6" by (simp add: RESERVED_PREFIX_def)
    ultimately have "take 6 (take r (take (extension_dot f) f) @ CHR '' '' # u) = ''.sisop''"
      unfolding g by (simp only: RESERVED_PREFIX_def)
    then have "take 6 (take (extension_dot f) f) = ''.sisop''" using r by (rule take_prefix_blank)
    moreover from arg_cong [OF this, of length] have "6 \<le> extension_dot f"
      by (simp add: min_def split: if_splits)
    ultimately have "take 6 f = ''.sisop''" by simp
    then have "take (length RESERVED_PREFIX) f = RESERVED_PREFIX"
      by (simp add: RESERVED_PREFIX_def numeral_eq_Suc)
    with assms(3) show False by (simp add: is_valid_file_name_def split: if_splits)
  qed
  moreover have "list_all name_char ?g"
    using conflict_file_chars [OF assms(1)] valid_name_chars [OF assms(3)] by (auto simp: list_all_iff)
  moreover have "?g \<noteq> []" "?g \<noteq> ''.''" "?g \<noteq> ''..''" using conflict_file_long [of stamp f n] by auto
  ultimately show ?thesis
    using length_conflict_file [OF assms] by (simp add: is_valid_file_name_def)
qed

lemma conflict_candidate_not_Nil: "conflict_candidate stamp name n \<noteq> []"
  using conflict_file_long [of stamp "base_name name" n] by (auto simp: conflict_candidate_def Let_def)

lemma path_append: "slash \<in> set p \<Longrightarrow> p = parent_path p @ slash # base_name p"
proof -
  assume "slash \<in> set p"
  then obtain i where i: "rfind_char slash p = Some i" by (simp add: rfind_char_def)
  from rfind_char_Some(2) [OF i] show ?thesis by (simp add: parent_path_def base_name_def i substr_def)
qed

lemma valid_base: "is_valid_path p \<Longrightarrow> is_valid_file_name (base_name p)"
  using last_split_base [of p] last_in_set [of "split_on slash p"]
  by (simp add: is_valid_path_iff valid_components_def list_all_iff)

lemma candidate_valid:
  assumes "is_valid_path name" "stamp_ok stamp" "n < 10 ^ 10" "length name + 62 \<le> 1024"
  shows "is_valid_path (conflict_candidate stamp name n)"
proof -
  let ?f = "conflict_file stamp (base_name name) n" and ?c = "conflict_candidate stamp name n"
  note f = conflict_file_valid [OF assms(2,3) valid_base [OF assms(1)]]
    length_conflict_file [OF assms(2,3) valid_base [OF assms(1)]]
  have "list_all is_valid_file_name (split_on slash ?c)" "length (split_on slash ?c) \<le> MAX_PATH_DEPTH"
    using assms(1) f(1)
    by (auto simp: candidate_split assms(1,2) is_valid_path_iff valid_components_def list_all_iff dest: in_set_butlastD)
  moreover have "length ?c \<le> MAX_PATH_LENGTH"
  proof (cases "slash \<in> set name")
    case True
    with arg_cong [OF path_append [OF True], of length] f(2) assms(4) show ?thesis
      by (simp add: conflict_candidate_def Let_def MAX_PATH_LENGTH_def)
  next
    case False
    with path_parts(3) [OF False] f(2) assms(4) show ?thesis
      by (simp add: conflict_candidate_def Let_def MAX_PATH_LENGTH_def)
  qed
  ultimately show ?thesis
    using conflict_candidate_not_Nil [of stamp name n] by (simp add: is_valid_path_iff valid_components_def)
qed

end
