(* ===== verification/Changes.thy ===== *)
theory Changes
  imports File_Times
begin

text \<open>
  Which entries an operation on the file system may change. The locale \<open>file_calls\<close> is the
  interface: a relation between file systems that the calls on files keep is kept by the
  operations of \<open>common/files.cpp\<close> that use them. Its instances: \<open>only P\<close>, every entry whose
  path is not in \<open>P\<close> is as before, \<open>keeps_dirs\<close>, every directory stays one, and \<open>keeps_env\<close>, the
  limits that the environment sets stay.
\<close>

definition only :: "(fpath \<Rightarrow> bool) \<Rightarrow> os \<Rightarrow> os \<Rightarrow> bool" where
  "only P os os' \<longleftrightarrow> wf_os os' \<and> (\<forall>q. \<not> P q \<longrightarrow> os_node os' q = os_node os q)"

lemma only_refl: "wf_os os \<Longrightarrow> only P os os"
  by (simp add: only_def)

lemma only_trans: "only P a b \<Longrightarrow> only P b c \<Longrightarrow> only P a c"
  by (simp add: only_def)

lemma only_mono: "only P a b \<Longrightarrow> (\<And>q. P q \<Longrightarrow> Q q) \<Longrightarrow> only Q a b"
  unfolding only_def by blast

lemma only_wf: "only P a b \<Longrightarrow> wf_os b"
  by (simp add: only_def)

lemma only_node: "only P a b \<Longrightarrow> \<not> P q \<Longrightarrow> os_node b q = os_node a q"
  by (simp add: only_def)

lemma only_file: "only P a b \<Longrightarrow> \<not> P q \<Longrightarrow> file_at b q = file_at a q"
  by (simp add: only_def file_at_def)

section \<open>System calls\<close>

lemma only_mkdir: "wf_os os \<Longrightarrow> P (resolve s) \<Longrightarrow> only P os (snd (sys_mkdir s os))"
  by (cases "sys_mkdir s os"; cases "fst (sys_mkdir s os)")
    (auto simp: only_def sys_mkdir_ok dest: sys_mkdir_err)

lemma only_rmdir: "wf_os os \<Longrightarrow> P (resolve s) \<Longrightarrow> only P os (snd (sys_rmdir s os))"
  by (cases "sys_rmdir s os"; cases "fst (sys_rmdir s os)")
    (auto simp: only_def sys_rmdir_ok dest: sys_rmdir_err)

lemma only_unlink: "wf_os os \<Longrightarrow> P (resolve s) \<Longrightarrow> only P os (snd (sys_unlink s os))"
  by (cases "sys_unlink s os"; cases "fst (sys_unlink s os)")
    (auto simp: only_def sys_unlink_ok dest: sys_unlink_err)

lemma only_create: "wf_os os \<Longrightarrow> P (resolve s) \<Longrightarrow> only P os (snd (sys_create s os))"
  by (cases "sys_create s os"; cases "fst (sys_create s os)")
    (auto simp: only_def sys_create_ok dest: sys_create_err)

lemma only_write: "wf_os os \<Longrightarrow> P (resolve s) \<Longrightarrow> only P os (snd (sys_write s bs os))"
  by (cases "sys_write s bs os"; cases "fst (sys_write s bs os)")
    (auto simp: only_def dest: sys_write_ok sys_write_err)

lemma only_rename:
  assumes "wf_os os" "P (resolve s)" "P (resolve t)"
  shows "only P os (snd (sys_rename s t os))"
proof (cases "sys_rename s t os")
  case (Pair e os')
  show ?thesis
  proof (cases e)
    case (Some a)
    then have "os' = os" using Pair sys_rename_err by blast
    with Pair assms(1) show ?thesis by (simp add: only_def)
  next
    case None
    show ?thesis
    proof (cases "resolve s = resolve t")
      case True
      with Pair None have "os' = os"
        by (auto simp: sys_rename_def Let_def split: option.splits node.splits if_splits)
      with Pair assms(1) show ?thesis by (simp add: only_def)
    next
      case False
      from sys_rename_ok [OF assms(1) _ False] Pair None assms show ?thesis by (auto simp: only_def)
    qed
  qed
qed

lemma only_utimens: "wf_os os \<Longrightarrow> P (resolve s) \<Longrightarrow> only P os (snd (sys_utimens s sec nsec os))"
proof (cases "s \<noteq> [] \<and> (\<exists>bs t. os_node os (resolve s) = Some (N_file bs t))")
  case True
  assume "wf_os os" "P (resolve s)"
  with True sys_utimens_effect [of os s] show ?thesis by (auto simp: only_def)
next
  case False
  assume "wf_os os" "P (resolve s)"
  with False show ?thesis
    by (auto simp: only_def sys_utimens_def sys_lstat_def split: option.splits node.splits)
qed

section \<open>Operations\<close>

locale file_calls =
  fixes R :: "os \<Rightarrow> os \<Rightarrow> bool" and P :: "string \<Rightarrow> bool"
  assumes same: "wf_os os \<Longrightarrow> R os os"
    and compose: "R a b \<Longrightarrow> R b c \<Longrightarrow> R a c"
    and formed: "R a b \<Longrightarrow> wf_os b"
    and create: "wf_os os \<Longrightarrow> P s \<Longrightarrow> R os (snd (sys_create s os))"
    and writing: "wf_os os \<Longrightarrow> P s \<Longrightarrow> R os (snd (sys_write s bs os))"
    and unlink: "wf_os os \<Longrightarrow> P s \<Longrightarrow> R os (snd (sys_unlink s os))"
    and rename: "wf_os os \<Longrightarrow> P s \<Longrightarrow> P t \<Longrightarrow> R os (snd (sys_rename s t os))"
    and utimens: "wf_os os \<Longrightarrow> P s \<Longrightarrow> R os (snd (sys_utimens s sec nsec os))"
    and random: "wf_os os \<Longrightarrow> R os (snd (next_random os))"
begin

lemma remove: "wf_os os \<Longrightarrow> P s \<Longrightarrow> R os (snd (remove_file s os))"
  using unlink [of os s] by (cases "sys_unlink s os") (simp add: remove_file_def)

lemma replace: "wf_os os \<Longrightarrow> P s \<Longrightarrow> P t \<Longrightarrow> R os (snd (replace_file s t os))"
  using rename [of os s t] by (cases "sys_rename s t os") (simp add: replace_file_def)

lemma mtime: "wf_os os \<Longrightarrow> P s \<Longrightarrow> R os (snd (set_mtime s m os))"
  using utimens [of os s "tdiv (sint m) 1000000000" "tmod (sint m) 1000000000"]
  by (simp add: set_mtime_def split_beta)

lemma temp: "wf_os os \<Longrightarrow> R os (snd (make_temp_path dir os))"
  using random [of os] by (simp add: make_temp_path_eq)

lemma if_write: "wf_os os \<Longrightarrow> P s \<Longrightarrow> R os (snd (if w then sys_write s bs os else (e, os)))"
  by (simp add: writing same)

lemma body_loop:
  "wf_os os \<Longrightarrow> P dest \<Longrightarrow> recv_body_loop c dest n wok received fnv os = (st, w, h, c', os') \<Longrightarrow> R os os'"
proof (induction c dest n wok received fnv os rule: recv_body_loop.induct)
  case (1 c dest n wok received fnv os)
  show ?case
  proof (cases "fst (conn_recv c)")
    case (Received m)
    then obtain c1 where r: "conn_recv c = (Received m, c1)" by (cases "conn_recv c") auto
    show ?thesis
    proof (cases "mtype m = Msg_FileData \<and> \<not> n - received < of_nat (length (payload m))")
      case True
      obtain e os1 where w: "(if wok then sys_write dest (payload m) os else (Some EINVAL, os)) = (e, os1)"
        by fastforce
      have first: "R os os1"
        using if_write [OF 1(2,3), of wok "payload m" "Some EINVAL"] unfolding w by simp
      have "recv_body_loop c1 dest n (e = None) (received + of_nat (length (payload m)))
          (fnv_update fnv (payload m)) os1 = (st, w, h, c', os')"
        using 1(4) True r w by (subst (asm) recv_body_loop.simps) simp
      from 1(1) [OF r [symmetric] refl _ _ w [symmetric] formed [OF first] 1(3) this] True
      have "R os1 os'" by simp
      with first show ?thesis by (rule compose)
    next
      case False
      with 1(2,4) r show ?thesis
        by (subst (asm) recv_body_loop.simps) (auto simp: same split: if_splits)
    qed
  qed (use 1(2,4) in \<open>subst (asm) recv_body_loop.simps,
      auto simp: same split: prod.splits recv_result.splits if_splits\<close>)+
qed

lemma body:
  assumes "wf_os os" "P dest" "recv_file_body c dest n os = (res, h, c', os')"
  shows "R os os'"
proof -
  obtain e os1 where cr: "sys_create dest os = (e, os1)" by fastforce
  obtain st w h2 c2 os2 where lp: "recv_body_loop c dest n (e = None) 0 fnv_init os1 = (st, w, h2, c2, os2)"
    by (metis prod_cases5)
  have o1: "R os os1" using create [OF assms(1,2)] cr by simp
  have o2: "R os1 os2" by (rule body_loop [OF formed [OF o1] assms(2) lp])
  have o3: "R os2 (snd (sys_unlink dest os2))" by (rule unlink [OF formed [OF o2] assms(2)])
  have "os' = os2 \<or> os' = snd (sys_unlink dest os2)"
    using assms(3) cr lp by (auto simp: recv_file_body_def split: if_splits)
  with o1 o2 o3 show ?thesis by (auto intro: compose)
qed

end

interpretation only: file_calls "only P" "\<lambda>s. P (resolve s)" for P
  by unfold_locales
    (auto intro: only_trans only_refl only_wf only_create only_write only_unlink only_rename only_utimens,
     simp add: only_def)

lemmas only_remove = only.remove
  and only_replace = only.replace
  and only_mtime = only.mtime
  and only_temp = only.temp
  and only_body = only.body

definition keeps_dirs :: "os \<Rightarrow> os \<Rightarrow> bool" where
  "keeps_dirs os os' \<longleftrightarrow> wf_os os' \<and> (\<forall>q. os_node os q = Some N_dir \<longrightarrow> os_node os' q = Some N_dir)"

lemma keeps_dirs_call:
  assumes "wf_os os" "\<And>os'. f os = (None, os') \<Longrightarrow> keeps_dirs os os'" "\<And>e os'. f os = (Some e, os') \<Longrightarrow> os' = os"
  shows "keeps_dirs os (snd (f os))"
  using assms by (cases "f os"; cases "fst (f os)") (auto simp: keeps_dirs_def)

interpretation dirs: file_calls keeps_dirs "\<lambda>_. True"
proof
  fix os s t bs sec nsec
  assume wf: "wf_os os"
  show "keeps_dirs os (snd (sys_create s os))"
    by (rule keeps_dirs_call [OF wf, of "sys_create s"])
      (auto simp: keeps_dirs_def sys_create_ok [OF wf] dest: sys_create_err)
  show "keeps_dirs os (snd (sys_write s bs os))"
  proof (rule keeps_dirs_call [OF wf, of "sys_write s bs"])
    fix os' assume "sys_write s bs os = (None, os')"
    from sys_write_ok [OF wf this] show "keeps_dirs os os'" by (auto simp: keeps_dirs_def)
  qed (rule sys_write_err)
  show "keeps_dirs os (snd (sys_unlink s os))"
    by (rule keeps_dirs_call [OF wf, of "sys_unlink s"])
      (auto simp: keeps_dirs_def sys_unlink_ok [OF wf] dest: sys_unlink_err)
  show "keeps_dirs os (snd (sys_utimens s sec nsec os))"
  proof (cases "s \<noteq> [] \<and> (\<exists>bs t. os_node os (resolve s) = Some (N_file bs t))")
    case True
    with wf sys_utimens_effect [of os s] show ?thesis by (auto simp: keeps_dirs_def)
  next
    case False
    with wf show ?thesis
      by (auto simp: keeps_dirs_def sys_utimens_def sys_lstat_def split: option.splits node.splits)
  qed
  show "keeps_dirs os (snd (sys_rename s t os))"
  proof (cases "resolve s = resolve t")
    case True
    with wf show ?thesis
      by (auto simp: keeps_dirs_def sys_rename_def Let_def split: option.splits node.splits)
  next
    case False
    show ?thesis
      by (rule keeps_dirs_call [OF wf, of "sys_rename s t"])
        (auto simp: keeps_dirs_def sys_rename_ok [OF wf _ False] dest: sys_rename_err)
  qed
qed (auto simp: keeps_dirs_def)

section \<open>Directories below a root\<close>

definition inside :: "fpath \<Rightarrow> fpath \<Rightarrow> bool" where
  "inside d q \<longleftrightarrow> (\<exists>r. r \<noteq> [] \<and> q = d @ r)"

lemma inside_append [simp]: "inside d (d @ r) \<longleftrightarrow> r \<noteq> []"
  by (auto simp: inside_def)

lemma inside_self [simp]: "\<not> inside d d"
  by (simp add: inside_def)

lemma inside_valid [simp]: "is_valid_path p \<Longrightarrow> inside (resolve d) (resolve (join_path d p))"
  by (simp add: resolve_join_valid)

lemma only_mk_components:
  "wf_os os \<Longrightarrow> pre = [] \<or> last pre = slash \<Longrightarrow> list_all good_name cs \<Longrightarrow>
     only (\<lambda>q. \<exists>k. 0 < k \<and> k \<le> length cs \<and> q = resolve pre @ take k cs) os (snd (mk_components pre cs os))"
proof (induction cs arbitrary: pre os)
  case (Cons c cs)
  let ?P = "\<lambda>q. \<exists>k. 0 < k \<and> k \<le> length (c # cs) \<and> q = resolve pre @ take k (c # cs)"
  have c: "good_name c" "slash \<notin> set c" "c \<noteq> []" using Cons.prems(3) by (auto simp: good_name_def)
  then have q: "resolve (pre @ c) = resolve pre @ [c]" "resolve (pre @ c @ [slash]) = resolve pre @ [c]"
    using resolve_component [of pre c] Cons.prems by (auto simp: resolve_step_def good_name_def)
  obtain e os1 where mk: "sys_mkdir (pre @ c) os = (e, os1)" by fastforce
  have "?P (resolve (pre @ c))" unfolding q by (rule exI [of _ 1]) simp
  from only_mkdir [where P = ?P, OF Cons.prems(1) this] mk have o1: "only ?P os os1" by simp
  have "only ?P os1 (snd (mk_components (pre @ c @ [slash]) cs os1))"
  proof (rule only_mono [OF Cons.IH])
    fix p assume "\<exists>k. 0 < k \<and> k \<le> length cs \<and> p = resolve (pre @ c @ [slash]) @ take k cs"
    then obtain k where "k \<le> length cs" "p = resolve (pre @ c @ [slash]) @ take k cs" by blast
    then show "?P p" by (intro exI [of _ "Suc k"]) (simp add: q)
  qed (use Cons.prems only_wf [OF o1] in auto)
  with o1 mk c(3) show ?case by (auto intro: only_trans split: option.splits)
qed (simp add: only_refl)

lemma mk_components_skip:
  assumes "wf_os os"
  shows "pre = [] \<or> last pre = slash \<Longrightarrow> list_all (\<lambda>c. c \<noteq> ''..'' \<and> slash \<notin> set c) cs \<Longrightarrow>
    os_node os (foldl resolve_step (resolve pre) cs) = Some N_dir \<Longrightarrow>
    mk_components pre (cs @ ds) os = mk_components (pre @ concat (map (\<lambda>c. c @ [slash]) cs)) ds os \<and>
    resolve (pre @ concat (map (\<lambda>c. c @ [slash]) cs)) = foldl resolve_step (resolve pre) cs"
proof (induction cs arbitrary: pre)
  case (Cons c cs)
  have q: "resolve (pre @ c) = resolve_step (resolve pre) c" "resolve (pre @ c @ [slash]) = resolve_step (resolve pre) c"
    using resolve_component [of pre c] Cons.prems by auto
  have dots: "list_all (\<lambda>c. c \<noteq> ''..'') (c # cs)" using Cons.prems(2) by (auto simp: list_all_iff)
  have "os_node os (resolve_step (resolve pre) c) = Some N_dir"
    using foldl_resolve_prefixes [OF assms Cons.prems(3) dots, of 1] by simp
  then have "pre @ c = [] \<or> sys_mkdir (pre @ c) os = (Some EEXIST, os)"
    using q by (simp add: sys_mkdir_def Let_def)
  then have "mk_components pre ((c # cs) @ ds) os = mk_components (pre @ c @ [slash]) (cs @ ds) os" by auto
  with Cons.IH [of "pre @ c @ [slash]"] Cons.prems q show ?case by simp
qed simp

lemma parent_dirs_only:
  assumes "wf_os os" "os_node os (resolve d) = Some N_dir" "clean_dir d" "is_valid_path p"
    and "make_parent_dirs d p os = (ok, os')"
  shows "only (\<lambda>q. \<exists>k. 0 < k \<and> k < length (split_on slash p) \<and> q = resolve d @ take k (split_on slash p)) os os'"
proof (cases "slash \<in> set p")
  case False
  with assms(1,5) path_parts(3) [of p] show ?thesis by (simp add: make_parent_dirs_def only_refl)
next
  case True
  let ?par = "parent_path p" and ?path = "join_path d (parent_path p)"
  let ?pre = "concat (map (\<lambda>c. c @ [slash]) (dir_components d))"
  note val = valid_parent [OF assms(4) True]
  have par: "?par \<noteq> []" using valid_path_length [OF val] by simp
  have skip: "mk_components [] (dir_components d @ split_on slash ?par) os = mk_components ?pre (split_on slash ?par) os"
    "resolve ?pre = resolve d"
    using mk_components_skip [OF assms(1), of "[]" "dir_components d" "split_on slash ?par"]
      assms(2,3) join_components [of d] by auto
  have "?pre = [] \<or> last ?pre = slash" by (cases "dir_components d" rule: rev_cases) auto
  from only_mk_components [OF assms(1) this valid_path_good [OF val]]
  have "only (\<lambda>q. \<exists>k. 0 < k \<and> k \<le> length (split_on slash ?par) \<and> q = resolve d @ take k (split_on slash ?par))
      os (snd (make_dirs_loop ?path 0 os))"
    by (simp add: make_dirs_loop_components join_components(1) skip)
  then have "only (\<lambda>q. \<exists>k. 0 < k \<and> k < length (split_on slash p) \<and> q = resolve d @ take k (split_on slash p))
      os (snd (make_dirs_loop ?path 0 os))"
    by (rule only_mono) (auto simp: path_parts(2) [OF True])
  then show ?thesis
    using assms(5) par by (auto simp: make_parent_dirs_def make_dirs_def Let_def split: prod.splits bool.splits)
qed

lemma only_parent_dirs:
  assumes "wf_os os" "os_node os (resolve d) = Some N_dir" "clean_dir d" "is_valid_path p"
    and "make_parent_dirs d p os = (ok, os')"
  shows "only (inside (resolve d)) os os'"
  by (rule only_mono [OF parent_dirs_only [OF assms]]) auto

lemma only_empty_parents:
  assumes "wf_os os" "is_valid_path p"
  shows "only (inside (resolve d)) os (remove_empty_parents d p os)"
proof -
  have loop: "wf_os os \<Longrightarrow> dir = [] \<or> is_valid_path dir \<Longrightarrow>
      only (inside (resolve d)) os (remove_parents_loop d dir os)" for dir os
  proof (induction "length dir" arbitrary: dir os rule: less_induct)
    case less
    show ?case
    proof (cases "dir = []")
      case True
      then show ?thesis by (subst remove_parents_loop.simps) (simp add: only_refl less.prems)
    next
      case False
      then have val: "is_valid_path dir" using less.prems by simp
      obtain e os1 where rm: "sys_rmdir (join_path d dir) os = (e, os1)" by fastforce
      have o1: "only (inside (resolve d)) os os1"
        using only_rmdir [OF less.prems(1), of "inside (resolve d)" "join_path d dir"] rm val by simp
      have "parent_path dir = [] \<or> is_valid_path (parent_path dir)"
        using valid_parent [OF val] path_parts(3) [of dir] by blast
      from less.hyps [OF parent_path_shorter [OF False] only_wf [OF o1] this] o1 rm False show ?thesis
        by (subst remove_parents_loop.simps) (auto intro: only_trans split: option.splits)
    qed
  qed
  show ?thesis
    unfolding remove_empty_parents_def
    using loop [OF assms(1)] valid_parent [OF assms(2)] path_parts(3) [of p] by blast
qed

text \<open>A third instance of \<open>file_calls\<close>: no call changes the limits that the environment sets.\<close>

definition keeps_env :: "os \<Rightarrow> os \<Rightarrow> bool" where
  "keeps_env os os' \<longleftrightarrow> wf_os os' \<and> same_env os os'"

interpretation env: file_calls keeps_env "\<lambda>_. True"
proof
  fix os s t bs sec nsec
  assume wf: "wf_os os"
  note anything = only_wf [where P = "\<lambda>_. True"]
  show "keeps_env os (snd (sys_create s os))" using anything [OF only_create [OF wf]] by (simp add: keeps_env_def)
  show "keeps_env os (snd (sys_write s bs os))" using anything [OF only_write [OF wf]] by (simp add: keeps_env_def)
  show "keeps_env os (snd (sys_unlink s os))" using anything [OF only_unlink [OF wf]] by (simp add: keeps_env_def)
  show "keeps_env os (snd (sys_rename s t os))" using anything [OF only_rename [OF wf]] by (simp add: keeps_env_def)
  show "keeps_env os (snd (sys_utimens s sec nsec os))" using anything [OF only_utimens [OF wf]] by (simp add: keeps_env_def)
qed (auto simp: keeps_env_def intro: same_env_trans)

end
