(* ===== verification/Client_Changes.thy ===== *)
theory Client_Changes
  imports Client_Commands Conflict_Names Changes
begin

text \<open>
  What the operations of the client keep: its files, its saved state and its queue stay
  well-formed, and on the file system they change nothing outside of \<open>sync_dir\<close>.
\<close>

definition client_ok :: "'q client \<Rightarrow> bool" where
  "client_ok cl \<longleftrightarrow>
     wf_os (ct_os cl) \<and> os_node (ct_os cl) (resolve (sync_dir cl)) = Some N_dir \<and> clean_dir (sync_dir cl) \<and>
     entries_ok (ss_entries (ct_state cl)) \<and>
     ss_path (ct_state cl) = join_path (sync_dir cl) (RESERVED_PREFIX @ ''_state'') \<and> stamp_ok (ct_stamp cl) \<and>
     (ct_connected cl \<longrightarrow> ct_cmd cl \<noteq> None \<and> ct_sync cl \<noteq> None)"

text \<open>What an operation of the synchronization may do to the client.\<close>

definition stays :: "'q client \<Rightarrow> 'q client \<Rightarrow> bool" where
  "stays cl cl' \<longleftrightarrow>
     ct_options cl' = ct_options cl \<and> ct_stamp cl' = ct_stamp cl \<and> ct_queue cl' = ct_queue cl \<and>
     ct_queued cl' = ct_queued cl \<and> ct_stopping cl' = ct_stopping cl \<and>
     (client_ok cl \<longrightarrow> client_ok cl' \<and> only (inside (resolve (sync_dir cl))) (ct_os cl) (ct_os cl'))"

lemma client_ok_wf: "client_ok cl \<Longrightarrow> wf_os (ct_os cl)"
  by (simp add: client_ok_def)

lemma stays_refl [simp]: "stays cl cl"
  by (auto simp: stays_def only_refl client_ok_def)

lemma stays_trans [trans]: "stays a b \<Longrightarrow> stays b c \<Longrightarrow> stays a c"
  by (auto simp: stays_def intro: only_trans)

lemma stays_ok: "stays cl cl' \<Longrightarrow> client_ok cl \<Longrightarrow> client_ok cl'"
  by (simp add: stays_def)

lemma stays_options: "stays cl cl' \<Longrightarrow> ct_options cl' = ct_options cl"
  by (simp add: stays_def)

text \<open>The basic changes.\<close>

lemma stays_os:
  assumes "client_ok cl \<Longrightarrow> only (inside (resolve (sync_dir cl))) (ct_os cl) os'"
  shows "stays cl (cl\<lparr>ct_os := os'\<rparr>)"
proof -
  have "client_ok (cl\<lparr>ct_os := os'\<rparr>)" if ok: "client_ok cl"
    using ok assms [OF ok] only_node [OF assms [OF ok], of "resolve (sync_dir cl)"]
    by (simp add: client_ok_def only_wf)
  with assms show ?thesis by (simp add: stays_def)
qed

lemma stays_say [simp]: "stays cl (say s cl)" "stays cl (say_size a n b cl)" "stays cl (say_table s fs cl)"
  by (auto simp: stays_def say_def say_size_def say_table_def client_ok_def only_refl)

lemma stays_set: "is_valid_path (fi_name f) \<Longrightarrow> stays cl (on_state (state_set f) cl)"
  by (auto simp: stays_def on_state_def state_set_def client_ok_def only_refl entries_ok_put)

lemma stays_erase [simp]: "stays cl (on_state (state_erase name) cl)"
  by (auto simp: stays_def on_state_def state_erase_def client_ok_def only_refl entries_ok_del)

lemma stays_conns [simp]:
  "stays cl (cl\<lparr>ct_cmd := Some a\<rparr>)" "stays cl (cl\<lparr>ct_sync := Some b\<rparr>)" "stays cl (cl\<lparr>ct_servers := s\<rparr>)"
  "stays cl (mark_disconnected k cl)"
  by (auto simp: stays_def mark_disconnected_def client_ok_def only_refl)

section \<open>The files of the client itself\<close>

lemma state_nodes:
  assumes "client_ok cl"
  shows "inside (resolve (sync_dir cl)) (resolve (ss_path (ct_state cl)))"
    "inside (resolve (sync_dir cl)) (resolve (ss_path (ct_state cl) @ ''.tmp''))"
proof -
  have p: "ss_path (ct_state cl) = join_path (sync_dir cl) (RESERVED_PREFIX @ ''_state'')"
    "ss_path (ct_state cl) @ ''.tmp'' = join_path (sync_dir cl) (RESERVED_PREFIX @ ''_state.tmp'')"
    using assms by (auto simp: client_ok_def join_path_def)
  have g: "good_name (RESERVED_PREFIX @ ''_state'')" "good_name (RESERVED_PREFIX @ ''_state.tmp'')"
    by (simp_all add: good_name_def RESERVED_PREFIX_def)
  show "inside (resolve (sync_dir cl)) (resolve (ss_path (ct_state cl)))"
    "inside (resolve (sync_dir cl)) (resolve (ss_path (ct_state cl) @ ''.tmp''))"
    unfolding p(2) unfolding p(1) by (simp_all add: resolve_join_name g)
qed

lemma only_save:
  assumes "wf_os os" "P (resolve (ss_path st))" "P (resolve (ss_path st @ ''.tmp''))"
  shows "only P os (snd (state_save st os))"
proof (cases "state_save st os")
  case (Pair ok os')
  with state_save_effect(1,3) [OF assms(1) Pair] assms(2,3) show ?thesis
    unfolding only_def by (metis snd_conv)
qed

lemma stays_save [simp]: "stays cl (save_state cl)"
  unfolding save_state_def by (rule stays_os) (simp add: only_save state_nodes client_ok_wf)

lemmas stays_then =
  stays_trans [OF _ stays_save] stays_trans [OF _ stays_say(1)] stays_trans [OF _ stays_say(2)]
  stays_trans [OF _ stays_say(3)] stays_trans [OF _ stays_erase] stays_trans [OF _ stays_conns(1)] stays_trans [OF _ stays_conns(2)]
  stays_trans [OF _ stays_conns(3)] stays_trans [OF _ stays_conns(4)]

lemma temp_inside [simp]: "inside (resolve d) (resolve (fst (make_temp_path d os)))"
  by (simp add: make_temp_path_eq resolve_join_name)

section \<open>Exchanges\<close>

lemma transact_result:
  assumes "transact exchange cl = (r, cl')"
  shows "cl' = cl \<or> (\<exists>cmd res cmd' os'. exchange cmd (ct_os cl) = (res, cmd', os') \<and>
    (cl' = cl\<lparr>ct_os := os', ct_cmd := Some cmd'\<rparr> \<or>
     cl' = mark_disconnected (Some (ct_conns cl)) (cl\<lparr>ct_os := os', ct_cmd := Some cmd'\<rparr>)))"
proof (cases "wait_for_connection cl")
  case (Some cmd)
  obtain res cmd' os' where x: "exchange cmd (ct_os cl) = (res, cmd', os')" by (metis prod_cases3)
  have "cl' = cl\<lparr>ct_os := os', ct_cmd := Some cmd'\<rparr> \<or>
     cl' = mark_disconnected (Some (ct_conns cl)) (cl\<lparr>ct_os := os', ct_cmd := Some cmd'\<rparr>)"
    using assms Some x by (auto simp: transact_def Let_def split: sum.splits outcome.splits)
  with x show ?thesis by blast
qed (use assms in \<open>simp add: transact_def\<close>)

lemma transact_stays:
  assumes "\<And>cmd res cmd' os'. client_ok cl \<Longrightarrow> exchange cmd (ct_os cl) = (res, cmd', os') \<Longrightarrow>
      only (inside (resolve (sync_dir cl))) (ct_os cl) os'"
  shows "stays cl (snd (transact exchange cl))"
proof (cases "transact exchange cl")
  case (Pair r cl')
  have "stays cl (cl\<lparr>ct_os := os', ct_cmd := Some cmd'\<rparr>)" if "exchange cmd (ct_os cl) = (res, cmd', os')" for cmd res cmd' os'
    using stays_trans [OF stays_os [OF assms [OF _ that]] stays_conns(1) [of _ cmd']] by simp
  with transact_result [OF Pair] show ?thesis by (auto simp: Pair stays_then)
qed

lemma upload_stays [simp]: "stays cl (snd (upload path name origin cl))"
  unfolding upload_def
  by (rule transact_stays)
    (auto simp: upload_exchange_def client_ok_wf only_refl
      split: sum.splits prod.splits if_splits recv_result.splits)

lemma remove_stays [simp]: "stays cl (snd (remove_remote name origin cl))"
  unfolding remove_remote_def
  by (rule transact_stays)
    (auto simp: remove_exchange_def client_ok_wf only_refl split: sum.splits prod.splits call_result.splits)

lemma list_stays [simp]: "stays cl (snd (list_remote cl))"
  unfolding list_remote_def
  by (rule transact_stays)
    (auto simp: list_exchange_def client_ok_wf only_refl split: sum.splits prod.splits call_result.splits)

lemma download_exchange_temp:
  "download_exchange name dir conn os = (Inr (X_Ok (got, temp)), conn', os') \<Longrightarrow>
     temp = fst (make_temp_path dir os)"
  by (auto simp: download_exchange_def
      split: sum.splits if_splits recv_result.splits prod.splits bool.splits)

context file_calls
begin

lemma download_exchange:
  assumes "wf_os os" "P (fst (make_temp_path dir os))" "download_exchange name dir conn os = (res, conn', os')"
  shows "R os os'"
proof -
  obtain t os1 where mk: "make_temp_path dir os = (t, os1)" by fastforce
  have first: "R os os1" using temp [OF assms(1), of dir] by (simp add: mk)
  have body: "R os os'" if "recv_file_body c t n os1 = (r, h, c', os')" for c n r h c'
    by (rule compose [OF first body [OF formed [OF first] _ that]]) (use assms(2) mk in simp)
  show ?thesis
    using assms(1,3) body
    by (auto simp: download_exchange_def same mk
        split: sum.splits if_splits recv_result.splits prod.splits bool.splits)
qed

end

lemma download_stays [simp]: "stays cl (snd (download name (sync_dir cl) cl))"
  unfolding download_def
proof (rule transact_stays)
  fix cmd res cmd' os'
  assume ok: "client_ok cl" and x: "download_exchange name (sync_dir cl) cmd (ct_os cl) = (res, cmd', os')"
  show "only (inside (resolve (sync_dir cl))) (ct_os cl) os'"
    by (rule only.download_exchange [OF client_ok_wf [OF ok] _ x]) simp
qed

lemma download_temp:
  assumes "download name dir cl = (X_Ok (got, temp), cl')"
  shows "inside (resolve dir) (resolve temp)"
proof -
  obtain cmd cmd' os' where "wait_for_connection cl = Some cmd"
    "download_exchange name dir cmd (ct_os cl) = (Inr (X_Ok (got, temp)), cmd', os')"
    using assms
    by (auto simp: download_def transact_def Let_def
        split: option.splits prod.splits sum.splits outcome.splits)
  from download_exchange_temp [OF this(2)] show ?thesis by simp
qed

section \<open>Installing and deleting\<close>

lemma conflict_name_inside:
  assumes "client_ok cl" "is_valid_path name" "conflict_name name cl = Some copy"
  shows "inside (resolve (sync_dir cl)) (resolve (join_path (sync_dir cl) copy))"
proof -
  have ok: "stamp_ok (ct_stamp cl)" using assms(1) by (simp add: client_ok_def)
  obtain k where "copy = conflict_candidate (ct_stamp cl) name k"
    using conflict_loop_total [OF assms(2) ok, of "ct_os cl" "sync_dir cl"] assms(3)
    unfolding conflict_name_def by (metis option.inject)
  then show ?thesis by (simp add: resolve_candidate assms(2) ok)
qed

lemma keep_conflicted_stays:
  assumes "is_valid_path name" "keep_conflicted name info cl = Some cl'"
  shows "stays cl cl'"
proof (cases "unsynced name info cl")
  case True
  then obtain copy where c: "conflict_name name cl = Some copy"
    using assms(2) by (auto simp: keep_conflicted_def split: option.splits)
  let ?path = "join_path (sync_dir cl)"
  obtain moved os' where mv: "replace_file (?path name) (?path copy) (ct_os cl) = (moved, os')" by fastforce
  have "stays cl (cl\<lparr>ct_os := os'\<rparr>)"
  proof (rule stays_os)
    assume ok: "client_ok cl"
    show "only (inside (resolve (sync_dir cl))) (ct_os cl) os'"
      using only_replace [OF client_ok_wf [OF ok] inside_valid [OF assms(1)] conflict_name_inside [OF ok assms(1) c]] mv
      by simp
  qed
  then show ?thesis
    using assms(2) True c mv stays_say(1) by (auto simp: keep_conflicted_def Let_def intro: stays_trans)
qed (use assms(2) in \<open>simp add: keep_conflicted_def\<close>)

lemma place_file_stays:
  assumes "is_valid_path name" "inside (resolve (sync_dir cl)) (resolve temp)"
  shows "stays cl (place_file temp name info cl)"
proof -
  let ?cl1 = "cl\<lparr>ct_os := snd (set_mtime temp (fi_mtime info) (ct_os cl))\<rparr>"
  let ?cl2 = "on_state (state_set (info\<lparr>fi_name := name\<rparr>)) ?cl1"
  have s2: "stays cl ?cl2"
  proof (rule stays_trans [OF stays_os stays_set])
    show "client_ok cl \<Longrightarrow> only (inside (resolve (sync_dir cl))) (ct_os cl) (snd (set_mtime temp (fi_mtime info) (ct_os cl)))"
      using assms(2) by (intro only_mtime client_ok_wf)
  qed (simp add: assms(1))
  have dir [simp]: "sync_dir ?cl2 = sync_dir cl" by (simp add: on_state_def)
  obtain made os2 where mk: "make_parent_dirs (sync_dir cl) name (ct_os ?cl2) = (made, os2)" by fastforce
  obtain placed os3 where rp:
    "(if made then replace_file temp (join_path (sync_dir cl) name) os2 else (False, os2)) = (placed, os3)" by fastforce
  have s3: "stays ?cl2 (?cl2\<lparr>ct_os := os3\<rparr>)"
  proof (rule stays_os)
    assume ok: "client_ok ?cl2"
    have o2: "only (inside (resolve (sync_dir cl))) (ct_os ?cl2) os2"
      using ok by (intro only_parent_dirs [OF _ _ _ assms(1) mk]) (simp_all add: client_ok_def on_state_def)
    have "only (inside (resolve (sync_dir cl))) os2 os3"
      using rp only_replace [OF only_wf [OF o2] assms(2) inside_valid [OF assms(1)]]
        only_refl [OF only_wf [OF o2], of "inside (resolve (sync_dir cl))"]
      by (metis snd_conv)
    with o2 show "only (inside (resolve (sync_dir ?cl2))) (ct_os ?cl2) os3" unfolding dir by (rule only_trans)
  qed
  have s4: "stays cl (?cl2\<lparr>ct_os := os3\<rparr>)" by (rule stays_trans [OF s2 s3])
  show ?thesis
  proof (cases placed)
    case True
    with mk rp have "place_file temp name info cl = save_state (?cl2\<lparr>ct_os := os3\<rparr>)"
      by (simp add: place_file_def Let_def on_state_def)
    with s4 show ?thesis by (simp add: stays_then)
  next
    case False
    let ?cl4 = "?cl2\<lparr>ct_os := snd (remove_file temp os3)\<rparr>"
    have "stays (?cl2\<lparr>ct_os := os3\<rparr>) ((?cl2\<lparr>ct_os := os3\<rparr>)\<lparr>ct_os := snd (remove_file temp os3)\<rparr>)"
      by (rule stays_os) (use assms(2) client_ok_wf [of "?cl2\<lparr>ct_os := os3\<rparr>"] in \<open>simp add: on_state_def only_remove\<close>)
    then have s5: "stays cl ?cl4" using s4 by (auto intro: stays_trans)
    obtain msg where "place_file temp name info cl = save_state (say msg (on_state (state_erase name) ?cl4))"
      using False mk rp by (simp add: place_file_def Let_def on_state_def)
    with s5 show ?thesis by (simp add: stays_then)
  qed
qed

lemma install_stays:
  assumes "is_valid_path name" "inside (resolve (sync_dir cl)) (resolve temp)" "install temp name info cl = Some cl'"
  shows "stays cl cl'"
proof -
  obtain cl1 where k: "keep_conflicted name info cl = Some cl1" "cl' = place_file temp name info cl1"
    using assms(3) by (auto simp: install_def)
  note s1 = keep_conflicted_stays [OF assms(1) k(1)]
  have "stays cl1 cl'"
    unfolding k(2) by (rule place_file_stays [OF assms(1)]) (simp add: stays_options [OF s1] assms(2))
  with s1 show ?thesis by (rule stays_trans)
qed

lemma install_total:
  "is_valid_path name \<Longrightarrow> client_ok cl \<Longrightarrow> \<exists>cl'. install temp name info cl = Some cl'"
  using conflict_loop_total [of name "ct_stamp cl" "ct_os cl" "sync_dir cl"]
  by (fastforce simp: install_def keep_conflicted_def conflict_name_def client_ok_def Let_def
      split: option.splits prod.splits)

lemma delete_here_stays:
  assumes "is_valid_path name"
  shows "stays cl (delete_here name cl)"
  unfolding delete_here_def
proof (rule stays_trans [OF stays_os stays_erase])
  assume ok: "client_ok cl"
  let ?os = "snd (remove_file (join_path (sync_dir cl) name) (ct_os cl))"
  have o: "only (inside (resolve (sync_dir cl))) (ct_os cl) ?os"
    by (intro only_remove client_ok_wf [OF ok] inside_valid [OF assms])
  show "only (inside (resolve (sync_dir cl))) (ct_os cl) (remove_empty_parents (sync_dir cl) name ?os)"
    by (rule only_trans [OF o only_empty_parents [OF only_wf [OF o] assms]])
qed

end
