(* ===== verification/Client_Invariant.thy ===== *)
theory Client_Invariant
  imports Client_Changes
begin

text \<open>
  The synchronization stays inside \<open>sync_dir\<close> and keeps the client well-formed, and so does
  every interleaving of the steps of its threads: \<open>client_step\<close> is the transition relation of
  the whole client, its environment included, and \<open>client_inv\<close> its invariant.
\<close>

section \<open>The two maps of \<open>reconcile\<close>\<close>

lemma list_tree_valid: "wf_os os \<Longrightarrow> f \<in> set (list_tree root os) \<Longrightarrow> is_valid_path (fi_name f)"
proof (cases "root = []")
  case True
  then have "walk root [] 0 os = []"
    by (subst walk.simps) (simp add: sys_readdir_def sys_is_dir_def join_path_def)
  then show "f \<in> set (list_tree root os) \<Longrightarrow> is_valid_path (fi_name f)" by (simp add: list_tree_def)
qed (simp add: list_tree_iff listed_def)

lemma fill_hash_name: "fill_hash f cl = Some f' \<Longrightarrow> fi_name f' = fi_name f"
  by (auto simp: fill_hash_def split: option.splits if_splits)

lemma local_file_name: "local_file name cl = Some f \<Longrightarrow> fi_name f = name"
  by (auto simp: local_file_def stat_file_def dest!: fill_hash_name split: option.splits prod.splits)

lemma foldl_entries_ok:
  "entries_ok m \<Longrightarrow> (\<And>m f. entries_ok m \<Longrightarrow> f \<in> set fs \<Longrightarrow> entries_ok (g m f)) \<Longrightarrow> entries_ok (foldl g m fs)"
  by (induction fs arbitrary: m) auto

lemma entries_ok_fill:
  "entries_ok m \<Longrightarrow> fill_hash f cl = Some f' \<Longrightarrow> is_valid_path (fi_name f) \<Longrightarrow>
     entries_ok (omap_put (fi_name f') f' m)"
  using entries_ok_put [of m f'] fill_hash_name [of f cl f'] by simp

lemma local_map_ok: "wf_os (ct_os cl) \<Longrightarrow> entries_ok (local_map cl)"
  unfolding local_map_def
  by (rule foldl_entries_ok)
    (auto dest: list_tree_valid intro: entries_ok_fill split: option.splits)

lemma remote_map_ok: "entries_ok (remote_map files)"
  unfolding remote_map_def by (rule foldl_entries_ok) (auto intro: entries_ok_put)

lemma entries_okD: "entries_ok m \<Longrightarrow> map_of m n = Some f \<Longrightarrow> fi_name f = n \<and> is_valid_path n"
  by (drule map_of_SomeD) (auto simp: entries_ok_def list_all_iff)

lemma entries_ok_names: "entries_ok m \<Longrightarrow> (n, f) \<in> set m \<Longrightarrow> is_valid_path n"
  by (auto simp: entries_ok_def list_all_iff)

lemma sync_names_valid:
  "client_ok cl \<Longrightarrow> n \<in> set (sync_names (local_map cl) (remote_map files) (ct_state cl')) \<Longrightarrow>
     entries_ok (ss_entries (ct_state cl')) \<Longrightarrow> is_valid_path n"
  using entries_ok_names [OF local_map_ok [OF client_ok_wf]] entries_ok_names [OF remote_map_ok]
  by (auto simp: sync_names_def state_names_def entries_ok_names)

section \<open>Reconciling\<close>

lemma decide_here:
  "decide here there base = Keep_same \<Longrightarrow> here \<noteq> None"
  "decide here there base = Push_file \<Longrightarrow> here \<noteq> None"
  by (auto simp: decide_def Let_def split: option.splits if_splits)

lemma reconcile_one_stays:
  assumes name: "is_valid_path name" and ok: "client_ok cl" and here: "\<And>f. here = Some f \<Longrightarrow> fi_name f = name"
    and one: "reconcile_one name here there counts cl = Some (res, counts', cl')"
  shows "stays cl cl'"
proof (cases "decide here there (state_get name (ct_state cl))")
  case Keep_same
  with decide_here(1) here obtain f where "here = Some f" "fi_name f = name" by blast
  with one Keep_same name show ?thesis by (auto simp: reconcile_one_def intro: stays_set)
next
  case Forget
  with one show ?thesis by (auto simp: reconcile_one_def)
next
  case Push_file
  with decide_here(2) here obtain f where f: "here = Some f" "fi_name f = name" by blast
  obtain r cl1 where up: "upload (join_path (sync_dir cl) name) name Origin_Sync cl = (r, cl1)" by fastforce
  have s: "stays cl cl1" using upload_stays [of cl "join_path (sync_dir cl) name" name Origin_Sync] up by simp
  then have "stays cl (on_state (state_set f) cl1)"
    by (rule stays_trans) (rule stays_set, simp add: f name)
  with s one Push_file up f show ?thesis by (auto simp: reconcile_one_def split: outcome.splits)
next
  case Push_deletion
  obtain r cl1 where rm: "remove_remote name Origin_Sync cl = (r, cl1)" by fastforce
  have "stays cl cl1" using remove_stays [of cl name Origin_Sync] rm by simp
  with one Push_deletion rm show ?thesis by (auto simp: reconcile_one_def stays_then split: outcome.splits)
next
  case Pull_file
  obtain r cl1 where dl: "download name (sync_dir cl) cl = (r, cl1)" by fastforce
  have s: "stays cl cl1" using download_stays [of cl name] dl by simp
  show ?thesis
  proof (cases r)
    case (X_Ok v)
    obtain got temp where v: "v = (got, temp)" by fastforce
    from one Pull_file dl X_Ok v have i: "install temp name got cl1 = Some cl'"
      by (auto simp: reconcile_one_def split: option.splits)
    have "inside (resolve (sync_dir cl1)) (resolve temp)"
      using download_temp [OF dl [unfolded X_Ok v]] stays_options [OF s] by simp
    from stays_trans [OF s install_stays [OF name this i]] show ?thesis .
  qed (use s one Pull_file dl in \<open>auto simp: reconcile_one_def\<close>)
next
  case Delete_here
  with one name show ?thesis by (auto simp: reconcile_one_def delete_here_stays)
qed

lemma reconcile_one_total:
  assumes "is_valid_path name" "client_ok cl"
  shows "reconcile_one name here there counts cl \<noteq> None"
proof -
  obtain r cl1 where dl: "download name (sync_dir cl) cl = (r, cl1)" by fastforce
  have "client_ok cl1" using stays_ok [OF download_stays assms(2)] dl by (metis snd_conv)
  then have "install temp name info cl1 \<noteq> None" for temp info using install_total [OF assms(1)] by auto
  then show ?thesis
    by (auto simp: reconcile_one_def dl simp del: not_None_eq split: sync_action.splits outcome.splits prod.splits option.splits)
qed

lemma reconcile_loop_stays:
  assumes "\<forall>n \<in> set names. is_valid_path n" "\<And>n f. local n = Some f \<Longrightarrow> fi_name f = n" "client_ok cl"
  shows "\<exists>ok counts' cl'. reconcile_loop local remote names counts cl = Some (ok, counts', cl') \<and> stays cl cl'"
  using assms(1,3)
proof (induction names arbitrary: counts cl)
  case (Cons n names)
  have n: "is_valid_path n" "\<forall>n \<in> set names. is_valid_path n" using Cons.prems by auto
  obtain res counts1 cl1 where one: "reconcile_one n (local n) (remote n) counts cl = Some (res, counts1, cl1)"
    using reconcile_one_total [OF n(1) Cons.prems(2), of "local n" "remote n" counts] by auto
  have s: "stays cl cl1" by (rule reconcile_one_stays [OF n(1) Cons.prems(2) assms(2) one])
  have ok: "client_ok cl1" by (rule stays_ok [OF s Cons.prems(2)])
  show ?case
  proof (cases res)
    case (X_Rejected e)
    let ?cl = "say (''Could not sync '' @ n @ '': '' @ e) cl1"
    have "stays cl ?cl" using s by (simp add: stays_then)
    with Cons.IH [OF n(2) stays_ok [OF stays_say(1) ok]] one X_Rejected show ?thesis
      by (fastforce intro: stays_trans)
  next
    case (X_Ok u)
    with Cons.IH [OF n(2) ok] one s show ?thesis by (fastforce intro: stays_trans)
  qed (use s one in \<open>simp, blast\<close>)
qed (simp, blast)

lemma reconcile_stays:
  assumes "client_ok cl"
  shows "\<exists>ok cl'. reconcile report cl = Some (ok, cl') \<and> stays cl cl'"
proof -
  obtain r cl1 where ls: "list_remote cl = (r, cl1)" by fastforce
  have s: "stays cl cl1" using list_stays [of cl] ls by simp
  have ok: "client_ok cl1" by (rule stays_ok [OF s assms])
  show ?thesis
  proof (cases r)
    case (X_Ok files)
    let ?names = "sync_names (local_map cl1) (remote_map files) (ct_state cl1)"
    have valid: "\<forall>n \<in> set ?names. is_valid_path n"
      using sync_names_valid [OF ok] ok by (auto simp: client_ok_def)
    have here: "\<And>n f. map_of (local_map cl1) n = Some f \<Longrightarrow> fi_name f = n"
      using entries_okD [OF local_map_ok [OF client_ok_wf [OF ok]]] by blast
    obtain b counts cl2 where lp:
      "reconcile_loop (map_of (local_map cl1)) (map_of (remote_map files)) ?names no_counts cl1 = Some (b, counts, cl2)"
      and s2: "stays cl1 cl2"
      using reconcile_loop_stays [OF valid here ok] by blast
    from stays_trans [OF s s2] have "stays cl (save_state cl2)" "\<And>m. stays cl (say m (save_state cl2))"
      by (simp_all add: stays_then)
    with ls X_Ok lp show ?thesis by (cases b) (auto simp: reconcile_def Let_def)
  qed (use ls s in \<open>auto simp: reconcile_def stays_then\<close>)
qed

section \<open>Local changes and pushes\<close>

lemma sync_local_change_stays: "is_valid_path name \<Longrightarrow> stays cl (sync_local_change name cl)"
proof -
  assume name: "is_valid_path name"
  obtain r cl1 where up: "upload (join_path (sync_dir cl) name) name Origin_Sync cl = (r, cl1)" by fastforce
  obtain r' cl2 where rm: "remove_remote name Origin_Sync cl = (r', cl2)" by fastforce
  have s1: "stays cl cl1" using upload_stays [of cl "join_path (sync_dir cl) name" name Origin_Sync] up by simp
  have s2: "stays cl cl2" using remove_stays [of cl name Origin_Sync] rm by simp
  have set: "stays cl (on_state (state_set here) cl1)" if "local_file name cl = Some here" for here
    by (rule stays_trans [OF s1 stays_set]) (simp add: local_file_name [OF that] name)
  show ?thesis
    using s1 s2 set up rm
    by (auto simp: sync_local_change_def stays_then split: option.splits outcome.splits)
qed

lemma fold_stays: "(\<And>n cl. n \<in> set ns \<Longrightarrow> stays cl (f n cl)) \<Longrightarrow> stays cl (fold f ns cl)"
  by (induction ns arbitrary: cl) (auto intro: stays_trans)

lemma rescan_stays: "client_ok cl \<Longrightarrow> stays cl (rescan_local cl)"
  unfolding rescan_local_def
  by (rule fold_stays, rule sync_local_change_stays)
    (auto simp: rescan_names_def state_names_def client_ok_def dest: list_tree_valid entries_ok_names)

lemma push_file_stays:
  assumes "client_ok cl"
  shows "\<exists>ok sync' cl'. push_file_received sync body cl = Some (ok, sync', cl') \<and> stays cl cl'"
proof (cases "read_file_header (new_reader body)")
  case (Inr v)
  obtain info rd where v: "v = (info, rd)" by fastforce
  obtain temp os1 where mk: "make_temp_path (sync_dir cl) (ct_os cl) = (temp, os1)" by fastforce
  obtain res hash sync1 os2 where rc: "recv_file_body sync temp (fi_size info) os1 = (res, hash, sync1, os2)"
    by (metis prod_cases4)
  let ?root = "inside (resolve (sync_dir cl))" and ?cl = "cl\<lparr>ct_os := os2\<rparr>" and ?info = "info\<lparr>fi_hash := hash\<rparr>"
  have temp: "?root (resolve temp)" using temp_inside [of "sync_dir cl" "ct_os cl"] mk by simp
  have o1: "only ?root (ct_os cl) os1"
    using only_temp [OF client_ok_wf [OF assms], of ?root "sync_dir cl"] mk by simp
  have o2: "only ?root (ct_os cl) os2"
    by (rule only_trans [OF o1 only_body [where P = ?root, OF only_wf [OF o1] temp rc]])
  have s: "stays cl ?cl" by (rule stays_os) (rule o2)
  have s': "stays cl (cl\<lparr>ct_os := snd (remove_file temp os2)\<rparr>)"
    by (rule stays_os) (rule only_trans [OF o2 only_remove [where P = ?root, OF only_wf [OF o2] temp]])
  show ?thesis
  proof (cases "res = T_Ok \<and> is_valid_path (fi_name info)")
    case True
    have "client_ok ?cl" by (rule stays_ok [OF s assms])
    then obtain cl' where i: "install temp (fi_name info) ?info ?cl = Some cl'"
      using install_total True by blast
    have "stays ?cl cl'" by (rule install_stays [OF _ _ i]) (use True temp in simp_all)
    then have "stays cl cl'" by (rule stays_trans [OF s])
    with Inr v mk rc True i show ?thesis by (auto simp: push_file_received_def Let_def stays_then)
  next
    case False
    with Inr v mk rc s s' show ?thesis by (auto simp: push_file_received_def Let_def)
  qed
qed (simp add: push_file_received_def, blast)

lemma push_delete_stays: "stays cl (snd (push_delete_received body cl))"
proof (cases "r_str (new_reader body)")
  case (Inr v)
  obtain name rd where v: "v = (name, rd)" by fastforce
  show ?thesis
  proof (cases "is_valid_path name")
    case True
    let ?cl = "save_state (on_state (state_erase name) cl)"
    let ?rm = "remove_file (join_path (sync_dir cl) name) (ct_os ?cl)" and ?root = "inside (resolve (sync_dir cl))"
    have dir: "sync_dir ?cl = sync_dir cl" by (simp add: save_state_def on_state_def)
    have s: "stays cl ?cl" by (simp add: stays_then)
    have o1: "only ?root (ct_os ?cl) (snd ?rm)" if "client_ok ?cl"
      by (intro only_remove client_ok_wf [OF that] inside_valid [OF True])
    have o2: "only ?root (ct_os ?cl) (remove_empty_parents (sync_dir cl) name (snd ?rm))" if "client_ok ?cl"
      by (rule only_trans [OF o1 [OF that] only_empty_parents [OF only_wf [OF o1 [OF that]] True]])
    have "stays cl (?cl\<lparr>ct_os := snd ?rm\<rparr>)"
      by (rule stays_trans [OF s stays_os]) (simp only: dir o1)
    moreover have "stays cl (?cl\<lparr>ct_os := remove_empty_parents (sync_dir cl) name (snd ?rm)\<rparr>)"
      by (rule stays_trans [OF s stays_os]) (simp only: dir o2)
    ultimately show ?thesis
      using Inr v True by (auto simp: push_delete_received_def Let_def dir stays_then split: prod.splits bool.splits)
  qed (use Inr v in \<open>simp add: push_delete_received_def\<close>)
qed (simp add: push_delete_received_def)

lemma handle_push_stays:
  assumes "client_ok cl"
  shows "\<exists>ok sync' cl'. handle_push sync m cl = Some (ok, sync', cl') \<and> stays cl cl'"
  using push_file_stays [OF assms] push_delete_stays [of cl "payload m"] stays_conns(3) stays_say(1)
  by (auto simp: handle_push_def split: prod.splits sum.splits)

section \<open>The threads\<close>

text \<open>The steps of the client's threads and of its environment, in any order.\<close>

inductive client_step :: "'q client \<Rightarrow> 'q client \<Rightarrow> bool" where
  Edit: "wf_os os \<Longrightarrow> os_node os (resolve (sync_dir cl)) = Some N_dir \<Longrightarrow> client_step cl (cl\<lparr>ct_os := os\<rparr>)"
    \<comment> \<open>other programs change files\<close>
| Tick: "stamp_ok s \<Longrightarrow> client_step cl (cl\<lparr>ct_stamp := s\<rparr>)" \<comment> \<open>time passes\<close>
| Event: "name = [] \<or> is_valid_path name \<Longrightarrow> client_step cl (enqueue name cl)" \<comment> \<open>the watcher\<close>
| Work: "worker_turn (\<lambda>cl. cl) cl = (b, cl') \<Longrightarrow> client_step cl cl'"
| Receive: "receive_turn \<lparr>tn_due = due, tn_busy = busy, tn_others = (\<lambda>cl. cl)\<rparr> cl = Some (b, cl') \<Longrightarrow> client_step cl cl'"
| Reconcile: "reconcile report cl = Some (b, cl') \<Longrightarrow> client_step cl cl'"
| Connect: "connect_once dial cl = (res, cl') \<Longrightarrow> client_step cl cl'"
| Lost: "client_step cl (mark_disconnected k cl)"
| Command: "run_command line cl = Some (b, cl') \<Longrightarrow> client_step cl cl'"
| Stop: "client_step cl (shutdown_client cl)"

definition client_inv :: "'q client \<Rightarrow> bool" where
  "client_inv cl \<longleftrightarrow>
     client_ok cl \<and> distinct (ct_queue cl) \<and> ct_queued cl = set (ct_queue cl) \<and>
     list_all (\<lambda>n. n = [] \<or> is_valid_path n) (ct_queue cl)"

text \<open>What a step that leaves the queue alone has to keep.\<close>

definition calm :: "'q client \<Rightarrow> 'q client \<Rightarrow> bool" where
  "calm cl cl' \<longleftrightarrow>
     ct_queue cl' = ct_queue cl \<and> ct_queued cl' = ct_queued cl \<and> (client_ok cl \<longrightarrow> client_ok cl')"

lemma stays_calm: "stays cl cl' \<Longrightarrow> calm cl cl'"
  by (simp add: stays_def calm_def)

lemma calm_refl [simp]: "calm cl cl"
  by (simp add: calm_def)

lemma calm_trans [trans]: "calm a b \<Longrightarrow> calm b c \<Longrightarrow> calm a c"
  by (simp add: calm_def)

lemma calm_inv: "calm cl cl' \<Longrightarrow> client_inv cl \<Longrightarrow> client_inv cl'"
  by (auto simp: calm_def client_inv_def)

lemma calm_os: "keeps_dirs (ct_os cl) os' \<Longrightarrow> calm cl (cl\<lparr>ct_os := os'\<rparr>)"
  by (simp add: calm_def client_ok_def keeps_dirs_def)

subsection \<open>Connecting\<close>

lemma try_candidate_calm: "calm cl (snd (try_candidate dial n host port cl))"
proof -
  have "calm cl (snd (attach_session dial n host port cmd token servers cl))" for cmd token servers
    by (auto simp: attach_session_def calm_def say_def client_ok_def
        split: option.splits sum.splits prod.splits call_result.splits)
  then show ?thesis
    using stays_calm [OF stays_say(1)]
    by (auto simp: try_candidate_def split_beta split: option.splits sum.splits prod.splits call_result.splits)
qed

lemma connect_loop_calm: "calm cl (snd (connect_loop dial i cands result cl))"
proof (induction dial i cands result cl rule: connect_loop.induct)
  case (1 dial i cands result cl)
  show ?case
  proof (cases cands)
    case (Cons c rest)
    obtain host port where c: "c = (host, port)" by fastforce
    show ?thesis
    proof (cases "MAX_CANDIDATES \<le> i \<or> ct_stopping cl")
      case False
      obtain r cl1 where t: "try_candidate dial i host port cl = (r, cl1)" by fastforce
      have s: "calm cl cl1" using try_candidate_calm [of cl dial i host port] t by simp
      note IH = 1 [OF Cons [unfolded c] refl False t [symmetric]]
      show ?thesis
      proof (cases r)
        case (Inr res)
        with s t Cons c False IH show ?thesis
          by (subst connect_loop.simps) (cases res; auto intro: calm_trans)
      qed (use s t Cons c False in \<open>subst connect_loop.simps, simp\<close>)
    qed (use Cons c in \<open>subst connect_loop.simps, simp\<close>)
  qed (subst connect_loop.simps, simp)
qed

lemma connect_once_calm: "connect_once dial cl = (res, cl') \<Longrightarrow> calm cl cl'"
  using connect_loop_calm [of cl dial 0 "candidates cl" Unreachable] by (simp add: connect_once_def)

subsection \<open>Commands\<close>

lemma download_calm: "wf_os (ct_os cl) \<Longrightarrow> calm cl (snd (download name dir cl))"
proof (cases "download name dir cl")
  case (Pair r cl')
  assume wf: "wf_os (ct_os cl)"
  have "calm cl (cl\<lparr>ct_os := os', ct_cmd := Some cmd'\<rparr>)"
    if "download_exchange name dir cmd (ct_os cl) = (res, cmd', os')" for cmd res cmd' os'
    using calm_trans [OF calm_os [OF dirs.download_exchange [OF wf TrueI that]] stays_calm [OF stays_conns(1) [of _ cmd']]]
    by simp
  with transact_result [OF Pair [unfolded download_def]] show ?thesis
    by (auto simp: Pair intro: calm_trans [OF _ stays_calm [OF stays_conns(4)]])
qed

lemma cmd_download_calm: "client_ok cl \<Longrightarrow> calm cl (cmd_download name cl)"
proof -
  assume ok: "client_ok cl"
  obtain r cl1 where dl: "download name ''.'' cl = (r, cl1)" by fastforce
  have s: "calm cl cl1" using download_calm [OF client_ok_wf [OF ok], of name "''.''"] dl by simp
  have ok1: "wf_os (ct_os cl1)" using s ok by (simp add: calm_def client_ok_wf)
  have put: "calm cl (cl1\<lparr>ct_os := os'\<rparr>)" if "keeps_dirs (ct_os cl1) os'" for os'
    by (rule calm_trans [OF s calm_os [OF that]])
  show ?thesis
  proof (cases r)
    case (X_Ok v)
    obtain got temp where v: "v = (got, temp)" by fastforce
    let ?os = "snd (set_mtime temp (fi_mtime got) (ct_os cl1))"
    have m: "keeps_dirs (ct_os cl1) ?os" by (rule dirs.mtime [OF ok1 TrueI])
    obtain moved os2 where mv: "replace_file temp (base_name name) ?os = (moved, os2)" by fastforce
    have k: "keeps_dirs (ct_os cl1) os2"
      using dirs.compose [OF m dirs.replace [OF dirs.formed [OF m] TrueI TrueI]] mv by (metis snd_conv)
    have k': "keeps_dirs (ct_os cl1) (snd (remove_file temp os2))"
      by (rule dirs.compose [OF k dirs.remove [OF dirs.formed [OF k] TrueI]])
    have "calm cl (say_size a n b (cl1\<lparr>ct_os := os2\<rparr>))" "calm cl (say a (cl1\<lparr>ct_os := snd (remove_file temp os2)\<rparr>))" for a n b
      using calm_trans [OF put [OF k] stays_calm [OF stays_say(2)]] calm_trans [OF put [OF k'] stays_calm [OF stays_say(1)]]
      by auto
    with dl X_Ok v mv show ?thesis by (cases moved) (auto simp: cmd_download_def Let_def stays_calm)
  qed (use dl calm_trans [OF s stays_calm [OF stays_say(1)]] in \<open>auto simp: cmd_download_def stays_calm\<close>)
qed

lemma do_command_cases:
  assumes "P (Some (say HELP cl))" "P (Some (cmd_upload a cl))" "P (Some (cmd_download a cl))"
    "P (Some (cmd_delete a cl))" "P (Some (cmd_list_server cl))" "P (Some (cmd_list_client cl))" "P (cmd_sync cl)"
    "\<And>s. P (Some (say s cl))"
  shows "P (do_command c a cl)"
  unfolding do_command_def using assms by (simp only: if_split) blast

lemma run_command_calm:
  assumes ok: "client_ok cl" and run: "run_command line cl = Some (b, cl')"
  shows "calm cl cl'"
proof -
  have up: "stays cl (cmd_upload path cl)" for path
  proof -
    obtain r cl1 where u: "upload path (base_name path) Origin_Command cl = (r, cl1)" by fastforce
    have "stays cl cl1" using upload_stays [of cl path "base_name path" Origin_Command] u by simp
    with u show ?thesis by (auto simp: cmd_upload_def Let_def stays_then split: outcome.splits option.splits)
  qed
  have del: "stays cl (cmd_delete name cl)" for name
  proof -
    obtain r cl1 where u: "remove_remote name Origin_Command cl = (r, cl1)" by fastforce
    have "stays cl cl1" using remove_stays [of cl name Origin_Command] u by simp
    with u show ?thesis by (auto simp: cmd_delete_def stays_then split: outcome.splits)
  qed
  have ls: "stays cl (cmd_list_server cl)"
  proof -
    obtain r cl1 where u: "list_remote cl = (r, cl1)" by fastforce
    have "stays cl cl1" using list_stays [of cl] u by simp
    with u show ?thesis by (auto simp: cmd_list_server_def stays_then split: outcome.splits)
  qed
  have sync: "stays cl cl2" if "cmd_sync cl = Some cl2" for cl2
    using that reconcile_stays [OF ok, of True]
    by (auto simp: cmd_sync_def stays_then split: if_splits option.splits prod.splits bool.splits)
  have "calm cl cl2" if "do_command c a cl = Some cl2" for c a cl2
    by (rule do_command_cases [of "\<lambda>r. \<forall>cl2. r = Some cl2 \<longrightarrow> calm cl cl2", rule_format, OF _ _ _ _ _ _ _ _ that])
      (auto simp: cmd_list_client_def intro: stays_calm up del ls sync cmd_download_calm [OF ok])
  with run show ?thesis by (auto simp: run_command_def Let_def split: if_splits prod.splits)
qed

lemma shutdown_calm: "calm cl (shutdown_client cl)"
proof -
  let ?cl = "cl\<lparr>ct_stopping := True\<rparr>"
  have s: "calm cl ?cl" by (simp add: calm_def client_ok_def)
  have "calm cl (mark_disconnected k ?cl)" for k
    by (rule calm_trans [OF s stays_calm [OF stays_conns(4)]])
  moreover have "calm cl (say m (mark_disconnected k (?cl\<lparr>ct_cmd := Some c\<rparr>)))" for k m c
    by (rule calm_trans [OF s stays_calm [OF stays_then(2) [OF stays_then(9) [OF stays_conns(1)]]]])
  ultimately show ?thesis by (auto simp: shutdown_client_def Let_def split: option.splits)
qed

subsection \<open>The invariant\<close>

lemma receive_turn_stays:
  assumes ok: "client_ok cl"
    and turn: "receive_turn \<lparr>tn_due = due, tn_busy = busy, tn_others = (\<lambda>cl. cl)\<rparr> cl = Some (b, cl')"
  shows "stays cl cl'"
proof (cases "ct_sync cl")
  case (Some sync)
  obtain status sync1 where rc: "conn_recv sync = (status, sync1)" by fastforce
  let ?cl = "cl\<lparr>ct_sync := Some sync1\<rparr>"
  have s: "stays cl ?cl" by (rule stays_conns)
  note push = handle_push_stays [OF stays_ok [OF s ok], of sync1]
  have handled: "stays cl cl1"
    if "(case status of Recv_Closed \<Rightarrow> Some (False, ?cl) | Recv_Timeout \<Rightarrow> Some (True, ?cl)
         | Received m \<Rightarrow> map_option (\<lambda>(ok, sync, cl). (ok, cl\<lparr>ct_sync := Some sync\<rparr>)) (handle_push sync1 m ?cl)) = Some (b1, cl1)"
    for b1 cl1
  proof (cases status)
    case (Received m)
    with push [of m] that obtain sync2 cl2 where "stays ?cl cl2" "cl1 = cl2\<lparr>ct_sync := Some sync2\<rparr>" by auto
    with stays_trans [OF s this(1)] show ?thesis by (simp add: stays_then)
  qed (use that s in auto)
  have ping: "stays c (snd (ping bz c))" for bz and c :: "'a client"
    by (auto simp: ping_def split: option.splits prod.splits)
  show ?thesis
    using turn handled
    by (auto simp: receive_turn_def Some rc Let_def split: option.splits prod.splits bool.splits if_splits
        dest!: arg_cong [of _ _ snd] intro: stays_trans [OF _ ping])
qed (use turn in \<open>simp add: receive_turn_def\<close>)

lemma worker_turn_inv:
  assumes inv: "client_inv cl" and work: "worker_turn (\<lambda>cl. cl) cl = (b, cl')"
  shows "client_inv cl'"
proof (cases "ct_stopping cl \<or> ct_queue cl = []")
  case False
  then obtain name rest where q: "ct_queue cl = name # rest" by (cases "ct_queue cl") auto
  let ?cl = "cl\<lparr>ct_queue := rest, ct_queued := ct_queued cl - {name}\<rparr>"
  have i: "client_inv ?cl" using inv q by (auto simp: client_inv_def client_ok_def)
  have ok: "client_ok ?cl" using i unfolding client_inv_def by blast
  have name: "name = [] \<or> is_valid_path name" using inv q by (simp add: client_inv_def)
  have "cl' = ?cl \<or> cl' = rescan_local ?cl \<or> name \<noteq> [] \<and> cl' = sync_local_change name ?cl"
    using work False q by (simp add: worker_turn_def Let_def split: if_splits)
  then have "stays ?cl cl'" using rescan_stays [OF ok] sync_local_change_stays name by auto
  from calm_inv [OF stays_calm [OF this] i] show ?thesis .
qed (use assms in \<open>auto simp: worker_turn_def split: if_splits\<close>)

lemma client_step_inv: "client_step cl cl' \<Longrightarrow> client_inv cl \<Longrightarrow> client_inv cl'"
proof (induction rule: client_step.induct)
  case (Work cl b cl')
  then show ?case by (rule worker_turn_inv [rotated])
next
  case (Receive due busy cl b cl')
  then have "client_ok cl" by (simp add: client_inv_def)
  from receive_turn_stays [OF this Receive(1)] Receive(2) show ?case by (rule calm_inv [OF stays_calm])
next
  case (Reconcile report cl b cl')
  then have "client_ok cl" by (simp add: client_inv_def)
  with reconcile_stays [of cl report] Reconcile show ?case by (auto intro: calm_inv [OF stays_calm])
next
  case (Connect dial cl res cl')
  from connect_once_calm [OF Connect(1)] Connect(2) show ?case by (rule calm_inv)
next
  case (Lost cl k)
  from stays_calm [OF stays_conns(4)] Lost show ?case by (rule calm_inv)
next
  case (Command line cl b cl')
  then have "client_ok cl" by (simp add: client_inv_def)
  from run_command_calm [OF this Command(1)] Command(2) show ?case by (rule calm_inv)
next
  case (Stop cl)
  from shutdown_calm Stop show ?case by (rule calm_inv)
qed (auto simp: client_inv_def client_ok_def enqueue_def)

lemma client_steps_inv: "client_step\<^sup>*\<^sup>* cl cl' \<Longrightarrow> client_inv cl \<Longrightarrow> client_inv cl'"
  by (induction rule: rtranclp_induct) (auto dest: client_step_inv)

lemma client_start_inv:
  assumes "wf_os os" "clean_dir (op_sync_dir opts)" "stamp_ok stamp"
    and start: "client_start dial watching (new_client opts os stamp) = (Start_running, cl)"
  shows "client_inv cl"
proof -
  let ?new = "new_client opts os stamp :: 'a client"
  obtain os1 where mk: "make_dirs (op_sync_dir opts) os = (True, os1)"
    using start by (auto simp: client_start_def new_client_def Let_def split: prod.splits bool.splits)
  obtain st where ld: "state_load (ct_state ?new) os1 = Inr st"
    using start mk by (auto simp: client_start_def new_client_def Let_def split: prod.splits sum.splits)
  let ?cl = "?new\<lparr>ct_os := os1, ct_state := st\<rparr>"
  have wf: "wf_os os1" using make_dirs_adds [OF assms(1) mk] by (simp add: adds_dirs_def)
  have "ss_path st = ss_path (ct_state ?new)" "entries_ok (ss_entries st)"
    using ld parse_state_ok by (auto simp: state_load_def ebind_Inr_iff split: option.splits)
  then have "client_ok ?cl"
    using wf make_dirs_True [OF mk] assms(2,3) by (simp add: client_ok_def new_client_def)
  then have i: "client_inv ?cl" by (simp add: client_inv_def new_client_def)
  obtain res cl1 where cn: "connect_once dial ?cl = (res, cl1)" by fastforce
  have i1: "client_inv cl1" by (rule calm_inv [OF connect_once_calm [OF cn] i])
  have "\<exists>m. cl = say m cl1"
    using start mk ld cn
    by (auto simp: client_start_def new_client_def Let_def
        split: sum.splits connect_result.splits if_splits)
  with calm_inv [OF stays_calm [OF stays_say(1)] i1] show ?thesis by auto
qed

section \<open>Properties\<close>

text \<open>A server that accepts the login and the sync connection, and has no files.\<close>

definition willing :: "unit conn" where
  "willing =
     \<lparr>peer_state = (),
      respond = (\<lambda>p ms. (p, map (\<lambda>m.
        if mtype m = Msg_Login then \<lparr>mtype = Msg_LoginOk, payload = w_u16 0 (w_u16 0 [])\<rparr>
        else if mtype m = Msg_ListFiles then \<lparr>mtype = Msg_FileList, payload = w_u32 0 []\<rparr>
        else \<lparr>mtype = Msg_Ok, payload = []\<rparr>) ms)),
      outq = [], inq = [], sends_left = None, is_open = True, peer_is_server = True\<rparr>"

definition sample_options :: client_options where
  "sample_options = \<lparr>op_user = ''u'', op_password = ''secret'', op_host = ''h'', op_port = 4000, op_sync_dir = ''s'',
     op_ca_file = ''certs/ca.pem''\<rparr>"

definition sample_disk :: os where
  "sample_disk = \<lparr>tree = [], file_limit = None, cut_at = None, now = 7, rnd = \<lambda>_. 1, rnd_pos = 0\<rparr>"

definition sample_client :: "unit client" where
  "sample_client = snd (client_start (\<lambda>_ _ _. Some willing) True (new_client sample_options sample_disk ''2026-10-20 14.03.07''))"

lemma sample_start:
  "client_start (\<lambda>_ _ _. Some willing) True (new_client sample_options sample_disk ''2026-10-20 14.03.07'') =
     (Start_running, sample_client)"
proof -
  have "fst (client_start (\<lambda>_ _ _. Some willing) True (new_client sample_options sample_disk ''2026-10-20 14.03.07'')) =
      Start_running"
    by code_simp
  then show ?thesis by (simp add: sample_client_def prod_eq_iff)
qed

lemma sample_facts: "wf_os sample_disk" "clean_dir (op_sync_dir sample_options)" "stamp_ok ''2026-10-20 14.03.07''"
  by (simp_all add: wf_os_def sample_disk_def clean_dir_def sample_options_def stamp_ok_def name_char_def)

lemma sample_client_inv: "client_inv sample_client"
  by (rule client_start_inv [OF sample_facts sample_start])

text \<open>
  C12. However the steps of the client's threads, of the user's other programs and of the server
  are interleaved after a successful start: the file system stays well-formed with \<open>sync_dir\<close> in it, the
  saved entries are filed under their own valid names, the queue holds every name at most
  once and agrees with the set beside it, and a connected client has both its connections.
\<close>

theorem client_invariant:
  assumes "wf_os os" "clean_dir (op_sync_dir opts)" "stamp_ok stamp"
    and "client_start dial watching (new_client opts os stamp) = (Start_running, cl0)"
    and "client_step\<^sup>*\<^sup>* cl0 cl"
  shows "client_inv cl"
  using client_steps_inv [OF assms(5) client_start_inv [OF assms(1-4)]] .

theorem client_invariant_witness: "client_inv (enqueue ''a.txt'' sample_client)"
proof (rule client_invariant [OF sample_facts sample_start])
  have "is_valid_path ''a.txt''" by code_simp
  then show "client_step\<^sup>*\<^sup>* sample_client (enqueue ''a.txt'' sample_client)"
    by (blast intro: client_step.Event)
qed



end
