(* ===== verification/Client_Install.thy ===== *)
theory Client_Install
  imports Client_Invariant
begin

text \<open>
  What \<open>install\<close> does to the files: the received contents are in place, the record says so, a
  local version that was not synced is under the name of its copy, and all else is as before.
\<close>

section \<open>The files of the program itself\<close>

definition own_node :: "'q client \<Rightarrow> fpath \<Rightarrow> bool" where
  "own_node cl q \<longleftrightarrow> (\<exists>c. take (length RESERVED_PREFIX) c = RESERVED_PREFIX \<and> q = resolve (sync_dir cl) @ [c])"

abbreviation sync_node :: "'q client \<Rightarrow> string \<Rightarrow> fpath" where
  "sync_node cl name \<equiv> resolve (sync_dir cl) @ split_on slash name"

text \<open>The directory of a file, the way \<^const>\<open>conflict_name\<close> takes it.\<close>

abbreviation copy_node :: "'q client \<Rightarrow> string \<Rightarrow> string \<Rightarrow> fpath" where
  "copy_node cl name f \<equiv> resolve (sync_dir cl) @ butlast (split_on slash name) @ [f]"

lemma valid_name_prefix: "is_valid_file_name c \<Longrightarrow> take (length RESERVED_PREFIX) c \<noteq> RESERVED_PREFIX"
  by (simp add: is_valid_file_name_def split: if_splits)

lemma sync_node_not_own: "is_valid_path name \<Longrightarrow> \<not> own_node cl (sync_node cl name)"
  by (auto simp: own_node_def is_valid_path_iff valid_components_def valid_name_prefix)

lemma prefix_not_own: "is_valid_path name \<Longrightarrow> \<not> own_node cl (resolve (sync_dir cl) @ take k (split_on slash name))"
  by (cases "split_on slash name"; cases k)
    (auto simp: own_node_def is_valid_path_iff valid_components_def valid_name_prefix)

lemma copy_not_own:
  assumes "is_valid_path name" "is_valid_file_name f"
  shows "\<not> own_node cl (copy_node cl name f)"
proof
  assume "own_node cl (copy_node cl name f)"
  then obtain c where "take (length RESERVED_PREFIX) c = RESERVED_PREFIX" "butlast (split_on slash name) @ [f] = [c]"
    by (auto simp: own_node_def)
  with assms(2) show False by (auto simp: valid_name_prefix append_eq_Cons_conv)
qed

lemma own_state:
  assumes "client_ok cl"
  shows "own_node cl (resolve (ss_path (ct_state cl)))" "own_node cl (resolve (ss_path (ct_state cl) @ ''.tmp''))"
proof -
  have p: "ss_path (ct_state cl) = join_path (sync_dir cl) (RESERVED_PREFIX @ ''_state'')"
    "ss_path (ct_state cl) @ ''.tmp'' = join_path (sync_dir cl) (RESERVED_PREFIX @ ''_state.tmp'')"
    using assms by (auto simp: client_ok_def join_path_def)
  have g: "good_name (RESERVED_PREFIX @ ''_state'')" "good_name (RESERVED_PREFIX @ ''_state.tmp'')"
    by (simp_all add: good_name_def RESERVED_PREFIX_def)
  show "own_node cl (resolve (ss_path (ct_state cl)))" "own_node cl (resolve (ss_path (ct_state cl) @ ''.tmp''))"
    unfolding p(2) unfolding p(1) by (auto simp: own_node_def resolve_join_name g)
qed

lemma save_state_only:
  assumes "client_ok cl"
  shows "only (own_node cl) (ct_os cl) (ct_os (save_state cl))"
  by (simp add: save_state_def only_save [OF client_ok_wf [OF assms]] own_state [OF assms])

lemma save_state_rest [simp]:
  "ct_state (save_state cl) = ct_state cl" "ct_options (save_state cl) = ct_options cl"
  by (simp_all add: save_state_def)

section \<open>Placing a received file\<close>

text \<open>A received body, in a temporary file of the client.\<close>

definition temp_file :: "'q client \<Rightarrow> string \<Rightarrow> string \<Rightarrow> bool" where
  "temp_file cl temp bs \<longleftrightarrow> own_node cl (resolve temp) \<and> (\<exists>t. file_at (ct_os cl) (resolve temp) = Some (bs, t))"

text \<open>Nothing is in the way of a file of this name: its parents are directories or free, and so is the name.\<close>

definition room_for :: "'q client \<Rightarrow> string \<Rightarrow> bool" where
  "room_for cl name \<longleftrightarrow>
     list_all (\<lambda>k. dir_or_free (ct_os cl) (resolve (sync_dir cl) @ take k (split_on slash name)))
       [0..<length (split_on slash name)] \<and>
     os_node (ct_os cl) (sync_node cl name) \<noteq> Some N_dir"

text \<open>The name that is chosen for a copy.\<close>

lemma conflict_choice:
  assumes ok: "client_ok cl" and name: "is_valid_path name"
  obtains k where "k \<le> length (tree (ct_os cl)) + 2"
    "conflict_name name cl = Some (conflict_candidate (ct_stamp cl) name k)"
    "join_path (sync_dir cl) (conflict_candidate (ct_stamp cl) name k) \<noteq> []"
    "resolve (join_path (sync_dir cl) (conflict_candidate (ct_stamp cl) name k)) = copy_node cl name (conflict_file (ct_stamp cl) (base_name name) k)"
    "file_at (ct_os cl) (copy_node cl name (conflict_file (ct_stamp cl) (base_name name) k)) = None"
proof -
  have stamp: "stamp_ok (ct_stamp cl)" using ok by (simp add: client_ok_def)
  obtain k where k: "k \<le> length (tree (ct_os cl)) + 2"
    "conflict_name name cl = Some (conflict_candidate (ct_stamp cl) name k)"
    "stat_file (join_path (sync_dir cl) (conflict_candidate (ct_stamp cl) name k)) new_file_info False (ct_os cl) = None"
    using conflict_loop_total [OF name stamp] unfolding conflict_name_def by metis
  let ?to = "join_path (sync_dir cl) (conflict_candidate (ct_stamp cl) name k)"
    and ?node = "copy_node cl name (conflict_file (ct_stamp cl) (base_name name) k)"
  have res: "resolve ?to = ?node" by (rule resolve_candidate [OF name stamp])
  have to: "?to \<noteq> []" by (rule join_path_not_Nil [OF conflict_candidate_not_Nil])
  have "file_at (ct_os cl) ?node = None"
    using stat_file_Some [of ?to new_file_info "ct_os cl"] k(3) to unfolding res by (cases "file_at (ct_os cl) ?node") auto
  from that [OF k(1,2) to res this] show thesis .
qed

text \<open>When there is room, the directories are made and the file can be put in its place.\<close>

lemma room_is_made:
  fixes m :: i64
  assumes ok: "client_ok cl" and name: "is_valid_path name" and temp: "temp_file cl temp bs" and room: "room_for cl name"
  defines "os1 \<equiv> snd (set_mtime temp m (ct_os cl))"
  obtains os2 os3 t1 where "only (own_node cl) (ct_os cl) os1"
    "make_parent_dirs (sync_dir cl) name os1 = (True, os2)" "adds_dirs os1 os2"
    "only (\<lambda>q. \<exists>k. 0 < k \<and> k < length (split_on slash name) \<and> q = resolve (sync_dir cl) @ take k (split_on slash name)) os1 os2"
    "os_node os2 (resolve temp) = Some (N_file bs t1)" "replace_file temp (join_path (sync_dir cl) name) os2 = (True, os3)"
proof -
  let ?dir = "resolve (sync_dir cl)" and ?cs = "split_on slash name" and ?path = "join_path (sync_dir cl) name"
  note wf = client_ok_wf [OF ok]
  note mt = set_mtime_effect [OF wf, where s = temp and m = m, folded os1_def]
  have path: "resolve ?path = sync_node cl name" by (rule resolve_join_valid [OF name])
  have t0: "temp \<noteq> []" "resolve temp \<noteq> []" using temp by (auto simp: temp_file_def own_node_def)
  obtain t1 where f1: "file_at os1 (resolve temp) = Some (bs, t1)"
    using temp mt(2) [of "resolve temp"] t0 by (auto simp: temp_file_def split: if_splits)
  have o1: "only (own_node cl) (ct_os cl) os1" unfolding os1_def by (rule only_mtime) (use wf temp in \<open>auto simp: temp_file_def\<close>)
  have pre: "os_node os1 (?dir @ take k ?cs) = os_node (ct_os cl) (?dir @ take k ?cs)" for k
    by (rule only_node [OF o1 prefix_not_own [OF name]])
  have "\<exists>os'. make_parent_dirs (sync_dir cl) name os1 = (True, os') \<and> adds_dirs os1 os' \<and>
      os_node os' (?dir @ butlast ?cs) = Some N_dir"
  proof (rule make_parent_dirs_ok [OF mt(1) name])
    show "os_node os1 ?dir = Some N_dir" using ok mt(3) by (simp add: client_ok_def)
    show "clean_dir (sync_dir cl)" using ok by (simp add: client_ok_def)
    show "\<forall>k < length ?cs. dir_or_free os1 (?dir @ take k ?cs)"
      using room pre by (simp add: room_for_def list_all_iff dir_or_free_def)
  qed
  then obtain os2 where mk: "make_parent_dirs (sync_dir cl) name os1 = (True, os2)" "adds_dirs os1 os2"
    "os_node os2 (?dir @ butlast ?cs) = Some N_dir" by blast
  have o2: "only (\<lambda>q. \<exists>k. 0 < k \<and> k < length ?cs \<and> q = ?dir @ take k ?cs) os1 os2"
    by (rule parent_dirs_only [OF mt(1) _ _ name mk(1)]) (use ok mt(3) in \<open>simp_all add: client_ok_def\<close>)
  have "os_node os2 (sync_node cl name) = os_node os1 (sync_node cl name)"
    by (rule only_node [OF o2]) (metis append_same_eq length_take min.absorb4 nat_neq_iff same_append_eq)
  also have "\<dots> = os_node (ct_os cl) (sync_node cl name)" using pre [of "length ?cs"] by simp
  finally have target: "os_node os2 (sync_node cl name) \<noteq> Some N_dir" using room by (simp add: room_for_def)
  have f2: "os_node os2 (resolve temp) = Some (N_file bs t1)"
    unfolding file_at_Some [symmetric] adds_dirs_files [OF mk(2)] by (rule f1)
  obtain os3 where "replace_file temp ?path os2 = (True, os3)"
    using replace_file_succeeds [of ?path os2 temp bs t1] f2 mk(3) target path name
      join_path_not_Nil [of name "sync_dir cl"] valid_path_length [OF name]
    by (auto simp: butlast_append)
  from that [OF o1 mk(1,2) o2 f2 this] show thesis .
qed

lemma place_file_effect:
  assumes ok: "client_ok cl" and name: "is_valid_path name" and temp: "temp_file cl temp bs" and room: "room_for cl name"
  shows "\<exists>t. file_at (ct_os (place_file temp name info cl)) (sync_node cl name) = Some (bs, t)"
    "ct_state (place_file temp name info cl) = state_set (info\<lparr>fi_name := name\<rparr>) (ct_state cl)"
    "only (\<lambda>q. own_node cl q \<or> (\<exists>k. 0 < k \<and> k \<le> length (split_on slash name) \<and> q = resolve (sync_dir cl) @ take k (split_on slash name)))
       (ct_os cl) (ct_os (place_file temp name info cl))"
    "q \<noteq> sync_node cl name \<Longrightarrow> \<not> own_node cl q \<Longrightarrow> file_at (ct_os (place_file temp name info cl)) q = file_at (ct_os cl) q"
proof -
  let ?dir = "resolve (sync_dir cl)" and ?cs = "split_on slash name" and ?path = "join_path (sync_dir cl) name"
  let ?os1 = "snd (set_mtime temp (fi_mtime info) (ct_os cl))"
  have path: "resolve ?path = sync_node cl name" by (rule resolve_join_valid [OF name])
  obtain os2 os3 t1 where o1: "only (own_node cl) (ct_os cl) ?os1"
    and mk: "make_parent_dirs (sync_dir cl) name ?os1 = (True, os2)" "adds_dirs ?os1 os2"
    and o2: "only (\<lambda>q. \<exists>k. 0 < k \<and> k < length ?cs \<and> q = ?dir @ take k ?cs) ?os1 os2"
    and f2: "os_node os2 (resolve temp) = Some (N_file bs t1)" and rp: "replace_file temp ?path os2 = (True, os3)"
    by (rule room_is_made [OF ok name temp room])
  have wf2: "wf_os os2" by (rule only_wf [OF o2])
  have neq: "resolve temp \<noteq> resolve ?path"
    using temp sync_node_not_own [OF name, of cl] by (auto simp: path temp_file_def)
  note r = replace_file_ok [OF wf2 rp neq, unfolded path]
  let ?cl1 = "on_state (state_set (info\<lparr>fi_name := name\<rparr>)) cl" and ?cl2 = "on_state (state_set (info\<lparr>fi_name := name\<rparr>)) cl\<lparr>ct_os := os3\<rparr>"
  have pl: "place_file temp name info cl = save_state ?cl2"
    using mk(1) rp by (simp add: place_file_def Let_def on_state_def)
  then show "ct_state (place_file temp name info cl) = state_set (info\<lparr>fi_name := name\<rparr>) (ct_state cl)"
    by (simp add: on_state_def)
  let ?P = "\<lambda>q. own_node cl q \<or> (\<exists>k. 0 < k \<and> k \<le> length ?cs \<and> q = ?dir @ take k ?cs)"
  have o3: "only ?P (ct_os cl) os3"
  proof (rule only_trans [OF only_mono [OF o1]], simp)
    have "?P (resolve ?path)" unfolding path by (intro disjI2 exI [of _ "length ?cs"]) simp
    moreover have "?P (resolve temp)" using temp by (simp add: temp_file_def)
    ultimately have "only ?P os2 os3"
      using only_replace [where P = ?P, OF wf2, of temp ?path] rp by simp
    moreover have "only ?P ?os1 os2" by (rule only_mono [OF o2]) auto
    ultimately show "only ?P ?os1 os3" by (blast intro: only_trans)
  qed
  have ins: "inside ?dir q" if "?P q" for q using that by (auto simp: own_node_def)
  have "client_ok ?cl1" by (rule stays_ok [OF stays_set ok]) (simp add: name)
  moreover have "only (inside (resolve (sync_dir ?cl1))) (ct_os ?cl1) os3"
    using only_mono [OF o3 ins] by (simp add: on_state_def)
  ultimately have ok2: "client_ok ?cl2" by (rule stays_ok [OF stays_os, rotated])
  have own2: "own_node ?cl2 = own_node cl" by (simp add: fun_eq_iff own_node_def on_state_def)
  have o4: "only (own_node cl) os3 (ct_os (place_file temp name info cl))"
    using save_state_only [OF ok2] unfolding own2 by (simp add: pl on_state_def)
  show "only ?P (ct_os cl) (ct_os (place_file temp name info cl))"
    by (rule only_trans [OF o3 only_mono [OF o4]]) simp
  have "file_at os3 (sync_node cl name) = Some (bs, t1)" using r(2) f2 by (simp add: file_at_def)
  then show "\<exists>t. file_at (ct_os (place_file temp name info cl)) (sync_node cl name) = Some (bs, t)"
    using only_file [OF o4 sync_node_not_own [OF name]] by auto
  show "file_at (ct_os (place_file temp name info cl)) q = file_at (ct_os cl) q"
    if "q \<noteq> sync_node cl name" "\<not> own_node cl q"
  proof -
    have "q \<noteq> resolve temp" using that(2) temp by (auto simp: temp_file_def)
    then have "file_at os3 q = file_at os2 q" using that(1) r(2) by (simp add: file_at_def)
    also have "\<dots> = file_at (ct_os cl) q"
      using adds_dirs_files [OF mk(2)] only_file [OF o1 that(2)] by simp
    finally show ?thesis using only_file [OF o4 that(2)] by simp
  qed
qed

section \<open>Keeping what was not synced\<close>

lemma state_get_set: "entries_ok (ss_entries st) \<Longrightarrow> state_get (fi_name f) (state_set f st) = Some f"
  by (simp add: state_get_def state_set_def omap_put_lookup entries_ok_def)

lemma keep_conflicted_moves:
  assumes ok: "client_ok cl" and name: "is_valid_path name" and small: "length (tree (ct_os cl)) < 10 ^ 9"
    and old: "file_at (ct_os cl) (sync_node cl name) = Some (old, t)" and uns: "unsynced name info cl"
    and dirs: "\<And>k. os_node (ct_os cl) (copy_node cl name (conflict_file (ct_stamp cl) (base_name name) k)) \<noteq> Some N_dir"
  obtains f os msg where "is_valid_file_name f" "file_at (ct_os cl) (copy_node cl name f) = None"
    "os_node (ct_os cl) (copy_node cl name f) \<noteq> Some N_dir"
    "os_node os = (os_node (ct_os cl))(sync_node cl name := None, copy_node cl name f \<mapsto> N_file old t)"
    "keep_conflicted name info cl = Some (say msg (cl\<lparr>ct_os := os\<rparr>))"
proof -
  note wf = client_ok_wf [OF ok]
  have stamp: "stamp_ok (ct_stamp cl)" using ok by (simp add: client_ok_def)
  obtain k where k: "k \<le> length (tree (ct_os cl)) + 2"
    "conflict_name name cl = Some (conflict_candidate (ct_stamp cl) name k)"
    and to: "join_path (sync_dir cl) (conflict_candidate (ct_stamp cl) name k) \<noteq> []"
    and to_node: "resolve (join_path (sync_dir cl) (conflict_candidate (ct_stamp cl) name k)) = copy_node cl name (conflict_file (ct_stamp cl) (base_name name) k)"
    and none: "file_at (ct_os cl) (copy_node cl name (conflict_file (ct_stamp cl) (base_name name) k)) = None"
    by (rule conflict_choice [OF ok name])
  let ?f = "conflict_file (ct_stamp cl) (base_name name) k"
  let ?from = "join_path (sync_dir cl) name" and ?to = "join_path (sync_dir cl) (conflict_candidate (ct_stamp cl) name k)"
  note res = resolve_join_valid [OF name, of "sync_dir cl"] to_node
  have src: "os_node (ct_os cl) (sync_node cl name) = Some (N_file old t)" using old by (simp add: file_at_Some)
  have "os_node (ct_os cl) (butlast (sync_node cl name)) = Some N_dir"
    by (rule wf_os_parent [OF wf src]) simp
  then have par: "os_node (ct_os cl) (butlast (copy_node cl name ?f)) = Some N_dir"
    by (simp add: butlast_append)
  obtain os where rp: "replace_file ?from ?to (ct_os cl) = (True, os)"
    using replace_file_succeeds [OF to, of "ct_os cl" ?from old t] src par dirs unfolding res by blast
  have neq: "resolve ?from \<noteq> resolve ?to" using none old unfolding res by auto
  note r = replace_file_ok [OF wf rp neq, unfolded res src]
  have f: "is_valid_file_name ?f"
    by (rule conflict_file_valid [OF stamp _ valid_base [OF name]]) (use k(1) small in simp)
  obtain msg where "keep_conflicted name info cl = Some (say msg (cl\<lparr>ct_os := os\<rparr>))"
    using uns k(2) rp by (simp add: keep_conflicted_def Let_def)
  with that [OF f none dirs] r(2) show thesis by blast
qed

end
