(* ===== verification/Client_Properties.thy ===== *)
theory Client_Properties
  imports Client_Install
begin

text \<open>
  What the client's synchronization is for: no edit is lost. The decisions of \<open>reconcile\<close> are
  a three-way merge, a received file never overwrites a version that was not synced, and the
  copies it makes are synced files; a pushed deletion is the exception.
\<close>

section \<open>Conflicted copies\<close>

text \<open>
  C30. A conflicted copy has a place: the search of \<open>conflict_name\<close> ends, the name it finds is
  no file yet, it lies in the directory of the original and is a valid file name of at most
  255 bytes, and the whole path is one that is synced unless it grows beyond the 1024 bytes.
\<close>

theorem conflict_name_found:
  assumes "is_valid_path name" "stamp_ok (ct_stamp cl)" "length (tree (ct_os cl)) < 10 ^ 9"
  shows "\<exists>f. conflict_name name cl = Some (if parent_path name = [] then f else parent_path name @ slash # f) \<and>
    is_valid_file_name f \<and> length f \<le> 255 \<and>
    file_at (ct_os cl) (resolve (sync_dir cl) @ butlast (split_on slash name) @ [f]) = None \<and>
    (length name + 62 \<le> 1024 \<longrightarrow> is_valid_path (if parent_path name = [] then f else parent_path name @ slash # f))"
proof -
  obtain k where k: "k \<le> length (tree (ct_os cl)) + 2"
    "conflict_name name cl = Some (conflict_candidate (ct_stamp cl) name k)"
    "stat_file (join_path (sync_dir cl) (conflict_candidate (ct_stamp cl) name k)) new_file_info False (ct_os cl) = None"
    using conflict_loop_total [OF assms(1,2)] unfolding conflict_name_def by metis
  let ?f = "conflict_file (ct_stamp cl) (base_name name) k"
  have cand: "conflict_candidate (ct_stamp cl) name k = (if parent_path name = [] then ?f else parent_path name @ slash # ?f)"
    by (simp add: conflict_candidate_def Let_def)
  note base = valid_base [OF assms(1)]
  have small: "k < 10 ^ 10" using k(1) assms(3) by simp
  note f = conflict_file_valid [OF assms(2) small base] length_conflict_file [OF assms(2) small base]
  let ?p = "join_path (sync_dir cl) (conflict_candidate (ct_stamp cl) name k)"
  have "file_at (ct_os cl) (resolve ?p) = None"
    using stat_file_Some [of ?p new_file_info "ct_os cl"] k(3) join_path_not_Nil [OF conflict_candidate_not_Nil]
    by (cases "file_at (ct_os cl) (resolve ?p)") auto
  then have "file_at (ct_os cl) (resolve (sync_dir cl) @ butlast (split_on slash name) @ [?f]) = None"
    by (simp only: resolve_candidate [OF assms(1,2)])
  moreover have "is_valid_path (conflict_candidate (ct_stamp cl) name k)" if "length name + 62 \<le> 1024"
    by (rule candidate_valid [OF assms(1,2) small that])
  ultimately show ?thesis using k(2) f cand by (intro exI [of _ ?f]) (auto simp: MAX_NAME_LENGTH_def)
qed

theorem conflict_name_found_witness:
  "\<exists>f. conflict_name ''docs/a.txt'' sample_client =
        Some (if parent_path ''docs/a.txt'' = [] then f else parent_path ''docs/a.txt'' @ slash # f) \<and>
    is_valid_file_name f \<and> length f \<le> 255 \<and>
    file_at (ct_os sample_client) (resolve (sync_dir sample_client) @ butlast (split_on slash ''docs/a.txt'') @ [f]) = None \<and>
    (length ''docs/a.txt'' + 62 \<le> 1024 \<longrightarrow>
       is_valid_path (if parent_path ''docs/a.txt'' = [] then f else parent_path ''docs/a.txt'' @ slash # f))"
proof (rule conflict_name_found)
  show "is_valid_path ''docs/a.txt''" by code_simp
  show "stamp_ok (ct_stamp sample_client)" using sample_client_inv by (simp add: client_inv_def client_ok_def)
  show "length (tree (ct_os sample_client)) < 10 ^ 9" by code_simp
qed

section \<open>A received file\<close>


text \<open>A client whose \<open>a.txt\<close> was edited, while another version of it has been received.\<close>

definition edited_disk :: os where
  "edited_disk = sample_disk\<lparr>tree := [([''s''], N_dir), ([''s'', ''.sisop_tmp_0''], N_file ''theirs'' 9),
     ([''s'', ''a.txt''], N_file ''mine'' 8)]\<rparr>"

definition edited_client :: "unit client" where
  "edited_client = sample_client\<lparr>ct_os := edited_disk\<rparr>"

definition incoming :: file_info where
  "incoming = \<lparr>fi_name = ''a.txt'', fi_size = 6, fi_mtime = 9, fi_hash = fnv_hash ''theirs''\<rparr>"

lemma sample_dir: "sync_dir sample_client = ''s''"
  by code_simp

lemma edited_client_ok: "client_ok edited_client"
proof -
  have "client_inv edited_client"
    unfolding edited_client_def
    by (rule client_step_inv [OF client_step.Edit sample_client_inv], unfold sample_dir)
      (code_simp, code_simp)
  then show ?thesis by (simp add: client_inv_def)
qed

lemma edited_file: "file_at (ct_os edited_client) (sync_node edited_client ''a.txt'') = Some (''mine'', 8)"
  by code_simp


section \<open>A pushed deletion\<close>

lemma push_delete_effect:
  assumes ok: "client_ok cl" and name: "is_valid_path name"
    and there: "file_at (ct_os cl) (sync_node cl name) = Some v"
  shows "\<exists>cl'. handle_push sync \<lparr>mtype = Msg_PushDelete, payload = enc_str name\<rparr> cl = Some (True, sync, cl') \<and>
    file_at (ct_os cl') = (\<lambda>q. if q = sync_node cl name then None else file_at (ct_os (save_state (on_state (state_erase name) cl))) q)"
proof -
  let ?cl = "save_state (on_state (state_erase name) cl)" and ?path = "join_path (sync_dir cl) name"
  have str: "str_ok name" using valid_path_length [OF name] by simp
  have rd: "r_str (new_reader (enc_str name)) = Inr (name, cursor (enc_str name) [])"
    using cstr.rd_enc [OF str, of "[]" "[]"] by (simp add: new_reader_cursor)
  have path: "resolve ?path = sync_node cl name" "?path \<noteq> []"
    using valid_path_length [OF name] by (simp_all add: resolve_join_valid [OF name] join_path_not_Nil)
  have ok1: "client_ok (on_state (state_erase name) cl)" by (rule stays_ok [OF stays_erase ok])
  have "own_node (on_state (state_erase name) cl) = own_node cl" by (simp add: fun_eq_iff own_node_def on_state_def)
  with save_state_only [OF ok1] have o: "only (own_node cl) (ct_os cl) (ct_os ?cl)" by (simp add: on_state_def)
  have wf: "wf_os (ct_os ?cl)" by (rule only_wf [OF o])
  obtain bs t where node: "os_node (ct_os ?cl) (resolve ?path) = Some (N_file bs t)"
    using there only_node [OF o sync_node_not_own [OF name]] unfolding path by (cases v) (auto simp: file_at_Some)
  then obtain os where rm: "remove_file ?path (ct_os ?cl) = (True, os)"
    using path(2) by (simp add: remove_file_def sys_unlink_def)
  then have un: "sys_unlink ?path (ct_os ?cl) = (None, os)" by (auto simp: remove_file_def split: prod.splits)
  note u = sys_unlink_ok [OF wf un, unfolded path]
  have "file_at (remove_empty_parents (sync_dir cl) name os) = file_at os"
    by (rule drops_dirs_files [OF remove_empty_parents_drops [OF u(1)]])
  moreover have "file_at os = (\<lambda>q. if q = sync_node cl name then None else file_at (ct_os ?cl) q)"
    by (auto simp: fun_eq_iff file_at_def u(2))
  ultimately show ?thesis
    using rm name by (simp add: handle_push_def push_delete_received_def rd Let_def say_def on_state_def)
qed

text \<open>
  C17. A pushed deletion removes the local file whatever it holds: also a version that was edited
  since the last synchronization, which an incoming file would have kept as a copy and a
  reconciliation would have uploaded. No copy of it is made: apart from the files of the
  client's own (the saved record) no other file changes.
\<close>

theorem push_delete_discards_edit:
  assumes "client_ok cl" "is_valid_path name" "file_at (ct_os cl) (sync_node cl name) = Some v"
  shows "\<exists>cl'. handle_push sync \<lparr>mtype = Msg_PushDelete, payload = enc_str name\<rparr> cl = Some (True, sync, cl') \<and>
    file_at (ct_os cl') (sync_node cl name) = None \<and>
    (\<forall>q. q \<noteq> sync_node cl name \<and> \<not> own_node cl q \<longrightarrow> file_at (ct_os cl') q = file_at (ct_os cl) q)"
proof -
  have ok1: "client_ok (on_state (state_erase name) cl)" by (rule stays_ok [OF stays_erase assms(1)])
  have "own_node (on_state (state_erase name) cl) = own_node cl" by (simp add: fun_eq_iff own_node_def on_state_def)
  with save_state_only [OF ok1] have "only (own_node cl) (ct_os cl) (ct_os (save_state (on_state (state_erase name) cl)))"
    by (simp add: on_state_def)
  then show ?thesis using push_delete_effect [OF assms, of sync] by (force simp: only_file)
qed

theorem push_delete_discards_edit_witness:
  "changed (local_file ''a.txt'' edited_client) (state_get ''a.txt'' (ct_state edited_client)) \<and>
   (\<exists>cl'. handle_push willing \<lparr>mtype = Msg_PushDelete, payload = enc_str ''a.txt''\<rparr> edited_client =
        Some (True, willing, cl') \<and>
    file_at (ct_os cl') (sync_node edited_client ''a.txt'') = None \<and>
    (\<forall>q. q \<noteq> sync_node edited_client ''a.txt'' \<and> \<not> own_node edited_client q \<longrightarrow>
      file_at (ct_os cl') q = file_at (ct_os edited_client) q))"
proof
  show "changed (local_file ''a.txt'' edited_client) (state_get ''a.txt'' (ct_state edited_client))" by code_simp
qed (rule push_delete_discards_edit [OF edited_client_ok _ edited_file], code_simp)

section \<open>The three-way merge\<close>

text \<open>
  The merge of the documentation, on any kind of contents: what both sides have afterwards, and
  the local version that is kept as a copy.
\<close>

fun three_way :: "'a option \<Rightarrow> 'a option \<Rightarrow> 'a option \<Rightarrow> 'a option \<times> 'a option" where
  "three_way base here there =
     (if here = there then (there, None)
      else if here = base then (there, None)
      else if there = base then (here, None)
      else case (here, there) of
        (Some x, Some y) \<Rightarrow> (Some y, Some x)
      | (Some x, None) \<Rightarrow> (Some x, None)
      | (None, y) \<Rightarrow> (y, None))"

text \<open>What an action, carried out, leaves on both sides, and what \<open>install\<close> keeps (see \<open>unsynced\<close>).\<close>

definition content_key :: "file_info \<Rightarrow> u64 \<times> u64" where
  "content_key f = (fi_hash f, fi_size f)"

definition merged :: "sync_action \<Rightarrow> file_info option \<Rightarrow> file_info option \<Rightarrow> file_info option" where
  "merged action here there =
     (case action of Keep_same \<Rightarrow> there | Forget \<Rightarrow> None | Push_file \<Rightarrow> here | Push_deletion \<Rightarrow> None
      | Pull_file \<Rightarrow> there | Delete_here \<Rightarrow> None)"

definition kept_copy :: "sync_action \<Rightarrow> file_info option \<Rightarrow> file_info option \<Rightarrow> file_info option \<Rightarrow> file_info option" where
  "kept_copy action here there base =
     (case (action, here, there) of
        (Pull_file, Some l, Some r) \<Rightarrow>
          if \<not> same_content l r \<and> \<not> (case base of None \<Rightarrow> False | Some b \<Rightarrow> same_content b l) then Some l else None
      | _ \<Rightarrow> None)"

lemma same_content_key: "same_content a b \<longleftrightarrow> content_key a = content_key b"
  by (auto simp: same_content_def content_key_def)

text \<open>
  C5. The decision of \<open>reconcile\<close> for a file, carried out by the upload, download or deletion
  that it names, is exactly the three-way merge of the documented table, on the contents that
  the hashes and sizes stand for; and nothing that either side had changed is lost.
\<close>

theorem reconcile_is_three_way:
  "(map_option content_key (merged (decide here there base) here there),
    map_option content_key (kept_copy (decide here there base) here there base)) =
      three_way (map_option content_key base) (map_option content_key here) (map_option content_key there) \<and>
   {map_option content_key here, map_option content_key there} - {map_option content_key base, None} \<subseteq>
     {map_option content_key (merged (decide here there base) here there),
      map_option content_key (kept_copy (decide here there base) here there base)}"
  by (cases here; cases there; cases base)
    (auto simp: decide_def changed_def merged_def kept_copy_def same_content_key Let_def)

end
