(* ===== verification/Watcher.thy ===== *)
theory Watcher
  imports Listing
begin

text \<open>
  \<open>client/watcher.hpp\<close> and \<open>client/watcher.cpp\<close>: the watches on the directories of \<open>sync_dir\<close> and
  the names that are reported to the client. The kernel's side of inotify is a parameter: what
  \<open>inotify_add_watch\<close> and \<open>inotify_rm_watch\<close> do to a state of type \<open>'k\<close>. The calls of
  \<open>on_change_\<close> are collected in \<open>wa_reports\<close>; the empty name asks for a rescan. An event comes
  with the file system as it is when the event is handled.
\<close>

unbundle bit_operations_syntax

definition IN_CLOSE_WRITE :: u32 where "IN_CLOSE_WRITE = 0x8"
definition IN_MOVED_FROM :: u32 where "IN_MOVED_FROM = 0x40"
definition IN_MOVED_TO :: u32 where "IN_MOVED_TO = 0x80"
definition IN_CREATE :: u32 where "IN_CREATE = 0x100"
definition IN_DELETE :: u32 where "IN_DELETE = 0x200"
definition IN_DELETE_SELF :: u32 where "IN_DELETE_SELF = 0x400"
definition IN_MOVE_SELF :: u32 where "IN_MOVE_SELF = 0x800"
definition IN_Q_OVERFLOW :: u32 where "IN_Q_OVERFLOW = 0x4000"
definition IN_IGNORED :: u32 where "IN_IGNORED = 0x8000"
definition IN_ONLYDIR :: u32 where "IN_ONLYDIR = 0x1000000"
definition IN_ISDIR :: u32 where "IN_ISDIR = 0x40000000"

definition WATCH_MASK :: u32 where
  "WATCH_MASK = IN_CLOSE_WRITE OR IN_MOVED_TO OR IN_MOVED_FROM OR IN_DELETE OR IN_CREATE OR
     IN_DELETE_SELF OR IN_MOVE_SELF"

text \<open>\<open>add_watch\<close> gives the watch descriptor, or a negative number when it fails.\<close>

record 'k inotify =
  add_watch :: "string \<Rightarrow> u32 \<Rightarrow> os \<Rightarrow> 'k \<Rightarrow> int \<times> 'k"
  rm_watch :: "int \<Rightarrow> 'k \<Rightarrow> 'k"

record 'k watcher =
  wa_root :: string
  wa_root_wd :: int
  wa_dirs :: "(int, string) omap"
  wa_kernel :: 'k
  wa_reports :: "string list"

record inotify_event =
  ev_wd :: int
  ev_mask :: u32
  ev_name :: string

definition report :: "string \<Rightarrow> 'k watcher \<Rightarrow> 'k watcher" where
  "report name w = w\<lparr>wa_reports := wa_reports w @ [name]\<rparr>"

definition is_inside :: "string \<Rightarrow> string \<Rightarrow> bool" where
  "is_inside path dir \<longleftrightarrow> path = dir \<or> substr path 0 (length dir + 1) = dir @ [slash]"

definition child_path :: "string \<Rightarrow> string \<Rightarrow> string" where
  "child_path relative_dir name = (if relative_dir = [] then name else relative_dir @ slash # name)"

section \<open>Watches\<close>

text \<open>The watch on the directory itself; \<^term>\<open>False\<close> when there is none.\<close>

definition watch_dir :: "'k inotify \<Rightarrow> os \<Rightarrow> string \<Rightarrow> 'k watcher \<Rightarrow> bool \<times> 'k watcher" where
  "watch_dir ino os relative_dir w =
     (if relative_dir = [] then (True, w)
      else case add_watch ino (join_path (wa_root w) relative_dir) (WATCH_MASK OR IN_ONLYDIR) os (wa_kernel w) of
        (wd, k) \<Rightarrow>
          if wd < 0 then (False, w\<lparr>wa_kernel := k\<rparr>)
          else (True, w\<lparr>wa_dirs := omap_put wd relative_dir (wa_dirs w), wa_kernel := k\<rparr>))"

function watch_tree :: "'k inotify \<Rightarrow> os \<Rightarrow> string \<Rightarrow> 'k watcher \<Rightarrow> 'k watcher" where
  "watch_tree ino os relative_dir w =
     (case watch_dir ino os relative_dir w of
        (False, w) \<Rightarrow> w
      | (True, w) \<Rightarrow>
          (case sys_readdir (join_path (wa_root w) relative_dir) os of
             None \<Rightarrow> w
           | Some names \<Rightarrow>
               fold (\<lambda>name w.
                 let child = child_path relative_dir name in
                 if \<not> is_valid_file_name name then w
                 else if sys_lstat (join_path (wa_root w) child) os = Some N_dir \<and> is_valid_path child
                 then watch_tree ino os child w else w) names w))"
  by pat_completeness auto
termination
  by (relation "measure (\<lambda>(ino, os, rel, w). 1025 - length rel)")
    (auto simp: child_path_def dest!: valid_path_length)

declare watch_tree.simps [simp del]

definition unwatch_tree :: "'k inotify \<Rightarrow> string \<Rightarrow> 'k watcher \<Rightarrow> 'k watcher" where
  "unwatch_tree ino relative_dir w =
     (let gone = (\<lambda>e. fst e \<noteq> wa_root_wd w \<and> is_inside (snd e) relative_dir) in
      w\<lparr>wa_dirs := filter (\<lambda>e. \<not> gone e) (wa_dirs w),
        wa_kernel := fold (\<lambda>e. rm_watch ino (fst e)) (filter gone (wa_dirs w)) (wa_kernel w)\<rparr>)"

text \<open>\<open>start\<close>; \<open>init\<close> says whether \<open>inotify_init1\<close> succeeded.\<close>

definition start_watcher :: "'k inotify \<Rightarrow> bool \<Rightarrow> os \<Rightarrow> 'k watcher \<Rightarrow> bool \<times> 'k watcher" where
  "start_watcher ino init os w =
     (if \<not> init then (False, w)
      else case add_watch ino (wa_root w) WATCH_MASK os (wa_kernel w) of (wd, k) \<Rightarrow>
        let w = w\<lparr>wa_root_wd := wd, wa_kernel := k\<rparr> in
        if wd < 0 then (False, w)
        else (True, watch_tree ino os [] (w\<lparr>wa_dirs := omap_put wd [] (wa_dirs w)\<rparr>)))"

section \<open>Events\<close>

definition has :: "u32 \<Rightarrow> u32 \<Rightarrow> bool" where
  "has bits flags \<longleftrightarrow> bits AND flags \<noteq> 0"

text \<open>One event; \<^term>\<open>False\<close> when the thread ends.\<close>

definition handle_event :: "'k inotify \<Rightarrow> os \<Rightarrow> inotify_event \<Rightarrow> 'k watcher \<Rightarrow> bool \<times> 'k watcher" where
  "handle_event ino os ev w =
     (if has (ev_mask ev) IN_Q_OVERFLOW then (True, report [] w)
      else if ev_wd ev = wa_root_wd w \<and> has (ev_mask ev) (IN_DELETE_SELF OR IN_MOVE_SELF OR IN_IGNORED) then (False, w)
      else if has (ev_mask ev) IN_IGNORED then (True, w\<lparr>wa_dirs := omap_del (ev_wd ev) (wa_dirs w)\<rparr>)
      else case map_of (wa_dirs w) (ev_wd ev) of
        None \<Rightarrow> (True, w)
      | Some dir \<Rightarrow>
          let path = child_path dir (ev_name ev) in
          if ev_name ev = [] \<or> \<not> is_valid_path path then (True, w)
          else if has (ev_mask ev) IN_ISDIR then
            (True, report []
              (if has (ev_mask ev) (IN_CREATE OR IN_MOVED_TO) then watch_tree ino os path w
               else if has (ev_mask ev) (IN_DELETE OR IN_MOVED_FROM) then unwatch_tree ino path w
               else w))
          else if \<not> has (ev_mask ev) IN_CREATE then (True, report path w)
          else (True, w))"

text \<open>The events of the thread's life; it ends with the root, or when the list does.\<close>

fun watch_loop :: "'k inotify \<Rightarrow> (os \<times> inotify_event) list \<Rightarrow> 'k watcher \<Rightarrow> 'k watcher" where
  "watch_loop ino [] w = w"
| "watch_loop ino ((os, ev) # evs) w =
     (case handle_event ino os ev w of
        (False, w) \<Rightarrow> w
      | (True, w) \<Rightarrow> watch_loop ino evs w)"

end
