(* ===== verification/Watcher_Properties.thy ===== *)
theory Watcher_Properties
  imports Watcher
begin

text \<open>
  What the watcher promises: a watch on every directory below the one it walks, the removal of
  exactly the watches below a directory that has gone, and a report for every change.
\<close>

section \<open>Paths\<close>

lemma comps_child: "is_valid_file_name name \<Longrightarrow> comps (child_path rel name) = comps rel @ [name]"
  unfolding child_path_def by (rule comps_step)

lemma comps_valid: "is_valid_path p \<Longrightarrow> comps p = split_on slash p \<and> p \<noteq> []"
  using valid_path_length [of p] by (simp add: comps_def)

lemma comps_inj: "comps p = comps q \<longleftrightarrow> p = q"
  by (metis comps_def join_split split_on_not_Nil)

lemma resolve_child:
  assumes "rel = [] \<or> is_valid_path rel"
  shows "resolve (join_path root rel) = resolve root @ comps rel"
  using assms resolve_join_comps [of rel root] resolve_join_comps [of "[]" root]
  by (auto simp: is_valid_path_iff valid_components_def comps_def)

text \<open>The path of a directory on the way to a valid path is valid.\<close>

lemma length_join_prefix: "length (join_with c (ps @ qs)) \<ge> length (join_with c ps)"
  by (induction c ps rule: join_with.induct) (cases qs; auto simp: join_with_Cons)+

lemma child_prefix_valid:
  assumes p: "is_valid_path p" and split: "comps p = comps rel @ name # rest"
  shows "is_valid_file_name name \<and> is_valid_path (child_path rel name)"
proof -
  have v: "list_all is_valid_file_name (comps p)" "length (comps p) \<le> MAX_PATH_DEPTH" "length p \<le> MAX_PATH_LENGTH"
    using p comps_valid [OF p] by (auto simp: is_valid_path_iff valid_components_def)
  then have name: "is_valid_file_name name" by (simp add: split)
  note c = comps_child [OF name, of rel]
  have child: "child_path rel name \<noteq> []" using valid_name_good [OF name] by (auto simp: child_path_def good_name_def)
  have "child_path rel name = join_with slash (comps rel @ [name])" using c child by (metis comps_def join_split)
  moreover have "p = join_with slash ((comps rel @ [name]) @ rest)"
    using split comps_valid [OF p] by (metis append.assoc append_Cons append_Nil join_split)
  ultimately have "length (child_path rel name) \<le> length p" using length_join_prefix by metis
  moreover have "split_on slash (child_path rel name) = comps rel @ [name]" using c child by (simp add: comps_def)
  ultimately show ?thesis
    using name child v [unfolded split] by (simp add: is_valid_path_iff valid_components_def)
qed

section \<open>The kernel\<close>

text \<open>
  What \<open>inotify(7)\<close> documents of the watches, while the limits on their number are not reached:
  \<open>watched\<close> gives the directory of each descriptor. Adding a watch on a directory gives the
  descriptor that it has, or one that is not in use; without a directory of that name it fails.
\<close>

definition inotify_ok :: "'k inotify \<Rightarrow> ('k \<Rightarrow> int \<Rightarrow> fpath option) \<Rightarrow> bool" where
  "inotify_ok ino watched \<longleftrightarrow>
     (\<forall>s flags os k wd k'. add_watch ino s flags os k = (wd, k') \<longrightarrow>
        (if sys_is_dir s os
         then 0 \<le> wd \<and> watched k' = (watched k)(wd \<mapsto> resolve s) \<and> (watched k wd = None \<or> watched k wd = Some (resolve s))
         else wd < 0 \<and> watched k' = watched k))"

text \<open>A directory whose events are reported under its path.\<close>

definition covered_at :: "('k \<Rightarrow> int \<Rightarrow> fpath option) \<Rightarrow> int \<Rightarrow> string \<Rightarrow> 'k watcher \<Rightarrow> bool" where
  "covered_at watched wd p w \<longleftrightarrow>
     map_of (wa_dirs w) wd = Some p \<and> watched (wa_kernel w) wd = Some (resolve (wa_root w) @ comps p)"

definition covered :: "('k \<Rightarrow> int \<Rightarrow> fpath option) \<Rightarrow> string \<Rightarrow> 'k watcher \<Rightarrow> bool" where
  "covered watched p w \<longleftrightarrow> (\<exists>wd. covered_at watched wd p w)"

lemma watch_dir_covers:
  assumes ok: "inotify_ok ino watched" and wf: "omap_wf (wa_dirs w)" and rel: "rel = [] \<or> is_valid_path rel"
    and wd: "watch_dir ino os rel w = (found, w')"
  shows "omap_wf (wa_dirs w') \<and> wa_root w' = wa_root w \<and> wa_reports w' = wa_reports w \<and> wa_root_wd w' = wa_root_wd w"
    and "covered_at watched e p w \<Longrightarrow> covered_at watched e p w'"
    and "rel \<noteq> [] \<Longrightarrow> os_node os (resolve (wa_root w) @ comps rel) = Some N_dir \<Longrightarrow> found \<and> covered watched rel w'"
    and "rel = [] \<Longrightarrow> found"
proof -
  let ?path = "join_path (wa_root w) rel"
  obtain d k where a: "add_watch ino ?path (WATCH_MASK OR IN_ONLYDIR) os (wa_kernel w) = (d, k)" by fastforce
  note r = resolve_child [OF rel, of "wa_root w"]
  have w': "rel \<noteq> [] \<Longrightarrow> w' = (if d < 0 then w\<lparr>wa_kernel := k\<rparr> else w\<lparr>wa_dirs := omap_put d rel (wa_dirs w), wa_kernel := k\<rparr>)"
    "rel \<noteq> [] \<Longrightarrow> found = (0 \<le> d)" "rel = [] \<Longrightarrow> w' = w \<and> found"
    using wd a by (auto simp: watch_dir_def split: if_splits)
  have k: "if sys_is_dir ?path os then 0 \<le> d \<and> watched k = (watched (wa_kernel w))(d \<mapsto> resolve ?path) \<and>
        (watched (wa_kernel w) d = None \<or> watched (wa_kernel w) d = Some (resolve ?path))
      else d < 0 \<and> watched k = watched (wa_kernel w)"
    using ok a unfolding inotify_ok_def by blast
  show "omap_wf (wa_dirs w') \<and> wa_root w' = wa_root w \<and> wa_reports w' = wa_reports w \<and> wa_root_wd w' = wa_root_wd w"
    using w'(1,3) wf by (cases "rel = []") (auto simp: omap_wf_put)
  show "rel = [] \<Longrightarrow> found" using w'(3) by simp
  show "found \<and> covered watched rel w'" if "rel \<noteq> []" "os_node os (resolve (wa_root w) @ comps rel) = Some N_dir"
  proof -
    have "sys_is_dir ?path os" using that r join_path_not_Nil [OF that(1)] by (simp add: sys_is_dir_def)
    with k have "0 \<le> d" "watched k d = Some (resolve ?path)" by simp_all
    with w'(1,2) [OF that(1)] r wf show ?thesis by (auto simp: covered_def covered_at_def omap_put_lookup)
  qed
  show "covered_at watched e p w'" if cov: "covered_at watched e p w"
  proof (cases "rel = [] \<or> d < 0")
    case True
    then consider "w' = w" | "w' = w\<lparr>wa_kernel := k\<rparr>" "watched k = watched (wa_kernel w)"
      using w'(1,3) k by (auto split: if_splits)
    then show ?thesis using cov by cases (simp_all add: covered_at_def)
  next
    case False
    with k have d: "watched k = (watched (wa_kernel w))(d \<mapsto> resolve ?path)"
      "watched (wa_kernel w) d = None \<or> watched (wa_kernel w) d = Some (resolve ?path)"
      by (auto split: if_splits)
    from cov have e: "map_of (wa_dirs w) e = Some p" "watched (wa_kernel w) e = Some (resolve (wa_root w) @ comps p)"
      by (simp_all add: covered_at_def)
    have "p = rel" if "e = d" using d(2) e(2) r that by (auto simp: comps_inj)
    then have "map_of (wa_dirs w') e = Some p \<and> watched (wa_kernel w') e = Some (resolve (wa_root w') @ comps p)"
      using False w'(1) wf d(1) e r by (auto simp: omap_put_lookup)
    then show ?thesis by (simp add: covered_at_def)
  qed
qed

section \<open>Walking the tree\<close>

definition extends :: "('k \<Rightarrow> int \<Rightarrow> fpath option) \<Rightarrow> 'k watcher \<Rightarrow> 'k watcher \<Rightarrow> bool" where
  "extends watched w w' \<longleftrightarrow> omap_wf (wa_dirs w') \<and> wa_root w' = wa_root w \<and> wa_root_wd w' = wa_root_wd w \<and>
     wa_reports w' = wa_reports w \<and> (\<forall>e p. covered_at watched e p w \<longrightarrow> covered_at watched e p w')"

lemma extends_refl: "omap_wf (wa_dirs w) \<Longrightarrow> extends watched w w"
  by (simp add: extends_def)

lemma extends_trans: "extends watched a b \<Longrightarrow> extends watched b c \<Longrightarrow> extends watched a c"
  by (simp add: extends_def)

lemma extends_covered: "extends watched w w' \<Longrightarrow> covered watched p w \<Longrightarrow> covered watched p w'"
  by (auto simp: extends_def covered_def)

definition dir_below :: "os \<Rightarrow> 'k watcher \<Rightarrow> fpath \<Rightarrow> string \<Rightarrow> bool" where
  "dir_below os w base p \<longleftrightarrow> is_valid_path p \<and> (\<exists>rest. comps p = base @ rest) \<and>
     os_node os (resolve (wa_root w) @ comps p) = Some N_dir"

text \<open>The names of one directory, when the walk below each of them is as it should be.\<close>

definition watch_name :: "'k inotify \<Rightarrow> os \<Rightarrow> string \<Rightarrow> string \<Rightarrow> 'k watcher \<Rightarrow> 'k watcher" where
  "watch_name ino os rel name w =
     (let child = child_path rel name in
      if \<not> is_valid_file_name name then w
      else if sys_lstat (join_path (wa_root w) child) os = Some N_dir \<and> is_valid_path child
      then watch_tree ino os child w else w)"

lemma watch_tree_unfold:
  "watch_tree ino os rel w =
     (case watch_dir ino os rel w of
        (False, w) \<Rightarrow> w
      | (True, w) \<Rightarrow>
          (case sys_readdir (join_path (wa_root w) rel) os of
             None \<Rightarrow> w
           | Some names \<Rightarrow> fold (watch_name ino os rel) names w))"
  unfolding watch_name_def [abs_def] by (rule watch_tree.simps)

lemma watch_names_cover:
  assumes wf: "wf_os os" and ns: "set ns \<subseteq> set names" "omap_wf (wa_dirs w)" "wa_root w = root"
    and each: "\<And>name w. name \<in> set names \<Longrightarrow> is_valid_path (child_path rel name) \<Longrightarrow> omap_wf (wa_dirs w) \<Longrightarrow> wa_root w = root \<Longrightarrow>
      extends watched w (watch_tree ino os (child_path rel name) w) \<and>
      (\<forall>p. dir_below os w (comps (child_path rel name)) p \<longrightarrow> covered watched p (watch_tree ino os (child_path rel name) w))"
  shows "extends watched w (fold (watch_name ino os rel) ns w) \<and>
    (\<forall>name p rest. name \<in> set ns \<longrightarrow> comps p = comps rel @ name # rest \<longrightarrow> dir_below os w (comps rel) p \<longrightarrow>
      covered watched p (fold (watch_name ino os rel) ns w))"
  using ns
proof (induction ns arbitrary: w)
  case (Cons n ns)
  let ?w = "watch_name ino os rel n w"
  have n: "n \<in> set names" using Cons.prems(1) by simp
  have step: "extends watched w ?w"
    using each [OF n _ Cons.prems(2,3)] extends_refl [OF Cons.prems(2)] by (auto simp: watch_name_def Let_def)
  then have w: "omap_wf (wa_dirs ?w)" "wa_root ?w = wa_root w" by (simp_all add: extends_def)
  have first: "covered watched p ?w" if p: "comps p = comps rel @ n # rest" "dir_below os w (comps rel) p" for p rest
  proof -
    have v: "is_valid_file_name n" "is_valid_path (child_path rel n)"
      using child_prefix_valid [OF _ p(1)] p(2) by (auto simp: dir_below_def)
    note c = comps_child [OF v(1), of rel]
    have "os_node os (resolve (wa_root w) @ comps rel @ [n]) = Some N_dir"
      using p os_node_ancestor [OF wf, of "resolve (wa_root w) @ comps rel @ [n]" rest] by (cases rest) (auto simp: dir_below_def)
    moreover have "join_path (wa_root w) (child_path rel n) \<noteq> []" using comps_valid [OF v(2)] join_path_not_Nil by blast
    ultimately have "sys_lstat (join_path (wa_root w) (child_path rel n)) os = Some N_dir"
      using resolve_child [of "child_path rel n" "wa_root w"] v(2) c by (simp add: sys_lstat_def)
    moreover have "dir_below os w (comps (child_path rel n)) p" using p c by (auto simp: dir_below_def)
    ultimately show ?thesis using each [OF n v(2) Cons.prems(2,3)] v by (simp add: watch_name_def)
  qed
  have ih: "extends watched ?w (fold (watch_name ino os rel) ns ?w)"
    "\<And>name p rest. name \<in> set ns \<Longrightarrow> comps p = comps rel @ name # rest \<Longrightarrow> dir_below os w (comps rel) p \<Longrightarrow>
      covered watched p (fold (watch_name ino os rel) ns ?w)"
    using Cons.IH [OF _ w(1)] Cons.prems(1,3) w(2) by (auto simp: dir_below_def)
  show ?case
    using extends_trans [OF step ih(1)] first ih extends_covered [OF ih(1)] by auto
qed (simp add: extends_refl)

text \<open>A directory below another is reached through one of its entries.\<close>

lemma below_entry:
  assumes wf: "wf_os os" and root: "join_path (wa_root w) rel \<noteq> []" and rel: "rel = [] \<or> is_valid_path rel"
    and p: "dir_below os w (comps rel) p" and rest: "comps p = comps rel @ name # rest"
    and names: "sys_readdir (join_path (wa_root w) rel) os = Some names"
  shows "name \<in> set names"
proof -
  have good: "good_name name" using child_prefix_valid [of p rel name rest] rest p valid_name_good by (auto simp: dir_below_def)
  have "os_node os (resolve (join_path (wa_root w) rel) @ [name]) \<noteq> None"
    using p os_node_ancestor [OF wf, of "resolve (wa_root w) @ comps rel @ [name]" rest] rest resolve_child [OF rel, of "wa_root w"]
    by (cases rest) (auto simp: dir_below_def)
  then show ?thesis using sys_readdir_iff [OF wf good, of "join_path (wa_root w) rel"] root names by simp
qed

lemma watch_tree_covers:
  assumes ok: "inotify_ok ino watched" and wf: "wf_os os"
  shows "omap_wf (wa_dirs w) \<Longrightarrow> rel = [] \<or> is_valid_path rel \<Longrightarrow> wa_root w \<noteq> [] \<Longrightarrow>
    extends watched w (watch_tree ino os rel w) \<and>
    (\<forall>p. dir_below os w (comps rel) p \<longrightarrow> covered watched p (watch_tree ino os rel w))"
proof (induction "1025 - length rel" arbitrary: rel w rule: less_induct)
  case less
  obtain found w1 where d: "watch_dir ino os rel w = (found, w1)" by fastforce
  note e = watch_dir_covers [OF ok less.prems(1,2) d]
  have ext: "extends watched w w1" using e(1,2) by (simp add: extends_def)
  have above: "os_node os (resolve (wa_root w) @ comps rel) = Some N_dir" if "dir_below os w (comps rel) p" for p
    using that os_node_ancestor [OF wf, of "resolve (wa_root w) @ comps rel"] unfolding dir_below_def
    by (metis append.assoc append_Nil2)
  show ?case
  proof (cases found)
    case False
    then have "watch_tree ino os rel w = w1" by (simp add: watch_tree_unfold d)
    with ext above e(3,4) False show ?thesis by auto
  next
    case True
    have path: "join_path (wa_root w1) rel \<noteq> []" using less.prems(3) e(1) by (simp add: join_path_def)
    have own: "covered watched rel w1" if "dir_below os w (comps rel) p" "rel \<noteq> []" for p
      using e(3) above that by blast
    have node: "sys_is_dir (join_path (wa_root w1) rel) os" if "dir_below os w (comps rel) p" for p
      using above [OF that] path e(1) resolve_child [OF less.prems(2), of "wa_root w"] by (simp add: sys_is_dir_def)
    show ?thesis
    proof (cases "sys_readdir (join_path (wa_root w1) rel) os")
      case None
      then have "watch_tree ino os rel w = w1" "\<not> sys_is_dir (join_path (wa_root w1) rel) os"
        using True by (simp_all add: watch_tree_unfold d sys_readdir_def split: if_splits)
      with ext node show ?thesis by auto
    next
      case (Some names)
      then have tree: "watch_tree ino os rel w = fold (watch_name ino os rel) names w1"
        using True by (simp add: watch_tree_unfold d)
      have shorter: "1025 - length (child_path rel name) < 1025 - length rel" if "is_valid_path (child_path rel name)" for name
        using valid_path_length [OF that] by (auto simp: child_path_def split: if_splits)
      have w1: "omap_wf (wa_dirs w1)" "wa_root w1 = wa_root w" using e(1) by simp_all
      have each: "extends watched v (watch_tree ino os (child_path rel name) v) \<and>
          (\<forall>p. dir_below os v (comps (child_path rel name)) p \<longrightarrow> covered watched p (watch_tree ino os (child_path rel name) v))"
        if "is_valid_path (child_path rel name)" "omap_wf (wa_dirs v)" "wa_root v = wa_root w" for name v
        by (rule less.hyps [OF shorter [OF that(1)] that(2)]) (use that less.prems(3) in simp_all)
      have all: "extends watched w1 (fold (watch_name ino os rel) names w1) \<and>
          (\<forall>name p rest. name \<in> set names \<longrightarrow> comps p = comps rel @ name # rest \<longrightarrow> dir_below os w1 (comps rel) p \<longrightarrow>
            covered watched p (fold (watch_name ino os rel) names w1))"
        by (rule watch_names_cover [OF wf order.refl w1 each])
      have "covered watched p (fold (watch_name ino os rel) names w1)" if p: "dir_below os w (comps rel) p" for p
      proof -
        obtain rest where rest: "comps p = comps rel @ rest" using p by (auto simp: dir_below_def)
        show ?thesis
        proof (cases rest)
          case Nil
          then have "p = rel" using rest by (simp add: comps_inj)
          moreover have "p \<noteq> []" using p comps_valid by (auto simp: dir_below_def)
          ultimately show ?thesis using own [OF p] all extends_covered by blast
        next
          case (Cons name rest')
          have "name \<in> set names"
            by (rule below_entry [OF wf path less.prems(2) _ _ Some]) (use p rest Cons w1(2) in \<open>simp_all add: dir_below_def\<close>)
          moreover have "dir_below os w1 (comps rel) p" using p w1(2) by (simp add: dir_below_def)
          ultimately show ?thesis using all rest Cons by blast
        qed
      qed
      then show ?thesis using tree all extends_trans [OF ext] by simp
    qed
  qed
qed

section \<open>Leaving the tree\<close>

lemma join_with_append: "ps \<noteq> [] \<Longrightarrow> qs \<noteq> [] \<Longrightarrow> join_with c (ps @ qs) = join_with c ps @ c # join_with c qs"
  by (induction c ps rule: join_with.induct) (auto simp: join_with_Cons)

text \<open>\<open>is_inside\<close> compares whole components: \<open>docs2\<close> is not inside \<open>docs\<close>.\<close>

lemma is_inside_iff:
  assumes "dir \<noteq> []" "p \<noteq> []"
  shows "is_inside p dir \<longleftrightarrow> (\<exists>rest. comps p = comps dir @ rest)"
proof
  assume "is_inside p dir"
  then consider "p = dir" | "take (length dir + 1) p = dir @ [slash]" by (auto simp: is_inside_def substr_def)
  then show "\<exists>rest. comps p = comps dir @ rest"
  proof cases
    case 2
    then have "p = dir @ slash # drop (length dir + 1) p" by (metis append.assoc append_Cons append_Nil append_take_drop_id)
    then have "split_on slash p = split_on slash dir @ split_on slash (drop (length dir + 1) p)"
      using split_on_append_sep by metis
    with assms show ?thesis by (simp add: comps_def)
  qed simp
next
  assume "\<exists>rest. comps p = comps dir @ rest"
  then obtain rest where r: "split_on slash p = split_on slash dir @ rest" using assms by (auto simp: comps_def)
  show "is_inside p dir"
  proof (cases "rest = []")
    case True
    with r show ?thesis by (simp add: is_inside_def split_on_inj [of slash])
  next
    case False
    have "p = join_with slash (split_on slash dir @ rest)" by (metis r join_split)
    with join_with_append [OF split_on_not_Nil False] have "p = dir @ slash # join_with slash rest" by simp
    then show ?thesis by (simp add: is_inside_def substr_def)
  qed
qed

section \<open>Properties\<close>

definition new_watcher :: "string \<Rightarrow> 'k \<Rightarrow> 'k watcher" where
  "new_watcher root k = \<lparr>wa_root = root, wa_root_wd = - 1, wa_dirs = [], wa_kernel = k, wa_reports = []\<rparr>"

text \<open>
  C31. Nothing below the root is left unwatched: after \<open>start\<close>, the root and every directory below it
  whose relative path is valid has a watch, and the events of that watch are reported under
  exactly that path.
\<close>

theorem start_watches_everything:
  assumes "inotify_ok ino watched" "wf_os os" "sys_is_dir root os"
  shows "case start_watcher ino True os (new_watcher root k) of (ok, w) \<Rightarrow>
    ok \<and> covered watched [] w \<and> map_of (wa_dirs w) (wa_root_wd w) = Some [] \<and>
    (\<forall>p. is_valid_path p \<and> os_node os (resolve root @ split_on slash p) = Some N_dir \<longrightarrow> covered watched p w)"
proof -
  obtain wd k' where a: "add_watch ino root WATCH_MASK os k = (wd, k')" by fastforce
  have wd: "0 \<le> wd" "watched k' = (watched k)(wd \<mapsto> resolve root)"
    using assms(1,3) a unfolding inotify_ok_def by metis+
  let ?w = "\<lparr>wa_root = root, wa_root_wd = wd, wa_dirs = [(wd, [])], wa_kernel = k', wa_reports = []\<rparr>"
  have s: "start_watcher ino True os (new_watcher root k) = (True, watch_tree ino os [] ?w)"
    using wd(1) by (simp add: start_watcher_def new_watcher_def a)
  have root: "covered_at watched wd [] ?w" using wd(2) by (simp add: covered_at_def comps_def)
  have "omap_wf (wa_dirs ?w)" "wa_root ?w \<noteq> []" using assms(3) by (simp_all add: omap_wf_def sys_is_dir_def)
  note t = watch_tree_covers [OF assms(1,2) this(1) disjI1 [OF refl] this(2)]
  have "dir_below os ?w (comps []) p" if "is_valid_path p" "os_node os (resolve root @ split_on slash p) = Some N_dir" for p
    using that comps_valid [OF that(1)] by (simp add: dir_below_def comps_def)
  moreover have r: "covered_at watched wd [] (watch_tree ino os [] ?w)" "wa_root_wd (watch_tree ino os [] ?w) = wd"
    using t root by (simp_all add: extends_def)
  moreover have "covered watched [] (watch_tree ino os [] ?w)" using r(1) unfolding covered_def by blast
  ultimately show ?thesis using t by (simp add: s covered_at_def)
qed

definition change_kinds :: "u32 list" where
  "change_kinds = [IN_CLOSE_WRITE, IN_MOVED_TO, IN_MOVED_FROM, IN_DELETE, IN_CREATE]"

definition change_mask :: "u32 \<Rightarrow> bool \<Rightarrow> u32" where
  "change_mask kind isdir = kind OR (if isdir then IN_ISDIR else 0)"

lemmas in_flags = IN_CLOSE_WRITE_def IN_MOVED_FROM_def IN_MOVED_TO_def IN_CREATE_def IN_DELETE_def
  IN_DELETE_SELF_def IN_MOVE_SELF_def IN_Q_OVERFLOW_def IN_IGNORED_def IN_ISDIR_def

lemma change_mask_flags:
  assumes "kind \<in> set change_kinds"
  shows "\<not> has (change_mask kind isdir) IN_Q_OVERFLOW" "\<not> has (change_mask kind isdir) IN_IGNORED"
    "\<not> has (change_mask kind isdir) (IN_DELETE_SELF OR IN_MOVE_SELF OR IN_IGNORED)"
    "has (change_mask kind isdir) IN_ISDIR = isdir" "has (change_mask kind isdir) IN_CREATE = (kind = IN_CREATE)"
    "has (change_mask kind isdir) (IN_CREATE OR IN_MOVED_TO) = (kind \<in> {IN_CREATE, IN_MOVED_TO})"
    "has (change_mask kind isdir) (IN_DELETE OR IN_MOVED_FROM) = (kind \<in> {IN_DELETE, IN_MOVED_FROM})"
  using assms by (cases isdir; auto simp: change_kinds_def change_mask_def has_def in_flags)+

lemma unwatch_tree_dirs:
  assumes "is_valid_path path"
  shows "wa_dirs (unwatch_tree ino path w) =
    filter (\<lambda>(e, d). e = wa_root_wd w \<or> (\<nexists>rest. comps d = comps path @ rest)) (wa_dirs w)"
proof -
  have path: "path \<noteq> []" "comps path \<noteq> []" using comps_valid [OF assms] by auto
  have "is_inside d path \<longleftrightarrow> (\<exists>rest. comps d = comps path @ rest)" for d
  proof (cases "d = []")
    case True
    with path show ?thesis by (auto simp: is_inside_def substr_def comps_def)
  qed (rule is_inside_iff [OF path(1)])
  then have "filter (\<lambda>e. \<not> (fst e \<noteq> wa_root_wd w \<and> is_inside (snd e) path)) (wa_dirs w) =
      filter (\<lambda>(e, d). e = wa_root_wd w \<or> (\<nexists>rest. comps d = comps path @ rest)) (wa_dirs w)"
    by (intro filter_cong) auto
  then show ?thesis unfolding unwatch_tree_def Let_def by simp
qed

lemma handle_change:
  assumes "kind \<in> set change_kinds" "map_of (wa_dirs w) wd = Some dir" "name \<noteq> []" "is_valid_path (child_path dir name)"
  shows "handle_event ino os \<lparr>ev_wd = wd, ev_mask = change_mask kind isdir, ev_name = name\<rparr> w =
      (if isdir then
         (True, report []
            (if kind \<in> {IN_CREATE, IN_MOVED_TO} then watch_tree ino os (child_path dir name) w
             else if kind \<in> {IN_DELETE, IN_MOVED_FROM} then unwatch_tree ino (child_path dir name) w else w))
       else (True, if kind = IN_CREATE then w else report (child_path dir name) w))"
  using assms(2-4)
  by (simp only: handle_event_def Let_def inotify_event.simps change_mask_flags [OF assms(1)] simp_thms if_False if_True option.case)
    (cases isdir; cases "kind = IN_CREATE"; simp only: simp_thms if_False if_True)

text \<open>
  C32. The watches follow the tree: an event of a watched directory about a file is reported under
  its path (a bare creation is not: the write that follows is); one about a directory asks for a
  rescan, after a directory that came has got watches on all the directories below it and no
  other watch was lost, or after the watches of exactly the directories below one that went
  have been removed.
\<close>

theorem events_follow_tree:
  assumes "inotify_ok ino watched" "wf_os os" "omap_wf (wa_dirs w)" "wa_root w \<noteq> []"
    and "kind \<in> set change_kinds" "map_of (wa_dirs w) wd = Some dir" "name \<noteq> []" "is_valid_path (child_path dir name)"
  shows "case handle_event ino os \<lparr>ev_wd = wd, ev_mask = change_mask kind isdir, ev_name = name\<rparr> w of (alive, w') \<Rightarrow>
    alive \<and>
    wa_reports w' = wa_reports w @
      (if isdir then [[]] else if kind = IN_CREATE then [] else [child_path dir name]) \<and>
    (isdir \<and> kind \<in> {IN_CREATE, IN_MOVED_TO} \<longrightarrow>
      (\<forall>p. dir_below os w (comps (child_path dir name)) p \<longrightarrow> covered watched p w') \<and>
      (\<forall>p. covered watched p w \<longrightarrow> covered watched p w')) \<and>
    (isdir \<and> kind \<in> {IN_DELETE, IN_MOVED_FROM} \<longrightarrow>
      wa_dirs w' = filter (\<lambda>(e, d). e = wa_root_wd w \<or> (\<nexists>rest. comps d = comps (child_path dir name) @ rest)) (wa_dirs w)) \<and>
    (\<not> isdir \<longrightarrow> wa_dirs w' = wa_dirs w)"
proof -
  let ?path = "child_path dir name"
  note t = watch_tree_covers [OF assms(1-3) disjI2 [OF assms(8)] assms(4)] and h = handle_change [OF assms(5-8)]
  have same: "covered watched p (report r v) = covered watched p v" for p r v
    by (simp add: covered_def covered_at_def report_def)
  have rest: "wa_reports (unwatch_tree ino ?path w) = wa_reports w" by (simp add: unwatch_tree_def Let_def)
  have kinds: "kind \<noteq> IN_CREATE \<and> kind \<noteq> IN_MOVED_TO" if "kind \<in> {IN_DELETE, IN_MOVED_FROM}" using that by (auto simp: in_flags)
  have come: "extends watched w (watch_tree ino os ?path w)"
    "\<forall>p. dir_below os w (comps ?path) p \<longrightarrow> covered watched p (watch_tree ino os ?path w)"
    using t by simp_all
  have reports: "wa_reports (report r v) = wa_reports v @ [r]" "wa_dirs (report r v) = wa_dirs v" for r v
    by (simp_all add: report_def)
  note gone_dirs = unwatch_tree_dirs [OF assms(8)]
  show ?thesis
  proof (cases isdir)
    case dir: True
    show ?thesis
    proof (cases "kind \<in> {IN_CREATE, IN_MOVED_TO}")
      case True
      with kinds have "kind \<notin> {IN_DELETE, IN_MOVED_FROM}" by blast
      with True dir come extends_covered [OF come(1)] show ?thesis
        unfolding h by (simp only: if_True prod.case same reports extends_def simp_thms) blast
    next
      case False
      with dir show ?thesis
        unfolding h by (simp only: if_True if_False prod.case same reports simp_thms) (simp add: reports gone_dirs rest)
    qed
  next
    case False
    then show ?thesis unfolding h by (simp add: reports)
  qed
qed

section \<open>Instances\<close>

text \<open>An instance of the kernel: the descriptors are the positions in a list of directories.\<close>

definition list_inotify :: "fpath option list inotify" where
  "list_inotify =
     \<lparr>add_watch = (\<lambda>s flags os k.
        if \<not> sys_is_dir s os then (- 1, k)
        else if Some (resolve s) \<in> set k then (int (length (takeWhile ((\<noteq>) (Some (resolve s))) k)), k)
        else (int (length k), k @ [Some (resolve s)])),
      rm_watch = (\<lambda>wd k. k[nat wd := None])\<rparr>"

definition list_watched :: "fpath option list \<Rightarrow> int \<Rightarrow> fpath option" where
  "list_watched k wd = (if 0 \<le> wd \<and> nat wd < length k then k ! nat wd else None)"

lemma list_inotify_ok: "inotify_ok list_inotify list_watched"
  unfolding inotify_ok_def
proof (intro allI impI)
  fix s flags os k wd k'
  assume a: "add_watch list_inotify s flags os k = (wd, k')"
  let ?i = "length (takeWhile ((\<noteq>) (Some (resolve s))) k)"
  show "if sys_is_dir s os
        then 0 \<le> wd \<and> list_watched k' = (list_watched k)(wd \<mapsto> resolve s) \<and>
          (list_watched k wd = None \<or> list_watched k wd = Some (resolve s))
        else wd < 0 \<and> list_watched k' = list_watched k"
  proof (cases "Some (resolve s) \<in> set k")
    case True
    then have "?i < length k" by (induction k) auto
    moreover from this have "k ! ?i = Some (resolve s)" using nth_length_takeWhile [of "(\<noteq>) (Some (resolve s))" k] by simp
    ultimately show ?thesis using a True by (auto simp: list_inotify_def list_watched_def fun_eq_iff split: if_splits)
  next
    case False
    have "list_watched (k @ [Some (resolve s)]) = (list_watched k)(int (length k) \<mapsto> resolve s)"
      by (auto simp: list_watched_def fun_eq_iff nth_append)
    then show ?thesis using a False by (auto simp: list_inotify_def list_watched_def split: if_splits)
  qed
qed

definition tree_disk :: os where
  "tree_disk =
     \<lparr>tree = [([''s''], N_dir), ([''s'', ''a''], N_dir), ([''s'', ''a'', ''b''], N_dir), ([''s'', ''a'', ''b'', ''f''], N_file ''x'' 1)],
      file_limit = None, cut_at = None, now = 0, rnd = \<lambda>_. 0, rnd_pos = 0\<rparr>"

theorem start_watches_everything_witness:
  "case start_watcher list_inotify True tree_disk (new_watcher ''s'' []) of (ok, w) \<Rightarrow>
    ok \<and> covered list_watched [] w \<and> map_of (wa_dirs w) (wa_root_wd w) = Some [] \<and>
    (\<forall>p. is_valid_path p \<and> os_node tree_disk (resolve ''s'' @ split_on slash p) = Some N_dir \<longrightarrow> covered list_watched p w)"
  by (rule start_watches_everything [OF list_inotify_ok]) code_simp+

definition root_only :: "fpath option list watcher" where
  "root_only = \<lparr>wa_root = ''s'', wa_root_wd = 0, wa_dirs = [(0, [])], wa_kernel = [Some [''s'']], wa_reports = []\<rparr>"

theorem events_follow_tree_witness:
  "case handle_event list_inotify tree_disk \<lparr>ev_wd = 0, ev_mask = change_mask IN_CREATE True, ev_name = ''a''\<rparr> root_only of (alive, w') \<Rightarrow>
    alive \<and>
    wa_reports w' = wa_reports root_only @
      (if True then [[]] else if IN_CREATE = IN_CREATE then [] else [child_path [] ''a'']) \<and>
    (True \<and> IN_CREATE \<in> {IN_CREATE, IN_MOVED_TO} \<longrightarrow>
      (\<forall>p. dir_below tree_disk root_only (comps (child_path [] ''a'')) p \<longrightarrow> covered list_watched p w') \<and>
      (\<forall>p. covered list_watched p root_only \<longrightarrow> covered list_watched p w')) \<and>
    (True \<and> IN_CREATE \<in> {IN_DELETE, IN_MOVED_FROM} \<longrightarrow>
      wa_dirs w' = filter (\<lambda>(e, d). e = wa_root_wd root_only \<or> (\<nexists>rest. comps d = comps (child_path [] ''a'') @ rest)) (wa_dirs root_only)) \<and>
    (\<not> True \<longrightarrow> wa_dirs w' = wa_dirs root_only)"
  by (rule events_follow_tree [OF list_inotify_ok]) (code_simp | simp add: change_kinds_def root_only_def omap_wf_def)+

end
