(* ===== verification/Health.thy ===== *)
theory Health
  imports Cluster
begin

text \<open>
  \<open>server/health.hpp\<close> and \<open>server/health.cpp\<close>: the monitor of the expected servers. The
  parameters are \<open>connect\<close> (\<open>connect_to\<close>) and \<open>dns\<close>, the IPv4 address that \<open>getaddrinfo\<close> and
  \<open>inet_ntop\<close> give for a host name, if any. The messages for \<open>notify\<close> are returned, in order;
  what is only logged is left out, apart from the reminder of the problems.
\<close>

record endpoint =
  ep_host :: string
  ep_port :: u16

datatype health = H_Unknown | H_Up | H_Down | H_Separate | H_Split

record monitor =
  hm_expected :: "endpoint list"
  hm_states :: "(string, health) omap"
  hm_messages :: "(string, string) omap"
  hm_resolved :: "(string, string) omap"

definition new_monitor :: "endpoint list \<Rightarrow> monitor" where
  "new_monitor expected = \<lparr>hm_expected = expected, hm_states = [], hm_messages = [], hm_resolved = []\<rparr>"

definition REMINDER_EVERY :: nat where "REMINDER_EVERY = 15"

definition server_key :: "endpoint \<Rightarrow> string" where
  "server_key server = ep_host server @ '':'' @ to_dec (unat (ep_port server))"

definition problems :: "monitor \<Rightarrow> string" where
  "problems hm =
     foldl (\<lambda>lines entry. lines @ (if lines = [] then [] else [newline]) @ snd entry) [] (hm_messages hm)"

section \<open>Comparing addresses\<close>

type_synonym dns = "string \<Rightarrow> string option"

definition resolve_host :: "dns \<Rightarrow> string \<Rightarrow> monitor \<Rightarrow> string \<times> monitor" where
  "resolve_host dns host hm =
     (case map_of (hm_resolved hm) host of
        Some ip \<Rightarrow> (ip, hm)
      | None \<Rightarrow>
          let ip = (case dns host of None \<Rightarrow> host | Some ip \<Rightarrow> ip) in
          (ip, hm\<lparr>hm_resolved := omap_put host ip (hm_resolved hm)\<rparr>))"

definition same_server :: "dns \<Rightarrow> string \<Rightarrow> u16 \<Rightarrow> string \<Rightarrow> u16 \<Rightarrow> monitor \<Rightarrow> bool \<times> monitor" where
  "same_server dns host_a port_a host_b port_b hm =
     (if port_a \<noteq> port_b then (False, hm)
      else if host_a = host_b then (True, hm)
      else case resolve_host dns host_a hm of (a, hm) \<Rightarrow>
           case resolve_host dns host_b hm of (b, hm) \<Rightarrow> (a = b, hm))"

section \<open>Asking a server\<close>

definition read_status :: "string \<Rightarrow> protocol_error + u8 \<times> bool \<times> server_address" where
  "read_status body =
     ebind (r_u8 (new_reader body)) (\<lambda>(role, r).
     ebind (r_u8 r) (\<lambda>(known, r).
     ebind (read_server r) (\<lambda>(primary, r). Inr (role, known \<noteq> 0, primary))))"

text \<open>What the reply says about the server; \<open>detail\<close> is empty for \<^term>\<open>H_Up\<close>.\<close>

definition judge ::
  "dns \<Rightarrow> server_address option \<Rightarrow> endpoint \<Rightarrow> u8 \<times> bool \<times> server_address \<Rightarrow> monitor \<Rightarrow>
     (health \<times> string) \<times> monitor" where
  "judge dns our_primary server = (\<lambda>(role, primary_known, their_primary) hm.
     case (case our_primary of
             Some ours \<Rightarrow>
               if role \<noteq> 2 \<and> primary_known then
                 same_server dns (sa_host their_primary) (sa_port their_primary) (sa_host ours) (sa_port ours) hm
               else (False, hm)
           | None \<Rightarrow> (False, hm)) of
       (same, hm) \<Rightarrow>
         (if same then (H_Up, [])
          else if role = 2 then
            (H_Separate, ''expected server '' @ server_key server @
               '' is running as a separate primary (a network split, or it was started without --join)'')
          else if \<not> primary_known then (H_Up, [])
          else
            (H_Split, ''expected server '' @ server_key server @ '' follows a different primary ('' @
               sa_host their_primary @ '':'' @ to_dec (unat (sa_port their_primary)) @ ''): the cluster is split''),
          hm))"

definition probe ::
  "dns \<Rightarrow> (endpoint \<Rightarrow> 'q conn option) \<Rightarrow> 'p cluster \<Rightarrow> endpoint \<Rightarrow> monitor \<Rightarrow>
     (protocol_error + health \<times> string) \<times> monitor" where
  "probe dns connect cl server hm =
     (case map_option (\<lambda>c. fst (call c Msg_StatusRequest [] Msg_Status)) (connect server) of
        Some (Call_Ok reply) \<Rightarrow>
          (case read_status (payload reply) of
             Inl e \<Rightarrow> (Inl e, hm)
           | Inr status \<Rightarrow> (case judge dns (primary_address cl) server status hm of (verdict, hm) \<Rightarrow> (Inr verdict, hm)))
      | _ \<Rightarrow>
          (Inr (H_Down, ''expected server '' @ server_key server @ '' is not running (or can'' @ [CHR 0x27] @
             ''t be reached)''), hm))"

section \<open>A check\<close>

fun any_member :: "dns \<Rightarrow> endpoint \<Rightarrow> server_address list \<Rightarrow> monitor \<Rightarrow> bool \<times> monitor" where
  "any_member dns server [] hm = (False, hm)"
| "any_member dns server (m # ms) hm =
     (case same_server dns (ep_host server) (ep_port server) (sa_host m) (sa_port m) hm of
        (True, hm) \<Rightarrow> (True, hm)
      | (False, hm) \<Rightarrow> any_member dns server ms hm)"

definition examine ::
  "dns \<Rightarrow> (endpoint \<Rightarrow> 'q conn option) \<Rightarrow> 'p cluster \<Rightarrow> endpoint \<Rightarrow> monitor \<Rightarrow> (health \<times> string) \<times> monitor" where
  "examine dns connect cl server hm =
     (case any_member dns server (nd_members cl) hm of
        (True, hm) \<Rightarrow> ((H_Up, []), hm)
      | (False, hm) \<Rightarrow>
          (case probe dns connect cl server hm of
             (Inr verdict, hm) \<Rightarrow> (verdict, hm)
           | (Inl e, hm) \<Rightarrow>
               ((H_Down, ''expected server '' @ server_key server @ '' sent a malformed status reply''), hm)))"

definition state_of :: "string \<Rightarrow> monitor \<Rightarrow> health" where
  "state_of k hm = (case map_of (hm_states hm) k of None \<Rightarrow> H_Unknown | Some s \<Rightarrow> s)"

definition note_state :: "endpoint \<Rightarrow> health \<times> string \<Rightarrow> monitor \<Rightarrow> string list \<times> monitor" where
  "note_state server = (\<lambda>(state, detail) hm.
     let k = server_key server; previous = state_of k hm;
         hm = hm\<lparr>hm_states := omap_put k state (hm_states hm)\<rparr> in
     if state = previous then ([], hm)
     else if state = H_Up then
       (if previous \<noteq> H_Unknown then [''expected server '' @ k @ '' is back in the cluster''] else [],
        hm\<lparr>hm_messages := omap_del k (hm_messages hm)\<rparr>)
     else
       ([''warning: '' @ detail], hm\<lparr>hm_messages := omap_put k (''warning: '' @ detail) (hm_messages hm)\<rparr>))"

text \<open>The loop of \<open>check\<close>: the changes, whether all were up, whether this server was listed.\<close>

fun check_loop ::
  "dns \<Rightarrow> (endpoint \<Rightarrow> 'q conn option) \<Rightarrow> 'p cluster \<Rightarrow> endpoint list \<Rightarrow> monitor \<Rightarrow>
     string list \<times> bool \<times> bool \<times> monitor" where
  "check_loop dns connect cl [] hm = ([], True, False, hm)"
| "check_loop dns connect cl (server # servers) hm =
     (case same_server dns (ep_host server) (ep_port server) (sa_host (nd_self cl)) (sa_port (nd_self cl)) hm of
        (True, hm) \<Rightarrow>
          (case check_loop dns connect cl servers hm of
             (changes, all_up, found, hm) \<Rightarrow> (changes, all_up, True, hm))
      | (False, hm) \<Rightarrow>
          (case examine dns connect cl server hm of (verdict, hm) \<Rightarrow>
           case note_state server verdict hm of (change, hm) \<Rightarrow>
           case check_loop dns connect cl servers hm of
             (changes, all_up, found, hm) \<Rightarrow> (change @ changes, fst verdict = H_Up \<and> all_up, found, hm)))"

definition check :: "dns \<Rightarrow> (endpoint \<Rightarrow> 'q conn option) \<Rightarrow> 'p cluster \<Rightarrow> monitor \<Rightarrow> string list \<times> monitor" where
  "check dns connect cl hm =
     (let n = length (hm_expected hm) in
      case check_loop dns connect cl (hm_expected hm) hm of
        (changes, all_up, found, hm) \<Rightarrow>
          let total = (if found then n else n + 1) in
          (changes @ (if changes \<noteq> [] \<and> all_up
                      then [''all '' @ to_dec total @ '' expected servers are up''] else []),
           hm))"

text \<open>
  The loop of the thread: one element of \<open>envs\<close> per round until it is stopped, with the cluster
  and the network as they are then. Each round gives its notices and its reminder.
\<close>

definition health_round ::
  "nat \<Rightarrow> dns \<Rightarrow> (endpoint \<Rightarrow> 'q conn option) \<Rightarrow> 'p cluster \<Rightarrow> monitor \<Rightarrow>
     (string list \<times> string option) \<times> monitor" where
  "health_round n dns connect cl hm =
     (case check dns connect cl hm of (notices, hm) \<Rightarrow>
      ((notices,
        if n mod REMINDER_EVERY = 0 \<and> problems hm \<noteq> []
        then Some (''still missing expected servers:'' @ [newline] @ problems hm) else None),
       hm))"

fun health_loop ::
  "nat \<Rightarrow> (dns \<times> (endpoint \<Rightarrow> 'q conn option) \<times> 'p cluster) list \<Rightarrow> monitor \<Rightarrow>
     (string list \<times> string option) list \<times> monitor" where
  "health_loop n [] hm = ([], hm)"
| "health_loop n ((dns, connect, cl) # envs) hm =
     (case health_round n dns connect cl hm of (out, hm) \<Rightarrow>
      case health_loop (Suc n) envs hm of (outs, hm) \<Rightarrow> (out # outs, hm))"

definition start_health ::
  "(dns \<times> (endpoint \<Rightarrow> 'q conn option) \<times> 'p cluster) list \<Rightarrow> monitor \<Rightarrow>
     (string list \<times> string option) list \<times> monitor" where
  "start_health envs hm = (if hm_expected hm = [] then ([], hm) else health_loop 1 envs hm)"

end
