(* ===== verification/Health_Properties.thy ===== *)
theory Health_Properties
  imports Health Server Samples
begin

text \<open>
  What the monitor of the expected servers reports: the state of each server against a
  declarative verdict, the problems against the states, and the verdict against what the asked
  server really is.
\<close>

section \<open>Addresses and keys\<close>

lemma server_key_inj: "server_key a = server_key b \<longleftrightarrow> a = b"
proof
  assume eq: "server_key a = server_key b"
  have *: "takeWhile is_digit (rev (server_key e)) = rev (to_dec (unat (ep_port e))) \<and>
      dropWhile is_digit (rev (server_key e)) = CHR '':'' # rev (ep_host e)" for e
  proof -
    have "is_digit c" if "c \<in> set (rev (to_dec (unat (ep_port e))))" for c using that to_dec_digits by simp
    moreover have "\<not> is_digit (CHR '':'')" by (simp add: is_digit_def)
    ultimately show ?thesis
      by (simp add: server_key_def takeWhile_append2 dropWhile_append2 del: set_rev)
  qed
  have "to_dec (unat (ep_port a)) = to_dec (unat (ep_port b))" "ep_host a = ep_host b"
    using * [of a] * [of b] eq by (metis rev_rev_ident, metis list.inject rev_rev_ident)
  then have "unat (ep_port a) = unat (ep_port b)" by (metis dec_value_to_dec)
  with \<open>ep_host a = ep_host b\<close> show "a = b" by (cases a; cases b) (simp add: word_unat_eq_iff)
qed simp

definition ip_of :: "dns \<Rightarrow> string \<Rightarrow> string" where
  "ip_of dns host = (case dns host of None \<Rightarrow> host | Some ip \<Rightarrow> ip)"

definition same_address :: "dns \<Rightarrow> string \<Rightarrow> u16 \<Rightarrow> string \<Rightarrow> u16 \<Rightarrow> bool" where
  "same_address dns ha pa hb pb \<longleftrightarrow> pa = pb \<and> ip_of dns ha = ip_of dns hb"

text \<open>The cached addresses are those of \<open>dns\<close>; the rest of the monitor is not looked at.\<close>

definition resolved_ok :: "dns \<Rightarrow> monitor \<Rightarrow> bool" where
  "resolved_ok dns hm \<longleftrightarrow> omap_wf (hm_resolved hm) \<and>
     (\<forall>host ip. map_of (hm_resolved hm) host = Some ip \<longrightarrow> ip = ip_of dns host)"

definition but_resolved :: "dns \<Rightarrow> monitor \<Rightarrow> monitor \<Rightarrow> bool" where
  "but_resolved dns hm hm' \<longleftrightarrow> (resolved_ok dns hm \<longrightarrow> resolved_ok dns hm') \<and>
     hm_expected hm' = hm_expected hm \<and> hm_states hm' = hm_states hm \<and> hm_messages hm' = hm_messages hm"

lemma but_resolved_refl [simp]: "but_resolved dns hm hm"
  by (simp add: but_resolved_def)

lemma but_resolved_trans: "but_resolved dns a b \<Longrightarrow> but_resolved dns b c \<Longrightarrow> but_resolved dns a c"
  by (simp add: but_resolved_def)

lemma resolve_host_spec:
  "resolve_host dns host hm = (ip, hm') \<Longrightarrow> but_resolved dns hm hm' \<and> (resolved_ok dns hm \<longrightarrow> ip = ip_of dns host)"
  by (auto simp: resolve_host_def but_resolved_def resolved_ok_def ip_of_def omap_put_lookup omap_wf_put Let_def
      split: option.splits if_splits)

lemma same_server_spec:
  assumes "same_server dns ha pa hb pb hm = (same, hm')"
  shows "but_resolved dns hm hm' \<and> (resolved_ok dns hm \<longrightarrow> (same \<longleftrightarrow> same_address dns ha pa hb pb))"
proof (cases "pa = pb \<and> ha \<noteq> hb")
  case True
  obtain a h1 where a: "resolve_host dns ha hm = (a, h1)" by fastforce
  obtain b h2 where b: "resolve_host dns hb h1 = (b, h2)" by fastforce
  from resolve_host_spec [OF a] resolve_host_spec [OF b] assms True a b show ?thesis
    by (auto simp: same_server_def same_address_def dest: but_resolved_trans) (auto simp: but_resolved_def)
next
  case False
  with assms show ?thesis by (auto simp: same_server_def same_address_def split: if_splits)
qed

section \<open>The verdict on a server\<close>

definition status_verdict :: "dns \<Rightarrow> server_address option \<Rightarrow> endpoint \<Rightarrow> u8 \<times> bool \<times> server_address \<Rightarrow> health \<times> string" where
  "status_verdict dns ours server = (\<lambda>(role, known, theirs).
     if role = 2 then
       (H_Separate, ''expected server '' @ server_key server @
          '' is running as a separate primary (a network split, or it was started without --join)'')
     else if \<not> known \<or>
         (case ours of None \<Rightarrow> False
          | Some p \<Rightarrow> same_address dns (sa_host theirs) (sa_port theirs) (sa_host p) (sa_port p)) then (H_Up, [])
     else
       (H_Split, ''expected server '' @ server_key server @ '' follows a different primary ('' @
          sa_host theirs @ '':'' @ to_dec (unat (sa_port theirs)) @ ''): the cluster is split''))"

definition is_member :: "dns \<Rightarrow> endpoint \<Rightarrow> server_address list \<Rightarrow> bool" where
  "is_member dns server ms \<longleftrightarrow>
     (\<exists>m \<in> set ms. same_address dns (ep_host server) (ep_port server) (sa_host m) (sa_port m))"

definition status_answer :: "(endpoint \<Rightarrow> 'q conn option) \<Rightarrow> endpoint \<Rightarrow> string option" where
  "status_answer connect server =
     (case connect server of
        None \<Rightarrow> None
      | Some c \<Rightarrow> (case fst (call c Msg_StatusRequest [] Msg_Status) of Call_Ok reply \<Rightarrow> Some (payload reply) | _ \<Rightarrow> None))"

definition verdict :: "dns \<Rightarrow> (endpoint \<Rightarrow> 'q conn option) \<Rightarrow> 'p cluster \<Rightarrow> endpoint \<Rightarrow> health \<times> string" where
  "verdict dns connect cl server =
     (if is_member dns server (nd_members cl) then (H_Up, [])
      else case map_option read_status (status_answer connect server) of
        None \<Rightarrow> (H_Down, ''expected server '' @ server_key server @ '' is not running (or can'' @ [CHR 0x27] @
                  ''t be reached)'')
      | Some (Inl e) \<Rightarrow> (H_Down, ''expected server '' @ server_key server @ '' sent a malformed status reply'')
      | Some (Inr status) \<Rightarrow> status_verdict dns (primary_address cl) server status)"

lemma judge_spec:
  assumes "judge dns ours server status hm = (v, hm')"
  shows "but_resolved dns hm hm' \<and> (resolved_ok dns hm \<longrightarrow> v = status_verdict dns ours server status)"
proof -
  obtain role known theirs where st: "status = (role, known, theirs)" by (cases status)
  show ?thesis
  proof (cases "role \<noteq> 2 \<and> known \<and> ours \<noteq> None")
    case True
    then obtain p where p: "ours = Some p" by blast
    obtain s h where s: "same_server dns (sa_host theirs) (sa_port theirs) (sa_host p) (sa_port p) hm = (s, h)" by fastforce
    from same_server_spec [OF s] assms True show ?thesis
      by (auto simp: judge_def status_verdict_def st p s split: if_splits)
  next
    case False
    with assms show ?thesis
      by (auto simp: judge_def status_verdict_def st split: if_splits option.splits)
  qed
qed

lemma any_member_spec:
  "any_member dns server ms hm = (b, hm') \<Longrightarrow>
     but_resolved dns hm hm' \<and> (resolved_ok dns hm \<longrightarrow> (b \<longleftrightarrow> is_member dns server ms))"
proof (induction dns server ms hm arbitrary: b hm' rule: any_member.induct)
  case (2 dns server m ms hm)
  obtain s h where s: "same_server dns (ep_host server) (ep_port server) (sa_host m) (sa_port m) hm = (s, h)" by fastforce
  note sp = same_server_spec [OF s]
  show ?case
  proof (cases s)
    case True
    with 2 s sp show ?thesis by (auto simp: is_member_def)
  next
    case False
    with 2(1) [OF s [symmetric], simplified False, OF refl] 2(2) s sp show ?thesis
      by (auto simp: is_member_def dest: but_resolved_trans) (auto simp: but_resolved_def)
  qed
qed (simp add: is_member_def)

lemma examine_spec:
  assumes "examine dns connect cl server hm = (v, hm')"
  shows "but_resolved dns hm hm' \<and> (resolved_ok dns hm \<longrightarrow> v = verdict dns connect cl server)"
proof -
  obtain b h where b: "any_member dns server (nd_members cl) hm = (b, h)" by fastforce
  note m = any_member_spec [OF b]
  consider "b" | "\<not> b" "status_answer connect server = None"
    | body e where "\<not> b" "status_answer connect server = Some body" "read_status body = Inl e"
    | body st where "\<not> b" "status_answer connect server = Some body" "read_status body = Inr st"
    by (metis sumE option.exhaust)
  then show ?thesis
  proof cases
    case (4 body st)
    obtain v' h' where j: "judge dns (primary_address cl) server st h = (v', h')" by fastforce
    have "probe dns connect cl server h = (Inr v', h')"
      using 4 j by (auto simp: probe_def status_answer_def split: option.splits call_result.splits)
    with 4 m assms b judge_spec [OF j] show ?thesis
      by (auto simp: examine_def verdict_def dest: but_resolved_trans) (auto simp: but_resolved_def)
  qed (use m assms b in \<open>auto simp: examine_def verdict_def probe_def status_answer_def split: option.splits call_result.splits\<close>)
qed

section \<open>The states and the problems\<close>

text \<open>What a verdict looks like, whatever the caches hold.\<close>

definition verdict_shape :: "endpoint \<Rightarrow> health \<times> string \<Rightarrow> bool" where
  "verdict_shape server v \<longleftrightarrow> fst v \<noteq> H_Unknown \<and>
     (fst v \<noteq> H_Up \<longrightarrow> (\<exists>rest. snd v = ''expected server '' @ server_key server @ rest))"

lemma shape_up: "verdict_shape server (H_Up, [])"
  by (simp add: verdict_shape_def)

lemma shape_bad:
  "state \<noteq> H_Up \<Longrightarrow> state \<noteq> H_Unknown \<Longrightarrow>
     verdict_shape server (state, ''expected server '' @ server_key server @ rest)"
  by (simp add: verdict_shape_def)

lemma judge_shape: "verdict_shape server (fst (judge dns ours server status hm))"
  by (auto simp: judge_def simp del: append.simps intro: shape_up shape_bad split: prod.splits)

lemma probe_shape: "probe dns connect cl server hm = (Inr v, hm') \<Longrightarrow> verdict_shape server v"
  using judge_shape [of server dns "primary_address cl"]
  by (auto simp: probe_def simp del: append.simps intro: shape_bad
      split: option.splits call_result.splits sum.splits prod.splits) (metis fst_conv)

lemma examine_shape: "verdict_shape server (fst (examine dns connect cl server hm))"
  by (auto simp: examine_def simp del: append.simps intro: shape_up shape_bad dest: probe_shape
      split: prod.splits sum.splits bool.splits)

lemma examine_but_resolved: "but_resolved dns hm (snd (examine dns connect cl server hm))"
  using examine_spec [of dns connect cl server hm] by (cases "examine dns connect cl server hm") auto

definition bad_states :: "health set" where
  "bad_states = {H_Down, H_Separate, H_Split}"

lemma bad_state_iff: "s \<in> bad_states \<longleftrightarrow> s \<noteq> H_Up \<and> s \<noteq> H_Unknown"
  by (cases s) (simp_all add: bad_states_def)

text \<open>A problem names its server.\<close>

definition problem_text :: "string \<Rightarrow> string \<Rightarrow> bool" where
  "problem_text k m \<longleftrightarrow> (\<exists>rest. m = ''warning: expected server '' @ k @ rest)"

lemma problem_text_verdict:
  "verdict_shape server v \<Longrightarrow> fst v \<noteq> H_Up \<Longrightarrow> problem_text (server_key server) (''warning: '' @ snd v)"
  by (auto simp: verdict_shape_def problem_text_def)

definition monitor_ok :: "endpoint list \<Rightarrow> monitor \<Rightarrow> bool" where
  "monitor_ok expected hm \<longleftrightarrow> omap_wf (hm_states hm) \<and> omap_wf (hm_messages hm) \<and>
     (\<forall>k. map_of (hm_messages hm) k \<noteq> None \<longleftrightarrow> state_of k hm \<in> bad_states) \<and>
     (\<forall>k m. map_of (hm_messages hm) k = Some m \<longrightarrow>
        k \<in> server_key ` set expected \<and> problem_text k m)"

lemma monitor_ok_but_resolved: "but_resolved dns hm hm' \<Longrightarrow> monitor_ok E hm \<Longrightarrow> monitor_ok E hm'"
  by (simp add: but_resolved_def monitor_ok_def state_of_def)

definition change_notice :: "endpoint \<Rightarrow> health \<Rightarrow> health \<times> string \<Rightarrow> string list" where
  "change_notice server old v =
     (if fst v = old then []
      else if fst v = H_Up then
        (if old = H_Unknown then [] else [''expected server '' @ server_key server @ '' is back in the cluster''])
      else [''warning: '' @ snd v])"

lemma note_state_effect:
  assumes "note_state server v hm = (out, hm')" "omap_wf (hm_states hm)"
  shows "out = change_notice server (state_of (server_key server) hm) v"
    and "state_of k hm' = (if k = server_key server then fst v else state_of k hm)"
    and "omap_wf (hm_states hm')" "hm_expected hm' = hm_expected hm" "hm_resolved hm' = hm_resolved hm"
  using assms
  by (auto simp: note_state_def change_notice_def state_of_def Let_def omap_put_lookup omap_wf_put
      split: prod.splits if_splits)

lemma note_state_ok:
  assumes ok: "monitor_ok E hm" and shape: "verdict_shape server v" and mem: "server \<in> set E"
    and noted: "note_state server v hm = (out, hm')"
  shows "monitor_ok E hm'"
proof -
  let ?k = "server_key server"
  have wf: "omap_wf (hm_states hm)" "omap_wf (hm_messages hm)" using ok by (simp_all add: monitor_ok_def)
  note e = note_state_effect [OF noted wf(1)]
  have msgs: "map_of (hm_messages hm') = (if fst v = state_of ?k hm then map_of (hm_messages hm)
      else if fst v = H_Up then (map_of (hm_messages hm))(?k := None)
      else (map_of (hm_messages hm))(?k \<mapsto> ''warning: '' @ snd v))"
    "omap_wf (hm_messages hm')"
    using noted wf(2)
    by (auto simp: note_state_def Let_def omap_put_lookup omap_del_lookup omap_wf_put omap_wf_del
        split: prod.splits if_splits)
  have "map_of (hm_messages hm') k \<noteq> None \<longleftrightarrow> state_of k hm' \<in> bad_states" for k
    using ok shape unfolding e(2) by (auto simp: monitor_ok_def msgs(1) bad_state_iff verdict_shape_def)
  moreover have "k \<in> server_key ` set E \<and> problem_text k m"
    if "map_of (hm_messages hm') k = Some m" for k m
    using that ok mem problem_text_verdict [OF shape]
    by (auto simp: monitor_ok_def msgs(1) simp del: append.simps split: if_splits)
  ultimately show ?thesis using e(3) msgs(2) by (simp only: monitor_ok_def) blast
qed

lemma check_loop_ok:
  "monitor_ok E hm \<Longrightarrow> set servers \<subseteq> set E \<Longrightarrow> check_loop dns connect cl servers hm = (out, up, found, hm') \<Longrightarrow>
     monitor_ok E hm' \<and> hm_expected hm' = hm_expected hm"
proof (induction servers arbitrary: hm out up found hm')
  case (Cons server servers)
  obtain s h where s: "same_server dns (ep_host server) (ep_port server) (sa_host (nd_self cl)) (sa_port (nd_self cl)) hm = (s, h)"
    by fastforce
  have h: "monitor_ok E h" "hm_expected h = hm_expected hm"
    using same_server_spec [OF s] Cons.prems(1) monitor_ok_but_resolved by (auto simp: but_resolved_def)
  obtain v h1 where v: "examine dns connect cl server h = (v, h1)" by fastforce
  have h1: "monitor_ok E h1" "hm_expected h1 = hm_expected h" "verdict_shape server v"
    using examine_but_resolved [of dns h connect cl server] monitor_ok_but_resolved h(1) examine_shape [of server dns connect cl h]
    by (auto simp: v but_resolved_def)
  obtain c h2 where n: "note_state server v h1 = (c, h2)" by fastforce
  have h2: "monitor_ok E h2" "hm_expected h2 = hm_expected h1"
    using note_state_ok [OF h1(1,3) _ n] note_state_effect(4) [OF n] h1(1) Cons.prems(2) by (auto simp: monitor_ok_def)
  let ?next = "if s then h else h2"
  obtain out1 up1 found1 h3 where l: "check_loop dns connect cl servers ?next = (out1, up1, found1, h3)"
    by (metis prod_cases4)
  have "monitor_ok E ?next" "hm_expected ?next = hm_expected hm" using h h1(2) h2 by simp_all
  with Cons.IH [OF _ _ l] Cons.prems(2) have "monitor_ok E h3 \<and> hm_expected h3 = hm_expected hm" by simp
  with Cons.prems(3) l show ?case by (cases s) (simp_all add: s v n)
qed simp

lemma check_ok:
  "monitor_ok (hm_expected hm) hm \<Longrightarrow> check dns connect cl hm = (out, hm') \<Longrightarrow>
     monitor_ok (hm_expected hm') hm' \<and> hm_expected hm' = hm_expected hm"
proof -
  assume ok: "monitor_ok (hm_expected hm) hm" and c: "check dns connect cl hm = (out, hm')"
  obtain out1 up found h where l: "check_loop dns connect cl (hm_expected hm) hm = (out1, up, found, h)"
    by (metis prod_cases4)
  from c have "h = hm'" by (simp add: check_def l Let_def)
  with check_loop_ok [OF ok order.refl l] show ?thesis by simp
qed

lemma health_loop_ok:
  "monitor_ok (hm_expected hm) hm \<Longrightarrow> health_loop n envs hm = (outs, hm') \<Longrightarrow>
     monitor_ok (hm_expected hm') hm' \<and> hm_expected hm' = hm_expected hm"
proof (induction envs arbitrary: n hm outs)
  case (Cons env envs)
  obtain dns connect cl where env: "env = (dns, connect, cl)" by (cases env)
  obtain out h where c: "check dns connect cl hm = (out, h)" by fastforce
  obtain r where r: "health_round n dns connect cl hm = (r, h)" by (simp add: health_round_def c)
  obtain outs1 h1 where l: "health_loop (Suc n) envs h = (outs1, h1)" by fastforce
  have h1: "h1 = hm'" using Cons.prems(2) by (simp add: env r l)
  with check_ok [OF Cons.prems(1) c] Cons.IH [OF _ l [unfolded h1]] show ?case by auto
qed simp

lemma problems_join:
  assumes "\<forall>e \<in> set (hm_messages hm). snd e \<noteq> []"
  shows "problems hm = join_with newline (map snd (hm_messages hm))"
proof -
  have "foldl (\<lambda>t e. t @ (if t = [] then [] else [newline]) @ snd e) t ms =
      (if ms = [] then t else t @ newline # join_with newline (map snd ms))"
    if "t \<noteq> []" for t and ms :: "(string \<times> string) list"
    using that by (induction ms arbitrary: t) (auto simp: join_with_Cons)
  with assms show ?thesis by (cases "hm_messages hm") (auto simp: problems_def join_with_Cons)
qed

lemma check_loop_reports:
  assumes "resolved_ok dns hm" "omap_wf (hm_states hm)" "distinct servers"
    and "check_loop dns connect cl servers hm = (out, up, found, hm')"
  shows "let watched = filter (\<lambda>s. \<not> same_address dns (ep_host s) (ep_port s) (sa_host (nd_self cl)) (sa_port (nd_self cl))) servers in
    out = concat (map (\<lambda>s. change_notice s (state_of (server_key s) hm) (verdict dns connect cl s)) watched) \<and>
    up = list_all (\<lambda>s. fst (verdict dns connect cl s) = H_Up) watched \<and> found = list_ex (\<lambda>s. same_address dns (ep_host s) (ep_port s) (sa_host (nd_self cl)) (sa_port (nd_self cl))) servers \<and>
    (\<forall>s. state_of (server_key s) hm' =
          (if s \<in> set watched then fst (verdict dns connect cl s) else state_of (server_key s) hm))"
  using assms
proof (induction servers arbitrary: hm out up found hm')
  case (Cons server servers)
  let ?self = "\<lambda>s. same_address dns (ep_host s) (ep_port s) (sa_host (nd_self cl)) (sa_port (nd_self cl))"
  obtain s h where s: "same_server dns (ep_host server) (ep_port server) (sa_host (nd_self cl)) (sa_port (nd_self cl)) hm = (s, h)"
    by fastforce
  have h: "resolved_ok dns h" "hm_states h = hm_states hm" "s \<longleftrightarrow> ?self server"
    using same_server_spec [OF s] Cons.prems(1) by (auto simp: but_resolved_def)
  obtain v h1 where v: "examine dns connect cl server h = (v, h1)" by fastforce
  have h1: "resolved_ok dns h1" "hm_states h1 = hm_states hm" "v = verdict dns connect cl server"
    using examine_spec [OF v] h by (auto simp: but_resolved_def)
  obtain c h2 where n: "note_state server v h1 = (c, h2)" by fastforce
  have wf1: "omap_wf (hm_states h1)" using Cons.prems(2) h1(2) by simp
  note e = note_state_effect [OF n wf1]
  have st: "state_of k h1 = state_of k hm" "state_of k h = state_of k hm" for k by (simp_all add: state_of_def h1 h)
  have h2: "resolved_ok dns h2" using h1(1) e(5) by (simp add: resolved_ok_def)
  let ?next = "if s then h else h2"
  obtain out1 up1 found1 h3 where l: "check_loop dns connect cl servers ?next = (out1, up1, found1, h3)"
    by (metis prod_cases4)
  have "resolved_ok dns ?next" "omap_wf (hm_states ?next)" using h h2 e(3) Cons.prems(2) by simp_all
  from Cons.IH [OF this _ l] Cons.prems(3)
  have ih: "out1 = concat (map (\<lambda>s. change_notice s (state_of (server_key s) ?next) (verdict dns connect cl s)) (filter (\<lambda>s. \<not> ?self s) servers))"
    "up1 = list_all (\<lambda>s. fst (verdict dns connect cl s) = H_Up) (filter (\<lambda>s. \<not> ?self s) servers)"
    "found1 = list_ex ?self servers"
    "\<And>s. state_of (server_key s) h3 =
      (if s \<in> set (filter (\<lambda>s. \<not> ?self s) servers) then fst (verdict dns connect cl s) else state_of (server_key s) ?next)"
    by (simp_all add: Let_def)
  show ?case
  proof (cases s)
    case True
    then have "out = out1" "up = up1" "found" "hm' = h3" using Cons.prems(4) l by (simp_all add: s)
    moreover have "?self server" "?next = h" using True h(3) by simp_all
    ultimately show ?thesis by (simp only: ih st Let_def filter.simps list_ex_iff not_True_eq_False if_False simp_thms) auto
  next
    case False
    have keep: "state_of (server_key s') h2 = state_of (server_key s') hm" if "s' \<in> set servers" for s'
      using that Cons.prems(3) e(2) by (auto simp: server_key_inj st)
    have next_eq: "?next = h2" using False by simp
    have out1: "out1 = concat (map (\<lambda>s. change_notice s (state_of (server_key s) hm) (verdict dns connect cl s)) (filter (\<lambda>s. \<not> ?self s) servers))"
      unfolding ih(1) next_eq by (rule arg_cong [where f = concat]) (auto simp: keep)
    have "out = c @ out1" "up = (fst v = H_Up \<and> up1)" "found = found1" "hm' = h3"
      using Cons.prems(4) l False by (simp_all add: s v n)
    moreover have "\<not> ?self server" using False h(3) by simp
    ultimately show ?thesis
      by (simp add: Let_def out1 e(1) h1(3) st ih(2,3)) (auto simp: ih(4) next_eq e(2) st h1(3) server_key_inj)
  qed
qed (simp add: state_of_def)

section \<open>Properties\<close>

text \<open>
  C37. A check reports exactly the changes: for every expected server that is not this server, the
  new state is the verdict on it (a member, silent, malformed, a separate primary, a follower of
  another primary, or in our cluster); the notices are those of the servers whose state changed,
  in the order of the list, followed by one that all are up when something changed and every
  server is up now.
\<close>

theorem check_reports:
  assumes "resolved_ok dns hm" "omap_wf (hm_states hm)" "distinct (hm_expected hm)"
  shows "let watched = filter (\<lambda>s. \<not> same_address dns (ep_host s) (ep_port s) (sa_host (nd_self cl)) (sa_port (nd_self cl)))
          (hm_expected hm);
        changes = concat (map (\<lambda>s. change_notice s (state_of (server_key s) hm) (verdict dns connect cl s)) watched);
        total = length (hm_expected hm) + (if watched = hm_expected hm then 1 else 0) in
    fst (check dns connect cl hm) = changes @
      (if changes \<noteq> [] \<and> list_all (\<lambda>s. fst (verdict dns connect cl s) = H_Up) watched
       then [''all '' @ to_dec total @ '' expected servers are up''] else []) \<and>
    (\<forall>s. state_of (server_key s) (snd (check dns connect cl hm)) =
      (if s \<in> set watched then fst (verdict dns connect cl s) else state_of (server_key s) hm))"
proof -
  let ?self = "\<lambda>s. same_address dns (ep_host s) (ep_port s) (sa_host (nd_self cl)) (sa_port (nd_self cl))"
  obtain out up found h where l: "check_loop dns connect cl (hm_expected hm) hm = (out, up, found, h)"
    by (metis prod_cases4)
  have "filter (\<lambda>s. \<not> ?self s) (hm_expected hm) = hm_expected hm \<longleftrightarrow> \<not> list_ex ?self (hm_expected hm)"
    by (auto simp: filter_id_conv list_ex_iff)
  with check_loop_reports [OF assms l] show ?thesis by (simp add: check_def l Let_def)
qed

text \<open>
  The problems are those of the servers that are not up: whatever the rounds found, there is
  one line for each server that was last found down, separate or split, and for no other; the
  line names the server. So the text is empty exactly when no such server is known.
\<close>

theorem problems_match_states:
  "let hm = snd (start_health envs (new_monitor expected)) in
    problems hm = join_with newline (map snd (hm_messages hm)) \<and>
    distinct (map fst (hm_messages hm)) \<and> fst ` set (hm_messages hm) = {k. state_of k hm \<in> bad_states} \<and>
    list_all (\<lambda>(k, m). k \<in> server_key ` set expected \<and> problem_text k m) (hm_messages hm)"
proof -
  obtain outs hm where l: "start_health envs (new_monitor expected) = (outs, hm)" by fastforce
  have new: "monitor_ok expected (new_monitor expected)" "hm_expected (new_monitor expected) = expected"
    by (simp_all add: monitor_ok_def new_monitor_def state_of_def bad_states_def)
  have "monitor_ok expected hm"
    using l new health_loop_ok [of "new_monitor expected" 1 envs outs hm] by (auto simp: start_health_def split: if_splits)
  then have wf: "omap_wf (hm_messages hm)"
    and keys: "\<And>k. map_of (hm_messages hm) k \<noteq> None \<longleftrightarrow> state_of k hm \<in> bad_states"
    and named: "\<And>k m. map_of (hm_messages hm) k = Some m \<Longrightarrow> k \<in> server_key ` set expected \<and> problem_text k m"
    by (simp_all add: monitor_ok_def)
  have each: "k \<in> server_key ` set expected \<and> problem_text k m" if "(k, m) \<in> set (hm_messages hm)" for k m
    using that named omap_wf_map_of [OF wf] by blast
  then have "\<forall>e \<in> set (hm_messages hm). snd e \<noteq> []" by (fastforce simp: problem_text_def)
  from problems_join [OF this] each omap_wf_distinct [OF wf] keys show ?thesis
    by (auto simp: l Let_def list_all_iff map_of_eq_None_iff)
qed

text \<open>The expected server as it is asked: a server behind \<open>handle_connection\<close>.\<close>

definition asked ::
  "('p, message list) world \<Rightarrow> conn_id \<Rightarrow> ('p, message list) server \<Rightarrow> ('p, message list) server conn" where
  "asked w cid sv =
     \<lparr>peer_state = sv,
      respond = (\<lambda>sv msgs. case handle_connection w cid (replica_conn msgs) sv of (c, sv) \<Rightarrow> (sv, answers c)),
      outq = [], inq = [], sends_left = None, is_open = True, peer_is_server = True\<rparr>"

definition role_code :: "role \<Rightarrow> u8" where
  "role_code role = (case role of Primary \<Rightarrow> 2 | Backup \<Rightarrow> 1 | Joining \<Rightarrow> 0)"

lemma status_reply:
  assumes "str_ok (sa_host (cl_primary (sv_cluster sv)))"
  shows "\<exists>theirs. read_status (the (status_answer (\<lambda>_. Some (asked w cid sv)) server)) =
      Inr (role_code (cl_role (sv_cluster sv)), cl_primary_known (sv_cluster sv), theirs) \<and>
      status_answer (\<lambda>_. Some (asked w cid sv)) server \<noteq> None \<and>
      (cl_primary_known (sv_cluster sv) \<longrightarrow> theirs = cl_primary (sv_cluster sv))"
proof -
  let ?cl = "sv_cluster sv"
  let ?theirs = "if cl_primary_known ?cl then cl_primary ?cl else no_server"
  let ?known = "if cl_primary_known ?cl then 1 else 0 :: u8"
  let ?body = "enc_u8 (role_code (cl_role ?cl)) @ enc_u8 ?known @ enc_server ?theirs"
  have ok: "str_ok (sa_host ?theirs)" using assms by (simp add: no_server_def)
  have small: "length ?body \<le> MAX_PAYLOAD" using ok by (simp add: enc_server_def enc_str_def MAX_PAYLOAD_def)
  have st: "handle_status c ?cl = (Inr (), snd (conn_send c Msg_Status ?body))" for c :: "message list conn"
    using cserver.wr_enc [OF ok] by (simp add: handle_status_def role_code_def wr_simps Let_def)
  have peer: "peer_is_server (replica_conn [])" by (simp add: replica_conn_def)
  have "handle_connection w cid (replica_conn [\<lparr>mtype = Msg_StatusRequest, payload = []\<rparr>]) sv =
      ((replica_conn [])\<lparr>outq := [\<lparr>mtype = Msg_Status, payload = ?body\<rparr>]\<rparr>, sv)"
    using small peer by (simp add: handle_connection_def st conn_recv_queued is_cluster_message_def replica_send Let_def)
  then have "call (asked w cid sv) Msg_StatusRequest [] Msg_Status =
      (Call_Ok \<lparr>mtype = Msg_Status, payload = ?body\<rparr>, asked w cid sv)"
    by (simp add: call_def conn_send_def conn_recv_def asked_def answers_def)
  then have "status_answer (\<lambda>_. Some (asked w cid sv)) server = Some ?body" by (simp add: status_answer_def)
  moreover have "read_status ?body = Inr (role_code (cl_role ?cl), cl_primary_known ?cl, ?theirs)"
    using c8.rd_enc [where x = "role_code (cl_role ?cl)" and pre = "[]"]
      c8.rd_enc [where x = ?known and pre = "enc_u8 (role_code (cl_role ?cl))"]
      cserver.rd_enc [OF ok, where pre = "enc_u8 (role_code (cl_role ?cl)) @ enc_u8 ?known" and rest = "[]"]
    by (simp add: read_status_def new_reader_cursor)
  ultimately show ?thesis by simp
qed

text \<open>
  C36. The monitor tells the three cases of the documentation apart, by what the asked server is:
  for an expected server that answers and is not a member, the verdict is \<open>Separate\<close> when it is a
  primary of its own, \<open>Split\<close> when it follows a primary with another address than ours, and \<open>Up\<close>
  when it follows ours or knows none (an election or its own joining).
\<close>

theorem probe_tells_role:
  assumes "str_ok (sa_host (cl_primary (sv_cluster sv)))" "\<not> is_member dns server (nd_members cl)" "resolved_ok dns hm"
  shows "fst (fst (examine dns (\<lambda>_. Some (asked w cid sv)) cl server hm)) =
    (if is_primary (sv_cluster sv) then H_Separate
     else case (primary_address (sv_cluster sv), primary_address cl) of
       (None, _) \<Rightarrow> H_Up
     | (Some theirs, None) \<Rightarrow> H_Split
     | (Some theirs, Some ours) \<Rightarrow>
         if same_address dns (sa_host theirs) (sa_port theirs) (sa_host ours) (sa_port ours) then H_Up else H_Split)"
proof -
  obtain theirs body where r: "status_answer (\<lambda>_. Some (asked w cid sv)) server = Some body"
    "read_status body = Inr (role_code (cl_role (sv_cluster sv)), cl_primary_known (sv_cluster sv), theirs)"
    "cl_primary_known (sv_cluster sv) \<longrightarrow> theirs = cl_primary (sv_cluster sv)"
    using status_reply [OF assms(1), of w cid server] by auto
  have "role_code (cl_role (sv_cluster sv)) = 2 \<longleftrightarrow> is_primary (sv_cluster sv)"
    by (cases "cl_role (sv_cluster sv)") (simp_all add: role_code_def is_primary_def)
  with examine_spec [of dns "\<lambda>_. Some (asked w cid sv)" cl server hm] assms(2,3) r show ?thesis
    by (cases "examine dns (\<lambda>_. Some (asked w cid sv)) cl server hm")
      (auto simp: verdict_def status_verdict_def primary_address_def split: option.splits)
qed

section \<open>Instances\<close>

definition sample_monitor :: monitor where
  "sample_monitor = new_monitor
     [\<lparr>ep_host = ''h'', ep_port = 1000\<rparr>, \<lparr>ep_host = ''h'', ep_port = 999\<rparr>, \<lparr>ep_host = ''h'', ep_port = 998\<rparr>]"

definition nobody :: "endpoint \<Rightarrow> unit conn option" where
  "nobody = (\<lambda>_. None)"

definition no_dns :: dns where
  "no_dns = (\<lambda>_. None)"

theorem check_reports_witness:
  "let watched = filter (\<lambda>s. \<not> same_address no_dns (ep_host s) (ep_port s) (sa_host (nd_self primary_cluster)) (sa_port (nd_self primary_cluster)))
          (hm_expected sample_monitor);
        changes = concat (map (\<lambda>s. change_notice s (state_of (server_key s) sample_monitor) (verdict no_dns nobody primary_cluster s)) watched);
        total = length (hm_expected sample_monitor) + (if watched = hm_expected sample_monitor then 1 else 0) in
    fst (check no_dns nobody primary_cluster sample_monitor) = changes @
      (if changes \<noteq> [] \<and> list_all (\<lambda>s. fst (verdict no_dns nobody primary_cluster s) = H_Up) watched
       then [''all '' @ to_dec total @ '' expected servers are up''] else []) \<and>
    (\<forall>s. state_of (server_key s) (snd (check no_dns nobody primary_cluster sample_monitor)) =
      (if s \<in> set watched then fst (verdict no_dns nobody primary_cluster s) else state_of (server_key s) sample_monitor))"
  by (rule check_reports) (simp_all add: sample_monitor_def new_monitor_def resolved_ok_def)

theorem probe_tells_role_witness:
  "fst (fst (examine no_dns (\<lambda>_. Some (asked \<lparr>wd_connect = \<lambda>_. None, wd_time = 0, wd_derive = \<lambda>_ _ _. None, wd_salt = None,
          wd_random = None, wd_others = [], wd_replica = []\<rparr> 1
        \<lparr>sv_cluster = primary_cluster, sv_sessions = [], sv_syncs = \<lambda>_. replica_conn [], sv_problems = []\<rparr>))
      primary_cluster \<lparr>ep_host = ''h'', ep_port = 998\<rparr> sample_monitor)) = H_Separate"
  by (subst probe_tells_role)
    (simp_all add: sample_monitor_def new_monitor_def resolved_ok_def primary_cluster_def server_no_def is_member_def
      same_address_def no_dns_def ip_of_def is_primary_def)

text \<open>
  A problem is described once: while a server stays in the same state, the line that was written
  first is kept, also when the details have changed (the primary that a split server follows).
\<close>

lemma problem_not_updated:
  assumes "state_of (server_key server) hm = fst v" "map_of (hm_messages hm) (server_key server) = Some old"
  shows "fst (note_state server v hm) = [] \<and>
    map_of (hm_messages (snd (note_state server v hm))) (server_key server) = Some old"
  using assms by (cases v) (simp add: note_state_def Let_def)

end
