(* ===== verification/Options.thy ===== *)
theory Options
  imports Health Client
begin

text \<open>
  The command lines: \<open>parse_port\<close> and \<open>parse_endpoint\<close> of \<open>common/net.cpp\<close>, and the \<open>main\<close> functions
  of \<open>server/main.cpp\<close> and \<open>client/main.cpp\<close> up to the start of the server and the client. A
  program either runs with its options or ends with an exit status, after an error message or
  the usage text (which is not modelled).
\<close>

datatype 'o command_line =
  Run_with 'o
| Usage nat
| Invalid nat string

section \<open>Ports and addresses\<close>

definition parse_port :: "string \<Rightarrow> u16 option" where
  "parse_port s =
     (if s = [] \<or> length s > 5 \<or> \<not> list_all is_digit s then None
      else let value = dec_value s in
        if value = 0 \<or> value > 65535 then None else Some (of_nat value))"

definition parse_endpoint :: "string \<Rightarrow> (string \<times> u16) option" where
  "parse_endpoint s =
     (case rfind_char (CHR '':'') s of
        None \<Rightarrow> None
      | Some colon \<Rightarrow>
          if colon = 0 then None
          else map_option (\<lambda>port. (substr s 0 colon, port)) (parse_port (drop (Suc colon) s)))"

section \<open>The server\<close>

record server_options =
  so_host :: string
  so_port :: u16
  so_data_dir :: string
  so_certs_dir :: string
  so_join_host :: string
  so_join_port :: u16
  so_expected :: "endpoint list"

definition default_server :: server_options where
  "default_server =
     \<lparr>so_host = ''127.0.0.1'', so_port = 4000, so_data_dir = [], so_certs_dir = ''certs'', so_join_host = [],
      so_join_port = 0, so_expected = []\<rparr>"

text \<open>The list of \<open>--expect\<close>; on failure the part that is no address.\<close>

function expect_loop :: "string \<Rightarrow> nat \<Rightarrow> endpoint list \<Rightarrow> string + endpoint list" where
  "expect_loop l start servers =
     (if start \<le> length l then
        let comma = (case find_char (CHR '','') l start of None \<Rightarrow> length l | Some i \<Rightarrow> i);
            part = substr l start (comma - start) in
        case parse_endpoint part of
          None \<Rightarrow> Inl part
        | Some (host, port) \<Rightarrow> expect_loop l (Suc comma) (servers @ [\<lparr>ep_host = host, ep_port = port\<rparr>])
      else Inr servers)"
  by pat_completeness auto
termination
  by (relation "measure (\<lambda>(l, start, _). Suc (length l) - start)")
    (auto split: option.splits dest!: find_char_bounds)

declare expect_loop.simps [simp del]

fun server_args :: "string list \<Rightarrow> server_options \<Rightarrow> server_options command_line" where
  "server_args [] opts = Run_with opts"
| "server_args [arg] opts = Usage (if arg = ''--help'' \<or> arg = ''-h'' then 0 else 2)"
| "server_args (arg # value # args) opts =
     (if arg = ''--port'' then
        (case parse_port value of
           None \<Rightarrow> Invalid 2 (''invalid port: '' @ value)
         | Some port \<Rightarrow> server_args args (opts\<lparr>so_port := port\<rparr>))
      else if arg = ''--host'' then server_args args (opts\<lparr>so_host := value\<rparr>)
      else if arg = ''--data'' then server_args args (opts\<lparr>so_data_dir := value\<rparr>)
      else if arg = ''--certs'' then server_args args (opts\<lparr>so_certs_dir := value\<rparr>)
      else if arg = ''--expect'' then
        (case expect_loop value 0 [] of
           Inl part \<Rightarrow> Invalid 2 (''invalid address in --expect (expected HOST:PORT): '' @ part)
         | Inr servers \<Rightarrow> server_args args (opts\<lparr>so_expected := so_expected opts @ servers\<rparr>))
      else if arg = ''--join'' then
        (case parse_endpoint value of
           None \<Rightarrow> Invalid 2 (''invalid address (expected HOST:PORT): '' @ value)
         | Some (host, port) \<Rightarrow> server_args args (opts\<lparr>so_join_host := host, so_join_port := port\<rparr>))
      else Usage (if arg = ''--help'' \<or> arg = ''-h'' then 0 else 2))"

section \<open>The client\<close>

definition default_client :: client_options where
  "default_client =
     \<lparr>op_user = [], op_password = [], op_host = [], op_port = 4000, op_sync_dir = ''sync_dir'', op_ca_file = ''certs/ca.pem''\<rparr>"

text \<open>\<open>None\<close>: the usage was asked for.\<close>

fun client_args :: "string list \<Rightarrow> client_options \<Rightarrow> string list \<Rightarrow> (client_options \<times> string list) option" where
  "client_args [] opts positional = Some (opts, positional)"
| "client_args [arg] opts positional =
     (if arg = ''--help'' \<or> arg = ''-h'' then None else Some (opts, positional @ [arg]))"
| "client_args (arg # value # args) opts positional =
     (if arg = ''--ca'' then client_args args (opts\<lparr>op_ca_file := value\<rparr>) positional
      else if arg = ''--help'' \<or> arg = ''-h'' then None
      else client_args (value # args) opts (positional @ [arg]))"

text \<open>
  The password: from the environment if it is set there, otherwise the first line of the input.
  \<open>tls_error\<close> is the error of \<open>tls_init\<close>, if any.
\<close>

definition read_password :: "string option \<Rightarrow> string \<Rightarrow> string" where
  "read_password env line = (case env of Some password \<Rightarrow> password | None \<Rightarrow> line)"

definition client_main ::
  "string list \<Rightarrow> (string \<Rightarrow> string option) \<Rightarrow> string option \<Rightarrow> string \<Rightarrow> client_options command_line" where
  "client_main args tls_error env line =
     (case client_args args default_client [] of
        None \<Rightarrow> Usage 0
      | Some (opts, positional) \<Rightarrow>
          if length positional < 3 \<or> length positional > 4 then Usage 2
          else
            let opts = opts\<lparr>op_user := positional ! 0, op_host := positional ! 1\<rparr> in
            case parse_port (positional ! 2) of
              None \<Rightarrow> Invalid 2 (''invalid port: '' @ positional ! 2)
            | Some port \<Rightarrow>
                let opts = opts\<lparr>op_port := port\<rparr>;
                    opts = (if length positional = 4 then opts\<lparr>op_sync_dir := positional ! 3\<rparr> else opts) in
                case tls_error (op_ca_file opts) of
                  Some e \<Rightarrow> Invalid 1 e
                | None \<Rightarrow> Run_with (opts\<lparr>op_password := read_password env line\<rparr>))"

end
