(* ===== verification/Options_Properties.thy ===== *)
theory Options_Properties
  imports Options Conflict_Names
begin

text \<open>
  What the command lines mean: the numbers that are ports, and that every configuration of the
  server can be written as a command line.
\<close>

section \<open>Ports and addresses\<close>

lemma parse_port_iff:
  "parse_port s = Some port \<longleftrightarrow>
     s \<noteq> [] \<and> length s \<le> 5 \<and> list_all is_digit s \<and> dec_value s = unat port \<and> port \<noteq> 0"
proof -
  have small: "unat port < 65536" using unsigned_less [where 'a = nat, of port] by simp
  have "of_nat v = port \<longleftrightarrow> v = unat port" if "v \<le> 65535" for v
    using that by (auto simp: unat_of_nat)
  moreover have "unat port = 0 \<longleftrightarrow> port = 0" by (simp add: unat_eq_zero)
  ultimately show ?thesis using small by (auto simp: parse_port_def Let_def)
qed

text \<open>
  A port is exactly a number from 1 to 65535 in one to five decimal digits; what is accepted
  is that number, so it never wraps around to another port.
\<close>

theorem parse_port_exact:
  "parse_port s = Some port \<longleftrightarrow>
     s \<noteq> [] \<and> length s \<le> 5 \<and> list_all is_digit s \<and> dec_value s = unat port \<and> port \<noteq> 0"
  by (rule parse_port_iff)

lemma port_digits: "parse_port (to_dec (unat port)) = (if port = 0 then None else Some port)"
proof -
  have "unat port < 10 ^ Suc 4" using unsigned_less [where 'a = nat, of port] by simp
  then have "length (to_dec (unat port)) \<le> 5" using length_to_dec [of "unat port" 4] by simp
  with parse_port_iff [of "to_dec (unat port)"] to_dec_digits show ?thesis
    by (auto simp: list_all_iff) (simp add: parse_port_def list_all_iff Let_def)
qed

lemma rfind_char_last: "c \<notin> set q \<Longrightarrow> rfind_char c (p @ c # q) = Some (length p)"
proof -
  assume "c \<notin> set q"
  then have "takeWhile ((\<noteq>) c) (rev q @ c # rev p) = rev q" by (subst takeWhile_append2) auto
  then show ?thesis by (simp add: rfind_char_def)
qed

lemma parse_endpoint_key:
  assumes "ep_host e \<noteq> []" "ep_port e \<noteq> 0"
  shows "parse_endpoint (server_key e) = Some (ep_host e, ep_port e)"
proof -
  have "CHR '':'' \<notin> set (to_dec (unat (ep_port e)))" using to_dec_digits by (fastforce simp: is_digit_def)
  from rfind_char_last [OF this, of "ep_host e"] assms show ?thesis
    by (simp add: parse_endpoint_def server_key_def port_digits substr_def)
qed

section \<open>The list of expected servers\<close>

fun parse_all :: "string list \<Rightarrow> endpoint list \<Rightarrow> string + endpoint list" where
  "parse_all [] servers = Inr servers"
| "parse_all (part # parts) servers =
     (case parse_endpoint part of
        None \<Rightarrow> Inl part
      | Some (host, port) \<Rightarrow> parse_all parts (servers @ [\<lparr>ep_host = host, ep_port = port\<rparr>]))"

lemma expect_loop_split:
  "start \<le> length l \<Longrightarrow> expect_loop l start servers = parse_all (split_on (CHR '','') (drop start l)) servers"
proof (induction l start servers rule: expect_loop.induct)
  case (1 l start servers)
  show ?case
  proof (cases "find_char (CHR '','') l start")
    case None
    then have part: "split_on (CHR '','') (drop start l) = [drop start l]" by (simp add: split_on_find)
    have "expect_loop l (Suc (length l)) more_servers = Inr more_servers" for more_servers
      by (simp add: expect_loop.simps)
    with 1(2) None part show ?thesis
      by (subst expect_loop.simps) (simp add: substr_def split: option.split)
  next
    case (Some i)
    then have parts: "split_on (CHR '','') (drop start l) = substr l start (i - start) # split_on (CHR '','') (drop (Suc i) l)"
      by (simp add: split_on_find [of _ start])
    have "Suc i \<le> length l" using find_char_Some(2) [OF Some] by simp
    with 1 Some parts show ?thesis
      by (subst expect_loop.simps) (simp split: option.split)
  qed
qed

definition reachable_endpoint :: "endpoint \<Rightarrow> bool" where
  "reachable_endpoint e \<longleftrightarrow> ep_host e \<noteq> [] \<and> ep_port e \<noteq> 0 \<and> CHR '','' \<notin> set (ep_host e)"

lemma parse_all_keys:
  "list_all reachable_endpoint es \<Longrightarrow> parse_all (map server_key es) servers = Inr (servers @ es)"
  by (induction es arbitrary: servers) (simp_all add: parse_endpoint_key reachable_endpoint_def)

lemma expect_keys:
  assumes "es \<noteq> []" "list_all reachable_endpoint es"
  shows "expect_loop (join_with (CHR '','') (map server_key es)) 0 [] = Inr es"
proof -
  have "CHR '','' \<notin> set (server_key e)" if "reachable_endpoint e" for e
  proof -
    have "CHR '','' \<notin> set (to_dec (unat (ep_port e)))" using to_dec_digits by (fastforce simp: is_digit_def)
    with that show ?thesis by (simp add: server_key_def reachable_endpoint_def)
  qed
  with assms have "split_on (CHR '','') (join_with (CHR '','') (map server_key es)) = map server_key es"
    by (intro split_join) (auto simp: list_all_iff)
  with parse_all_keys [OF assms(2), of "[]"] show ?thesis by (simp add: expect_loop_split)
qed

section \<open>The command line of the server\<close>

definition server_command :: "server_options \<Rightarrow> string list" where
  "server_command opts =
     [''--port'', to_dec (unat (so_port opts)), ''--host'', so_host opts, ''--data'', so_data_dir opts,
      ''--certs'', so_certs_dir opts] @
     (if so_join_host opts = [] then []
      else [''--join'', server_key \<lparr>ep_host = so_join_host opts, ep_port = so_join_port opts\<rparr>]) @
     (if so_expected opts = [] then [] else [''--expect'', join_with (CHR '','') (map server_key (so_expected opts))])"

text \<open>
  Every configuration can be written on the command line: the arguments that
  \<open>server_command\<close> lists for options with real ports are read back as exactly these options, the
  host and port to join and the list of expected servers included.
\<close>

theorem server_args_roundtrip:
  assumes "so_port opts \<noteq> 0" "so_join_host opts = [] \<longleftrightarrow> so_join_port opts = 0"
    and "list_all reachable_endpoint (so_expected opts)"
  shows "server_args (server_command opts) default_server = Run_with opts"
proof -
  have join: "so_join_host opts \<noteq> [] \<Longrightarrow>
      parse_endpoint (server_key \<lparr>ep_host = so_join_host opts, ep_port = so_join_port opts\<rparr>) =
        Some (so_join_host opts, so_join_port opts)"
    using assms(2) by (subst parse_endpoint_key) simp_all
  show ?thesis
    using assms(1,2) join expect_keys [OF _ assms(3)]
    by (cases opts) (auto simp: server_command_def default_server_def port_digits)
qed

theorem server_args_roundtrip_witness:
  "server_args (server_command (default_server\<lparr>so_join_host := ''h'', so_join_port := 4001,
      so_expected := [\<lparr>ep_host = ''a'', ep_port = 1\<rparr>, \<lparr>ep_host = ''::1'', ep_port = 65535\<rparr>]\<rparr>)) default_server =
    Run_with (default_server\<lparr>so_join_host := ''h'', so_join_port := 4001,
      so_expected := [\<lparr>ep_host = ''a'', ep_port = 1\<rparr>, \<lparr>ep_host = ''::1'', ep_port = 65535\<rparr>]\<rparr>)"
  by (rule server_args_roundtrip) (simp_all add: default_server_def reachable_endpoint_def)

end
