(* ===== verification/Startup.thy ===== *)
theory Startup
  imports Options Server
begin

text \<open>
  The start of a server: the constructors of \<open>Server\<close> and \<open>Cluster\<close> and \<open>Server::run\<close> up to its
  accept loop (\<open>server/server.cpp\<close>), and the callback that connects the monitor of the expected
  servers to the clients. \<open>tls\<close> and \<open>listening\<close> say whether \<open>tls_init\<close> and \<open>listen_on\<close>
  succeeded; \<open>syncs\<close> stands for the connections that are attached later.
\<close>

definition data_root :: "server_options \<Rightarrow> string" where
  "data_root opts =
     (if so_data_dir opts = [] then ''server_data_'' @ to_dec (unat (so_port opts)) else so_data_dir opts)"

definition new_cluster :: "string \<Rightarrow> u16 \<Rightarrow> store \<Rightarrow> os \<Rightarrow> 'p cluster" where
  "new_cluster host port st os =
     \<lparr>nd_self = no_server\<lparr>sa_host := host, sa_port := port\<rparr>, nd_members = [], nd_store = st, nd_os = os,
      cl_role = Joining, cl_primary = no_server, cl_primary_known = False, cl_lowest = 0, cl_links = [],
      cl_primary_link = None, cl_last_heard = 0, cl_building = False, cl_coordinator_seen = False,
      cl_electing = False, cl_reassure = [], cl_notified = []\<rparr>"

definition new_server :: "server_options \<Rightarrow> os \<Rightarrow> (conn_id \<Rightarrow> 'q conn) \<Rightarrow> ('p, 'q) server" where
  "new_server opts os syncs =
     \<lparr>sv_cluster = new_cluster (so_host opts) (so_port opts) (new_store (data_root opts)) os,
      sv_sessions = [], sv_syncs = syncs, sv_problems = []\<rparr>"

text \<open>The exit status, or \<open>None\<close> when the server goes on to accept connections.\<close>

definition join_or_start ::
  "(nat \<Rightarrow> string \<Rightarrow> u16 \<Rightarrow> 'r conn option) \<Rightarrow> int \<Rightarrow> server_options \<Rightarrow> ('p, 'q) server \<Rightarrow>
     (protocol_error + nat option) \<times> ('p, 'q) server" where
  "join_or_start dial time opts sv =
     (if so_join_host opts = [] then (Inr None, sv\<lparr>sv_cluster := start_as_primary (sv_cluster sv)\<rparr>)
      else case join_cluster dial time (so_join_host opts) (so_join_port opts) (sv_cluster sv) of
        (Inl e, cl) \<Rightarrow> (Inl e, sv\<lparr>sv_cluster := cl\<rparr>)
      | (Inr joined, cl) \<Rightarrow> (Inr (if joined then None else Some 1), sv\<lparr>sv_cluster := cl\<rparr>))"

definition server_run ::
  "bool \<Rightarrow> bool \<Rightarrow> (nat \<Rightarrow> string \<Rightarrow> u16 \<Rightarrow> 'r conn option) \<Rightarrow> int \<Rightarrow> server_options \<Rightarrow> ('p, 'q) server \<Rightarrow>
     (protocol_error + nat option) \<times> ('p, 'q) server" where
  "server_run tls listening dial time opts sv =
     (if \<not> tls then (Inr (Some 1), sv)
      else case store_init (sv_store sv) (sv_os sv) of
        (False, os) \<Rightarrow> (Inr (Some 1), sv_set_files (sv_store sv) os sv)
      | (True, os) \<Rightarrow>
          (case acc_init (accounts_dir (sv_store sv)) os of
             (False, os) \<Rightarrow> (Inr (Some 1), sv_set_files (sv_store sv) os sv)
           | (True, os) \<Rightarrow>
               let sv = sv_set_files (sv_store sv) os sv in
               if \<not> listening then (Inr (Some 1), sv) else join_or_start dial time opts sv))"

section \<open>The monitor of the expected servers\<close>

fun notify_all :: "string list \<Rightarrow> ('p, 'q) server \<Rightarrow> (protocol_error + unit) \<times> ('p, 'q) server" where
  "notify_all [] sv = (Inr (), sv)"
| "notify_all (notice # notices) sv =
     (case push_notice notice sv of
        (Inl e, sv) \<Rightarrow> (Inl e, sv)
      | (Inr _, sv) \<Rightarrow> notify_all notices sv)"

text \<open>A check of the running server; an exception of the callback ends the program.\<close>

definition health_turn ::
  "dns \<Rightarrow> (endpoint \<Rightarrow> 'r conn option) \<Rightarrow> monitor \<times> ('p, 'q) server \<Rightarrow>
     (protocol_error + unit) \<times> monitor \<times> ('p, 'q) server" where
  "health_turn dns connect = (\<lambda>(hm, sv).
     case check dns connect (sv_cluster sv) hm of (notices, hm) \<Rightarrow>
     case notify_all notices (sv\<lparr>sv_problems := problems hm\<rparr>) of (r, sv) \<Rightarrow> (r, hm, sv))"

end
