(* ===== verification/Startup_Properties.thy ===== *)
theory Startup_Properties
  imports Startup Server_Properties Health_Properties
begin

text \<open>
  A server that starts on an existing data directory: it keeps every file and account, drops the
  unfinished uploads, and satisfies what the properties of a running server assume.
\<close>

section \<open>The data directory\<close>

definition leftovers_gone :: "string \<Rightarrow> os \<Rightarrow> os \<Rightarrow> bool" where
  "leftovers_gone dir os os' \<longleftrightarrow> wf_os os' \<and> same_env os os' \<and>
     (\<forall>q. file_at os' q = file_at os q \<or> (\<exists>name. q = resolve dir @ [name]) \<and> file_at os' q = None)"

lemma unlink_child:
  assumes "wf_os os" "good_name name" "dir \<noteq> []" "remove_file (join_path dir name) os = (ok, os')"
  shows "leftovers_gone dir os os' \<and> file_at os' (resolve dir @ [name]) = None \<and>
    (\<forall>q. os_node os q = None \<longrightarrow> os_node os' q = None)"
proof -
  have path: "resolve (join_path dir name) = resolve dir @ [name]" "join_path dir name \<noteq> []"
    using assms(2) resolve_join_name join_path_not_Nil [of name dir] by (auto simp: good_name_def)
  obtain e where un: "sys_unlink (join_path dir name) os = (e, os')" "ok = (e = None)"
    using assms(4) by (auto simp: remove_file_def split: prod.splits)
  have env: "same_env os os'" using un(1) same_env_calls by (metis snd_conv)
  show ?thesis
  proof (cases e)
    case None
    with un(1) sys_unlink_ok [OF assms(1), of "join_path dir name" os'] env path show ?thesis
      by (auto simp: leftovers_gone_def file_at_def)
  next
    case (Some err)
    then have "os' = os" "file_at os (resolve dir @ [name]) = None"
      using un(1) path by (auto simp: sys_unlink_def file_at_def Let_def split: if_splits)
    with assms(1) env show ?thesis by (simp add: leftovers_gone_def)
  qed
qed

lemma leftovers_gone_trans:
  "leftovers_gone dir a b \<Longrightarrow> leftovers_gone dir b c \<Longrightarrow> leftovers_gone dir a c"
  unfolding leftovers_gone_def using same_env_trans by metis

lemma remove_leftovers_gone:
  assumes "wf_os os" "dir \<noteq> []" "\<forall>name \<in> set names. name = ''.'' \<or> name = ''..'' \<or> good_name name"
  shows "leftovers_gone dir os (remove_leftovers dir names os) \<and>
    (\<forall>name \<in> set names. good_name name \<longrightarrow> file_at (remove_leftovers dir names os) (resolve dir @ [name]) = None)"
  using assms
proof (induction names arbitrary: os)
  case (Cons name names)
  let ?os = "if name \<noteq> ''.'' \<and> name \<noteq> ''..'' then snd (remove_file (join_path dir name) os) else os"
  have first: "leftovers_gone dir os ?os \<and> (good_name name \<longrightarrow> file_at ?os (resolve dir @ [name]) = None)"
  proof (cases "good_name name")
    case True
    with unlink_child [OF Cons.prems(1) True Cons.prems(2)] show ?thesis
      by (cases "remove_file (join_path dir name) os") (auto simp: good_name_def)
  qed (use Cons.prems(1,3) in \<open>auto simp: leftovers_gone_def\<close>)
  then have "wf_os ?os" by (simp add: leftovers_gone_def)
  from Cons.IH [OF this Cons.prems(2)] Cons.prems(3)
  have rest: "leftovers_gone dir ?os (remove_leftovers dir names ?os)"
    "\<forall>name \<in> set names. good_name name \<longrightarrow> file_at (remove_leftovers dir names ?os) (resolve dir @ [name]) = None"
    by simp_all
  then have "file_at (remove_leftovers dir names ?os) (resolve dir @ [name]) = None" if "good_name name"
    using first that unfolding leftovers_gone_def by metis
  with first rest leftovers_gone_trans [OF _ rest(1)] show ?case by simp
qed (simp add: leftovers_gone_def)

lemma children_good: "wf_os os \<Longrightarrow> name \<in> set (children os p) \<Longrightarrow> good_name name"
  using wf_os_entry [of os "p @ [name]"] children_iff [of os name p] by (auto simp: wf_entry_def)

lemma store_init_effect:
  assumes "wf_os os" "store_init st os = (True, os')"
  shows "leftovers_gone (tmp_dir st) os os' \<and> (\<forall>name. file_at os' (resolve (tmp_dir st) @ [name]) = None)"
proof -
  obtain ok1 os1 where m1: "make_dirs (users_dir st) os = (ok1, os1)" by fastforce
  with assms(2) have 1: "make_dirs (users_dir st) os = (True, os1)" by (cases ok1) (simp_all add: store_init_def)
  obtain ok2 os2 where m2: "make_dirs (tmp_dir st) os1 = (ok2, os2)" by fastforce
  with assms(2) 1 have 2: "make_dirs (tmp_dir st) os1 = (True, os2)" by (cases ok2) (simp_all add: store_init_def)
  have a1: "adds_dirs os os1" by (rule make_dirs_adds [OF assms(1) 1])
  then have wf1: "wf_os os1" by (simp add: adds_dirs_def)
  have a2: "adds_dirs os1 os2" by (rule make_dirs_adds [OF wf1 2])
  then have wf2: "wf_os os2" by (simp add: adds_dirs_def)
  have same: "file_at os2 = file_at os" "same_env os os2"
    using adds_dirs_files [OF a1] adds_dirs_files [OF a2] a1 a2 same_env_trans [of os os1 os2] by (simp_all add: adds_dirs_def)
  let ?names = "''.'' # ''..'' # children os2 (resolve (tmp_dir st))"
  have "sys_readdir (tmp_dir st) os2 = Some ?names"
    using make_dirs_True [OF 2] paths_not_Nil by (simp add: sys_readdir_def sys_is_dir_def)
  with assms(2) 1 2 have os': "os' = remove_leftovers (tmp_dir st) ?names os2" by (simp add: store_init_def)
  have dir: "tmp_dir st \<noteq> []" using paths_not_Nil by simp
  have "\<forall>name \<in> set ?names. name = ''.'' \<or> name = ''..'' \<or> good_name name" using children_good [OF wf2] by auto
  from remove_leftovers_gone [OF wf2 dir this, folded os']
  have gone: "leftovers_gone (tmp_dir st) os2 os'"
    "\<forall>name \<in> set ?names. good_name name \<longrightarrow> file_at os' (resolve (tmp_dir st) @ [name]) = None"
    by simp_all
  have "file_at os' (resolve (tmp_dir st) @ [name]) = None" for name
  proof (cases "file_at os2 (resolve (tmp_dir st) @ [name])")
    case None
    with gone(1) show ?thesis unfolding leftovers_gone_def by metis
  next
    case (Some v)
    then have "name \<in> set (children os2 (resolve (tmp_dir st)))"
      using children_iff [OF wf2] by (cases v) (auto simp: file_at_Some)
    with gone(2) children_good [OF wf2] show ?thesis by auto
  qed
  moreover have "leftovers_gone (tmp_dir st) os os'"
    using gone(1) same(1) same_env_trans [OF same(2)] by (simp add: leftovers_gone_def)
  ultimately show ?thesis by blast
qed

lemma leftovers_keep_files:
  assumes "leftovers_gone (tmp_dir st) os os'"
  shows "user_files st os' = user_files st os" "accounts_of (accounts_dir st) os' = accounts_of (accounts_dir st) os"
proof -
  have "file_node st u p \<noteq> resolve (tmp_dir st) @ [name]" for u p name by (simp add: file_node_def user_base_def)
  then have "file_at os' (file_node st u p) = file_at os (file_node st u p)" for u p
    using assms unfolding leftovers_gone_def by metis
  then show "user_files st os' = user_files st os" by (intro user_files_frame)
  have "resolve (accounts_dir st) @ [u] \<noteq> resolve (tmp_dir st) @ [name]" for u name by simp
  then have "file_at os' (resolve (accounts_dir st) @ [u]) = file_at os (resolve (accounts_dir st) @ [u])" for u
    using assms unfolding leftovers_gone_def by metis
  then show "accounts_of (accounts_dir st) os' = accounts_of (accounts_dir st) os"
    by (intro accounts_of_cong) simp_all
qed

section \<open>Properties\<close>

text \<open>
  C23. A server that starts without \<open>--join\<close> and goes on to its accept loop is the primary of a
  cluster of its own with the first id, satisfies the invariants of a running server, and has
  lost nothing: every user has exactly the files and the account that the data directory held,
  and no unfinished upload is left.
\<close>

theorem restart_keeps_data:
  assumes "wf_os os" "cut_at os = None" "so_join_host opts = []" "str_ok (so_host opts)"
    and "server_run tls listening dial time opts (new_server opts os syncs) = (Inr None, sv)"
  shows "serving (sv :: (('a node_scheme \<times> link_phase), 'q) server) \<and> ids_ok (sv_cluster sv) \<and>
    is_primary (sv_cluster sv) \<and> map sa_id (nd_members (sv_cluster sv)) = [FIRST_ID] \<and>
    user_files (sv_store sv) (sv_os sv) = user_files (new_store (data_root opts)) os \<and>
    accounts_of (accounts_dir (sv_store sv)) (sv_os sv) = accounts_of (accounts_dir (new_store (data_root opts))) os \<and>
    (\<forall>name. file_at (sv_os sv) (resolve (tmp_dir (sv_store sv)) @ [name]) = None)"
proof -
  let ?st = "new_store (data_root opts)"
  let ?sv = "new_server opts os syncs :: (('a node_scheme \<times> link_phase), 'q) server"
  obtain ok1 os1 where m1: "store_init ?st os = (ok1, os1)" by fastforce
  obtain ok2 os2 where m2: "acc_init (accounts_dir ?st) os1 = (ok2, os2)" by fastforce
  have init: "sv_store ?sv = ?st" "sv_os ?sv = os" by (simp_all add: new_server_def new_cluster_def)
  have ok: "ok1" "ok2" and sv: "sv = sv_set_files ?st os2 ?sv\<lparr>sv_cluster := start_as_primary (sv_cluster (sv_set_files ?st os2 ?sv))\<rparr>"
    using assms(3,5) m1 m2 init
    by (cases ok1; cases ok2; simp add: server_run_def join_or_start_def Let_def split: if_splits)+
  note e1 = store_init_effect [OF assms(1) m1 [unfolded eqTrueI [OF ok(1)]]]
  have a2: "adds_dirs os1 os2"
    using e1 m2 make_dirs_adds [of os1] by (auto simp: acc_init_def leftovers_gone_def)
  have files: "file_at os2 = file_at os1" and wf: "wf_os os2" and env: "cut_at os2 = None"
    using adds_dirs_files [OF a2] a2 e1 assms(2) by (auto simp: adds_dirs_def leftovers_gone_def same_env_def)
  have new: "sv_os sv = os2" "sv_store sv = ?st" "cl_links (sv_cluster sv) = []"
    by (simp_all add: sv sv_set_files_def start_as_primary_def new_server_def new_cluster_def Let_def)
  have "leftovers_gone (tmp_dir ?st) os os2" using e1 wf a2 same_env_trans by (auto simp: leftovers_gone_def files adds_dirs_def)
  note kept = leftovers_keep_files [OF this]
  have "servers_ok (nd_members (sv_cluster sv))" "map sa_id (nd_members (sv_cluster sv)) = [FIRST_ID]" "is_primary (sv_cluster sv)"
    using assms(4) by (simp_all add: sv sv_set_files_def start_as_primary_def new_server_def new_cluster_def Let_def
        servers_ok_def is_primary_def no_server_def)
  moreover have "ids_ok (sv_cluster sv)" by (simp add: sv start_ids)
  ultimately show ?thesis
    using kept e1 wf env
    by (simp add: serving_def new files store_ok_new keyed_def links_all_def)
qed

definition old_data :: os where
  "old_data =
     \<lparr>tree = [([''r''], N_dir), ([''r'', ''tmp''], N_dir), ([''r'', ''tmp'', ''.sisop_tmp_1''], N_file ''half'' 2),
        ([''r'', ''users''], N_dir), ([''r'', ''users'', ''u''], N_dir), ([''r'', ''users'', ''u'', ''f''], N_file ''x'' 3)],
      file_limit = None, cut_at = None, now = 0, rnd = \<lambda>_. 0, rnd_pos = 0\<rparr>"

definition old_options :: server_options where
  "old_options = default_server\<lparr>so_data_dir := ''r''\<rparr>"

definition no_dial :: "nat \<Rightarrow> string \<Rightarrow> u16 \<Rightarrow> unit conn option" where
  "no_dial = (\<lambda>_ _ _. None)"

definition started :: "(protocol_error + nat option) \<times> ((node \<times> link_phase), unit) server" where
  "started = server_run True True no_dial 0 old_options (new_server old_options old_data (\<lambda>_. client_conn []))"

theorem restart_keeps_data_witness:
  "serving (snd started) \<and> ids_ok (sv_cluster (snd started)) \<and>
    is_primary (sv_cluster (snd started)) \<and> map sa_id (nd_members (sv_cluster (snd started))) = [FIRST_ID] \<and>
    user_files (sv_store (snd started)) (sv_os (snd started)) = user_files (new_store (data_root old_options)) old_data \<and>
    accounts_of (accounts_dir (sv_store (snd started))) (sv_os (snd started)) =
      accounts_of (accounts_dir (new_store (data_root old_options))) old_data \<and>
    (\<forall>name. file_at (sv_os (snd started)) (resolve (tmp_dir (sv_store (snd started))) @ [name]) = None)"
proof (rule restart_keeps_data)
  show "wf_os old_data" "cut_at old_data = None" "so_join_host old_options = []" "str_ok (so_host old_options)" by code_simp+
  have "fst started = Inr None" by code_simp
  then show "server_run True True no_dial 0 old_options (new_server old_options old_data (\<lambda>_. client_conn [])) = (Inr None, snd started)"
    by (simp add: started_def prod_eq_iff)
qed

section \<open>Notices\<close>

text \<open>
  A notice that does not fit a string of the protocol makes the callback throw, which ends the
  thread of the monitor, and with it the program: \<open>check\<close> only catches exceptions of \<open>probe\<close>. The
  text of a split contains the host name that the other server has sent, of up to 65535 bytes.
\<close>

lemma long_notice_throws:
  "is_primary (sv_cluster sv) \<Longrightarrow> 0xFFFF < length notice \<Longrightarrow> \<exists>e. fst (notify_all (notice # notices) sv) = Inl e"
  using w_str_too_long [of notice "[]"] by (auto simp: push_notice_def)

lemma split_notice_length:
  assumes "status_verdict dns ours server (role, known, theirs) = (H_Split, detail)"
  shows "length (sa_host theirs) < length detail"
  using assms by (auto simp: status_verdict_def split: if_splits)

lemma split_host_ends_program:
  assumes "status_verdict dns ours server (role, known, theirs) = (H_Split, detail)" "0xFFFF \<le> length (sa_host theirs)"
    and "is_primary (sv_cluster sv)" "state_of (server_key server) hm \<noteq> H_Split"
  shows "\<exists>e. fst (notify_all (fst (note_state server (H_Split, detail) hm)) sv) = Inl e"
proof -
  have "0xFFFF < length (''warning: '' @ detail)" using split_notice_length [OF assms(1)] assms(2) by simp
  from long_notice_throws [OF assms(3) this, of "[]"] assms(4) show ?thesis
    by (simp add: note_state_def Let_def)
qed

end
