(* ===== verification/Network.thy ===== *)
theory Network
  imports Files
begin

text \<open>
  \<open>common/net.cpp\<close>, \<open>common/tls.cpp\<close> and the ends of a \<open>Connection\<close>: how sockets and TLS sessions are
  opened, accepted and given back. The kernel and OpenSSL are a parameter, a record of what
  each call does to a state of type \<open>'k\<close>; the process keeps the descriptors and the TLS objects
  that it has open. A loop that the peer or the kernel may keep going is \<^term>\<open>None\<close> where it does
  not end. \<open>SSL_new\<close> is taken to succeed.
\<close>

section \<open>TLS contexts\<close>

record tls_config =
  tc_ca :: string
  tc_cert :: string
  tc_key :: string

record tls_ctx =
  cx_ca :: string
  cx_cert :: string
  cx_key :: string
  cx_min_version :: nat
  cx_partial_writes :: bool
  cx_verify :: bool
  cx_ca_names :: bool
  cx_tickets :: nat

definition new_ctx :: tls_ctx where
  "new_ctx = \<lparr>cx_ca = [], cx_cert = [], cx_key = [], cx_min_version = 0, cx_partial_writes = False,
     cx_verify = False, cx_ca_names = False, cx_tickets = 2\<rparr>"

text \<open>What OpenSSL does with the files; \<open>last_error\<close> is the text of \<open>tls_error\<close>.\<close>

record ssl_lib =
  ctx_new :: "bool \<Rightarrow> bool"
  load_ca :: "string \<Rightarrow> bool"
  use_cert :: "string \<Rightarrow> bool"
  use_key :: "string \<Rightarrow> bool"
  check_key :: "string \<Rightarrow> string \<Rightarrow> bool"
  load_ca_names :: "string \<Rightarrow> bool"
  last_error :: string

definition configure_common :: "ssl_lib \<Rightarrow> tls_config \<Rightarrow> tls_ctx \<Rightarrow> string + tls_ctx" where
  "configure_common lib config ctx =
     (let ctx = ctx\<lparr>cx_min_version := 0x303, cx_partial_writes := True\<rparr> in
      if \<not> load_ca lib (tc_ca config) then
        Inl (''cannot read the CA certificate '' @ tc_ca config @ '': '' @ last_error lib)
      else let ctx = ctx\<lparr>cx_ca := tc_ca config\<rparr> in
        if tc_cert config = [] then Inr ctx
        else if \<not> use_cert lib (tc_cert config) \<or> \<not> use_key lib (tc_key config) \<or>
            \<not> check_key lib (tc_cert config) (tc_key config) then
          Inl (''cannot load the certificate '' @ tc_cert config @ '' and key '' @ tc_key config @ '': '' @ last_error lib)
        else Inr (ctx\<lparr>cx_cert := tc_cert config, cx_key := tc_key config\<rparr>))"

text \<open>
  The contexts for the connections that are opened and accepted, or the error: both programs
  end then. There is no error text when a context cannot be created.
\<close>

definition make_ctx :: "ssl_lib \<Rightarrow> tls_config \<Rightarrow> bool \<Rightarrow> string + tls_ctx" where
  "make_ctx lib config accepting = (if \<not> ctx_new lib accepting then Inl [] else configure_common lib config new_ctx)"

definition tls_init :: "ssl_lib \<Rightarrow> tls_config \<Rightarrow> string + tls_ctx \<times> tls_ctx option" where
  "tls_init lib config =
     (case make_ctx lib config False of
        Inl e \<Rightarrow> Inl e
      | Inr client \<Rightarrow>
          let client = client\<lparr>cx_verify := True\<rparr> in
          if tc_cert config = [] then Inr (client, None)
          else case make_ctx lib config True of
            Inl e \<Rightarrow> Inl e
          | Inr server \<Rightarrow>
              Inr (client, Some (server\<lparr>cx_verify := True, cx_ca_names := load_ca_names lib (tc_ca config), cx_tickets := 0\<rparr>)))"

definition server_tls :: "string \<Rightarrow> tls_config" where
  "server_tls certs_dir = \<lparr>tc_ca = join_path certs_dir ''ca.pem'', tc_cert = join_path certs_dir ''server.pem'',
     tc_key = join_path certs_dir ''server.key''\<rparr>"

definition client_tls :: "string \<Rightarrow> tls_config" where
  "client_tls ca_file = \<lparr>tc_ca = ca_file, tc_cert = [], tc_key = []\<rparr>"

section \<open>The process and the calls\<close>

type_synonym ipv4 = "u32 \<times> u16"

text \<open>A TLS object: its context, its socket and the name that the peer's certificate must list.\<close>

record ssl =
  ss_ctx :: tls_ctx
  ss_fd :: int
  ss_ip :: "string option"
  ss_host :: "string option"
  ss_sni :: "string option"

record 'k process =
  pr_kernel :: 'k
  pr_fds :: "int list"
  pr_ssls :: "ssl list"

datatype connect_status = Connect_done | Connect_pending | Connect_failed
datatype accept_error = E_INTR | E_CONNABORTED | E_PROTO | E_other int
datatype accept_status = Accepted int ipv4 | Not_accepted accept_error
datatype ssl_status = Ssl_done | Ssl_wants bool | Ssl_failed \<comment> \<open>\<open>Ssl_wants writing\<close>\<close>

text \<open>
  \<open>sk_poll fd writing timeout\<close> gives the number of ready sockets; \<open>sk_clock\<close> is the steady clock in
  milliseconds. \<open>sk_certificate\<close> says whether the peer presented a certificate and \<open>sk_verified\<close>
  whether the verification gave \<open>X509_V_OK\<close>.
\<close>

record 'k net_calls =
  sk_lookup :: "string \<Rightarrow> string \<Rightarrow> 'k \<Rightarrow> ipv4 list option \<times> 'k"
  sk_socket :: "'k \<Rightarrow> int \<times> 'k"
  sk_connect :: "int \<Rightarrow> ipv4 \<Rightarrow> 'k \<Rightarrow> connect_status \<times> 'k"
  sk_bind :: "int \<Rightarrow> u16 \<Rightarrow> 'k \<Rightarrow> bool \<times> 'k"
  sk_listen :: "int \<Rightarrow> 'k \<Rightarrow> bool \<times> 'k"
  sk_accept :: "int \<Rightarrow> 'k \<Rightarrow> accept_status \<times> 'k"
  sk_poll :: "int \<Rightarrow> bool \<Rightarrow> int \<Rightarrow> 'k \<Rightarrow> int \<times> 'k"
  sk_error :: "int \<Rightarrow> 'k \<Rightarrow> int"
  sk_clock :: "'k \<Rightarrow> int"
  sk_handshake :: "bool \<Rightarrow> ssl \<Rightarrow> 'k \<Rightarrow> ssl_status \<times> 'k"
  sk_certificate :: "ssl \<Rightarrow> 'k \<Rightarrow> bool"
  sk_verified :: "ssl \<Rightarrow> 'k \<Rightarrow> bool"

definition open_fd :: "int \<Rightarrow> 'k process \<Rightarrow> 'k process" where
  "open_fd fd pr = pr\<lparr>pr_fds := fd # pr_fds pr\<rparr>"

definition close_fd :: "int \<Rightarrow> 'k process \<Rightarrow> 'k process" where
  "close_fd fd pr = pr\<lparr>pr_fds := remove1 fd (pr_fds pr)\<rparr>"

definition ssl_new :: "ssl \<Rightarrow> 'k process \<Rightarrow> 'k process" where
  "ssl_new s pr = pr\<lparr>pr_ssls := s # pr_ssls pr\<rparr>"

definition ssl_free :: "ssl \<Rightarrow> 'k process \<Rightarrow> 'k process" where
  "ssl_free s pr = pr\<lparr>pr_ssls := remove1 s (pr_ssls pr)\<rparr>"

section \<open>Names\<close>

definition octets :: "u32 \<Rightarrow> nat list" where
  "octets ip = [unat (drop_bit 24 ip), unat (drop_bit 16 ip) mod 256, unat (drop_bit 8 ip) mod 256, unat ip mod 256]"

definition peer_name :: "ipv4 \<Rightarrow> string" where
  "peer_name a = join_with (CHR ''.'') (map to_dec (octets (fst a))) @ CHR '':'' # to_dec (unat (snd a))"

text \<open>A C string ends at the first zero. \<open>inet_pton\<close> takes four numbers up to 255 without leading zeros.\<close>

definition c_str :: "string \<Rightarrow> string" where
  "c_str s = takeWhile (\<lambda>ch. ch \<noteq> CHR 0x00) s"

definition is_octet :: "string \<Rightarrow> bool" where
  "is_octet s \<longleftrightarrow> s \<noteq> [] \<and> list_all is_digit s \<and> (length s > 1 \<longrightarrow> hd s \<noteq> CHR ''0'') \<and> dec_value s \<le> 255"

definition is_ipv4 :: "string \<Rightarrow> bool" where
  "is_ipv4 host \<longleftrightarrow> (let parts = split_on (CHR ''.'') (c_str host) in length parts = 4 \<and> list_all is_octet parts)"

section \<open>Connections\<close>

record net_conn =
  nc_fd :: int
  nc_ssl :: ssl
  nc_peer :: string
  nc_is_server :: bool

definition connection_close :: "net_conn \<Rightarrow> 'k process \<Rightarrow> 'k process" where
  "connection_close c pr = close_fd (nc_fd c) (ssl_free (nc_ssl c) pr)"

definition connect_with_timeout :: "'k net_calls \<Rightarrow> ipv4 \<Rightarrow> int \<Rightarrow> 'k process \<Rightarrow> int \<times> 'k process" where
  "connect_with_timeout calls addr timeout pr =
     (case sk_socket calls (pr_kernel pr) of (fd, k) \<Rightarrow>
      if fd < 0 then (- 1, pr\<lparr>pr_kernel := k\<rparr>)
      else
        let pr = open_fd fd pr in
        case sk_connect calls fd addr k of (status, k) \<Rightarrow>
        case (case status of
                Connect_done \<Rightarrow> (True, k)
              | Connect_failed \<Rightarrow> (False, k)
              | Connect_pending \<Rightarrow>
                  (case sk_poll calls fd True timeout k of (n, k) \<Rightarrow> (n = 1 \<and> sk_error calls fd k = 0, k))) of
          (ok, k) \<Rightarrow>
            let pr = pr\<lparr>pr_kernel := k\<rparr> in
            if \<not> ok then (- 1, close_fd fd pr) else (fd, pr))"

fun connect_any :: "'k net_calls \<Rightarrow> ipv4 list \<Rightarrow> int \<Rightarrow> 'k process \<Rightarrow> int \<times> 'k process" where
  "connect_any calls [] timeout pr = (- 1, pr)"
| "connect_any calls (a # as) timeout pr =
     (case connect_with_timeout calls a timeout pr of
        (fd, pr) \<Rightarrow> if fd < 0 then connect_any calls as timeout pr else (fd, pr))"

text \<open>\<open>handshake\<close>: whether \<open>SSL_connect\<close> or \<open>SSL_accept\<close> succeeds before the deadline.\<close>

partial_function (option) handshake_loop ::
  "'k net_calls \<Rightarrow> ssl \<Rightarrow> bool \<Rightarrow> int \<Rightarrow> 'k \<Rightarrow> (bool \<times> 'k) option" where
  "handshake_loop calls ssl is_client deadline k =
     (case sk_handshake calls is_client ssl k of (status, k) \<Rightarrow>
      (case status of
         Ssl_done \<Rightarrow> Some (True, k)
       | Ssl_failed \<Rightarrow> Some (False, k)
       | Ssl_wants writing \<Rightarrow>
           (let left = deadline - sk_clock calls k in
            if left \<le> 0 then Some (False, k)
            else case sk_poll calls (ss_fd ssl) writing left k of
              (n, k) \<Rightarrow> if n \<le> 0 then Some (False, k) else handshake_loop calls ssl is_client deadline k)))"

definition handshake :: "'k net_calls \<Rightarrow> ssl \<Rightarrow> bool \<Rightarrow> int \<Rightarrow> 'k process \<Rightarrow> (bool \<times> 'k process) option" where
  "handshake calls ssl is_client timeout pr =
     map_option (\<lambda>(ok, k). (ok, pr\<lparr>pr_kernel := k\<rparr>))
       (handshake_loop calls ssl is_client (sk_clock calls (pr_kernel pr) + timeout) (pr_kernel pr))"

definition host_ssl :: "tls_ctx \<Rightarrow> int \<Rightarrow> string \<Rightarrow> ssl" where
  "host_ssl ctx fd host =
     (if is_ipv4 host
      then \<lparr>ss_ctx = ctx, ss_fd = fd, ss_ip = Some (c_str host), ss_host = None, ss_sni = None\<rparr>
      else \<lparr>ss_ctx = ctx, ss_fd = fd, ss_ip = None, ss_host = Some (c_str host), ss_sni = Some (c_str host)\<rparr>)"

definition connect_to ::
  "'k net_calls \<Rightarrow> tls_ctx \<Rightarrow> string \<Rightarrow> u16 \<Rightarrow> int \<Rightarrow> 'k process \<Rightarrow> (net_conn option \<times> 'k process) option" where
  "connect_to calls ctx host port timeout pr =
     (let service = to_dec (unat port) in
      case sk_lookup calls (c_str host) service (pr_kernel pr) of (results, k) \<Rightarrow>
      let pr = pr\<lparr>pr_kernel := k\<rparr> in
      case results of
        None \<Rightarrow> Some (None, pr)
      | Some addresses \<Rightarrow>
          (case connect_any calls addresses timeout pr of (fd, pr) \<Rightarrow>
           if fd < 0 then Some (None, pr)
           else
             let s = host_ssl ctx fd host; pr = ssl_new s pr in
             case handshake calls s True (timeout + 5000) pr of
               None \<Rightarrow> None
             | Some (False, pr) \<Rightarrow> Some (None, close_fd fd (ssl_free s pr))
             | Some (True, pr) \<Rightarrow>
                 Some (Some \<lparr>nc_fd = fd, nc_ssl = s, nc_peer = host @ CHR '':'' # service, nc_is_server = True\<rparr>, pr)))"

section \<open>Accepting\<close>

definition listen_on :: "'k net_calls \<Rightarrow> u16 \<Rightarrow> 'k process \<Rightarrow> int \<times> 'k process" where
  "listen_on calls port pr =
     (case sk_socket calls (pr_kernel pr) of (fd, k) \<Rightarrow>
      if fd < 0 then (- 1, pr\<lparr>pr_kernel := k\<rparr>)
      else
        let pr = open_fd fd pr in
        case sk_bind calls fd port k of (bound, k) \<Rightarrow>
        case (if bound then sk_listen calls fd k else (False, k)) of (ok, k) \<Rightarrow>
          let pr = pr\<lparr>pr_kernel := k\<rparr> in
          if \<not> ok then (- 1, close_fd fd pr) else (fd, pr))"

text \<open>The descriptor, or -1, and the name of the peer.\<close>

partial_function (option) accept_loop :: "'k net_calls \<Rightarrow> int \<Rightarrow> 'k \<Rightarrow> ((int \<times> string) \<times> 'k) option" where
  "accept_loop calls lfd k =
     (case sk_accept calls lfd k of (status, k) \<Rightarrow>
      (case status of
         Accepted fd addr \<Rightarrow> Some ((fd, peer_name addr), k)
       | Not_accepted e \<Rightarrow>
           if e = E_INTR \<or> e = E_CONNABORTED \<or> e = E_PROTO then accept_loop calls lfd k
           else Some ((- 1, []), k)))"

definition accept_socket :: "'k net_calls \<Rightarrow> int \<Rightarrow> 'k process \<Rightarrow> ((int \<times> string) \<times> 'k process) option" where
  "accept_socket calls lfd pr =
     map_option (\<lambda>((fd, peer), k). ((fd, peer), if fd < 0 then pr\<lparr>pr_kernel := k\<rparr> else open_fd fd (pr\<lparr>pr_kernel := k\<rparr>)))
       (accept_loop calls lfd (pr_kernel pr))"

definition tls_accept ::
  "'k net_calls \<Rightarrow> tls_ctx \<Rightarrow> int \<Rightarrow> string \<Rightarrow> int \<Rightarrow> 'k process \<Rightarrow> (net_conn option \<times> 'k process) option" where
  "tls_accept calls ctx fd peer timeout pr =
     (let s = \<lparr>ss_ctx = ctx, ss_fd = fd, ss_ip = None, ss_host = None, ss_sni = None\<rparr>; pr = ssl_new s pr in
      case handshake calls s False timeout pr of
        None \<Rightarrow> None
      | Some (False, pr) \<Rightarrow> Some (None, close_fd fd (ssl_free s pr))
      | Some (True, pr) \<Rightarrow>
          let is_server = (sk_certificate calls s (pr_kernel pr) \<and> sk_verified calls s (pr_kernel pr)) in
          Some (Some \<lparr>nc_fd = fd, nc_ssl = s, nc_peer = peer, nc_is_server = is_server\<rparr>, pr))"

definition HANDSHAKE_TIMEOUT_MS :: int where "HANDSHAKE_TIMEOUT_MS = 10000"

text \<open>
  One turn of the accept loop of \<open>Server::run\<close> with the thread that it starts, from the accepted
  socket to the end of \<open>handle_connection\<close>, where the last reference to the connection goes away;
  \<open>handle\<close> is what \<open>handle_connection\<close> does with it. \<^term>\<open>False\<close>: the loop ends.
\<close>

definition accept_turn ::
  "'k net_calls \<Rightarrow> tls_ctx \<Rightarrow> (net_conn \<Rightarrow> 'k process \<Rightarrow> 'k process) \<Rightarrow> int \<Rightarrow> 'k process \<Rightarrow> (bool \<times> 'k process) option" where
  "accept_turn calls ctx handle lfd pr =
     (case accept_socket calls lfd pr of
        None \<Rightarrow> None
      | Some ((fd, peer), pr) \<Rightarrow>
          if fd < 0 then Some (False, pr)
          else case tls_accept calls ctx fd peer HANDSHAKE_TIMEOUT_MS pr of
            None \<Rightarrow> None
          | Some (None, pr) \<Rightarrow> Some (True, pr)
          | Some (Some c, pr) \<Rightarrow> Some (True, connection_close c (handle c pr)))"

end
