(* ===== verification/Network_Properties.thy ===== *)
theory Network_Properties
  imports Network
begin

text \<open>
  What the sockets promise: a connection owns exactly its descriptor and its TLS object, a failed
  attempt leaves nothing open, and every connection verifies the certificate of its peer.
\<close>

section \<open>The contexts\<close>

lemma configure_common_keeps:
  "configure_common lib config ctx = Inr ctx' \<Longrightarrow>
     cx_ca ctx' = tc_ca config \<and> (tc_cert config \<noteq> [] \<longrightarrow> cx_cert ctx' = tc_cert config \<and> cx_key ctx' = tc_key config)"
  by (auto simp: configure_common_def Let_def split: if_splits)

lemma tls_init_verifies:
  assumes "tls_init lib config = Inr (client, server)"
  shows "cx_verify client \<and> cx_ca client = tc_ca config \<and> (server = None \<longleftrightarrow> tc_cert config = []) \<and>
    (\<forall>ctx. server = Some ctx \<longrightarrow> cx_verify ctx \<and> cx_ca ctx = tc_ca config \<and>
       cx_cert ctx = tc_cert config \<and> cx_key ctx = tc_key config)"
  using assms by (auto simp: tls_init_def make_ctx_def Let_def split: sum.splits if_splits dest: configure_common_keeps)

section \<open>The handshake ends\<close>

text \<open>
  A handshake consists of finitely many messages: each time that OpenSSL wants more and the socket
  then is ready, less is left to do.
\<close>

definition makes_progress :: "'k net_calls \<Rightarrow> ('k \<Rightarrow> nat) \<Rightarrow> bool" where
  "makes_progress calls todo \<longleftrightarrow>
     (\<forall>is_client s k writing k1 timeout n k2.
        sk_handshake calls is_client s k = (Ssl_wants writing, k1) \<longrightarrow>
        sk_poll calls (ss_fd s) writing timeout k1 = (n, k2) \<longrightarrow> 0 < n \<longrightarrow> todo k2 < todo k)"

lemma handshake_loop_ends:
  assumes "makes_progress calls todo"
  shows "\<exists>ok k'. handshake_loop calls s is_client deadline k = Some (ok, k') \<and>
    (ok \<longrightarrow> (\<exists>k0. sk_handshake calls is_client s k0 = (Ssl_done, k')))"
proof (induction k rule: measure_induct_rule [where f = todo])
  case (less k)
  obtain status k1 where h: "sk_handshake calls is_client s k = (status, k1)" by fastforce
  show ?case
  proof (cases status)
    case Ssl_done
    with h show ?thesis by (auto simp: handshake_loop.simps [of calls s is_client deadline k])
  next
    case Ssl_failed
    with h show ?thesis by (auto simp: handshake_loop.simps [of calls s is_client deadline k])
  next
    case (Ssl_wants writing)
    obtain n k2 where p: "sk_poll calls (ss_fd s) writing (deadline - sk_clock calls k1) k1 = (n, k2)" by fastforce
    note step = handshake_loop.simps [of calls s is_client deadline k, unfolded h prod.case Ssl_wants ssl_status.case Let_def p]
    show ?thesis
    proof (cases "deadline - sk_clock calls k1 \<le> 0 \<or> n \<le> 0")
      case True
      then show ?thesis unfolding step by auto
    next
      case False
      then have "todo k2 < todo k" using assms h p Ssl_wants unfolding makes_progress_def by (metis not_le)
      from less [OF this] False show ?thesis unfolding step by auto
    qed
  qed
qed

lemma handshake_ends:
  assumes "makes_progress calls todo"
  obtains ok pr' where "handshake calls s is_client timeout pr = Some (ok, pr')"
    "pr_fds pr' = pr_fds pr" "pr_ssls pr' = pr_ssls pr"
    "ok \<Longrightarrow> \<exists>k. sk_handshake calls is_client s k = (Ssl_done, pr_kernel pr')"
  using handshake_loop_ends [OF assms, of s is_client "sk_clock calls (pr_kernel pr) + timeout" "pr_kernel pr"]
  by (fastforce simp: handshake_def)

section \<open>Descriptors\<close>

lemma connect_with_timeout_fds:
  assumes "connect_with_timeout calls a timeout pr = (fd, pr')"
  shows "pr_ssls pr' = pr_ssls pr \<and> pr_fds pr' = (if fd < 0 then pr_fds pr else fd # pr_fds pr)"
  using assms by (auto simp: connect_with_timeout_def Let_def open_fd_def close_fd_def split: prod.splits if_splits)

lemma connect_any_fds:
  "connect_any calls as timeout pr = (fd, pr') \<Longrightarrow>
     pr_ssls pr' = pr_ssls pr \<and> pr_fds pr' = (if fd < 0 then pr_fds pr else fd # pr_fds pr)"
  by (induction calls as timeout pr rule: connect_any.induct)
    (auto split: prod.splits if_splits dest!: connect_with_timeout_fds)

lemma listen_on_fds:
  assumes "listen_on calls port pr = (fd, pr')"
  shows "pr_ssls pr' = pr_ssls pr \<and> pr_fds pr' = (if fd < 0 then pr_fds pr else fd # pr_fds pr)"
  using assms by (auto simp: listen_on_def Let_def open_fd_def close_fd_def split: prod.splits if_splits)

lemma host_ssl_names:
  "ss_ctx (host_ssl ctx fd host) = ctx" "ss_fd (host_ssl ctx fd host) = fd"
  "(if is_ipv4 host then ss_ip (host_ssl ctx fd host) else ss_host (host_ssl ctx fd host)) = Some (c_str host)"
  by (simp_all add: host_ssl_def)


section \<open>Accepted connections\<close>

lemma accept_socket_fds:
  "accept_socket calls lfd pr = Some ((fd, peer), pr') \<Longrightarrow>
     pr_ssls pr' = pr_ssls pr \<and> pr_fds pr' = (if fd < 0 then pr_fds pr else fd # pr_fds pr)"
  by (cases "fd < 0") (auto simp: accept_socket_def open_fd_def)

lemma tls_accept_ends:
  assumes "makes_progress calls todo"
  obtains pr' where "tls_accept calls ctx fd peer timeout pr = Some (None, pr')"
    "pr_fds pr' = remove1 fd (pr_fds pr)" "pr_ssls pr' = pr_ssls pr"
  | c pr' where "tls_accept calls ctx fd peer timeout pr = Some (Some c, pr')"
    "pr_fds pr' = pr_fds pr" "pr_ssls pr' = nc_ssl c # pr_ssls pr" "nc_fd c = fd" "ss_ctx (nc_ssl c) = ctx"
    "nc_is_server c \<longleftrightarrow> sk_certificate calls (nc_ssl c) (pr_kernel pr') \<and> sk_verified calls (nc_ssl c) (pr_kernel pr')"
proof -
  let ?s = "\<lparr>ss_ctx = ctx, ss_fd = fd, ss_ip = None, ss_host = None, ss_sni = None\<rparr>"
  obtain ok pr' where h: "handshake calls ?s False timeout (ssl_new ?s pr) = Some (ok, pr')"
    "pr_fds pr' = pr_fds (ssl_new ?s pr)" "pr_ssls pr' = pr_ssls (ssl_new ?s pr)"
    using handshake_ends [OF assms] by metis
  note unf = tls_accept_def Let_def h(1) option.case prod.case
  show thesis
  proof (cases ok)
    case True
    then have "tls_accept calls ctx fd peer timeout pr = Some (Some \<lparr>nc_fd = fd, nc_ssl = ?s, nc_peer = peer,
        nc_is_server = (sk_certificate calls ?s (pr_kernel pr') \<and> sk_verified calls ?s (pr_kernel pr'))\<rparr>, pr')"
      by (simp add: unf)
    from that(2) [OF this] h(2,3) show thesis by (simp add: ssl_new_def)
  next
    case False
    then have "tls_accept calls ctx fd peer timeout pr = Some (None, close_fd fd (ssl_free ?s pr'))" by (simp add: unf)
    from that(1) [OF this] h(2,3) show thesis by (simp add: ssl_new_def ssl_free_def close_fd_def)
  qed
qed


section \<open>Instances\<close>

text \<open>
  A kernel that resolves every name to two addresses, the first of which refuses; its state
  counts the calls that the handshake still needs.
\<close>

definition sample_calls :: "nat net_calls" where
  "sample_calls =
     \<lparr>sk_lookup = (\<lambda>host service k. (Some [(0x7f000001, 4000), (0x7f000002, 4000)], k)), sk_socket = (\<lambda>k. (5, k)),
      sk_connect = (\<lambda>fd addr k. (if fst addr = 0x7f000001 then Connect_failed else Connect_pending, k)),
      sk_bind = (\<lambda>fd port k. (True, k)), sk_listen = (\<lambda>fd k. (True, k)),
      sk_accept = (\<lambda>fd k. (Accepted 6 (0x7f000001, 4321), k)), sk_poll = (\<lambda>fd writing timeout k. (1, k)),
      sk_error = (\<lambda>fd k. 0), sk_clock = (\<lambda>k. 0),
      sk_handshake = (\<lambda>is_client s k. case k of 0 \<Rightarrow> (Ssl_done, 0) | Suc n \<Rightarrow> (Ssl_wants False, n)),
      sk_certificate = (\<lambda>s k. True), sk_verified = (\<lambda>s k. True)\<rparr>"

definition sample_lib :: ssl_lib where
  "sample_lib = \<lparr>ctx_new = (\<lambda>_. True), load_ca = (\<lambda>_. True), use_cert = (\<lambda>_. True), use_key = (\<lambda>_. True),
     check_key = (\<lambda>_ _. True), load_ca_names = (\<lambda>_. True), last_error = ''unknown TLS error''\<rparr>"

definition sample_process :: "nat process" where
  "sample_process = \<lparr>pr_kernel = 3, pr_fds = [4], pr_ssls = []\<rparr>"

lemma sample_progress: "makes_progress sample_calls id"
  by (auto simp: makes_progress_def sample_calls_def split: nat.splits)

lemma sample_contexts:
  obtains client server where "tls_init sample_lib (server_tls ''certs'') = Inr (client, Some server)"
proof -
  have "\<exists>client server. tls_init sample_lib (server_tls ''certs'') = Inr (client, Some server)"
    by (simp add: tls_init_def make_ctx_def configure_common_def sample_lib_def server_tls_def join_path_def Let_def)
  with that show thesis by blast
qed



end
