(* ===== verification/Log.thy ===== *)
theory Log
  imports SyncBase
begin

text \<open>
  \<open>common/log.hpp\<close> and \<open>common/log.cpp\<close>: the levels, the choice of the least level from the
  environment, and the lines on the error stream. The clock is an argument: \<open>%H:%M:%S\<close> of the
  local time and the milliseconds. A message that is not enabled is never put together.
\<close>

datatype log_level = Log_Debug | Log_Info | Log_Warn | Log_Error

fun level_code :: "log_level \<Rightarrow> nat" where
  "level_code Log_Debug = 0"
| "level_code Log_Info = 1"
| "level_code Log_Warn = 2"
| "level_code Log_Error = 3"

lemma level_code_inj: "level_code a = level_code b \<Longrightarrow> a = b"
  by (cases a; cases b) simp_all

instantiation log_level :: linorder
begin

definition less_eq_log_level :: "log_level \<Rightarrow> log_level \<Rightarrow> bool" where
  "less_eq_log_level a b \<longleftrightarrow> level_code a \<le> level_code b"

definition less_log_level :: "log_level \<Rightarrow> log_level \<Rightarrow> bool" where
  "less_log_level a b \<longleftrightarrow> level_code a < level_code b"

instance
  by standard (auto simp: less_eq_log_level_def less_log_level_def intro: level_code_inj)

end

fun level_name :: "log_level \<Rightarrow> string" where
  "level_name Log_Debug = ''DEBUG''"
| "level_name Log_Info = ''INFO ''"
| "level_name Log_Warn = ''WARN ''"
| "level_name Log_Error = ''ERROR''"

record logger =
  lg_component :: string
  lg_min :: log_level
  lg_lines :: "string list"

definition to_lower :: "char \<Rightarrow> char" where
  "to_lower ch = (if CHR ''A'' \<le> ch \<and> ch \<le> CHR ''Z'' then char_of (of_char ch + 32 :: nat) else ch)"

definition same_ignoring_case :: "string \<Rightarrow> string \<Rightarrow> bool" where
  "same_ignoring_case a b \<longleftrightarrow> map to_lower a = map to_lower b"

definition log_init :: "string \<Rightarrow> log_level \<Rightarrow> string option \<Rightarrow> logger" where
  "log_init component default_level env =
     \<lparr>lg_component = component,
      lg_min = (case env of
        None \<Rightarrow> default_level
      | Some e \<Rightarrow>
          if same_ignoring_case e ''debug'' then Log_Debug
          else if same_ignoring_case e ''info'' then Log_Info
          else if same_ignoring_case e ''warn'' then Log_Warn
          else if same_ignoring_case e ''error'' then Log_Error
          else default_level),
      lg_lines = []\<rparr>"

definition log_enabled :: "log_level \<Rightarrow> logger \<Rightarrow> bool" where
  "log_enabled level lg \<longleftrightarrow> lg_min lg \<le> level"

definition log_line :: "string \<Rightarrow> nat \<Rightarrow> string \<Rightarrow> log_level \<Rightarrow> string \<Rightarrow> string" where
  "log_line clock millis component level message =
     clock @ CHR ''.'' # replicate (3 - length (to_dec millis)) (CHR ''0'') @ to_dec millis @ '' '' @ component @ '' '' @
     level_name level @ '' '' @ message"

definition log_write :: "string \<Rightarrow> nat \<Rightarrow> log_level \<Rightarrow> string \<Rightarrow> logger \<Rightarrow> logger" where
  "log_write clock millis level message lg =
     lg\<lparr>lg_lines := lg_lines lg @ [log_line clock millis (lg_component lg) level message]\<rparr>"

text \<open>The macro \<open>LOG_AT\<close>.\<close>

definition log_at :: "string \<Rightarrow> nat \<Rightarrow> log_level \<Rightarrow> string \<Rightarrow> logger \<Rightarrow> logger" where
  "log_at clock millis level message lg = (if log_enabled level lg then log_write clock millis level message lg else lg)"

lemma log_threshold:
  "lg_lines (log_at clock millis level message lg) =
     lg_lines lg @ (if lg_min lg \<le> level then [log_line clock millis (lg_component lg) level message] else [])"
  by (simp add: log_at_def log_enabled_def log_write_def)

lemma log_errors_always: "log_enabled Log_Error (log_init component default_level env)"
  by (cases "lg_min (log_init component default_level env)") (simp_all add: log_enabled_def less_eq_log_level_def)

end
