(* ===== verification/End_To_End.thy ===== *)
theory End_To_End
  imports Server_Properties Client_Properties
begin

text \<open>
  The client and the server together: the command connection of a client leads to a session of a
  server, whose loop answers the requests. What the client is told is compared with the files
  that the server has.
\<close>

section \<open>A session\<close>

text \<open>
  The turn of the server on a command connection: the loop of \<open>serve_client\<close> (see
  \<open>serve_requests\<close>) until it has read every message that has arrived. \<open>replica_conn\<close> is the
  server's end of the connection.
\<close>

fun serve_pending ::
  "nat \<Rightarrow> string \<Rightarrow> string \<Rightarrow> message list conn \<Rightarrow> ('p, 'q) server \<Rightarrow> bool \<times> message list conn \<times> ('p, 'q) server" where
  "serve_pending 0 user token c sv = (True, c, sv)"
| "serve_pending (Suc n) user token c sv =
     (if inq c = [] then (True, c, sv)
      else case serve_request user token c sv of
        (True, c, sv) \<Rightarrow> serve_pending n user token c sv
      | (False, c, sv) \<Rightarrow> (False, c, sv))"

definition session_respond ::
  "string \<Rightarrow> string \<Rightarrow> ('p, 'q) server \<times> bool \<Rightarrow> message list \<Rightarrow> (('p, 'q) server \<times> bool) \<times> message list" where
  "session_respond user token = (\<lambda>(sv, alive) msgs.
     if \<not> alive then ((sv, False), [])
     else case serve_pending (length msgs) user token (replica_conn msgs) sv of
       (alive, c, sv) \<Rightarrow> ((sv, alive), answers c))"

text \<open>A connection to a session that waits for a request.\<close>

definition in_session :: "string \<Rightarrow> string \<Rightarrow> ('p, 'q) server \<Rightarrow> (('p, 'q) server \<times> bool) conn \<Rightarrow> bool" where
  "in_session user token sv c \<longleftrightarrow>
     peer_state c = (sv, True) \<and> respond c = session_respond user token \<and> live c \<and> outq c = [] \<and> inq c = []"

lemma serve_pending_done: "inq c = [] \<Longrightarrow> serve_pending n user token c sv = (True, c, sv)"
  by (cases n) simp_all

text \<open>One request, with the messages that belong to it, and what is answered.\<close>

lemma session_one:
  assumes c: "in_session user token sv c" and prim: "is_primary (sv_cluster sv)"
    and req: "handle_request user token m (replica_conn ms) sv = (r, c', sv')" and rest: "inq c' = []"
  shows "conn_recv (c\<lparr>outq := m # ms\<rparr>) =
    (case answers c' of
       [] \<Rightarrow> (Recv_Timeout, c\<lparr>peer_state := (sv', r = Inr True), outq := []\<rparr>)
     | a # as \<Rightarrow> (Received a, c\<lparr>peer_state := (sv', r = Inr True), outq := [], inq := as\<rparr>))"
proof -
  have "conn_recv (replica_conn (m # ms)) = (Received m, replica_conn ms)"
    by (simp add: conn_recv_queued)
  then have "serve_request user token (replica_conn (m # ms)) sv = (r = Inr True, c', sv')"
    using prim req by (cases r) (simp_all add: serve_request_def)
  then have "session_respond user token (sv, True) (m # ms) = ((sv', r = Inr True), answers c')"
    by (cases "r = Inr True") (simp_all add: session_respond_def serve_pending_done rest)
  with c show ?thesis by (simp add: conn_recv_def in_session_def live_def split: list.split)
qed

lemma in_session_live: "in_session user token sv c \<Longrightarrow> live c" "in_session user token sv c \<Longrightarrow> outq c = []"
  by (simp_all add: in_session_def)

lemma session_goes_on: "in_session user token sv c \<Longrightarrow> in_session user token sv' (c\<lparr>peer_state := (sv', True), outq := [], inq := []\<rparr>)"
  by (simp add: in_session_def live_def)

section \<open>Uploading\<close>

text \<open>What the client finds when an exchange on its connection is over.\<close>

definition server_after :: "(('p, 'q) server \<times> bool) client \<Rightarrow> ('p, 'q) server option" where
  "server_after cl = map_option (\<lambda>c. fst (peer_state c)) (ct_cmd cl)"

lemma replied_answers:
  assumes "replied ty c" "peer_state c = []"
  obtains m where "answers c = [m]" "mtype m = ty"
  using assms by (cases "outq c") (auto simp: replied_def answers_def split: list.splits)

lemma upload_exchange_session:
  fixes sv :: "(('a node_scheme \<times> link_phase), 'q) server"
  assumes sv: "serving sv" "is_primary (sv_cluster sv)" and valid: "is_valid_username user" "is_valid_path name"
    and c: "in_session user token sv c"
    and here: "path \<noteq> []" "file_at os (resolve path) = Some (bs, t)" "cut_at os = None" "small bs"
    and ex: "upload_exchange path name origin c os = (res, c', os')"
  shows "os' = os \<and> (\<exists>sv'. in_session user token sv' c' \<and> keeps_serving sv sv' \<and>
    (res = Inr (X_Ok ()) \<and> (\<exists>m. sv_files sv' = (sv_files sv)((user, name) \<mapsto> (bs, m))) \<and>
       links_all (backup_has (user, name) (Some bs)) {} (cl_links (sv_cluster sv')) \<or>
     (\<exists>e. res = Inr (X_Rejected e)) \<and> sv_files sv' = sv_files sv))"
proof -
  let ?info = "announced name bs (mtime_of t)"
  let ?m = "\<lparr>mtype = Msg_Upload, payload = enc_u8 origin @ enc_header ?info\<rparr>"
  let ?ms = "map data_msg (file_chunks bs) @ [end_msg]"
  have len: "length name \<le> 4000" using valid_path_length [OF valid(2)] by simp
  have send: "send_file c Msg_Upload (w_u8 origin []) name path os = (Inr (T_Ok, ?info), c\<lparr>outq := ?m # ?ms\<rparr>)"
    using send_file_live [OF in_session_live(1) [OF c] here, of "enc_u8 origin" name Msg_Upload] len in_session_live(2) [OF c]
    by (simp add: announced_def wr_simps MAX_PAYLOAD_def)
  obtain r s sv' where up: "handle_upload user token (payload ?m) (replica_conn ?ms) sv = (r, s, sv')" by (metis prod_cases3)
  have "inq (replica_conn ?ms) = map data_msg (file_chunks bs) @ end_msg # []" by simp
  from handle_upload_durable [OF sv(1) valid here(4) _ _ this, of token origin "mtime_of t"] up
  have d: "r = Inr True" "keeps_serving sv sv'" "inq s = []" "peer_state s = []"
    "replied Msg_Ok s \<and> (\<exists>m. sv_files sv' = (sv_files sv)((user, name) \<mapsto> (bs, m))) \<and>
       links_all (backup_has (user, name) (Some bs)) {} (cl_links (sv_cluster sv')) \<or>
     replied Msg_Error s \<and> sv_files sv' = sv_files sv"
    by auto
  have req: "handle_request user token ?m (replica_conn ?ms) sv = (Inr True, s, sv')"
    using up d(1) by (simp add: handle_request_def)
  obtain ty a where a: "answers s = [a]" "mtype a = ty" "ty = Msg_Ok \<or> ty = Msg_Error" "replied ty s"
    using d(4,5) replied_answers by metis
  from session_one [OF c sv(2) req d(3)] a(1)
  have rc: "conn_recv (c\<lparr>outq := ?m # ?ms\<rparr>) = (Received a, c\<lparr>peer_state := (sv', True), outq := [], inq := []\<rparr>)" by simp
  have "replied Msg_Ok s \<longleftrightarrow> ty = Msg_Ok" "replied Msg_Error s \<longleftrightarrow> ty = Msg_Error"
    using a(4) by (auto simp: replied_def split: list.splits)
  with ex send rc a(2,3) d(2,5) session_goes_on [OF c, of sv'] show ?thesis
    by (auto simp: upload_exchange_def split: if_splits)
qed

text \<open>
  C6. From the client's disk to the server's: a client that uploads a file over a session of a
  running primary gets a definite answer. When it is told that the upload was done, the server
  has the file under the user's name with exactly the bytes of the local file, and so has every
  backup that is still linked; when it is told that it was refused, no file of any user has
  changed. The local files are as before.
\<close>

theorem client_upload_reaches_server:
  fixes sv :: "(('a node_scheme \<times> link_phase), 'q) server"
  assumes "serving sv" "is_primary (sv_cluster sv)" "is_valid_username user" "is_valid_path name"
    and w: "wait_for_connection cl = Some c" and c: "in_session user token sv c"
    and "path \<noteq> []" "file_at (ct_os cl) (resolve path) = Some (bs, t)" "cut_at (ct_os cl) = None" "small bs"
  shows "case upload path name origin cl of (res, cl') \<Rightarrow>
    ct_os cl' = ct_os cl \<and> (\<exists>sv'. server_after cl' = Some sv' \<and> store_ok (sv_store sv', sv_os sv') \<and>
    (res = X_Ok () \<and> (\<exists>m. sv_files sv' = (sv_files sv)((user, name) \<mapsto> (bs, m))) \<and>
       links_all (backup_has (user, name) (Some bs)) {} (cl_links (sv_cluster sv')) \<or>
     (\<exists>e. res = X_Rejected e) \<and> sv_files sv' = sv_files sv))"
proof -
  obtain res c' os' where ex: "upload_exchange path name origin c (ct_os cl) = (res, c', os')" by (metis prod_cases3)
  from upload_exchange_session [OF assms(1-4) c assms(7-10) ex]
  obtain sv' where "os' = ct_os cl" "in_session user token sv' c'" "keeps_serving sv sv'"
    "res = Inr (X_Ok ()) \<and> (\<exists>m. sv_files sv' = (sv_files sv)((user, name) \<mapsto> (bs, m))) \<and>
       links_all (backup_has (user, name) (Some bs)) {} (cl_links (sv_cluster sv')) \<or>
     (\<exists>e. res = Inr (X_Rejected e)) \<and> sv_files sv' = sv_files sv" by blast
  then show ?thesis
    by (auto simp: upload_def transact_def w ex server_after_def Let_def in_session_def keeps_serving_def serving_def)
qed

section \<open>Downloading\<close>

lemma download_served:
  assumes valid: "is_valid_username user" "is_valid_path name" and cut: "cut_at (sv_os sv) = None"
    and small: "\<And>v. sv_files sv (user, name) = Some v \<Longrightarrow> small (fst v)"
  shows "\<exists>c. handle_download user (enc_str name) (replica_conn []) sv = (Inr True, c) \<and> inq c = [] \<and>
    answers c = (case sv_files sv (user, name) of
        None \<Rightarrow> [\<lparr>mtype = Msg_Error, payload = enc_str ''no such file on the server''\<rparr>]
      | Some (bs, m) \<Rightarrow> \<lparr>mtype = Msg_File, payload = enc_header (announced name bs m)\<rparr> # map data_msg (file_chunks bs) @ [end_msg])"
proof -
  let ?path = "file_path (sv_store sv) user name"
  have str: "str_ok name" and len: "length name \<le> 4000" using valid_path_length [OF valid(2)] by simp_all
  have rd: "r_str (new_reader (enc_str name)) = Inr (name, cursor (enc_str name) [])"
    using cstr.rd_enc [OF str, of "[]" "[]"] by (simp add: new_reader_cursor)
  have node: "?path \<noteq> []" "resolve ?path = file_node (sv_store sv) user name"
    using file_path_not_Nil resolve_file_path [OF valid] by simp_all
  note unf = handle_download_def rd sum.case prod.case
  show ?thesis
  proof (cases "file_at (sv_os sv) (resolve ?path)")
    case None
    then have "send_file (replica_conn []) Msg_File [] name ?path (sv_os sv) = (Inr (T_NotSent, new_file_info), replica_conn [])"
      using sys_open_reg_None [of ?path "sv_os sv"] by (simp add: send_file_def)
    moreover have "sv_files sv (user, name) = None" using None node(2) by (simp add: user_files_def)
    ultimately show ?thesis
      using valid(2) replica_send_error [of "''no such file on the server''"] by (simp add: unf answers_def)
  next
    case (Some v)
    obtain bs t where v: "v = (bs, t)" by (cases v)
    have there: "sv_files sv (user, name) = Some (bs, mtime_of t)" using Some v node(2) valid by (simp add: user_files_def)
    have "small bs" using small [OF there] by simp
    from send_file_live [of "replica_conn []", OF _ node(1) Some [unfolded v] cut this, of "[]" name Msg_File] len
    have "send_file (replica_conn []) Msg_File [] name ?path (sv_os sv) =
        (Inr (T_Ok, announced name bs (mtime_of t)),
         (replica_conn [])\<lparr>outq := \<lparr>mtype = Msg_File, payload = enc_header (announced name bs (mtime_of t))\<rparr> #
           map data_msg (file_chunks bs) @ [end_msg]\<rparr>)"
      by (simp add: announced_def MAX_PAYLOAD_def)
    with valid(2) there show ?thesis by (simp add: unf answers_def)
  qed
qed

lemma download_exchange_session:
  fixes sv :: "('p, 'q) server"
  assumes prim: "is_primary (sv_cluster sv)" and valid: "is_valid_username user" "is_valid_path name"
    and cut: "cut_at (sv_os sv) = None" and small: "\<And>v. sv_files sv (user, name) = Some v \<Longrightarrow> small (fst v)"
    and c: "in_session user token sv c" and wf: "wf_os os" and ex: "download_exchange name dir c os = (res, c', os')"
  shows "in_session user token sv c' \<and>
    (case sv_files sv (user, name) of
       None \<Rightarrow> res = Inr (X_Rejected ''no such file on the server'') \<and> os' = os
     | Some (bs, m) \<Rightarrow>
         (\<exists>temp t. res = Inr (X_Ok ((announced name bs m)\<lparr>fi_hash := fnv_hash bs\<rparr>, temp)) \<and>
            file_at os' (resolve temp) = Some (bs, t)) \<or>
         res = Inr (X_Rejected (''the download of '' @ name @ '' was not completed'')))"
proof -
  let ?m = "\<lparr>mtype = Msg_Download, payload = enc_str name\<rparr>"
  have str: "str_ok name" using valid_path_length [OF valid(2)] by simp
  obtain s where s: "handle_download user (enc_str name) (replica_conn []) sv = (Inr True, s)" "inq s = []"
    "answers s = (case sv_files sv (user, name) of
        None \<Rightarrow> [\<lparr>mtype = Msg_Error, payload = enc_str ''no such file on the server''\<rparr>]
      | Some (bs, m) \<Rightarrow> \<lparr>mtype = Msg_File, payload = enc_header (announced name bs m)\<rparr> # map data_msg (file_chunks bs) @ [end_msg])"
    using download_served [OF valid cut small] by blast
  have req: "handle_request user token ?m (replica_conn []) sv = (Inr True, s, sv)" using s(1) by (simp add: handle_request_def)
  have "length (enc_str name) \<le> MAX_PAYLOAD" using str by (simp add: enc_str_def MAX_PAYLOAD_def)
  then have send: "conn_send c Msg_Download (enc_str name) = (True, c\<lparr>outq := [?m]\<rparr>)"
    using conn_send_live [OF in_session_live(1) [OF c]] in_session_live(2) [OF c] by simp
  have start: "w_str name [] = Inr (enc_str name)" using cstr.wr_enc [OF str] by simp
  note recvd = session_one [OF c prim req s(2)]
  show ?thesis
  proof (cases "sv_files sv (user, name)")
    case None
    have "error_reason \<lparr>mtype = Msg_Error, payload = enc_str ''no such file on the server''\<rparr> = ''no such file on the server''"
      by (rule error_reason_send) simp
    with ex start send recvd s(3) None session_goes_on [OF c, of sv] show ?thesis by (auto simp: download_exchange_def)
  next
    case (Some v)
    obtain bs m where v: "v = (bs, m)" by (cases v)
    let ?info = "announced name bs m" and ?ms = "map data_msg (file_chunks bs) @ [end_msg]"
    let ?c = "c\<lparr>peer_state := (sv, True), outq := [], inq := ?ms\<rparr>"
    have sm: "small bs" using small [OF Some] v by simp
    have rc: "conn_recv (c\<lparr>outq := [?m]\<rparr>) = (Received \<lparr>mtype = Msg_File, payload = enc_header ?info\<rparr>, ?c)"
      using recvd s(3) Some v by simp
    have head: "read_file_header (new_reader (enc_header ?info)) = Inr (?info, cursor (enc_header ?info) [])"
      using read_file_header_ok [of ?info "[]" "[]"] str by (simp add: new_reader_cursor announced_def new_file_info_def)
    have size_info: "fi_size ?info = of_nat (length bs)" by (simp add: announced_def)
    obtain temp os1 where temp: "make_temp_path dir os = (temp, os1)" by fastforce
    have wf1: "wf_os os1" using wf temp by (auto simp: make_temp_path_eq)
    obtain got h c2 os2 where rb: "recv_file_body ?c temp (of_nat (length bs)) os1 = (got, h, c2, os2)" by (metis prod_cases4)
    have q: "is_open ?c" "inq ?c = map data_msg (file_chunks bs) @ end_msg # []" "mtype end_msg \<noteq> Msg_FileData"
      using in_session_live(1) [OF c] by (simp_all add: live_def end_msg_def)
    have ok: "got \<noteq> T_ConnectionLost" by (rule recv_file_body_exact [OF q(1,2) sm rb])
    have c2: "in_session user token sv c2"
      using recv_file_body_sync(1) [OF q rb ok] c by (simp add: in_session_def live_def)
    have "temp \<noteq> []" using temp temp_name_good join_path_not_Nil by (auto simp: make_temp_path_eq good_name_def)
    then have body: "\<exists>t. file_at os2 (resolve temp) = Some (bs, t) \<and> h = fnv_hash bs" if "got = T_Ok"
      using recv_file_body_content [OF wf1 q rb [unfolded that]] recv_file_body_effect(4) [OF wf1 _ rb that] by auto
    have "download_exchange name dir c os =
        (if got \<noteq> T_Ok then (Inr (X_Rejected (''the download of '' @ name @ '' was not completed'')), c2, os2)
         else (Inr (X_Ok (?info\<lparr>fi_hash := h\<rparr>, temp)), c2, os2))"
      using rb ok size_info by (simp add: download_exchange_def start send rc head temp)
    with ex body Some v c2 show ?thesis by (auto split: if_splits)
  qed
qed

text \<open>
  C9. From the server's disk to the client's: a client that downloads a file over a session of a
  running primary changes nothing there. If the user has the file, the client gets it with
  exactly the server's bytes, under a temporary name and with the size, the time and the content
  hash of these bytes, or is told that its own disk could not take it; if the user does not have
  it, the client is told so and its disk is as before.
\<close>

theorem client_download_exact:
  fixes sv :: "('p, 'q) server"
  assumes "is_primary (sv_cluster sv)" "is_valid_username user" "is_valid_path name" "cut_at (sv_os sv) = None"
    and small: "small_files (sv_os sv)"
    and w: "wait_for_connection cl = Some c" and c: "in_session user token sv c" and wf: "wf_os (ct_os cl)"
  shows "case download name dir cl of (res, cl') \<Rightarrow> server_after cl' = Some sv \<and>
    (case sv_files sv (user, name) of
       None \<Rightarrow> res = X_Rejected ''no such file on the server'' \<and> ct_os cl' = ct_os cl
     | Some (bs, m) \<Rightarrow>
         (\<exists>temp t. res = X_Ok (\<lparr>fi_name = name, fi_size = of_nat (length bs), fi_mtime = m, fi_hash = fnv_hash bs\<rparr>, temp) \<and>
            file_at (ct_os cl') (resolve temp) = Some (bs, t)) \<or>
         res = X_Rejected (''the download of '' @ name @ '' was not completed''))"
proof -
  obtain res c' os' where ex: "download_exchange name dir c (ct_os cl) = (res, c', os')" by (metis prod_cases3)
  have "small (fst v)" if "sv_files sv (user, name) = Some v" for v using small_user_file [OF small that] .
  note d = download_exchange_session [OF assms(1-4) this c wf ex]
  have "(announced name bs m)\<lparr>fi_hash := h\<rparr> = \<lparr>fi_name = name, fi_size = of_nat (length bs), fi_mtime = m, fi_hash = h\<rparr>" for bs m h
    by (simp add: announced_def new_file_info_def)
  with d show ?thesis
    by (cases "sv_files sv (user, name)") (auto simp: download_def transact_def w ex server_after_def Let_def in_session_def)
qed

section \<open>Listing\<close>

lemma file_list_roundtrip:
  assumes "\<forall>f \<in> set files. str_ok (fi_name f)"
  shows "\<exists>body. file_list_body files = Inr body \<and> (length body \<le> MAX_PAYLOAD \<longrightarrow> read_file_list body = Inr files)"
proof -
  let ?body = "enc_u32 (of_nat (length files)) @ concat (map enc_info files)"
  have w: "file_list_body files = Inr ?body"
    using cinfo.write_each_enc [OF assms, of "w_u32 (of_nat (length files)) []"] by (simp add: file_list_body_def wr_simps)
  have r: "read_file_list ?body = Inr files" if "length ?body \<le> MAX_PAYLOAD"
  proof -
    have pos: "0 < length (enc_info f)" for f by (simp add: enc_info_def)
    have "length files \<le> MAX_PAYLOAD"
      using length_concat_map [of enc_info files, OF pos] that by simp
    note n = this [THEN unat_of_nat_u32]
    show ?thesis
      by (simp add: read_file_list_def new_reader_cursor c32.rd_enc n cinfo.read_n_enc [OF assms, where rest = "[]", simplified])
  qed
  with w show ?thesis by blast
qed

lemma list_exchange_session:
  fixes sv :: "('p, 'q) server"
  assumes ok: "store_ok (sv_store sv, sv_os sv)" "cut_at (sv_os sv) = None" "is_primary (sv_cluster sv)" "is_valid_username user"
    and c: "in_session user token sv c" and ex: "list_exchange c os = (res, c', os')"
  shows "os' = os \<and> (\<exists>st. let sv' = sv_set_files st (sv_os sv) sv in
      in_session user token sv' c' \<and> sv_files sv' = sv_files sv \<and> store_ok (st, sv_os sv)) \<and>
    ((\<exists>files. res = Inr (X_Ok files) \<and> sorted_wrt (<) (map fi_name files) \<and>
        set files = {info_of path v |path v. sv_files sv (user, path) = Some v}) \<or>
     res = Inr (X_Rejected ''too many files to list''))"
proof -
  let ?m = "\<lparr>mtype = Msg_ListFiles, payload = []\<rparr>"
  obtain files st where l: "store_list (sv_store sv) user (sv_os sv) = (files, st)" by fastforce
  note s = store_list_exact [OF ok(1,2,4), unfolded l prod.case]
  have root: "user_files st = user_files (sv_store sv)"
    using store_list_spec(2) [OF ok(1,2,4) l] by (rule user_files_root)
  have "str_ok (fi_name f)" if "f \<in> set files" for f
    using s that user_files_valid valid_path_length by (fastforce simp: info_of_def)
  then obtain body where body: "file_list_body files = Inr body" "length body \<le> MAX_PAYLOAD \<longrightarrow> read_file_list body = Inr files"
    using file_list_roundtrip by blast
  let ?sv = "sv_set_files st (sv_os sv) sv"
  let ?a = "if length body \<le> MAX_PAYLOAD then \<lparr>mtype = Msg_FileList, payload = body\<rparr>
    else \<lparr>mtype = Msg_Error, payload = enc_str ''too many files to list''\<rparr>"
  have "handle_list user (replica_conn []) sv = (Inr True, (replica_conn [])\<lparr>outq := [?a]\<rparr>, ?sv)"
    using replica_send [of body Msg_FileList] replica_send_error [of "''too many files to list''"]
    by (simp add: handle_list_def l body(1) Let_def)
  then have req: "handle_request user token ?m (replica_conn []) sv = (Inr True, (replica_conn [])\<lparr>outq := [?a]\<rparr>, ?sv)"
    by (simp add: handle_request_def)
  let ?c = "c\<lparr>peer_state := (?sv, True), outq := [], inq := []\<rparr>"
  have "conn_recv (c\<lparr>outq := [?m]\<rparr>) = (Received ?a, ?c)"
    using session_one [OF c ok(3) req] by (simp add: answers_def)
  then have "call c Msg_ListFiles [] Msg_FileList =
      (if length body \<le> MAX_PAYLOAD then Call_Ok ?a else Call_Rejected ?a, ?c)"
    using conn_send_live [OF in_session_live(1) [OF c], of "[]" Msg_ListFiles] in_session_live(2) [OF c]
    by (simp add: call_def)
  then have "list_exchange c os =
      (Inr (if length body \<le> MAX_PAYLOAD then X_Ok files else X_Rejected ''too many files to list''), ?c, os)"
    using body(2) error_reason_send [of "''too many files to list''"] by (simp add: list_exchange_def)
  moreover have "sv_files ?sv = sv_files sv" by (simp add: sv_set_files_def root)
  ultimately show ?thesis
    using s ex session_goes_on [OF c, of ?sv] by (auto simp: Let_def intro!: exI [of _ st])
qed

text \<open>
  C10. A listing is what the server has: over a session of a running primary, the client gets one
  entry for every file of its user, with the size, the time and the content hash of its bytes,
  in the order of the names, or is told that they are too many for one message. Neither side's
  files change.
\<close>

theorem client_list_exact:
  fixes sv :: "('p, 'q) server"
  assumes ok: "store_ok (sv_store sv, sv_os sv)" "cut_at (sv_os sv) = None" "is_primary (sv_cluster sv)" "is_valid_username user"
    and w: "wait_for_connection cl = Some c" and c: "in_session user token sv c"
  shows "case list_remote cl of (res, cl') \<Rightarrow>
    ct_os cl' = ct_os cl \<and> (\<exists>sv'. server_after cl' = Some sv' \<and> sv_files sv' = sv_files sv \<and> sv_os sv' = sv_os sv) \<and>
    ((\<exists>files. res = X_Ok files \<and> sorted_wrt (<) (map fi_name files) \<and>
        set files = {info_of path v |path v. sv_files sv (user, path) = Some v}) \<or>
     res = X_Rejected ''too many files to list'')"
proof -
  obtain res c' os' where ex: "list_exchange c (ct_os cl) = (res, c', os')" by (metis prod_cases3)
  from list_exchange_session [OF ok c ex] obtain st where "os' = ct_os cl"
    "in_session user token (sv_set_files st (sv_os sv) sv) c'" "sv_files (sv_set_files st (sv_os sv) sv) = sv_files sv"
    "(\<exists>files. res = Inr (X_Ok files) \<and> sorted_wrt (<) (map fi_name files) \<and>
        set files = {info_of path v |path v. sv_files sv (user, path) = Some v}) \<or>
     res = Inr (X_Rejected ''too many files to list'')" unfolding Let_def by blast
  then show ?thesis
    by (auto simp: list_remote_def transact_def w ex server_after_def Let_def in_session_def)
qed

section \<open>Deleting\<close>

lemma remove_exchange_session:
  fixes sv :: "(('a node_scheme \<times> link_phase), 'q) server"
  assumes sv: "serving sv" "is_primary (sv_cluster sv)" and valid: "is_valid_username user" "is_valid_path name"
    and c: "in_session user token sv c" and ex: "remove_exchange name origin c os = (res, c', os')"
  shows "os' = os \<and> (\<exists>sv'. in_session user token sv' c' \<and> keeps_serving sv sv' \<and>
    sv_files sv' = (sv_files sv)((user, name) := None) \<and>
    (res = Inr (X_Ok ()) \<or> (\<exists>e. res = Inr (X_Rejected e)) \<and> sv_files sv (user, name) = None))"
proof -
  let ?body = "enc_u8 origin @ enc_str name" and ?s = "replica_conn []"
  let ?m = "\<lparr>mtype = Msg_Delete, payload = ?body\<rparr>"
  have str: "str_ok name" using valid_path_length [OF valid(2)] by simp
  then have "length ?body \<le> MAX_PAYLOAD" by (simp add: enc_str_def enc_u8_def MAX_PAYLOAD_def)
  moreover have "w_str name (w_u8 origin []) = Inr ?body" using cstr.wr_enc [OF str] by (simp add: wr_simps)
  ultimately have body: "w_str name (w_u8 origin []) = Inr ?body" "length ?body \<le> MAX_PAYLOAD" by simp_all
  obtain r s sv' where del: "handle_delete user token ?body ?s sv = (r, s, sv')" by (metis prod_cases3)
  have d: "r = Inr True" "keeps_serving sv sv'" "inq s = []" "peer_state s = []" "sv_files sv' = (sv_files sv)((user, name) := None)"
    "replied Msg_Ok s \<or> replied Msg_Error s \<and> sv_files sv (user, name) = None"
    using handle_delete_durable [OF sv(1) valid, of ?s token origin] del by auto
  have req: "handle_request user token ?m ?s sv = (Inr True, s, sv')" using del d(1) by (simp add: handle_request_def)
  obtain ty a where a: "answers s = [a]" "mtype a = ty" "ty = Msg_Ok \<or> ty = Msg_Error" "replied ty s"
    using d(4,6) replied_answers by metis
  from session_one [OF c sv(2) req d(3)] a(1)
  have "conn_recv (c\<lparr>outq := [?m]\<rparr>) = (Received a, c\<lparr>peer_state := (sv', True), outq := [], inq := []\<rparr>)" by simp
  then have cl: "call c Msg_Delete ?body Msg_Ok =
      (if ty = Msg_Ok then Call_Ok a else Call_Rejected a, c\<lparr>peer_state := (sv', True), outq := [], inq := []\<rparr>)"
    using conn_send_live [OF in_session_live(1) [OF c] body(2)] in_session_live(2) [OF c] a(2) by (simp add: call_def)
  have "replied Msg_Ok s \<longleftrightarrow> ty = Msg_Ok" using a(4) by (auto simp: replied_def split: list.splits)
  with ex body(1) cl d(2,5,6) session_goes_on [OF c, of sv'] a(3) show ?thesis
    by (auto simp: remove_exchange_def split: if_splits)
qed

section \<open>Instances\<close>

definition sample_session :: "(((node \<times> link_phase), unit) server \<times> bool) conn" where
  "sample_session = \<lparr>peer_state = (sample_server, True), respond = session_respond ''u'' ''t'', outq = [], inq = [],
     sends_left = None, is_open = True, peer_is_server = True\<rparr>"

definition session_client :: "(((node \<times> link_phase), unit) server \<times> bool) client" where
  "session_client = (new_client sample_options edited_disk ''2026-10-20 14.03.07'')\<lparr>ct_cmd := Some sample_session, ct_connected := True\<rparr>"

lemma sample_in_session: "in_session ''u'' ''t'' sample_server sample_session"
  by (simp add: in_session_def sample_session_def live_def)

lemma session_client_conn: "wait_for_connection session_client = Some sample_session"
  by (simp add: session_client_def wait_for_connection_def new_client_def)

lemma session_client_disk: "ct_os session_client = edited_disk"
  by (simp add: session_client_def new_client_def)

lemma sample_server_primary: "is_primary (sv_cluster sample_server)" "cut_at (sv_os sample_server) = None"
  "store_ok (sv_store sample_server, sv_os sample_server)"
  using sample_server_serving by (simp_all add: serving_def sample_server_def primary_cluster_def is_primary_def)

theorem client_upload_reaches_server_witness:
  "case upload ''s/a.txt'' ''a.txt'' 1 session_client of (res, cl') \<Rightarrow>
    ct_os cl' = ct_os session_client \<and> (\<exists>sv'. server_after cl' = Some sv' \<and> store_ok (sv_store sv', sv_os sv') \<and>
    (res = X_Ok () \<and> (\<exists>m. sv_files sv' = (sv_files sample_server)((''u'', ''a.txt'') \<mapsto> (''mine'', m))) \<and>
       links_all (backup_has (''u'', ''a.txt'') (Some ''mine'')) {} (cl_links (sv_cluster sv')) \<or>
     (\<exists>e. res = X_Rejected e) \<and> sv_files sv' = sv_files sample_server))"
  by (rule client_upload_reaches_server [where t = 8, OF sample_server_serving sample_server_primary(1) _ _ session_client_conn sample_in_session])
    (simp only: session_client_disk | code_simp)+

theorem client_download_exact_witness:
  "case download ''f'' ''s'' session_client of (res, cl') \<Rightarrow> server_after cl' = Some sample_server \<and>
    (case sv_files sample_server (''u'', ''f'') of
       None \<Rightarrow> res = X_Rejected ''no such file on the server'' \<and> ct_os cl' = ct_os session_client
     | Some (bs, m) \<Rightarrow>
         (\<exists>temp t. res = X_Ok (\<lparr>fi_name = ''f'', fi_size = of_nat (length bs), fi_mtime = m, fi_hash = fnv_hash bs\<rparr>, temp) \<and>
            file_at (ct_os cl') (resolve temp) = Some (bs, t)) \<or>
         res = X_Rejected (''the download of '' @ ''f'' @ '' was not completed''))"
proof (rule client_download_exact [OF sample_server_primary(1) _ _ sample_server_primary(2) _ session_client_conn sample_in_session])
  show "small_files (sv_os sample_server)" by (simp add: sample_server_def primary_cluster_def data_dir_def user_u_def small_files_def)
  show "wf_os (ct_os session_client)" unfolding session_client_disk by code_simp
qed code_simp+

theorem client_list_exact_witness:
  "case list_remote session_client of (res, cl') \<Rightarrow>
    ct_os cl' = ct_os session_client \<and>
    (\<exists>sv'. server_after cl' = Some sv' \<and> sv_files sv' = sv_files sample_server \<and> sv_os sv' = sv_os sample_server) \<and>
    ((\<exists>files. res = X_Ok files \<and> sorted_wrt (<) (map fi_name files) \<and>
        set files = {info_of path v |path v. sv_files sample_server (''u'', path) = Some v}) \<or>
     res = X_Rejected ''too many files to list'')"
  by (rule client_list_exact [OF sample_server_primary(3,2,1) _ session_client_conn sample_in_session]) code_simp

end
