(* ===== verification/Convergence.thy ===== *)
theory Convergence
  imports End_To_End
begin

text \<open>
  The two sides agree: what one step of \<open>reconcile\<close> does to the files of the client and of the
  server it is connected to, and that after all steps every file has the same contents on both,
  or the user was told why not.
\<close>

section \<open>Saving\<close>

text \<open>Saving the state uses the same calls.\<close>

context file_calls
begin

lemma save:
  assumes "wf_os os" "P (ss_path st)" "P (ss_path st @ ''.tmp'')"
  shows "R os (snd (state_save st os))"
proof -
  obtain e1 os1 where c: "sys_create (ss_path st @ ''.tmp'') os = (e1, os1)" by fastforce
  obtain e2 os2 where w: "sys_write (ss_path st @ ''.tmp'') (state_text (ss_entries st)) os1 = (e2, os2)" by fastforce
  have r1: "R os os1" using create [OF assms(1,3)] c by simp
  have r2: "R os1 os2" using writing [OF formed [OF r1] assms(3)] w by (metis snd_conv)
  have r3: "R os2 (snd (replace_file (ss_path st @ ''.tmp'') (ss_path st) os2))"
    by (rule replace [OF formed [OF r2] assms(3,2)])
  show ?thesis
    using r1 compose [OF r1 r2] compose [OF compose [OF r1 r2] r3]
    by (cases e1; cases e2) (simp_all add: state_save_def c w Let_def)
qed

end

section \<open>Installing, in all cases\<close>

text \<open>The nodes of conflicted copies, with the time stamp of the client.\<close>

definition is_copy :: "'q client \<Rightarrow> fpath \<Rightarrow> bool" where
  "is_copy cl q \<longleftrightarrow> (\<exists>name k. is_valid_path name \<and> q = copy_node cl name (conflict_file (ct_stamp cl) (base_name name) k))"

text \<open>
  The files of the client after a step for \<open>name\<close>: apart from the file itself and the files of
  the program, nothing changes but for a copy, under a name that was free, of the old version.
\<close>

definition touches :: "string \<Rightarrow> 'q client \<Rightarrow> 'q client \<Rightarrow> bool" where
  "touches name cl cl' \<longleftrightarrow> stays cl cl' \<and> same_env (ct_os cl) (ct_os cl') \<and> set (ct_output cl) \<subseteq> set (ct_output cl') \<and>
     (\<forall>q. q \<noteq> sync_node cl name \<and> \<not> own_node cl q \<longrightarrow>
        file_at (ct_os cl') q = file_at (ct_os cl) q \<or>
        file_at (ct_os cl) q = None \<and> is_copy cl q \<and> file_at (ct_os cl') q = file_at (ct_os cl) (sync_node cl name))"

definition could_not_write :: "string \<Rightarrow> 'q client \<Rightarrow> client_output" where
  "could_not_write name cl = Said (''Could not write '' @ join_path (sync_dir cl) name @ '' (a file and a folder can'' @ [quote] @
     ''t have the same name)'')"

text \<open>The name of a copy is never one of the program's own names: a prefix of the original, and a blank.\<close>

lemma prefix_blank:
  assumes "take 6 (w @ CHR '' '' # u) = ''.sisop''"
  shows "6 \<le> length w" "take 6 w = ''.sisop''"
proof -
  show "6 \<le> length w"
  proof (rule ccontr)
    assume "\<not> 6 \<le> length w"
    then have "length w < 6" by simp
    from nth_take [OF this, of "w @ CHR '' '' # u"] have "''.sisop'' ! length w = CHR '' ''" unfolding assms by simp
    moreover have "''.sisop'' ! j \<noteq> CHR '' ''" if "j < 6" for j
      using that by (auto simp: less_Suc_eq numeral_eq_Suc)
    ultimately show False using \<open>length w < 6\<close> by blast
  qed
  with assms show "take 6 w = ''.sisop''" by simp
qed

lemma conflict_file_not_reserved:
  assumes "take (length RESERVED_PREFIX) f \<noteq> RESERVED_PREFIX"
  shows "take (length RESERVED_PREFIX) (conflict_file stamp f k) \<noteq> RESERVED_PREFIX"
proof
  assume a: "take (length RESERVED_PREFIX) (conflict_file stamp f k) = RESERVED_PREFIX"
  obtain r where r: "conflict_file stamp f k = take r (take (extension_dot f) f) @ conflict_tag stamp k @ take 32 (drop (extension_dot f) f)"
    by (simp add: conflict_file_def Let_def)
  obtain v where v: "conflict_tag stamp k = CHR '' '' # v" by (simp add: conflict_tag_def)
  have six: "length RESERVED_PREFIX = 6" "RESERVED_PREFIX = ''.sisop''" by (simp_all add: RESERVED_PREFIX_def)
  have eq: "conflict_file stamp f k = take (min r (extension_dot f)) f @ CHR '' '' # (v @ take 32 (drop (extension_dot f) f))"
    by (simp add: r v min.commute)
  have "take 6 (take (min r (extension_dot f)) f @ CHR '' '' # (v @ take 32 (drop (extension_dot f) f))) = ''.sisop''"
    using a unfolding six(1) eq unfolding six(2) .
  note p = prefix_blank [OF this]
  from p(1) have "6 \<le> min r (extension_dot f)" by simp
  with p(2) have "take 6 f = ''.sisop''" by (simp add: min_def split: if_splits)
  with assms show False unfolding six(1) unfolding six(2) by blast
qed

lemma own_copy_free:
  assumes "is_valid_path name"
  shows "\<not> own_node cl (copy_node cl name (conflict_file (ct_stamp cl) (base_name name) k))"
proof
  assume "own_node cl (copy_node cl name (conflict_file (ct_stamp cl) (base_name name) k))"
  then obtain c where "take (length RESERVED_PREFIX) c = RESERVED_PREFIX"
    "butlast (split_on slash name) @ [conflict_file (ct_stamp cl) (base_name name) k] = [c]"
    by (auto simp: own_node_def)
  with conflict_file_not_reserved [OF valid_name_prefix [OF valid_base [OF assms]]] show False
    by (auto simp: append_eq_Cons_conv)
qed

lemma keep_conflicted_effect:
  assumes ok: "client_ok cl" and name: "is_valid_path name" and keep: "keep_conflicted name info cl = Some cl'"
  shows "touches name cl cl'" "file_at (ct_os cl') (sync_node cl name) \<in> {None, file_at (ct_os cl) (sync_node cl name)}"
    "own_node cl q \<Longrightarrow> file_at (ct_os cl') q = file_at (ct_os cl) q"
proof -
  note wf = client_ok_wf [OF ok]
  have st: "stays cl cl'" by (rule keep_conflicted_stays [OF name keep])
  have "touches name cl cl' \<and> file_at (ct_os cl') (sync_node cl name) \<in> {None, file_at (ct_os cl) (sync_node cl name)} \<and>
    (\<forall>q. own_node cl q \<longrightarrow> file_at (ct_os cl') q = file_at (ct_os cl) q)"
  proof (cases "unsynced name info cl")
    case False
    with keep have "cl' = cl" by (simp add: keep_conflicted_def)
    then show ?thesis by (simp add: touches_def)
  next
    case True
    obtain k where k: "conflict_name name cl = Some (conflict_candidate (ct_stamp cl) name k)"
      and to_node: "resolve (join_path (sync_dir cl) (conflict_candidate (ct_stamp cl) name k)) = copy_node cl name (conflict_file (ct_stamp cl) (base_name name) k)"
      and none: "file_at (ct_os cl) (copy_node cl name (conflict_file (ct_stamp cl) (base_name name) k)) = None"
      by (rule conflict_choice [OF ok name])
    let ?f = "conflict_file (ct_stamp cl) (base_name name) k"
    let ?from = "join_path (sync_dir cl) name" and ?to = "join_path (sync_dir cl) (conflict_candidate (ct_stamp cl) name k)"
    note res = resolve_join_valid [OF name, of "sync_dir cl"] to_node
    have copy: "is_copy cl (copy_node cl name ?f)" using name unfolding is_copy_def by blast
    obtain moved os where mv: "replace_file ?from ?to (ct_os cl) = (moved, os)" by fastforce
    have cl': "ct_os cl' = os" "set (ct_output cl) \<subseteq> set (ct_output cl')"
      using keep True k mv by (auto simp: keep_conflicted_def Let_def say_def split: if_splits)
    show ?thesis
    proof (cases moved)
      case False
      with mv have "os = ct_os cl" by (simp add: replace_file_err)
      with cl' st show ?thesis by (simp add: touches_def)
    next
      case True
      obtain old t where old: "file_at (ct_os cl) (sync_node cl name) = Some (old, t)"
        using \<open>unsynced name info cl\<close> stat_file_Some [of ?from "new_file_info\<lparr>fi_name := name\<rparr>" "ct_os cl"]
        by (fastforce simp: unsynced_def local_file_def res split: option.splits)
      have neq: "resolve ?from \<noteq> resolve ?to" using none old unfolding res by auto
      note r = replace_file_ok [OF wf mv [unfolded eqTrueI [OF True]] neq, unfolded res]
      have at: "file_at os q = (if q = copy_node cl name ?f then file_at (ct_os cl) (sync_node cl name)
          else if q = sync_node cl name then None else file_at (ct_os cl) q)" for q
        by (simp add: file_at_def r(2))
      have "\<not> own_node cl (sync_node cl name)" "\<not> own_node cl (copy_node cl name ?f)"
        using sync_node_not_own [OF name] own_copy_free [OF name] by blast+
      then show ?thesis
        using st cl' r(4) none copy by (auto simp: touches_def at)
    qed
  qed
  then show "touches name cl cl'" "file_at (ct_os cl') (sync_node cl name) \<in> {None, file_at (ct_os cl) (sync_node cl name)}"
    "own_node cl q \<Longrightarrow> file_at (ct_os cl') q = file_at (ct_os cl) q" by simp_all
qed

text \<open>Saving the state changes none of the user's files.\<close>

lemma save_frame:
  assumes "client_ok cl" "wf_os (ct_os c)" "ss_path (ct_state c) = ss_path (ct_state cl)"
  shows "same_env (ct_os c) (ct_os (save_state c))"
    "\<not> own_node cl q \<Longrightarrow> file_at (ct_os (save_state c)) q = file_at (ct_os c) q"
proof -
  have "only (own_node cl) (ct_os c) (ct_os (save_state c))"
    using only_save [where P = "own_node cl" and st = "ct_state c", OF assms(2)] own_state [OF assms(1)] assms(3)
    by (simp add: save_state_def)
  then show "\<not> own_node cl q \<Longrightarrow> file_at (ct_os (save_state c)) q = file_at (ct_os c) q" by (simp add: only_file)
  show "same_env (ct_os c) (ct_os (save_state c))" using env.save [OF assms(2)] by (simp add: save_state_def keeps_env_def)
qed

text \<open>Before the file is put in its place: the time is set and the directories are made.\<close>

lemma placing_starts:
  assumes ok: "client_ok cl" and temp: "temp_file cl temp bs"
    and mk: "make_parent_dirs (sync_dir cl) name (snd (set_mtime temp m (ct_os cl))) = (made, os2)"
  shows "wf_os os2" "same_env (ct_os cl) os2" "\<exists>t. file_at os2 (resolve temp) = Some (bs, t)"
    "\<not> own_node cl q \<Longrightarrow> file_at os2 q = file_at (ct_os cl) q"
proof -
  let ?os1 = "snd (set_mtime temp m (ct_os cl))"
  note wf = client_ok_wf [OF ok]
  note mt = set_mtime_effect [OF wf]
  have own: "own_node cl (resolve temp)" using temp by (simp add: temp_file_def)
  then have "temp \<noteq> []" by (auto simp: own_node_def)
  then have "\<exists>t. file_at ?os1 (resolve temp) = Some (bs, t)"
    using temp mt(2) [of temp m "resolve temp"] by (auto simp: temp_file_def split: if_splits)
  moreover have o1: "only (own_node cl) (ct_os cl) ?os1" by (rule only_mtime [where P = "own_node cl", OF wf own])
  moreover have a2: "adds_dirs ?os1 os2" by (rule make_parent_dirs_adds [OF mt(1) mk])
  moreover note f2 = adds_dirs_files [OF a2]
  ultimately show "\<exists>t. file_at os2 (resolve temp) = Some (bs, t)"
    "\<not> own_node cl q \<Longrightarrow> file_at os2 q = file_at (ct_os cl) q" by (simp_all add: only_file)
  show "wf_os os2" "same_env (ct_os cl) os2" using a2 same_env_trans [OF mt(5)] by (auto simp: adds_dirs_def)
qed

lemma place_file_cases:
  assumes ok: "client_ok cl" and name: "is_valid_path name" and temp: "temp_file cl temp bs"
    and cl'_def: "cl' = place_file temp name info cl"
  shows "touches name cl cl'"
    "(\<exists>t. file_at (ct_os cl') (sync_node cl name) = Some (bs, t)) \<or>
     could_not_write name cl \<in> set (ct_output cl') \<and> file_at (ct_os cl') (sync_node cl name) = file_at (ct_os cl) (sync_node cl name)"
proof -
  let ?path = "join_path (sync_dir cl) name"
  let ?os1 = "snd (set_mtime temp (fi_mtime info) (ct_os cl))"
  have path: "resolve ?path = sync_node cl name" by (rule resolve_join_valid [OF name])
  have own: "own_node cl (resolve temp)" "\<not> own_node cl (sync_node cl name)"
    using temp sync_node_not_own [OF name] by (simp_all add: temp_file_def)
  obtain made os2 where mk: "make_parent_dirs (sync_dir cl) name ?os1 = (made, os2)" by fastforce
  note start = placing_starts [OF ok temp mk]
  let ?cl2 = "on_state (state_set (info\<lparr>fi_name := name\<rparr>)) (cl\<lparr>ct_os := ?os1\<rparr>)"
  obtain placed os3 where rp: "(if made then replace_file temp ?path os2 else (False, os2)) = (placed, os3)" by fastforce
  have st: "stays cl cl'"
    unfolding cl'_def by (rule place_file_stays [OF name]) (use own(1) in \<open>auto simp: own_node_def\<close>)
  have "touches name cl cl' \<and> ((\<exists>t. file_at (ct_os cl') (sync_node cl name) = Some (bs, t)) \<or>
     could_not_write name cl \<in> set (ct_output cl') \<and> file_at (ct_os cl') (sync_node cl name) = file_at (ct_os cl) (sync_node cl name))"
  proof (cases placed)
    case True
    with rp have rp1: "replace_file temp ?path os2 = (True, os3)" by (simp split: if_splits)
    have neq: "resolve temp \<noteq> resolve ?path" using own by (auto simp: path)
    note r = replace_file_ok [OF start(1) rp1 neq, unfolded path]
    let ?cl3 = "?cl2\<lparr>ct_os := os3\<rparr>"
    have cl': "cl' = save_state ?cl3" using True mk rp by (simp add: cl'_def place_file_def Let_def on_state_def)
    have s3: "same_env os3 (ct_os cl')" "\<And>q. \<not> own_node cl q \<Longrightarrow> file_at (ct_os cl') q = file_at os3 q"
      using save_frame [OF ok, of ?cl3] r(1) by (simp_all add: cl' on_state_def state_set_def)
    have "same_env (ct_os cl) (ct_os cl')" by (rule same_env_trans [OF same_env_trans [OF start(2) r(4)] s3(1)])
    moreover have "file_at (ct_os cl') q = file_at (ct_os cl) q" if "q \<noteq> sync_node cl name" "\<not> own_node cl q" for q
      using s3(2) [OF that(2)] start(4) [OF that(2)] that own(1) r(2) by (auto simp: file_at_def)
    moreover have "\<exists>t. file_at (ct_os cl') (sync_node cl name) = Some (bs, t)"
      using s3(2) [OF own(2)] start(3) r(2) by (simp add: file_at_def)
    ultimately show ?thesis
      using st by (auto simp: touches_def) (auto simp: cl' save_state_def on_state_def)
  next
    case False
    then have os3: "os3 = os2" using rp replace_file_err by (auto split: if_splits)
    let ?os4 = "snd (remove_file temp os2)"
    have o4: "only (own_node cl) os2 ?os4" by (rule only_remove [where P = "own_node cl", OF start(1) own(1)])
    let ?cl4 = "say (''Could not write '' @ ?path @ '' (a file and a folder can'' @ [quote] @ ''t have the same name)'')
                  (on_state (state_erase name) (?cl2\<lparr>ct_os := ?os4\<rparr>))"
    have cl': "cl' = save_state ?cl4" using False mk rp os3 by (simp add: cl'_def place_file_def Let_def on_state_def)
    have s3: "same_env ?os4 (ct_os cl')" "\<And>q. \<not> own_node cl q \<Longrightarrow> file_at (ct_os cl') q = file_at ?os4 q"
      using save_frame [OF ok, of ?cl4] only_wf [OF o4]
      by (simp_all add: cl' say_def on_state_def state_set_def state_erase_def)
    have "same_env (ct_os cl) (ct_os cl')"
      by (rule same_env_trans [OF same_env_trans [OF start(2) remove_file_env] s3(1)])
    moreover have at: "file_at (ct_os cl') q = file_at (ct_os cl) q" if "\<not> own_node cl q" for q
      using s3(2) [OF that] only_file [OF o4 that] start(4) [OF that] by simp
    moreover have "could_not_write name cl \<in> set (ct_output cl')"
      by (simp add: cl' save_state_def say_def could_not_write_def)
    ultimately show ?thesis
      using st own(2) by (auto simp: touches_def) (auto simp: cl' save_state_def say_def on_state_def)
  qed
  then show "touches name cl cl'"
    "(\<exists>t. file_at (ct_os cl') (sync_node cl name) = Some (bs, t)) \<or>
     could_not_write name cl \<in> set (ct_output cl') \<and> file_at (ct_os cl') (sync_node cl name) = file_at (ct_os cl) (sync_node cl name)"
    by blast+
qed

lemma could_not_write_options: "ct_options cl' = ct_options cl \<Longrightarrow> could_not_write name cl' = could_not_write name cl"
  by (simp add: could_not_write_def)

lemma touches_refl [simp]: "touches name cl cl"
  by (simp add: touches_def)

lemma own_node_options: "ct_options cl' = ct_options cl \<Longrightarrow> own_node cl' = own_node cl"
  by (simp add: fun_eq_iff own_node_def)

lemma touches_options: "touches name cl cl' \<Longrightarrow> ct_options cl' = ct_options cl"
  by (simp add: touches_def stays_def)

lemma touches_ok: "touches name cl cl' \<Longrightarrow> client_ok cl \<Longrightarrow> client_ok cl'"
  unfolding touches_def by (blast intro: stays_ok)

lemma touches_trans:
  assumes ab: "touches name a b" and bc: "touches name b c"
    and mid: "file_at (ct_os b) (sync_node a name) \<in> {None, file_at (ct_os a) (sync_node a name)}"
  shows "touches name a c"
proof -
  have opts: "ct_options b = ct_options a" "ct_stamp b = ct_stamp a" using ab by (simp_all add: touches_def stays_def)
  have own: "own_node b = own_node a" "is_copy b = is_copy a"
    using own_node_options [OF opts(1)] by (simp_all add: fun_eq_iff is_copy_def opts)
  have "stays a c" "same_env (ct_os a) (ct_os c)" "set (ct_output a) \<subseteq> set (ct_output c)"
    using ab bc unfolding touches_def by (blast intro: stays_trans same_env_trans)+
  moreover have "file_at (ct_os c) q = file_at (ct_os a) q \<or>
      file_at (ct_os a) q = None \<and> is_copy a q \<and> file_at (ct_os c) q = file_at (ct_os a) (sync_node a name)"
    if q: "q \<noteq> sync_node a name" "\<not> own_node a q" for q
  proof -
    have 1: "file_at (ct_os b) q = file_at (ct_os a) q \<or>
        file_at (ct_os a) q = None \<and> is_copy a q \<and> file_at (ct_os b) q = file_at (ct_os a) (sync_node a name)"
      using ab q unfolding touches_def by blast
    have 2: "file_at (ct_os c) q = file_at (ct_os b) q \<or>
        file_at (ct_os b) q = None \<and> is_copy a q \<and> file_at (ct_os c) q = file_at (ct_os b) (sync_node a name)"
      using bc q unfolding touches_def opts own by blast
    from 1 2 mid show ?thesis by auto
  qed
  ultimately show ?thesis unfolding touches_def by blast
qed

lemma touches_plain:
  assumes "stays cl cl'" "ct_os cl' = ct_os cl" "set (ct_output cl) \<subseteq> set (ct_output cl')"
  shows "touches name cl cl'"
  using assms by (simp add: touches_def)

lemma install_cases:
  assumes ok: "client_ok cl" and name: "is_valid_path name" and temp: "temp_file cl temp bs"
    and inst: "install temp name info cl = Some cl'"
  shows "touches name cl cl'"
    "(\<exists>t. file_at (ct_os cl') (sync_node cl name) = Some (bs, t)) \<or>
     could_not_write name cl \<in> set (ct_output cl') \<and>
     file_at (ct_os cl') (sync_node cl name) \<in> {None, file_at (ct_os cl) (sync_node cl name)}"
proof -
  obtain cl1 where k: "keep_conflicted name info cl = Some cl1" "cl' = place_file temp name info cl1"
    using inst by (auto simp: install_def)
  note kept = keep_conflicted_effect [OF ok name k(1)]
  note opts = touches_options [OF kept(1)]
  have "own_node cl (resolve temp)" using temp by (simp add: temp_file_def)
  then have temp1: "temp_file cl1 temp bs"
    using temp kept(3) unfolding temp_file_def own_node_options [OF opts] by simp
  note placed = place_file_cases [OF touches_ok [OF kept(1) ok] name temp1 k(2)]
  show "touches name cl cl'" by (rule touches_trans [OF kept(1) placed(1) kept(2)])
  show "(\<exists>t. file_at (ct_os cl') (sync_node cl name) = Some (bs, t)) \<or>
     could_not_write name cl \<in> set (ct_output cl') \<and>
     file_at (ct_os cl') (sync_node cl name) \<in> {None, file_at (ct_os cl) (sync_node cl name)}"
    using placed(2) kept(2) by (auto simp: opts could_not_write_def)
qed

lemma delete_here_effect:
  assumes ok: "client_ok cl" and name: "is_valid_path name" and there: "file_at (ct_os cl) (sync_node cl name) \<noteq> None"
  shows "touches name cl (delete_here name cl)" "file_at (ct_os (delete_here name cl)) (sync_node cl name) = None"
proof -
  let ?path = "join_path (sync_dir cl) name"
  have path: "resolve ?path = sync_node cl name" "?path \<noteq> []"
    using valid_path_length [OF name] by (simp_all add: resolve_join_valid [OF name] join_path_not_Nil)
  obtain bs t where node: "os_node (ct_os cl) (resolve ?path) = Some (N_file bs t)"
    using there by (auto simp: path file_at_Some)
  then obtain os where un: "sys_unlink ?path (ct_os cl) = (None, os)" using path(2) by (simp add: sys_unlink_def)
  note u = sys_unlink_ok [OF client_ok_wf [OF ok] un, unfolded path]
  have rm: "snd (remove_file ?path (ct_os cl)) = os" using un by (simp add: remove_file_def)
  note drops = remove_empty_parents_drops [OF u(1), of "sync_dir cl" name]
  have at: "file_at (ct_os (delete_here name cl)) q = (if q = sync_node cl name then None else file_at (ct_os cl) q)" for q
    using fun_cong [OF drops_dirs_files [OF drops], of q] u(2) by (simp add: delete_here_def on_state_def rm file_at_def)
  have "same_env (ct_os cl) os" using remove_file_env [of "ct_os cl" ?path] by (simp add: rm)
  with drops have "same_env (ct_os cl) (ct_os (delete_here name cl))"
    by (auto simp: delete_here_def on_state_def rm drops_dirs_def intro: same_env_trans)
  moreover have "set (ct_output cl) \<subseteq> set (ct_output (delete_here name cl))" by (simp add: delete_here_def on_state_def)
  ultimately show "touches name cl (delete_here name cl)" using delete_here_stays [OF name] at by (simp add: touches_def)
  show "file_at (ct_os (delete_here name cl)) (sync_node cl name) = None" using at by simp
qed

lemma waits:
  "wait_for_connection (say s cl) = wait_for_connection cl" "wait_for_connection (on_state f cl) = wait_for_connection cl"
  "wait_for_connection (save_state cl) = wait_for_connection cl" "wait_for_connection (cl\<lparr>ct_os := os\<rparr>) = wait_for_connection cl"
  by (simp_all add: wait_for_connection_def say_def on_state_def save_state_def)

lemma place_file_waits: "wait_for_connection (place_file temp name info cl) = wait_for_connection cl"
  by (simp add: place_file_def Let_def waits split: prod.split bool.split)

lemma install_waits: "install temp name info cl = Some cl' \<Longrightarrow> wait_for_connection cl' = wait_for_connection cl"
  by (auto simp: install_def keep_conflicted_def Let_def place_file_waits waits split: option.splits prod.splits if_splits)

lemma delete_here_waits: "wait_for_connection (delete_here name cl) = wait_for_connection cl"
  by (simp add: delete_here_def waits)

section \<open>A client in a session\<close>

text \<open>
  A client whose command connection leads to a session of a running primary. (Sizes are 64-bit
  numbers: no file is as long as that.)
\<close>

definition joined ::
  "string \<Rightarrow> string \<Rightarrow> (('a node_scheme \<times> link_phase), 'q) server \<Rightarrow>
     ((('a node_scheme \<times> link_phase), 'q) server \<times> bool) client \<Rightarrow> bool" where
  "joined user token sv cl \<longleftrightarrow>
     client_ok cl \<and> cut_at (ct_os cl) = None \<and>
     (\<forall>q bs t. \<not> own_node cl q \<longrightarrow> file_at (ct_os cl) q = Some (bs, t) \<longrightarrow> small bs) \<and>
     (\<exists>c. wait_for_connection cl = Some c \<and> in_session user token sv c) \<and>
     serving sv \<and> is_primary (sv_cluster sv) \<and> (\<forall>k v. sv_files sv k = Some v \<longrightarrow> small (fst v))"

lemma transact_ok:
  assumes "wait_for_connection cl = Some c" "exchange c (ct_os cl) = (Inr r, c', os')" "\<And>e. r \<noteq> X_Failed e"
  shows "transact exchange cl = (r, cl\<lparr>ct_os := os', ct_cmd := Some c'\<rparr>)"
proof (cases r)
  case (X_Failed e)
  with assms(3) show ?thesis by blast
qed (simp_all add: transact_def assms(1,2) Let_def)

lemma joinedD:
  assumes "joined user token sv cl"
  shows "client_ok cl" "cut_at (ct_os cl) = None" "serving sv" "is_primary (sv_cluster sv)"
    "\<And>k v. sv_files sv k = Some v \<Longrightarrow> small (fst v)"
    "\<And>q bs t. \<not> own_node cl q \<Longrightarrow> file_at (ct_os cl) q = Some (bs, t) \<Longrightarrow> small bs"
  using assms unfolding joined_def by blast+

lemma joined_cmd:
  assumes "joined user token sv cl" "in_session user token sv' c'" "keeps_serving sv sv'"
    "\<And>k v. sv_files sv' k = Some v \<Longrightarrow> small (fst v)"
  shows "joined user token sv' (cl\<lparr>ct_cmd := Some c'\<rparr>)"
proof -
  have "client_ok (cl\<lparr>ct_cmd := Some c'\<rparr>)" by (rule stays_ok [OF stays_conns(1)]) (use assms(1) in \<open>simp add: joined_def\<close>)
  with assms show ?thesis
    by (auto simp: joined_def keeps_serving_def own_node_def wait_for_connection_def split: if_splits)
qed

lemma joined_touches:
  assumes j: "joined user token sv cl" and t: "touches name cl cl'" and w: "wait_for_connection cl' = wait_for_connection cl"
    and at: "\<And>bs t. file_at (ct_os cl') (sync_node cl name) = Some (bs, t) \<Longrightarrow> small bs" and name: "is_valid_path name"
  shows "joined user token sv cl'"
proof -
  note own = own_node_options [OF touches_options [OF t]]
  have "small bs" if "\<not> own_node cl q" "file_at (ct_os cl') q = Some (bs, u)" for q bs u
  proof (cases "q = sync_node cl name")
    case False
    then have "file_at (ct_os cl') q = file_at (ct_os cl) q \<or> file_at (ct_os cl') q = file_at (ct_os cl) (sync_node cl name)"
      using t that(1) unfolding touches_def by blast
    with j that sync_node_not_own [OF name, of cl] show ?thesis unfolding joined_def by metis
  qed (use at that in blast)
  moreover have "client_ok cl'" using touches_ok [OF t] j by (simp add: joined_def)
  moreover have "cut_at (ct_os cl') = None" using t j by (simp add: touches_def joined_def same_env_def)
  ultimately show ?thesis using j unfolding joined_def own w by blast
qed

text \<open>What the exchanges come to, for a client that is joined.\<close>

lemma upload_joined:
  assumes j: "joined user token sv cl" and valid: "is_valid_username user" "is_valid_path name"
    and here: "file_at (ct_os cl) (sync_node cl name) = Some (bs, t)"
  obtains res c sv' where "upload (join_path (sync_dir cl) name) name origin cl = (res, cl\<lparr>ct_cmd := Some c\<rparr>)"
    "joined user token sv' (cl\<lparr>ct_cmd := Some c\<rparr>)"
    "res = X_Ok () \<and> (\<exists>m. sv_files sv' = (sv_files sv)((user, name) \<mapsto> (bs, m))) \<or>
     (\<exists>e. res = X_Rejected e) \<and> sv_files sv' = sv_files sv"
proof -
  let ?path = "join_path (sync_dir cl) name"
  have path: "resolve ?path = sync_node cl name" "?path \<noteq> []"
    using valid_path_length [OF valid(2)] by (simp_all add: resolve_join_valid [OF valid(2)] join_path_not_Nil)
  obtain c where c: "wait_for_connection cl = Some c" "in_session user token sv c" using j by (auto simp: joined_def)
  have small: "small bs" using j here sync_node_not_own [OF valid(2), of cl] unfolding joined_def by blast
  obtain res c' os' where ex: "upload_exchange ?path name origin c (ct_os cl) = (res, c', os')" by (metis prod_cases3)
  have "serving sv" "is_primary (sv_cluster sv)" "cut_at (ct_os cl) = None" using j by (simp_all add: joined_def)
  from upload_exchange_session [OF this(1,2) valid c(2) path(2) here [folded path(1)] this(3) small ex] obtain sv'
    where u: "os' = ct_os cl" "in_session user token sv' c'" "keeps_serving sv sv'"
    "res = Inr (X_Ok ()) \<and> (\<exists>m. sv_files sv' = (sv_files sv)((user, name) \<mapsto> (bs, m))) \<or>
     (\<exists>e. res = Inr (X_Rejected e)) \<and> sv_files sv' = sv_files sv" by blast
  then obtain r where r: "res = Inr r" "\<And>e. r \<noteq> X_Failed e" by blast
  have "small (fst v)" if "sv_files sv' k = Some v" for k v
    using u(4) that small joinedD(5) [OF j, of k v] by (cases "k = (user, name)") auto
  from joined_cmd [OF j u(2,3) this] transact_ok [OF c(1), of "upload_exchange ?path name origin", OF ex [unfolded r(1)] r(2)]
  show thesis
    using that [of r c' sv'] u(1,4) by (auto simp: upload_def r(1))
qed

lemma remove_joined:
  assumes j: "joined user token sv cl" and valid: "is_valid_username user" "is_valid_path name"
  obtains res c sv' where "remove_remote name origin cl = (res, cl\<lparr>ct_cmd := Some c\<rparr>)"
    "joined user token sv' (cl\<lparr>ct_cmd := Some c\<rparr>)" "\<And>e. res \<noteq> X_Failed e"
    "sv_files sv' = (sv_files sv)((user, name) := None)"
proof -
  obtain c where c: "wait_for_connection cl = Some c" "in_session user token sv c" using j by (auto simp: joined_def)
  obtain res c' os' where ex: "remove_exchange name origin c (ct_os cl) = (res, c', os')" by (metis prod_cases3)
  have "serving sv" "is_primary (sv_cluster sv)" using j by (simp_all add: joined_def)
  from remove_exchange_session [OF this valid c(2) ex] obtain sv'
    where u: "os' = ct_os cl" "in_session user token sv' c'" "keeps_serving sv sv'"
    "sv_files sv' = (sv_files sv)((user, name) := None)"
    "res = Inr (X_Ok ()) \<or> (\<exists>e. res = Inr (X_Rejected e)) \<and> sv_files sv (user, name) = None" by blast
  then obtain r where r: "res = Inr r" "\<And>e. r \<noteq> X_Failed e" by blast
  have "small (fst v)" if "sv_files sv' k = Some v" for k v
    using u(4) that joinedD(5) [OF j, of k v] by (cases "k = (user, name)") auto
  from joined_cmd [OF j u(2,3) this] transact_ok [OF c(1), of "remove_exchange name origin", OF ex [unfolded r(1)] r(2)]
  show thesis
    using that [of r c' sv'] u(1,4) r(2) by (auto simp: remove_remote_def)
qed

lemma download_joined:
  assumes j: "joined user token sv cl" and valid: "is_valid_username user" "is_valid_path name"
  obtains res cl' where "download name (sync_dir cl) cl = (res, cl')" "joined user token sv cl'" "touches name cl cl'"
    "file_at (ct_os cl') (sync_node cl name) = file_at (ct_os cl) (sync_node cl name)"
    "(\<exists>e. res = X_Rejected e) \<or>
     (\<exists>got temp bs m. res = X_Ok (got, temp) \<and> sv_files sv (user, name) = Some (bs, m) \<and> temp_file cl' temp bs)"
proof -
  obtain c where c: "wait_for_connection cl = Some c" "in_session user token sv c" using j by (auto simp: joined_def)
  obtain res c' os' where ex: "download_exchange name (sync_dir cl) c (ct_os cl) = (res, c', os')" by (metis prod_cases3)
  have j': "client_ok cl" "is_primary (sv_cluster sv)" "cut_at (sv_os sv) = None"
    "\<And>v. sv_files sv (user, name) = Some v \<Longrightarrow> small (fst v)"
    using joinedD [OF j] by (simp_all add: serving_def)
  note wf = client_ok_wf [OF j'(1)]
  from download_exchange_session [OF j'(2) valid j'(3,4) c(2) wf ex] have d: "in_session user token sv c'"
    "case sv_files sv (user, name) of
       None \<Rightarrow> res = Inr (X_Rejected ''no such file on the server'') \<and> os' = ct_os cl
     | Some (bs, m) \<Rightarrow>
         (\<exists>temp t. res = Inr (X_Ok ((announced name bs m)\<lparr>fi_hash := fnv_hash bs\<rparr>, temp)) \<and>
            file_at os' (resolve temp) = Some (bs, t)) \<or>
         res = Inr (X_Rejected (''the download of '' @ name @ '' was not completed''))" by blast+
  then obtain r where r: "res = Inr r" "\<And>e. r \<noteq> X_Failed e" by (auto split: option.splits)
  let ?cl = "cl\<lparr>ct_os := os', ct_cmd := Some c'\<rparr>"
  have tr: "download name (sync_dir cl) cl = (r, ?cl)"
    unfolding download_def by (rule transact_ok [OF c(1), of "download_exchange name (sync_dir cl)", OF ex [unfolded r(1)] r(2)])
  have own_temp: "own_node cl (resolve (fst (make_temp_path (sync_dir cl) os)))" for os
    by (auto simp: own_node_def make_temp_path_eq resolve_join_name temp_name_good) (simp add: temp_name_def)
  have o: "only (own_node cl) (ct_os cl) os'" by (rule only.download_exchange [where P = "own_node cl", OF wf own_temp ex])
  have "keeps_env (ct_os cl) os'" by (rule env.download_exchange [OF wf TrueI ex])
  then have t: "touches name cl ?cl"
    using download_stays [of cl name] tr only_file [OF o] by (auto simp: touches_def keeps_env_def)
  have at: "file_at (ct_os ?cl) (sync_node cl name) = file_at (ct_os cl) (sync_node cl name)"
    using only_file [OF o sync_node_not_own [OF valid(2)]] by simp
  have keeps: "keeps_serving sv sv" using j by (simp add: joined_def keeps_serving_def)
  have small: "small bs" if "\<not> own_node cl q" "file_at os' q = Some (bs, u)" for q bs u
    using joinedD(6) [OF j that(1)] that(2) only_file [OF o that(1)] by simp
  have "client_ok ?cl" using touches_ok [OF t j'(1)] .
  then have "joined user token sv ?cl"
    using j d(1) small t by (auto simp: joined_def touches_def same_env_def own_node_def wait_for_connection_def split: if_splits)
  moreover have "(\<exists>e. r = X_Rejected e) \<or>
     (\<exists>got temp bs m. r = X_Ok (got, temp) \<and> sv_files sv (user, name) = Some (bs, m) \<and> temp_file ?cl temp bs)"
  proof (cases r)
    case (X_Ok x)
    obtain got temp where x: "x = (got, temp)" by (cases x)
    with download_exchange_temp ex r(1) X_Ok have "temp = fst (make_temp_path (sync_dir cl) (ct_os cl))" by blast
    then have "own_node ?cl (resolve temp)" using own_temp by (simp add: own_node_def)
    then show ?thesis using d(2) r(1) X_Ok x by (auto simp: temp_file_def split: option.splits)
  qed (use r(2) in auto)
  ultimately show thesis using that tr t at by blast
qed

section \<open>One name\<close>

text \<open>What the hashes and sizes stand for, on the two sides.\<close>

definition bytes_key :: "string \<Rightarrow> u64 \<times> u64" where
  "bytes_key bs = (fnv_hash bs, of_nat (length bs))"

definition local_key :: "'q client \<Rightarrow> string \<Rightarrow> (u64 \<times> u64) option" where
  "local_key cl name = map_option (\<lambda>v. bytes_key (fst v)) (file_at (ct_os cl) (sync_node cl name))"

definition remote_key :: "string \<Rightarrow> ('p, 'q) server \<Rightarrow> string \<Rightarrow> (u64 \<times> u64) option" where
  "remote_key user sv name = map_option (\<lambda>v. bytes_key (fst v)) (sv_files sv (user, name))"

lemma decide_facts:
  "decide here there base = Keep_same \<Longrightarrow> map_option content_key here = map_option content_key there \<and> here \<noteq> None"
  "decide here there base = Forget \<Longrightarrow> here = None \<and> there = None"
  "decide here there base = Push_file \<Longrightarrow> here \<noteq> None"
  "decide here there base = Push_deletion \<Longrightarrow> here = None"
  "decide here there base = Pull_file \<Longrightarrow> there \<noteq> None"
  "decide here there base = Delete_here \<Longrightarrow> here \<noteq> None \<and> there = None"
  by (auto simp: decide_def Let_def same_content_key split: option.splits if_splits)

text \<open>A change of the saved state or of the output only.\<close>

lemma joined_plain:
  assumes j: "joined user token sv cl" and s: "stays cl cl'" "ct_os cl' = ct_os cl" "set (ct_output cl) \<subseteq> set (ct_output cl')"
    and w: "wait_for_connection cl' = wait_for_connection cl"
  shows "joined user token sv cl'" "touches name cl cl'"
proof -
  show t: "touches name cl cl'" for name by (rule touches_plain [OF s])
  have "is_valid_path ''a''" by code_simp
  then show "joined user token sv cl'"
    by (intro joined_touches [OF j t w]) (use joinedD(6) [OF j sync_node_not_own] s(2) in simp_all)
qed

lemma joined_set:
  "joined user token sv cl \<Longrightarrow> is_valid_path (fi_name f) \<Longrightarrow> joined user token sv (on_state (state_set f) cl)"
  "joined user token sv cl \<Longrightarrow> joined user token sv (on_state (state_erase name) cl)"
  "joined user token sv cl \<Longrightarrow> joined user token sv (say txt cl)"
  by (rule joined_plain(1), assumption, simp add: stays_set, simp add: on_state_def say_def, force simp: on_state_def say_def, simp add: waits)+

lemma touches_cmd:
  "stays cl (cl\<lparr>ct_cmd := Some c\<rparr>)" "touches name cl (cl\<lparr>ct_cmd := Some c\<rparr>)"
  by (simp_all add: touches_def)

definition settled :: "string \<Rightarrow> string \<Rightarrow> ('p, 'q) server \<Rightarrow> 'c client \<Rightarrow> unit outcome \<Rightarrow> bool" where
  "settled user name sv cl res \<longleftrightarrow>
     local_key cl name = remote_key user sv name \<or> (\<exists>e. res = X_Rejected e) \<or> could_not_write name cl \<in> set (ct_output cl)"

definition agreeing :: "string \<Rightarrow> string \<Rightarrow> ('p, 'q) server \<Rightarrow> 'c client \<Rightarrow> file_info option \<Rightarrow> file_info option \<Rightarrow> bool" where
  "agreeing user name sv cl here there \<longleftrightarrow>
     map_option content_key here = local_key cl name \<and> map_option content_key there = remote_key user sv name"

lemma reconcile_push:
  assumes j: "joined user token sv cl" and valid: "is_valid_username user" "is_valid_path name"
    and here: "here = Some f" "fi_name f = name" and at: "file_at (ct_os cl) (sync_node cl name) \<noteq> None"
    and dec: "decide here there (state_get name (ct_state cl)) = Push_file"
    and one: "reconcile_one name here there counts cl = Some (res, counts', cl')"
  shows "\<exists>sv'. joined user token sv' cl' \<and> touches name cl cl' \<and> (\<forall>e. res \<noteq> X_Failed e) \<and>
    (\<forall>k. k \<noteq> (user, name) \<longrightarrow> sv_files sv' k = sv_files sv k) \<and> settled user name sv' cl' res"
proof -
  obtain bs t where fa: "file_at (ct_os cl) (sync_node cl name) = Some (bs, t)" using at by auto
  obtain r c sv' where up: "upload (join_path (sync_dir cl) name) name Origin_Sync cl = (r, cl\<lparr>ct_cmd := Some c\<rparr>)"
    "joined user token sv' (cl\<lparr>ct_cmd := Some c\<rparr>)"
    "r = X_Ok () \<and> (\<exists>m. sv_files sv' = (sv_files sv)((user, name) \<mapsto> (bs, m))) \<or>
     (\<exists>e. r = X_Rejected e) \<and> sv_files sv' = sv_files sv"
    using upload_joined [OF j valid fa] by blast
  let ?cl = "cl\<lparr>ct_cmd := Some c\<rparr>"
  from up(3) show ?thesis
  proof (elim disjE conjE exE)
    fix e assume r: "r = X_Rejected e" "sv_files sv' = sv_files sv"
    then have "cl' = ?cl" "res = X_Rejected e" using one dec up(1) by (simp_all add: reconcile_one_def)
    with up(2) r(2) show ?thesis by (intro exI [of _ sv']) (simp add: touches_cmd settled_def)
  next
    fix m assume r: "r = X_Ok ()" and m: "sv_files sv' = (sv_files sv)((user, name) \<mapsto> (bs, m))"
    then have cl': "cl' = on_state (state_set f) ?cl" "res = X_Ok ()"
      using one dec up(1) here(1) by (simp_all add: reconcile_one_def)
    have fv: "is_valid_path (fi_name f)" using here(2) valid(2) by simp
    have "joined user token sv' cl'" unfolding cl'(1) by (rule joined_set(1) [OF up(2) fv])
    moreover have "touches name cl cl'"
      using touches_plain [OF stays_trans [OF touches_cmd(1) stays_set [OF fv]]] by (simp add: cl'(1) on_state_def)
    moreover have "local_key cl' name = remote_key user sv' name"
      using fa m by (simp add: local_key_def remote_key_def cl'(1) on_state_def)
    ultimately show ?thesis using m cl'(2) by (intro exI [of _ sv']) (simp add: settled_def)
  qed
qed

lemma reconcile_pull:
  assumes j: "joined user token sv cl" and valid: "is_valid_username user" "is_valid_path name"
    and dec: "decide here there (state_get name (ct_state cl)) = Pull_file"
    and one: "reconcile_one name here there counts cl = Some (res, counts', cl')"
  shows "joined user token sv cl' \<and> touches name cl cl' \<and> (\<forall>e. res \<noteq> X_Failed e) \<and> settled user name sv cl' res"
proof -
  obtain r cl1 where dl: "download name (sync_dir cl) cl = (r, cl1)" "joined user token sv cl1" "touches name cl cl1"
    "file_at (ct_os cl1) (sync_node cl name) = file_at (ct_os cl) (sync_node cl name)"
    "(\<exists>e. r = X_Rejected e) \<or>
     (\<exists>got temp bs m. r = X_Ok (got, temp) \<and> sv_files sv (user, name) = Some (bs, m) \<and> temp_file cl1 temp bs)"
    using download_joined [OF j valid] by blast
  from dl(5) show ?thesis
  proof (elim disjE exE conjE)
    fix e assume "r = X_Rejected e"
    with one dec dl(1-3) show ?thesis by (auto simp: reconcile_one_def settled_def)
  next
    fix got temp bs m
    assume r: "r = X_Ok (got, temp)" and there: "sv_files sv (user, name) = Some (bs, m)" and temp: "temp_file cl1 temp bs"
    have inst: "install temp name got cl1 = Some cl'" and res: "res = X_Ok ()"
      using one dec dl(1) r by (auto simp: reconcile_one_def split: option.splits)
    note opts = touches_options [OF dl(3)]
    note i = install_cases [OF joinedD(1) [OF dl(2)] valid(2) temp inst]
    have t: "touches name cl cl'" by (rule touches_trans [OF dl(3) i(1)]) (simp add: dl(4))
    have old: "small x" if "file_at (ct_os cl1) (sync_node cl1 name) = Some (x, u)" for x u
      by (rule joinedD(6) [OF dl(2) sync_node_not_own [OF valid(2)] that])
    have "small bs" using joinedD(5) [OF dl(2) there] by simp
    with i(2) old have "small x" if "file_at (ct_os cl') (sync_node cl1 name) = Some (x, u)" for x u
      using that by (metis insertE option.inject option.simps(3) prod.inject singletonD)
    with joined_touches [OF dl(2) i(1) install_waits [OF inst] _ valid(2)] have "joined user token sv cl'" by blast
    moreover have "local_key cl' name = remote_key user sv name \<or> could_not_write name cl' \<in> set (ct_output cl')"
      using i(2) there opts touches_options [OF t] could_not_write_options [OF touches_options [OF i(1)], of name]
      by (auto simp: local_key_def remote_key_def)
    ultimately show ?thesis using t res by (auto simp: settled_def)
  qed
qed

text \<open>
  A step of the loop, whatever it decides. It is right about the file when the two entries that
  it compares are (\<open>agreeing\<close>).
\<close>

lemma reconcile_step:
  assumes j: "joined user token sv cl" and valid: "is_valid_username user" "is_valid_path name"
    and here: "\<And>f. here = Some f \<Longrightarrow> fi_name f = name \<and> file_at (ct_os cl) (sync_node cl name) \<noteq> None"
    and one: "reconcile_one name here there counts cl = Some (res, counts', cl')"
  shows "\<exists>sv'. joined user token sv' cl' \<and> touches name cl cl' \<and> (\<forall>e. res \<noteq> X_Failed e) \<and>
    (\<forall>k. k \<noteq> (user, name) \<longrightarrow> sv_files sv' k = sv_files sv k) \<and>
    (agreeing user name sv cl here there \<longrightarrow> settled user name sv' cl' res)"
proof (cases "decide here there (state_get name (ct_state cl))")
  case Push_file
  then obtain f where f: "here = Some f" using decide_facts(3) by blast
  from reconcile_push [OF j valid f _ _ Push_file one] here [OF f] show ?thesis by blast
next
  case Pull_file
  from reconcile_pull [OF j valid Pull_file one] show ?thesis by blast
next
  case Keep_same
  then obtain f where f: "here = Some f" "map_option content_key here = map_option content_key there" using decide_facts(1) by blast
  then have cl': "cl' = on_state (state_set f) cl" "res = X_Ok ()" using one Keep_same by (simp_all add: reconcile_one_def)
  have fv: "is_valid_path (fi_name f)" using here [OF f(1)] valid(2) by simp
  have "touches name cl cl'" unfolding cl'(1) by (rule touches_plain [OF stays_set [OF fv]]) (simp_all add: on_state_def)
  moreover have "agreeing user name sv cl here there \<longrightarrow> settled user name sv cl' res"
    using f(2) by (auto simp: agreeing_def settled_def local_key_def cl'(1) on_state_def)
  ultimately show ?thesis using joined_set(1) [OF j fv] cl' by (intro exI [of _ sv]) simp
next
  case Forget
  note none = decide_facts(2) [OF Forget]
  have cl': "cl' = on_state (state_erase name) cl" "res = X_Ok ()" using one Forget by (simp_all add: reconcile_one_def)
  have "touches name cl cl'" unfolding cl'(1) by (rule touches_plain [OF stays_erase]) (simp_all add: on_state_def)
  moreover have "agreeing user name sv cl here there \<longrightarrow> settled user name sv cl' res"
    using none by (simp add: agreeing_def settled_def local_key_def cl'(1) on_state_def)
  ultimately show ?thesis using joined_set(2) [OF j] cl' by (intro exI [of _ sv]) simp
next
  case Delete_here
  from decide_facts(6) [OF this] obtain f where f: "here = Some f" "there = None" by blast
  have cl': "cl' = delete_here name cl" "res = X_Ok ()" using one Delete_here by (simp_all add: reconcile_one_def)
  from here [OF f(1)] have "file_at (ct_os cl) (sync_node cl name) \<noteq> None" by simp
  note d = delete_here_effect [OF joinedD(1) [OF j] valid(2) this, folded cl'(1)]
  have "joined user token sv cl'"
    by (rule joined_touches [OF j d(1) _ _ valid(2)]) (simp_all add: d(2), simp add: cl'(1) delete_here_waits)
  moreover have "agreeing user name sv cl here there \<longrightarrow> settled user name sv cl' res"
    using f(2) d(2) touches_options [OF d(1)] by (simp add: agreeing_def settled_def local_key_def)
  ultimately show ?thesis using d(1) cl'(2) by (intro exI [of _ sv]) simp
next
  case Push_deletion
  note none = decide_facts(4) [OF Push_deletion]
  obtain r c sv' where rm: "remove_remote name Origin_Sync cl = (r, cl\<lparr>ct_cmd := Some c\<rparr>)"
    "joined user token sv' (cl\<lparr>ct_cmd := Some c\<rparr>)" "\<And>e. r \<noteq> X_Failed e" "sv_files sv' = (sv_files sv)((user, name) := None)"
    using remove_joined [OF j valid] by blast
  let ?cl = "cl\<lparr>ct_cmd := Some c\<rparr>"
  have "cl' = on_state (state_erase name) ?cl \<and> res = r"
  proof (cases r)
    case (X_Failed e)
    with rm(3) show ?thesis by blast
  qed (use one Push_deletion rm(1) in \<open>simp_all add: reconcile_one_def\<close>)
  then have cl': "cl' = on_state (state_erase name) ?cl" "res = r" by simp_all
  have t: "touches name cl cl'"
    unfolding cl'(1) by (rule touches_plain [OF stays_trans [OF touches_cmd(1) stays_erase]]) (simp_all add: on_state_def)
  have "agreeing user name sv cl here there \<longrightarrow> settled user name sv' cl' res"
    using none rm(4) by (simp add: agreeing_def settled_def local_key_def remote_key_def cl'(1) on_state_def)
  with t rm(3,4) joined_set(2) [OF rm(2)] show ?thesis
    unfolding cl' by (intro exI [of _ sv']) simp
qed

section \<open>All names\<close>

text \<open>What is reported of a file that could not be brought to agreement.\<close>

definition told :: "string \<Rightarrow> 'q client \<Rightarrow> bool" where
  "told name cl \<longleftrightarrow> could_not_write name cl \<in> set (ct_output cl) \<or>
     (\<exists>e. Said (''Could not sync '' @ name @ '': '' @ e) \<in> set (ct_output cl))"

abbreviation agreed :: "string \<Rightarrow> ('p, 'q) server \<Rightarrow> 'c client \<Rightarrow> string \<Rightarrow> bool" where
  "agreed user sv cl name \<equiv> local_key cl name = remote_key user sv name \<or> told name cl"

text \<open>The steps for a list of names, taken together.\<close>

definition sweeps :: "string list \<Rightarrow> 'q client \<Rightarrow> 'q client \<Rightarrow> bool" where
  "sweeps names cl cl' \<longleftrightarrow> ct_options cl' = ct_options cl \<and> ct_stamp cl' = ct_stamp cl \<and> set (ct_output cl) \<subseteq> set (ct_output cl') \<and>
     (\<forall>n. is_valid_path n \<and> n \<notin> set names \<longrightarrow>
        file_at (ct_os cl') (sync_node cl n) = file_at (ct_os cl) (sync_node cl n) \<or>
        file_at (ct_os cl) (sync_node cl n) = None \<and> is_copy cl (sync_node cl n))"

lemma sync_node_inj: "sync_node cl n = sync_node cl m \<Longrightarrow> n = m"
  by (simp add: split_on_inj)

lemma touches_sweeps:
  assumes "touches name cl cl'"
  shows "sweeps [name] cl cl'"
proof -
  have "sync_node cl n \<noteq> sync_node cl name \<and> \<not> own_node cl (sync_node cl n)" if "is_valid_path n" "n \<notin> set [name]" for n
    using that sync_node_not_own [of n cl] sync_node_inj [of cl n name] by auto
  with assms show ?thesis unfolding sweeps_def touches_def stays_def by blast
qed

lemma sweeps_refl [simp]: "sweeps [] cl cl"
  by (simp add: sweeps_def)

lemma sweeps_trans:
  assumes ab: "sweeps ns a b" and bc: "sweeps ms b c"
  shows "sweeps (ns @ ms) a c"
proof -
  have opts: "ct_options b = ct_options a" "ct_stamp b = ct_stamp a" using ab by (simp_all add: sweeps_def)
  have copy: "is_copy b = is_copy a" by (simp add: fun_eq_iff is_copy_def opts)
  have "file_at (ct_os c) (sync_node a n) = file_at (ct_os a) (sync_node a n) \<or>
        file_at (ct_os a) (sync_node a n) = None \<and> is_copy a (sync_node a n)"
    if "is_valid_path n" "n \<notin> set (ns @ ms)" for n
    using ab bc that unfolding sweeps_def opts copy by (metis Un_iff set_append)
  with ab bc show ?thesis unfolding sweeps_def by auto
qed

lemma told_mono: "told name cl \<Longrightarrow> ct_options cl' = ct_options cl \<Longrightarrow> set (ct_output cl) \<subseteq> set (ct_output cl') \<Longrightarrow> told name cl'"
  unfolding told_def using could_not_write_options [of cl' cl name] by auto

lemma sweeps_file:
  assumes "sweeps names cl cl'" "is_valid_path n" "n \<notin> set names" "file_at (ct_os cl) (sync_node cl n) \<noteq> None \<or> \<not> is_copy cl (sync_node cl n)"
  shows "file_at (ct_os cl') (sync_node cl n) = file_at (ct_os cl) (sync_node cl n)"
  using assms unfolding sweeps_def by metis

lemma sweeps_sync_node: "sweeps names cl cl' \<Longrightarrow> sync_node cl' n = sync_node cl n"
  by (simp add: sweeps_def)

lemma sweeps_is_copy: "sweeps names cl cl' \<Longrightarrow> is_copy cl' = is_copy cl"
  by (simp add: sweeps_def fun_eq_iff is_copy_def)

lemma sweeps_local_key:
  assumes "sweeps names cl cl'" "is_valid_path n" "n \<notin> set names" "\<not> is_copy cl (sync_node cl n)"
  shows "local_key cl' n = local_key cl n"
  using sweeps_file [OF assms(1-3)] assms(4) by (simp add: local_key_def sweeps_sync_node [OF assms(1)])

text \<open>A step of the loop, with what it reports when it was refused.\<close>

lemma reconcile_loop_step:
  assumes j: "joined user token sv cl" and valid: "is_valid_username user" "is_valid_path n"
    and here: "\<And>f. local n = Some f \<Longrightarrow> fi_name f = n \<and> file_at (ct_os cl) (sync_node cl n) \<noteq> None"
  obtains counts1 cl1 sv1 where
    "reconcile_loop local remote (n # names) counts cl = reconcile_loop local remote names counts1 cl1"
    "joined user token sv1 cl1" "sweeps [n] cl cl1" "\<And>k. k \<noteq> (user, n) \<Longrightarrow> sv_files sv1 k = sv_files sv k"
    "agreeing user n sv cl (local n) (remote n) \<Longrightarrow> agreed user sv1 cl1 n"
proof -
  obtain res counts1 cl1 where one: "reconcile_one n (local n) (remote n) counts cl = Some (res, counts1, cl1)"
    using reconcile_one_total [OF valid(2) joinedD(1) [OF j], of "local n" "remote n" counts] by auto
  obtain sv1 where s: "joined user token sv1 cl1" "touches n cl cl1" "\<And>e. res \<noteq> X_Failed e"
    "\<And>k. k \<noteq> (user, n) \<Longrightarrow> sv_files sv1 k = sv_files sv k"
    "agreeing user n sv cl (local n) (remote n) \<Longrightarrow> settled user n sv1 cl1 res"
    using reconcile_step [OF j valid here one] by blast
  note sw = touches_sweeps [OF s(2)]
  show thesis
  proof (cases res)
    case (X_Ok u)
    then have "reconcile_loop local remote (n # names) counts cl = reconcile_loop local remote names counts1 cl1"
      using one by simp
    moreover have "agreeing user n sv cl (local n) (remote n) \<Longrightarrow> agreed user sv1 cl1 n"
      using s(5) X_Ok by (auto simp: settled_def told_def)
    ultimately show thesis using that s(1,4) sw by blast
  next
    case (X_Rejected e)
    let ?cl = "say (''Could not sync '' @ n @ '': '' @ e) cl1"
    have "reconcile_loop local remote (n # names) counts cl = reconcile_loop local remote names counts1 ?cl"
      using one X_Rejected by simp
    moreover have "sweeps [n] cl ?cl" using sw unfolding sweeps_def by (auto simp: say_def)
    moreover have "told n ?cl" unfolding told_def by (auto simp: say_def)
    ultimately show thesis using that joined_set(3) [OF s(1)] s(4) by blast
  qed (use s(3) in blast)
qed

lemma reconcile_loop_settles:
  assumes user: "is_valid_username user" and named: "\<And>n f. local n = Some f \<Longrightarrow> fi_name f = n"
  shows "\<lbrakk>joined user token sv cl; \<forall>n \<in> set names. is_valid_path n; distinct names;
      \<forall>n \<in> set names. local n \<noteq> None \<longrightarrow> file_at (ct_os cl) (sync_node cl n) \<noteq> None\<rbrakk> \<Longrightarrow>
    \<exists>counts' cl' sv'. reconcile_loop local remote names counts cl = Some (True, counts', cl') \<and>
      joined user token sv' cl' \<and> sweeps names cl cl' \<and>
      (\<forall>v n. v \<noteq> user \<or> n \<notin> set names \<longrightarrow> sv_files sv' (v, n) = sv_files sv (v, n)) \<and>
      (\<forall>n \<in> set names. \<not> is_copy cl (sync_node cl n) \<longrightarrow> agreeing user n sv cl (local n) (remote n) \<longrightarrow> agreed user sv' cl' n)"
proof (induction names arbitrary: counts cl sv)
  case (Cons n names)
  have n: "is_valid_path n" "n \<notin> set names" "distinct names" "\<forall>m \<in> set names. is_valid_path m" using Cons.prems(2,3) by auto
  have here: "fi_name f = n \<and> file_at (ct_os cl) (sync_node cl n) \<noteq> None" if "local n = Some f" for f
    using named [OF that] Cons.prems(4) that by simp
  obtain counts1 cl1 sv1 where st:
    "reconcile_loop local remote (n # names) counts cl = reconcile_loop local remote names counts1 cl1"
    "joined user token sv1 cl1" "sweeps [n] cl cl1" "\<And>k. k \<noteq> (user, n) \<Longrightarrow> sv_files sv1 k = sv_files sv k"
    "agreeing user n sv cl (local n) (remote n) \<Longrightarrow> agreed user sv1 cl1 n"
    using reconcile_loop_step [of user token sv cl n local remote names counts, OF Cons.prems(1) user n(1) here] by blast
  note node = sweeps_sync_node [OF st(3)] and copy = sweeps_is_copy [OF st(3)]
  have "\<forall>m \<in> set names. local m \<noteq> None \<longrightarrow> file_at (ct_os cl1) (sync_node cl1 m) \<noteq> None"
    using sweeps_file [OF st(3)] Cons.prems(2-4) unfolding node by fastforce
  from Cons.IH [OF st(2) n(4,3) this, of counts1] obtain counts' cl' sv' where r:
    "reconcile_loop local remote names counts1 cl1 = Some (True, counts', cl')" "joined user token sv' cl'" "sweeps names cl1 cl'"
    "\<And>v m. v \<noteq> user \<or> m \<notin> set names \<Longrightarrow> sv_files sv' (v, m) = sv_files sv1 (v, m)"
    "\<And>m. m \<in> set names \<Longrightarrow> \<not> is_copy cl1 (sync_node cl1 m) \<Longrightarrow> agreeing user m sv1 cl1 (local m) (remote m) \<Longrightarrow> agreed user sv' cl' m"
    by blast
  have "agreed user sv' cl' m"
    if m: "m \<in> set (n # names)" "\<not> is_copy cl (sync_node cl m)" "agreeing user m sv cl (local m) (remote m)" for m
  proof (cases "m = n")
    case True
    have "local_key cl' n = local_key cl1 n"
      using sweeps_local_key [OF r(3) n(1,2)] m(2) unfolding node copy True by blast
    moreover have "remote_key user sv' n = remote_key user sv1 n" using r(4) n(2) by (simp add: remote_key_def)
    moreover have "told n cl1 \<Longrightarrow> told n cl'" using r(3) by (auto simp: sweeps_def intro: told_mono)
    ultimately show ?thesis using st(5) m(3) True by auto
  next
    case False
    then have "m \<in> set names" "is_valid_path m" "m \<notin> set [n]" using m(1) n(4) by auto
    moreover have "local_key cl1 m = local_key cl m" by (rule sweeps_local_key [OF st(3) calculation(2,3) m(2)])
    moreover have "remote_key user sv1 m = remote_key user sv m" using st(4) False by (simp add: remote_key_def)
    ultimately show ?thesis using r(5) [of m] m(2,3) unfolding node copy agreeing_def by simp
  qed
  moreover have "sweeps (n # names) cl cl'" using sweeps_trans [OF st(3) r(3)] by simp
  moreover have "sv_files sv' (v, m) = sv_files sv (v, m)" if "v \<noteq> user \<or> m \<notin> set (n # names)" for v m
    using r(4) [of v m] st(4) [of "(v, m)"] that by auto
  ultimately show ?case using st(1) r(1,2) by (intro exI [of _ counts'] exI [of _ cl'] exI [of _ sv']) simp
next
  case Nil
  then show ?case by (intro exI [of _ counts] exI [of _ cl] exI [of _ sv]) simp
qed

section \<open>The two maps\<close>

text \<open>
  The saved records are trusted for the hash of a file that has kept its size and its time: the
  client relies on every edit changing one of the two.
\<close>

definition index_ok :: "'q client \<Rightarrow> bool" where
  "index_ok cl \<longleftrightarrow> (\<forall>name base bs t.
     state_get name (ct_state cl) = Some base \<longrightarrow> file_at (ct_os cl) (sync_node cl name) = Some (bs, t) \<longrightarrow>
     fi_size base = of_nat (length bs) \<longrightarrow> fi_mtime base = mtime_of t \<longrightarrow> fi_hash base = fnv_hash bs)"

text \<open>A map that is filled from a list, keyed by the names.\<close>

abbreviation fill_map :: "(file_info \<Rightarrow> file_info option) \<Rightarrow> file_info list \<Rightarrow> (string, file_info) omap" where
  "fill_map g fs \<equiv> foldl (\<lambda>m f. case g f of None \<Rightarrow> m | Some x \<Rightarrow> omap_put (fi_name x) x m) [] fs"

lemma fill_map_wf: "omap_wf (fill_map g fs)"
  by (induction fs rule: rev_induct) (auto intro: omap_wf_put split: option.split)

lemma fill_map_Some:
  "map_of (fill_map g fs) n = Some x \<Longrightarrow> fi_name x = n \<and> (\<exists>f \<in> set fs. g f = Some x)"
proof (induction fs rule: rev_induct)
  case (snoc f fs)
  then show ?case by (auto simp: omap_put_lookup fill_map_wf split: option.splits if_splits)
qed simp

lemma fill_map_None:
  "map_of (fill_map g fs) n = None \<Longrightarrow> f \<in> set fs \<Longrightarrow> g f = Some x \<Longrightarrow> fi_name x \<noteq> n"
proof (induction fs rule: rev_induct)
  case (snoc f' fs)
  then show ?case by (auto simp: omap_put_lookup fill_map_wf split: option.splits if_splits)
qed simp

lemma fill_hash_key:
  assumes "index_ok cl" "cut_at (ct_os cl) = None" "is_valid_path (fi_name f)"
    and "file_at (ct_os cl) (sync_node cl (fi_name f)) = Some (bs, t)" "small bs"
    and "fi_size f = of_nat (length bs)" "fi_mtime f = mtime_of t"
  shows "fill_hash f cl = Some (f\<lparr>fi_hash := fnv_hash bs\<rparr>)"
proof -
  let ?path = "join_path (sync_dir cl) (fi_name f)"
  have path: "?path \<noteq> []" "resolve ?path = sync_node cl (fi_name f)"
    using valid_path_length [OF assms(3)] by (simp_all add: resolve_join_valid [OF assms(3)] join_path_not_Nil)
  have "hash_file ?path (ct_os cl) = Some (fnv_hash bs)"
    by (rule hash_file_ok [OF path(1) _ assms(5,2)]) (unfold path(2), rule assms(4))
  moreover have "fi_hash base = fnv_hash bs"
    if "state_get (fi_name f) (ct_state cl) = Some base" "fi_size base = fi_size f" "fi_mtime base = fi_mtime f" for base
    using assms(1,4) that unfolding index_ok_def assms(6,7) by blast
  ultimately show ?thesis by (auto simp: fill_hash_def split: option.split)
qed

lemma local_map_exact:
  assumes j: "joined user token sv cl" and index: "index_ok cl" and dir: "sync_dir cl \<noteq> []"
  shows "map_of (local_map cl) n = Some f \<Longrightarrow> fi_name f = n \<and> file_at (ct_os cl) (sync_node cl n) \<noteq> None"
    "is_valid_path n \<Longrightarrow> map_option content_key (map_of (local_map cl) n) = local_key cl n"
proof -
  note jd = joinedD [OF j]
  let ?fs = "list_tree (sync_dir cl) (ct_os cl)"
  have m: "local_map cl = fill_map (\<lambda>f. fill_hash f cl) ?fs" by (simp add: local_map_def)
  note iff = list_tree_iff [OF client_ok_wf [OF jd(1)] dir]
  have filled: "\<exists>bs t. file_at (ct_os cl) (sync_node cl (fi_name g)) = Some (bs, t) \<and>
      fill_hash g cl = Some (g\<lparr>fi_hash := fnv_hash bs\<rparr>) \<and> fi_size g = of_nat (length bs)" if "g \<in> set ?fs" for g
  proof -
    obtain bs t where g: "is_valid_path (fi_name g)" "file_at (ct_os cl) (sync_node cl (fi_name g)) = Some (bs, t)"
      "fi_size g = of_nat (length bs)" "fi_mtime g = mtime_of t"
      using \<open>g \<in> set ?fs\<close> unfolding iff listed_def by (auto split: option.splits)
    have "small bs" by (rule jd(6) [OF sync_node_not_own [OF g(1)] g(2)])
    from fill_hash_key [OF index jd(2) g(1,2) this g(3,4)] g(2,3) show ?thesis by blast
  qed
  have found: "fi_name f = n \<and> (\<exists>bs t. file_at (ct_os cl) (sync_node cl n) = Some (bs, t) \<and> content_key f = bytes_key bs)"
    if some: "map_of (local_map cl) n = Some f" for f
  proof -
    from fill_map_Some [OF some [unfolded m]] obtain g where g: "fi_name f = n" "g \<in> set ?fs" "fill_hash g cl = Some f" by blast
    from filled [OF g(2)] obtain bs t where "file_at (ct_os cl) (sync_node cl (fi_name g)) = Some (bs, t)"
      "f = g\<lparr>fi_hash := fnv_hash bs\<rparr>" "fi_size g = of_nat (length bs)" using g(3) by auto
    with g(1) show ?thesis by (auto simp: content_key_def bytes_key_def)
  qed
  show "map_of (local_map cl) n = Some f \<Longrightarrow> fi_name f = n \<and> file_at (ct_os cl) (sync_node cl n) \<noteq> None"
    using found by fastforce
  show "map_option content_key (map_of (local_map cl) n) = local_key cl n" if name: "is_valid_path n"
  proof (cases "map_of (local_map cl) n")
    case (Some f)
    from found [OF this] Some show ?thesis by (auto simp: local_key_def)
  next
    case None
    have "file_at (ct_os cl) (sync_node cl n) = None"
    proof (rule ccontr)
      assume "file_at (ct_os cl) (sync_node cl n) \<noteq> None"
      then obtain bs t where at: "file_at (ct_os cl) (sync_node cl n) = Some (bs, t)" by auto
      let ?g = "\<lparr>fi_name = n, fi_size = of_nat (length bs), fi_mtime = mtime_of t, fi_hash = 0\<rparr>"
      have g: "?g \<in> set ?fs" unfolding iff listed_def using name at by simp
      from filled [OF g] fill_map_None [OF None [unfolded m] g] show False by auto
    qed
    with None show ?thesis by (simp add: local_key_def)
  qed
qed

lemma remote_map_exact:
  assumes files: "set files = {info_of path v |path v. sv_files sv (user, path) = Some v}"
    and small: "\<And>k v. sv_files sv k = Some v \<Longrightarrow> small (fst v)"
  shows "map_option content_key (map_of (remote_map files) n) = remote_key user sv n"
proof -
  let ?g = "\<lambda>f. if is_valid_path (fi_name f) then Some f else None"
  have m: "remote_map files = fill_map ?g files"
    unfolding remote_map_def by (rule arg_cong [where f = "\<lambda>h. foldl h [] files"]) (auto simp: fun_eq_iff)
  show ?thesis
  proof (cases "map_of (remote_map files) n")
    case (Some f)
    with fill_map_Some [OF Some [unfolded m]] files obtain v where v: "sv_files sv (user, n) = Some v" "f = info_of n v"
      by (auto simp: info_of_def split: if_splits)
    with small [OF v(1)] Some show ?thesis
      by (simp add: remote_key_def content_key_def bytes_key_def info_of_def content_hash_small)
  next
    case None
    have "sv_files sv (user, n) = None"
    proof (rule ccontr)
      assume "sv_files sv (user, n) \<noteq> None"
      then obtain v where v: "sv_files sv (user, n) = Some v" by auto
      then have "info_of n v \<in> set files" unfolding files by blast
      moreover have "is_valid_path n" using user_files_valid [OF v] by blast
      ultimately show False using fill_map_None [OF None [unfolded m], of "info_of n v"] by (simp add: info_of_def)
    qed
    with None show ?thesis by (simp add: remote_key_def)
  qed
qed

section \<open>Reconciling\<close>

lemma list_joined:
  assumes j: "joined user token sv cl" and user: "is_valid_username user"
  obtains res c sv' where "list_remote cl = (res, cl\<lparr>ct_cmd := Some c\<rparr>)" "joined user token sv' (cl\<lparr>ct_cmd := Some c\<rparr>)"
    "sv_files sv' = sv_files sv"
    "(\<exists>files. res = X_Ok files \<and> set files = {info_of path v |path v. sv_files sv (user, path) = Some v}) \<or> (\<exists>e. res = X_Rejected e)"
proof -
  obtain c where c: "wait_for_connection cl = Some c" "in_session user token sv c" using j by (auto simp: joined_def)
  obtain res c' os' where ex: "list_exchange c (ct_os cl) = (res, c', os')" by (metis prod_cases3)
  have ok: "store_ok (sv_store sv, sv_os sv)" "cut_at (sv_os sv) = None" using joinedD(3) [OF j] by (simp_all add: serving_def)
  from list_exchange_session [OF ok joinedD(4) [OF j] user c(2) ex] obtain st where u: "os' = ct_os cl"
    "in_session user token (sv_set_files st (sv_os sv) sv) c'" "sv_files (sv_set_files st (sv_os sv) sv) = sv_files sv"
    "store_ok (st, sv_os sv)"
    "(\<exists>files. res = Inr (X_Ok files) \<and> set files = {info_of path v |path v. sv_files sv (user, path) = Some v}) \<or>
     res = Inr (X_Rejected ''too many files to list'')" unfolding Let_def by blast
  then obtain r where r: "res = Inr r" "\<And>e. r \<noteq> X_Failed e" by blast
  have keeps: "keeps_serving sv (sv_set_files st (sv_os sv) sv)"
    using joinedD(3) [OF j] u(4) by (simp add: keeps_serving_def serving_def is_primary_def)
  have "small (fst v)" if "sv_files (sv_set_files st (sv_os sv) sv) k = Some v" for k v
    using joinedD(5) [OF j] that unfolding u(3) by blast
  from joined_cmd [OF j u(2) keeps this] transact_ok [OF c(1), of list_exchange, OF ex [unfolded r(1)] r(2)]
  show thesis using that [of r c' "sv_set_files st (sv_os sv) sv"] u(1,3,5) by (auto simp: list_remote_def r(1))
qed

lemma joined_server: "joined user token sv cl \<Longrightarrow> server_after cl = Some sv"
  by (auto simp: joined_def server_after_def wait_for_connection_def in_session_def split: if_splits)

lemma joined_save:
  assumes j: "joined user token sv cl"
  shows "joined user token sv (save_state cl)" "agreed user sv2 cl n \<Longrightarrow> is_valid_path n \<Longrightarrow> agreed user sv2 (save_state cl) n"
proof -
  note ok = joinedD(1) [OF j]
  have o: "only (own_node cl) (ct_os cl) (ct_os (save_state cl))" by (rule save_state_only [OF ok])
  have at: "file_at (ct_os (save_state cl)) q = file_at (ct_os cl) q" if "\<not> own_node cl q" for q by (rule only_file [OF o that])
  have "keeps_env (ct_os cl) (ct_os (save_state cl))"
    using env.save [OF client_ok_wf [OF ok], of "ct_state cl"] by (simp add: save_state_def)
  then have t: "touches name cl (save_state cl)" for name
    using at by (simp add: touches_def keeps_env_def) (simp add: save_state_def)
  have "is_valid_path ''a''" by code_simp
  then obtain a where "is_valid_path a" by blast
  then show "joined user token sv (save_state cl)"
    by (intro joined_touches [OF j t waits(3)]) (use joinedD(6) [OF j sync_node_not_own] at [OF sync_node_not_own] in simp_all)
  show "agreed user sv2 (save_state cl) n" if "agreed user sv2 cl n" "is_valid_path n"
    using that at [OF sync_node_not_own [OF that(2)]] told_mono [of n cl "save_state cl"] by (auto simp: local_key_def save_state_def)
qed

lemma reconcile_listed:
  assumes j: "joined user token sv cl" and user: "is_valid_username user" and index: "index_ok cl" and dir: "sync_dir cl \<noteq> []"
    and files: "set files = {info_of path v |path v. sv_files sv (user, path) = Some v}"
  defines "names \<equiv> sync_names (local_map cl) (remote_map files) (ct_state cl)"
  shows "\<exists>counts' cl' sv'.
    reconcile_loop (map_of (local_map cl)) (map_of (remote_map files)) names counts cl = Some (True, counts', cl') \<and>
    joined user token sv' cl' \<and> (\<forall>v n. v \<noteq> user \<longrightarrow> sv_files sv' (v, n) = sv_files sv (v, n)) \<and>
    (\<forall>n. is_valid_path n \<and> \<not> is_copy cl (sync_node cl n) \<longrightarrow> agreed user sv' cl' n)"
proof -
  note exact = local_map_exact [OF j index dir] and rexact = remote_map_exact [OF files joinedD(5) [OF j]]
  have valid: "\<forall>n \<in> set names. is_valid_path n"
    unfolding names_def using sync_names_valid [OF joinedD(1) [OF j]] joinedD(1) [OF j] by (auto simp: client_ok_def)
  have "\<forall>n \<in> set names. map_of (local_map cl) n \<noteq> None \<longrightarrow> file_at (ct_os cl) (sync_node cl n) \<noteq> None"
    using exact(1) by blast
  moreover have "fi_name f = n" if "map_of (local_map cl) n = Some f" for n f using exact(1) [OF that] ..
  moreover have "distinct names" by (simp add: names_def sync_names_def)
  ultimately obtain counts' cl' sv' where r:
    "reconcile_loop (map_of (local_map cl)) (map_of (remote_map files)) names counts cl = Some (True, counts', cl')"
    "joined user token sv' cl'" "sweeps names cl cl'"
    "\<And>v n. v \<noteq> user \<or> n \<notin> set names \<Longrightarrow> sv_files sv' (v, n) = sv_files sv (v, n)"
    "\<And>n. n \<in> set names \<Longrightarrow> \<not> is_copy cl (sync_node cl n) \<Longrightarrow>
       agreeing user n sv cl (map_of (local_map cl) n) (map_of (remote_map files) n) \<Longrightarrow> agreed user sv' cl' n"
    using reconcile_loop_settles [OF user _ j valid, of "map_of (local_map cl)" "map_of (remote_map files)" counts] by blast
  have "agreed user sv' cl' n" if n: "is_valid_path n" "\<not> is_copy cl (sync_node cl n)" for n
  proof (cases "n \<in> set names")
    case True
    then show ?thesis using r(5) n exact(2) rexact by (simp add: agreeing_def)
  next
    case False
    then have "map_of (local_map cl) n = None" "map_of (remote_map files) n = None"
      by (auto simp: names_def sync_names_def map_of_eq_None_iff)
    with exact(2) [OF n(1)] rexact [where n = n] have "local_key cl n = None" "remote_key user sv n = None" by auto
    moreover have "local_key cl' n = local_key cl n" by (rule sweeps_local_key [OF r(3) n(1) False n(2)])
    moreover have "remote_key user sv' n = remote_key user sv n" using r(4) False by (simp add: remote_key_def)
    ultimately show ?thesis by simp
  qed
  with r(1,2,4) show ?thesis by blast
qed

text \<open>
  C4. Reconciling brings the two sides together: a client in a session of a running primary always
  gets to the end of \<open>reconcile\<close>, keeps the session, and changes no file of another user. Then,
  unless the user was told that the list of files is too long, every synced file is either on
  neither side or has the same size and content hash on both, or the user was told that it
  could not be synced or written. This leaves out the names of the conflicted copies that are
  made on the way, which are uploaded by the events that they cause, and assumes of the saved
  records only that a file with the recorded size and time has the recorded hash.
\<close>

theorem reconcile_converges:
  assumes j: "joined user token sv cl" and user: "is_valid_username user" and index: "index_ok cl" and dir: "sync_dir cl \<noteq> []"
  shows "\<exists>cl' sv'. reconcile report cl = Some (True, cl') \<and> server_after cl' = Some sv' \<and> joined user token sv' cl' \<and>
    (\<forall>v n. v \<noteq> user \<longrightarrow> sv_files sv' (v, n) = sv_files sv (v, n)) \<and>
    ((\<exists>e. Said (''Could not list the files on the server: '' @ e) \<in> set (ct_output cl')) \<or>
     (\<forall>n. is_valid_path n \<and> \<not> is_copy cl (sync_node cl n) \<longrightarrow> local_key cl' n = remote_key user sv' n \<or> told n cl'))"
proof -
  obtain res c sv1 where l: "list_remote cl = (res, cl\<lparr>ct_cmd := Some c\<rparr>)" "joined user token sv1 (cl\<lparr>ct_cmd := Some c\<rparr>)"
    "sv_files sv1 = sv_files sv"
    "(\<exists>files. res = X_Ok files \<and> set files = {info_of path v |path v. sv_files sv (user, path) = Some v}) \<or> (\<exists>e. res = X_Rejected e)"
    using list_joined [OF j user] by blast
  let ?cl = "cl\<lparr>ct_cmd := Some c\<rparr>"
  from l(4) show ?thesis
  proof (elim disjE exE conjE)
    fix e assume res: "res = X_Rejected e"
    let ?told = "say (''Could not list the files on the server: '' @ e) ?cl"
    have "\<exists>e. Said (''Could not list the files on the server: '' @ e) \<in> set (ct_output ?told)"
      by (rule exI [of _ e]) (simp add: say_def)
    moreover have "reconcile report cl = Some (True, ?told)" using l(1) res by (simp add: reconcile_def)
    moreover have "joined user token sv1 ?told" by (rule joined_set(3) [OF l(2)])
    moreover note joined_server [OF this]
    ultimately show ?thesis by (intro exI [of _ ?told] exI [of _ sv1] conjI disjI1 allI impI) (assumption | simp only: l(3))+
  next
    fix files assume res: "res = X_Ok files" and files: "set files = {info_of path v |path v. sv_files sv (user, path) = Some v}"
    have pre: "index_ok ?cl" "sync_dir ?cl \<noteq> []" "is_copy ?cl = is_copy cl"
      using index dir by (simp_all add: index_ok_def is_copy_def fun_eq_iff)
    have "set files = {info_of path v |path v. sv_files sv1 (user, path) = Some v}" using files l(3) by simp
    from reconcile_listed [OF l(2) user pre(1,2) this, of no_counts] obtain counts' cl' sv' where r:
      "reconcile_loop (map_of (local_map ?cl)) (map_of (remote_map files)) (sync_names (local_map ?cl) (remote_map files) (ct_state ?cl))
         no_counts ?cl = Some (True, counts', cl')"
      "joined user token sv' cl'" "\<And>v n. v \<noteq> user \<Longrightarrow> sv_files sv' (v, n) = sv_files sv1 (v, n)"
      "\<And>n. is_valid_path n \<Longrightarrow> \<not> is_copy ?cl (sync_node ?cl n) \<Longrightarrow> agreed user sv' cl' n" by blast
    obtain b where "reconcile report cl = Some (True, if b then say (counts_report counts') (save_state cl') else save_state cl')"
      using l(1) res r(1) by (simp add: reconcile_def Let_def)
    then obtain cl2 where cl2: "reconcile report cl = Some (True, cl2)" "cl2 = save_state cl' \<or> (\<exists>msg. cl2 = say msg (save_state cl'))"
      by (cases b) auto
    have end_ok: "joined user token sv' cl2" using cl2(2) joined_save(1) [OF r(2)] joined_set(3) by blast
    have "local_key cl2 n = remote_key user sv' n \<or> told n cl2" if n: "is_valid_path n" "\<not> is_copy cl (sync_node cl n)" for n
    proof -
      have "agreed user sv' (save_state cl') n" using joined_save(2) [OF r(2) r(4)] n pre(3) by simp
      then show ?thesis using cl2(2) told_mono [of n "save_state cl'" cl2] by (auto simp: local_key_def say_def subset_insertI)
    qed
    moreover have "\<forall>v n. v \<noteq> user \<longrightarrow> sv_files sv' (v, n) = sv_files sv (v, n)" using r(3) l(3) by simp
    moreover note cl2(1) end_ok joined_server [OF end_ok]
    ultimately show ?thesis by blast
  qed
qed

text \<open>The client of \<open>session_client\<close> with both its connections and nothing recorded.\<close>

definition joined_client :: "(((node \<times> link_phase), unit) server \<times> bool) client" where
  "joined_client = session_client\<lparr>ct_sync := Some sample_session\<rparr>"

lemma joined_client_parts:
  "ct_os joined_client = edited_disk" "sync_dir joined_client = ''s''" "state_get name (ct_state joined_client) = None"
  by (simp_all add: joined_client_def session_client_def new_client_def sample_options_def state_get_def)

lemma joined_client_ok: "client_ok joined_client"
proof -
  have disk: "wf_os edited_disk" "os_node edited_disk (resolve ''s'') = Some N_dir" "clean_dir ''s''" by code_simp+
  have "client_ok joined_client = client_ok (new_client sample_options edited_disk ''2026-10-20 14.03.07'' :: unit client)"
    by (simp add: client_ok_def joined_client_def session_client_def new_client_def)
  with disk sample_facts(3) show ?thesis by (simp add: client_ok_def new_client_def sample_options_def entries_ok_def omap_wf_def)
qed

lemma edited_disk_small: "file_at edited_disk q = Some (bs, t) \<Longrightarrow> small bs"
  by (auto simp: edited_disk_def file_at_def os_node_def split: if_splits)

lemma joined_sample: "joined ''u'' ''t'' sample_server joined_client"
proof -
  have "small_files (sv_os sample_server)"
    by (simp add: sample_server_def primary_cluster_def data_dir_def user_u_def small_files_def)
  moreover have "wait_for_connection joined_client = Some sample_session"
    using session_client_conn by (simp add: joined_client_def wait_for_connection_def split: if_splits)
  ultimately show ?thesis unfolding joined_def
    using joined_client_ok edited_disk_small sample_in_session sample_server_serving sample_server_primary(1) small_user_file
    by (auto simp: joined_client_parts edited_disk_def sample_disk_def)
qed

theorem reconcile_converges_witness:
  "\<exists>cl' sv'. reconcile True joined_client = Some (True, cl') \<and> server_after cl' = Some sv' \<and> joined ''u'' ''t'' sv' cl' \<and>
    (\<forall>v n. v \<noteq> ''u'' \<longrightarrow> sv_files sv' (v, n) = sv_files sample_server (v, n)) \<and>
    ((\<exists>e. Said (''Could not list the files on the server: '' @ e) \<in> set (ct_output cl')) \<or>
     (\<forall>n. is_valid_path n \<and> \<not> is_copy joined_client (sync_node joined_client n) \<longrightarrow>
        local_key cl' n = remote_key ''u'' sv' n \<or> told n cl'))"
proof (rule reconcile_converges [OF joined_sample])
  show "is_valid_username ''u''" by code_simp
  show "index_ok joined_client" by (simp add: index_ok_def joined_client_parts)
  show "sync_dir joined_client \<noteq> []" by (simp add: joined_client_parts)
qed

end
