(* ===== verification/Cluster_Stable.thy ===== *)
theory Cluster_Stable
  imports Backup_Link
begin

text \<open>
  What the operations of a cluster leave of a server's data. A relation between clusters that
  looks at the files and the storage only, and that survives a listing of the files (which
  fills the cache of hashes), survives joining, elections, heartbeats and the attachment of
  backups. Only what a backup receives and what a client sends can change more.
\<close>

locale cluster_stable =
  fixes R :: "'p cluster \<Rightarrow> 'p cluster \<Rightarrow> bool"
  assumes stable_trans: "R a b \<Longrightarrow> R b c \<Longrightarrow> R a c"
    and stable_same: "nd_store b = nd_store a \<Longrightarrow> nd_os b = nd_os a \<Longrightarrow> R a b"
    and stable_lookup: "R cl (cl\<lparr>nd_store := snd (local_files (nd_store cl) (nd_os cl))\<rparr>)"

sublocale cluster_stable \<subseteq> links: link_stable R
  by unfold_locales (auto intro: stable_trans stable_same simp: notify_membership_def remove_member_def)

context cluster_stable
begin

lemmas unchanged [simp] = links.stable_refl

lemma stable_after: "nd_store b' = nd_store b \<Longrightarrow> nd_os b' = nd_os b \<Longrightarrow> R a b \<Longrightarrow> R a b'"
  by (rule stable_trans [OF _ stable_same])

lemma attach_on_stable: "R cl (snd (snd (attach_on c cl)))"
proof -
  obtain locals st where l: "local_files (nd_store cl) (nd_os cl) = (locals, st)" by fastforce
  have "snd (snd (attach_on c cl)) = cl\<lparr>nd_store := st\<rparr>"
    unfolding attach_on_def l by (auto simp: Let_def split: sum.split prod.split call_result.split bool.split)
  with stable_lookup [of cl] l show ?thesis by simp
qed

lemma attach_replica_stable: "R cl (snd (attach_replica connect member cl))"
proof (cases "connect member")
  case (Some c)
  obtain r c2 cl2 where a: "attach_on c cl = (r, c2, cl2)" by (metis prod_cases3)
  have "R cl cl2" using attach_on_stable [of cl c] a by simp
  with Some a show ?thesis by (simp add: attach_replica_def split: sum.split bool.split)
qed (simp add: attach_replica_def stable_lookup)

lemma cl_attach_stable: "R cl (snd (cl_attach connect member cl))"
proof -
  obtain r cl1 where a: "attach_replica connect member cl = (r, cl1)" by fastforce
  have "R cl cl1" using attach_replica_stable [of cl connect member] a by simp
  then show ?thesis by (auto simp: cl_attach_def a split: sum.split option.split intro: stable_after [rotated 2])
qed

lemma attach_all_stable: "R cl (snd (attach_all connect ms cl))"
proof (induction ms arbitrary: cl)
  case (Cons m ms)
  obtain r cl1 where a: "cl_attach connect m cl = (r, cl1)" by fastforce
  have s: "R cl cl1" using cl_attach_stable [of cl connect m] a by simp
  show ?case
  proof (cases r)
    case (Inr ok)
    have "R cl1 (if ok then cl1 else remove_member (sa_id m) cl1)" by (simp add: links.stable_remove)
    from stable_trans [OF stable_trans [OF s this] Cons.IH] show ?thesis by (simp add: a Inr)
  qed (use s in \<open>simp add: a\<close>)
qed simp

lemma build_manifest_stable: "R cl (snd (build_manifest cl))"
proof -
  obtain entries st where l: "list_users (store_users (nd_store cl) (nd_os cl)) (nd_os cl) (nd_store cl) = (entries, st)" by fastforce
  then have "snd (local_files (nd_store cl) (nd_os cl)) = st" by (simp add: local_files_def)
  with stable_lookup [of cl] show ?thesis by (simp add: build_manifest_def l)
qed

lemma join_stable: "R cl (snd (snd (handle_join connect c body cl)))"
proof -
  have accept: "R cl (snd (snd (join_accept connect member c (cl\<lparr>cl_lowest := i\<rparr>))))" for member i
  proof -
    let ?cl = "add_member member (cl\<lparr>cl_lowest := i\<rparr>)"
    obtain r cl1 where a: "cl_attach connect member ?cl = (r, cl1)" by fastforce
    have "R cl ?cl" by (rule stable_same) (simp_all add: add_member_def)
    then have s: "R cl cl1" using cl_attach_stable [of ?cl connect member] a stable_trans by simp
    show ?thesis
    proof (cases r)
      case (Inr ok)
      let ?cl1 = "if ok then cl1 else remove_member (sa_id member) cl1"
      have "R cl1 ?cl1" by (simp add: links.stable_remove)
      from stable_trans [OF stable_trans [OF s this] links.broadcast_stable] show ?thesis
        by (cases ok) (simp_all add: join_accept_def Let_def a Inr split_beta)
    qed (use s in \<open>simp add: join_accept_def Let_def a\<close>)
  qed
  show ?thesis
    using accept by (auto simp: handle_join_def stable_same split: sum.split prod.split)
qed

lemma coordinator_stable: "R cl (snd (snd (handle_coordinator time c body cl)))"
  by (auto simp: handle_coordinator_def stable_same split: sum.split prod.split)

lemma election_stable: "R cl (snd (snd (handle_election c body cl)))"
  by (auto simp: handle_election_def stable_same split: sum.split prod.split)

lemma become_primary_stable: "R cl (snd (become_primary connect cl))"
proof -
  let ?cl = "take_over cl"
  let ?ms = "filter (\<lambda>m. sa_id m \<noteq> sa_id (nd_self ?cl)) (nd_members ?cl)"
  obtain r cl1 where a: "attach_all connect ?ms ?cl = (r, cl1)" by fastforce
  have t: "R cl ?cl" by (rule stable_same) (simp_all add: take_over_def Let_def)
  then have "R cl cl1" using attach_all_stable [of ?cl connect ?ms] a stable_trans by simp
  with t stable_trans [OF this links.broadcast_stable] show ?thesis
    by (simp add: become_primary_def Let_def a split: sum.split)
qed

lemma election_round_stable: "R cl (snd (election_round connect cl))"
proof -
  let ?cl = "cl\<lparr>cl_primary_known := False, cl_coordinator_seen := False\<rparr>"
  have s: "R cl ?cl" by (rule stable_same) simp_all
  obtain r cl1 where b: "become_primary connect ?cl = (r, cl1)" by fastforce
  have "R cl cl1" using stable_trans [OF s become_primary_stable [of ?cl connect]] b by simp
  with s show ?thesis by (simp add: election_round_def Let_def b split: sum.split bool.split)
qed

lemma monitor_tick_stable: "R cl (snd (monitor_tick time cl))"
  using links.replicate_change_stable [of cl "call_link Msg_Heartbeat []"]
  by (simp add: monitor_tick_def heartbeat_links_def stable_same)

lemma reassure_stable: "R cl (snd (reassure connect candidate cl))"
proof -
  let ?cl = "add_member candidate cl"
  obtain r cl1 where a: "cl_attach connect candidate ?cl = (r, cl1)" by fastforce
  have "R cl ?cl" by (rule stable_same) (simp_all add: add_member_def)
  then have s: "R cl cl1" using cl_attach_stable [of ?cl connect candidate] a stable_trans by simp
  with stable_trans [OF s links.broadcast_stable] stable_trans [OF s links.stable_remove] show ?thesis
    by (simp add: reassure_def a split: sum.split bool.split)
qed

end

end
