(* ===== verification/Server_Invariant.thy ===== *)
theory Server_Invariant
  imports Startup_Properties Cluster_Stable Changes
begin

text \<open>
  The invariant of a server: whatever its peers send and however the steps of its threads are
  interleaved, the files stay well-formed and the cache of hashes agrees with them, no account
  is lost, and there are only sessions of users with an account, at most two for each.
\<close>

section \<open>The files and accounts of a node\<close>

definition node_fit :: "'a node_scheme \<Rightarrow> bool" where
  "node_fit nd \<longleftrightarrow> node_ok nd \<and> cut_at (nd_os nd) = None"

definition safe :: "'a node_scheme \<Rightarrow> 'b node_scheme \<Rightarrow> bool" where
  "safe nd nd' \<longleftrightarrow> (node_fit nd \<longrightarrow> node_fit nd' \<and> st_root (nd_store nd') = st_root (nd_store nd) \<and> dom (accs_of nd) \<subseteq> dom (accs_of nd'))"

lemma safeI:
  assumes "node_fit nd \<Longrightarrow> store_ok (nd_store nd', nd_os nd')" "node_fit nd \<Longrightarrow> cut_at (nd_os nd') = None"
    and "node_fit nd \<Longrightarrow> st_root (nd_store nd') = st_root (nd_store nd)" "node_fit nd \<Longrightarrow> dom (accs_of nd) \<subseteq> dom (accs_of nd')"
  shows "safe nd nd'"
  using assms by (simp add: safe_def node_fit_def node_ok_def)

lemma safe_refl [simp]: "safe nd nd"
  by (simp add: safe_def)

lemma safe_trans [trans]: "safe a b \<Longrightarrow> safe b c \<Longrightarrow> safe a c"
  by (auto simp: safe_def)

lemma safe_cong:
  "nd_store b' = nd_store b \<Longrightarrow> nd_os b' = nd_os b \<Longrightarrow> safe a b \<Longrightarrow> safe a b'"
  by (simp add: safe_def node_fit_def node_ok_def)

lemma safe_same: "nd_store b = nd_store a \<Longrightarrow> nd_os b = nd_os a \<Longrightarrow> safe a b"
  by (simp add: safe_def node_fit_def node_ok_def)

lemma node_fitD:
  assumes "node_fit nd"
  shows "store_ok (nd_store nd, nd_os nd)" "wf_os (nd_os nd)" "cut_at (nd_os nd) = None"
  using assms by (simp_all add: node_fit_def node_ok_def store_ok_def)

text \<open>The calls that write an account, and the directory of a user.\<close>

context file_calls
begin

lemma account:
  assumes "wf_os os" "\<And>s. P s"
  shows "R os (snd (acc_write dir user rec os))"
proof -
  obtain temp os1 where t: "make_temp_path dir os = (temp, os1)" by fastforce
  obtain e2 os2 where c: "sys_create temp os1 = (e2, os2)" by fastforce
  obtain e3 os3 where w: "sys_write temp (rec @ [newline]) os2 = (e3, os3)" by fastforce
  have r1: "R os os1" using temp [OF assms(1), of dir] t by simp
  have r2: "R os os2" using compose [OF r1 create [OF formed [OF r1] assms(2), of temp]] c by simp
  have r3: "R os os3" using compose [OF r2 writing [OF formed [OF r2] assms(2), of temp "rec @ [newline]"]] w by simp
  show ?thesis
    using compose [OF r2 remove [OF formed [OF r2] assms(2)]] compose [OF r3 remove [OF formed [OF r3] assms(2)]]
      compose [OF r3 replace [OF formed [OF r3] assms(2,2)]]
    by (cases e2; cases e3) (simp_all add: acc_write_def t c w)
qed

end

text \<open>A changed account, on the abstract maps.\<close>

lemma account_written:
  assumes ok: "store_ok (st, os)" and user: "is_valid_username user" and r: "is_valid_record rec"
    and w: "acc_write (accounts_dir st) user rec os = (b, os')"
  shows "store_ok (st, os')" "cut_at os' = cut_at os" "dom (accounts_of (accounts_dir st) os) \<subseteq> dom (accounts_of (accounts_dir st) os')"
    "b \<Longrightarrow> accounts_of (accounts_dir st) os' user = Some rec"
proof -
  have wf: "wf_os os" using ok by (simp add: store_ok_def)
  have "butlast (file_node st v p) \<noteq> resolve (accounts_dir st)" for v p
    by (simp add: file_node_def user_base_def butlast_append)
  then have "file_at os' (file_node st v p) = file_at os (file_node st v p)" for v p
    using acc_write_effect(5) [OF wf user w] by (simp add: file_at_def)
  from store_ok_frame(1) [OF ok acc_write_effect(1) [OF wf user w] this] show "store_ok (st, os')" .
  show "cut_at os' = cut_at os" using env.account [OF wf, of "accounts_dir st" user rec] w by (simp add: keeps_env_def same_env_def)
  show "dom (accounts_of (accounts_dir st) os) \<subseteq> dom (accounts_of (accounts_dir st) os')"
    "b \<Longrightarrow> accounts_of (accounts_dir st) os' user = Some rec"
    using accounts_of_write(2) [OF wf user r w] by auto
qed

section \<open>What a backup applies\<close>

lemma safe_update:
  assumes "store_ok (st, os)" "cut_at os = cut_at (nd_os nd)" "st_root st = st_root (nd_store nd)"
    and "accounts_of (accounts_dir st) os = accs_of nd"
  shows "safe nd (nd\<lparr>nd_store := st, nd_os := os\<rparr>)"
  using assms by (simp add: safe_def node_fit_def node_ok_def)

lemma apply_put_safe: "safe nd (snd (snd (apply_put c body nd)))"
proof (cases "node_fit nd")
  case fit: True
  let ?st = "nd_store nd"
  show ?thesis
  proof (cases "ebind (r_str (new_reader body)) (\<lambda>(user, r). ebind (read_file_header r) (\<lambda>(info, r). Inr (user, info)))")
    case (Inr ui)
    obtain user info where ui: "ui = (user, info)" by (cases ui)
    obtain temp os1 where temp: "new_temp_path ?st (nd_os nd) = (temp, os1)" by fastforce
    obtain res h c2 os2 where rb: "recv_file_body c temp (fi_size info) os1 = (res, h, c2, os2)" by (metis prod_cases4)
    note t = receive_temp [OF node_fitD(1) [OF fit] temp rb]
    obtain ok st os3 where cm: "(if res = T_Ok \<and> is_valid_username user \<and> is_valid_path (fi_name info)
        then store_commit ?st user (fi_name info) temp (fi_mtime info) os2 else (False, ?st, os2)) = (ok, st, os3)"
      by (metis prod_cases3)
    have "store_ok (st, os3) \<and> st_root st = st_root ?st \<and> cut_at os3 = cut_at (nd_os nd) \<and>
        accounts_of (accounts_dir st) os3 = accs_of nd"
    proof (cases "res = T_Ok \<and> is_valid_username user \<and> is_valid_path (fi_name info)")
      case True
      obtain v where recd: "received (?st, os2) (temp, fi_mtime info) = Some v" using t(5) True by blast
      have "store_commit ?st user (fi_name info) temp (fi_mtime info) os2 = (ok, st, os3)" using cm True by simp
      from commit_received [OF t(1,3) _ _ recd this] True t(4,6)
      show ?thesis by simp
    next
      case False
      have "st = ?st" "os3 = os2" using cm [unfolded if_not_P [OF False]] by simp_all
      with t show ?thesis by simp
    qed
    then have com: "store_ok (st, os3)" "st_root st = st_root ?st" "cut_at os3 = cut_at (nd_os nd)"
      "accounts_of (accounts_dir st) os3 = accs_of nd" by simp_all
    have tok: "temp_ok st temp" using t(3) com(2) by (simp add: temp_ok_def)
    have "safe nd (nd\<lparr>nd_os := os2\<rparr>)" using safe_update [OF t(1,4) _ t(6)] by simp
    moreover have "safe nd (nd\<lparr>nd_store := st, nd_os := os3\<rparr>)" by (rule safe_update [OF com(1,3,2,4)])
    moreover have "safe nd (nd\<lparr>nd_store := st, nd_os := snd (remove_file temp os3)\<rparr>)"
      by (rule safe_update) (use remove_temp [OF com(1) tok] com in simp_all)
    ultimately show ?thesis
      by (simp add: apply_put_def Inr ui temp rb cm split: prod.split)
  qed (simp add: apply_put_def)
qed (simp add: safe_def)

lemma apply_delete_safe: "safe nd (snd (snd (apply_delete c body nd)))"
proof (cases "node_fit nd")
  case fit: True
  let ?st = "nd_store nd"
  show ?thesis
  proof (cases "ebind (r_str (new_reader body)) (\<lambda>(user, r). ebind (r_str r) (\<lambda>(name, r). Inr (user, name)))")
    case (Inr un)
    obtain user name where un: "un = (user, name)" by (cases un)
    obtain b st os where rm: "(if is_valid_username user \<and> is_valid_path name
        then store_remove ?st user name (nd_os nd) else (False, ?st, nd_os nd)) = (b, st, os)"
      by (metis prod_cases3)
    have "safe nd (nd\<lparr>nd_store := st, nd_os := os\<rparr>)"
    proof (cases "is_valid_username user \<and> is_valid_path name")
      case True
      with rm have r: "store_remove ?st user name (nd_os nd) = (b, st, os)" by simp
      note e = store_remove_effect [OF node_fitD(1) [OF fit] _ _ r] and f = store_remove_frame [OF node_fitD(2) [OF fit] _ _ r]
      have "accounts_of (accounts_dir st) os = accs_of nd"
        by (rule accounts_frame) (use True e(2) f accounts_not_file in simp_all)
      moreover have "cut_at os = cut_at (nd_os nd)" using store_remove_env [OF node_fitD(2) [OF fit] r] by (simp add: same_env_def)
      ultimately show ?thesis using e True by (intro safe_update) simp_all
    next
      case False
      show ?thesis by (rule safe_same) (use rm [unfolded if_not_P [OF False]] in simp_all)
    qed
    then show ?thesis by (simp add: apply_delete_def Inr un rm split: prod.split)
  qed (simp add: apply_delete_def)
qed (simp add: safe_def)

lemma apply_account_safe: "safe nd (snd (snd (apply_account c body nd)))"
proof (cases "node_fit nd")
  case fit: True
  show ?thesis
  proof (cases "ebind (r_str (new_reader body)) (\<lambda>(user, r). ebind (r_str r) (\<lambda>(rec, r). Inr (user, rec)))")
    case (Inr ur)
    obtain user rec where ur: "ur = (user, rec)" by (cases ur)
    obtain b os where put: "(if is_valid_username user \<and> is_valid_record rec
        then acc_put (accounts_dir (nd_store nd)) user rec (nd_os nd) else (False, nd_os nd)) = (b, os)"
      by fastforce
    have "safe nd (nd\<lparr>nd_os := os\<rparr>)"
    proof (cases "is_valid_username user \<and> is_valid_record rec")
      case True
      then have "acc_write (accounts_dir (nd_store nd)) user rec (nd_os nd) = (b, os)" using put by (simp add: acc_put_def)
      from account_written [OF node_fitD(1) [OF fit] _ _ this] True node_fitD(3) [OF fit]
      show ?thesis by (simp add: safe_def node_fit_def node_ok_def)
    qed (use put in \<open>auto intro: safe_same\<close>)
    then show ?thesis by (simp add: apply_account_def Inr ur put split: prod.split)
  qed (simp add: apply_account_def)
qed (simp add: safe_def)

lemma apply_replicated_safe: "safe nd (snd (snd (apply_replicated c m nd)))"
  using apply_put_safe [of nd c "payload m"] apply_delete_safe [of nd c "payload m"] apply_account_safe [of nd c "payload m"]
  by (auto simp: apply_replicated_def apply_membership_def safe_same split: prod.split sum.split)

section \<open>The operations of the cluster\<close>

lemma local_files_safe: "safe nd (nd\<lparr>nd_store := snd (local_files (nd_store nd) (nd_os nd))\<rparr>)"
proof (cases "node_fit nd")
  case True
  obtain m st where l: "local_files (nd_store nd) (nd_os nd) = (m, st)" by fastforce
  note s = local_files_spec(1,2) [OF node_fitD(1,3) [OF True] l]
  then have "resolve (accounts_dir st) = resolve (accounts_dir (nd_store nd))" by simp
  from accounts_of_cong [OF this] s l True show ?thesis by (auto simp: safe_def node_fit_def node_ok_def)
qed (simp add: safe_def)

interpretation guarded: cluster_stable safe
  by unfold_locales (auto intro: safe_trans safe_same local_files_safe)

lemma replica_turn_safe: "safe cl (snd (snd (replica_turn conn_no time c cl)))"
proof -
  have "safe cl (snd (snd (apply_on_cluster c m (cl\<lparr>cl_last_heard := t\<rparr>))))" for c :: "'c conn" and m t
  proof -
    obtain r c2 cl2 where a: "apply_replicated c m (cl\<lparr>cl_last_heard := t\<rparr>) = (r, c2, cl2)" by (metis prod_cases3)
    have "safe (cl\<lparr>cl_last_heard := t\<rparr>) cl2" using apply_replicated_safe [of "cl\<lparr>cl_last_heard := t\<rparr>" c m] a by simp
    then have "safe cl cl2" by (rule safe_trans [OF safe_same, rotated 2]) simp_all
    moreover have "safe cl2 (notify_membership cl2)" by (rule guarded.links.stable_notify)
    ultimately show ?thesis by (auto simp: apply_on_cluster_def a intro: safe_trans)
  qed
  note a = this
  have b: "safe cl cl2" if "apply_on_cluster c m (cl\<lparr>cl_last_heard := t\<rparr>) = (r, c2, cl2)" for c :: "'c conn" and m t r c2 cl2
    using a [of c m t] that by simp
  show ?thesis by (auto simp: replica_turn_def dest: b split: recv_result.split prod.split sum.split)
qed

lemma replica_loop_safe:
  "\<forall>e \<in> set env. \<forall>cl. safe cl (snd e cl) \<Longrightarrow> safe cl (snd (snd (replica_loop conn_no env c cl)))"
proof (induction conn_no env c cl rule: replica_loop.induct)
  case (2 conn_no time others env c cl)
  obtain b c2 cl2 where t: "replica_turn conn_no time c (others cl) = (b, c2, cl2)" by (metis prod_cases3)
  have "safe cl (others cl)" using 2(2) by simp
  moreover have "safe (others cl) cl2" using replica_turn_safe [of "others cl" conn_no time c] t by simp
  ultimately have s: "safe cl cl2" by (rule safe_trans)
  show ?case
  proof (cases b)
    case True
    have "safe cl2 (snd (snd (replica_loop conn_no env c2 cl2)))"
      using 2(1) [OF t [symmetric] _ refl] True 2(2) by simp
    with s t True show ?thesis by (simp add: safe_trans)
  qed (use s t in simp)
qed simp

lemma replica_attach_safe:
  assumes "\<forall>e \<in> set env. \<forall>cl. safe cl (snd e cl)"
  shows "safe cl (snd (snd (handle_replica_attach conn_no time env c body cl)))"
proof -
  obtain r cl1 where a: "attach_as_backup conn_no time body cl = (r, cl1)" by fastforce
  have "safe cl cl1"
  proof (cases "ebind (read_server (new_reader body)) (\<lambda>(primary, r). ebind (read_servers r) (\<lambda>(members, r). Inr (primary, members)))")
    case (Inr pm)
    obtain primary members where pm: "pm = (primary, members)" by (cases pm)
    obtain cl2 where "cl2 = notify_membership (cl\<lparr>cl_links := if cl_role cl = Primary then [] else cl_links cl,
        cl_primary_link := Some conn_no, cl_role := Backup, cl_primary := primary, cl_primary_known := True,
        cl_coordinator_seen := True, nd_members := upsert members (nd_self cl), cl_building := True\<rparr>)"
      and cl1: "cl1 = (snd (build_manifest cl2))\<lparr>cl_building := False, cl_last_heard := time\<rparr>"
      using a by (simp add: attach_as_backup_def Inr pm split_beta)
    then have "safe cl cl2" by (simp add: safe_same notify_membership_def)
    from safe_trans [OF this guarded.build_manifest_stable] show ?thesis by (simp add: cl1 safe_cong)
  qed (use a in \<open>simp add: attach_as_backup_def\<close>)
  moreover have "safe cl1 (snd (snd (replica_loop conn_no env c2 cl1)))" for c2 :: "'c conn" by (rule replica_loop_safe [OF assms])
  ultimately have loop: "safe cl (snd (snd (replica_loop conn_no env c2 cl1)))" and s: "safe cl cl1" for c2 :: "'c conn"
    by (auto intro: safe_trans)
  have lost: "safe cl (link_lost conn_no cl2)" if "safe cl cl2" for cl2 using that by (simp add: link_lost_def safe_cong)
  show ?thesis
    using s lost [OF s] loop lost [OF loop] by (auto simp: handle_replica_attach_def a split_beta split: sum.split bool.split)
qed

section \<open>The server\<close>

definition server_ok :: "('p, 'q) server \<Rightarrow> bool" where
  "server_ok sv \<longleftrightarrow> node_fit (sv_cluster sv) \<and> sessions_ok (sv_sessions sv) \<and>
     (\<forall>token s. map_of (sv_sessions sv) token = Some s \<longrightarrow> s_user s \<in> dom (accs_of (sv_cluster sv)))"

definition upholds :: "('p, 'q) server \<Rightarrow> ('p, 'q) server \<Rightarrow> bool" where
  "upholds sv sv' \<longleftrightarrow> (server_ok sv \<longrightarrow> server_ok sv' \<and> st_root (sv_store sv') = st_root (sv_store sv) \<and>
     dom (accs_of (sv_cluster sv)) \<subseteq> dom (accs_of (sv_cluster sv')))"

lemma upholds_refl [simp]: "upholds sv sv"
  by (simp add: upholds_def)

lemma upholds_trans [trans]: "upholds a b \<Longrightarrow> upholds b c \<Longrightarrow> upholds a c"
  by (auto simp: upholds_def)

lemma upholds_cluster:
  assumes "safe (sv_cluster sv) (sv_cluster sv')" "sv_sessions sv' = sv_sessions sv"
  shows "upholds sv sv'"
  using assms unfolding upholds_def server_ok_def safe_def by simp blast

lemma upholds_same:
  "sv_store sv' = sv_store sv \<Longrightarrow> sv_os sv' = sv_os sv \<Longrightarrow> sv_sessions sv' = sv_sessions sv \<Longrightarrow> upholds sv sv'"
  by (rule upholds_cluster) (rule safe_same)

text \<open>A session that is closed, attached or detached.\<close>

lemma upholds_sessions:
  assumes "sv_cluster sv' = sv_cluster sv" "sv_sessions sv' = session_step op (sv_sessions sv)"
    and "\<And>user cid r. op \<noteq> Open_session user cid r"
  shows "upholds sv sv'"
proof -
  have users: "\<exists>t0 s0. map_of (sv_sessions sv) t0 = Some s0 \<and> s_user s0 = s_user s"
    if ok: "sessions_ok (sv_sessions sv)" and m: "map_of (sv_sessions sv') t = Some s" for t s
  proof -
    have wf: "omap_wf (sv_sessions sv)" using sessions_ok_parts [OF ok] by simp
    show ?thesis
    proof (cases op)
      case (Close_session token)
      with m show ?thesis by (auto simp: assms(2) session_close_def omap_del_lookup split: option.splits if_splits)
    next
      case (Attach_sync token cid)
      with m show ?thesis
        by (fastforce simp: assms(2) attach_sync_def omap_put_lookup [OF wf] split: option.splits if_splits)
    next
      case (Detach_sync token cid)
      with m show ?thesis
        by (fastforce simp: assms(2) detach_sync_def omap_put_lookup [OF wf] split: option.splits if_splits)
    qed (use assms(3) in blast)
  qed
  show ?thesis unfolding upholds_def
  proof (intro impI conjI)
    assume ok: "server_ok sv"
    then have "sessions_ok (sv_sessions sv')" using assms(2) session_step_ok by (simp add: server_ok_def)
    moreover have "s_user s \<in> dom (accs_of (sv_cluster sv))" if "map_of (sv_sessions sv') t = Some s" for t s
      using users [OF _ that] ok unfolding server_ok_def by metis
    ultimately show "server_ok sv'" using ok assms(1) by (simp add: server_ok_def)
  qed (simp_all add: assms(1))
qed

section \<open>Requests\<close>

lemma sv_on_cluster_sessions [simp]: "sv_sessions (snd (sv_on_cluster f sv)) = sv_sessions sv"
  using sv_on_cluster_rest [of f sv] by (metis prod.collapse)

lemma reply_and_push_sessions:
  "(\<And>sv. sv_sessions (snd (push sv)) = sv_sessions sv) \<Longrightarrow> sv_sessions (snd (snd (reply_and_push c sv push))) = sv_sessions sv"
  by (auto simp: reply_and_push_def split: prod.split bool.split sum.split) (metis snd_conv)+

lemma replicated_sessions:
  "(\<And>sv. sv_sessions (snd (p sv)) = sv_sessions sv) \<Longrightarrow>
     sv_sessions (snd (snd (case sv_on_cluster f sv of (Inl e, sv) \<Rightarrow> (Inl e, c, sv) | (Inr _, sv) \<Rightarrow> reply_and_push c sv p))) =
     sv_sessions sv"
  using reply_and_push_sessions [of p c] sv_on_cluster_sessions [of f sv]
  by (cases "sv_on_cluster f sv") (simp split: sum.split)

lemma handler_sessions [simp]:
  "sv_sessions (snd (snd (store_upload user token origin info temp c sv))) = sv_sessions sv"
  "sv_sessions (snd (snd (handle_delete user token body c sv))) = sv_sessions sv"
  "sv_sessions (snd (snd (handle_list user c sv))) = sv_sessions sv"
  by (auto simp: store_upload_def handle_delete_def handle_list_def Let_def split_beta replicated_sessions [unfolded split_beta]
      split: sum.split)

lemma handle_request_sessions: "sv_sessions (snd (snd (handle_request user token m c sv))) = sv_sessions sv"
proof -
  have "sv_sessions (snd (snd (handle_upload user token (payload m) c sv))) = sv_sessions sv"
    by (auto simp: handle_upload_def Let_def split_beta split: sum.split)
  then show ?thesis by (simp add: handle_request_def split_beta)
qed

lemma handle_request_upholds:
  assumes "is_valid_username user"
  shows "upholds sv (snd (snd (handle_request user token m c sv)))"
proof (rule upholds_cluster)
  let ?sv = "snd (snd (handle_request user token m c sv))"
  show "safe (sv_cluster sv) (sv_cluster ?sv)"
    using handle_request_only [OF _ _ assms, of sv token m c]
    by (auto simp: safe_def node_fit_def node_ok_def only_user_def)
qed (rule handle_request_sessions)

lemma serve_request_upholds:
  fixes c :: "'c conn"
  assumes "is_valid_username user"
  shows "upholds sv (snd (snd (serve_request user token c sv)))"
proof -
  have "upholds sv sv'" if "handle_request user token m c sv = (r, c', sv')" for m r sv' and c c' :: "'c conn"
    using handle_request_upholds [OF assms, of sv token m c] that by simp
  then show ?thesis by (auto simp: serve_request_def split: recv_result.split prod.split sum.split)
qed

lemma serve_requests_upholds:
  assumes "is_valid_username user" "\<forall>f \<in> set env. \<forall>sv. upholds sv (f sv)"
  shows "upholds sv (snd (snd (serve_requests user token env c sv)))"
  using assms
proof (induction user token env c sv rule: serve_requests.induct)
  case (2 user token others env c sv)
  obtain b c1 sv1 where t: "serve_request user token c (others sv) = (b, c1, sv1)" by (metis prod_cases3)
  have "upholds sv (others sv)" using 2(3) by simp
  moreover have "upholds (others sv) sv1" using serve_request_upholds [OF 2(2), of "others sv" token c] t by simp
  ultimately have s: "upholds sv sv1" by (rule upholds_trans)
  show ?case
  proof (cases b)
    case True
    have "upholds sv1 (snd (snd (serve_requests user token env c1 sv1)))" using 2(1) [OF t [symmetric] _ refl] True 2(2,3) by simp
    with s t True show ?thesis by (simp add: upholds_trans)
  qed (use s t in simp)
qed simp

lemma close_session_upholds: "upholds sv (snd (close_session token c sv))"
proof -
  obtain conns ss where "session_close token (sv_sessions sv) = (conns, ss)" by fastforce
  then show ?thesis
    by (intro upholds_sessions [of _ _ "Close_session token"]) (simp_all add: close_session_def)
qed

section \<open>Logins\<close>

lemma new_record_valid:
  assumes "kdf_ok derive" "case salt of None \<Rightarrow> True | Some s \<Rightarrow> length s = SALT_SIZE" "make_record derive salt password \<noteq> []"
  shows "is_valid_record (make_record derive salt password)"
proof -
  obtain s h where sh: "salt = Some s" "derive password s ITERATIONS = Some h"
    using assms(3) by (auto simp: make_record_def split: option.splits)
  then have "length s = SALT_SIZE" "length h = HASH_SIZE" using assms(1,2) by (auto simp: kdf_ok_def)
  from parse_make_record [OF this] sh show ?thesis by (simp add: make_record_def is_valid_record_def)
qed

lemma created_safe:
  assumes user: "is_valid_username user" and kdf: "kdf_ok derive" "case salt of None \<Rightarrow> True | Some s \<Rightarrow> length s = SALT_SIZE"
    and cr: "(if make_record derive salt password = [] then (False, nd_os nd)
        else acc_create (accounts_dir (nd_store nd)) user (make_record derive salt password) (nd_os nd)) = (created, os)"
  shows "safe nd (nd\<lparr>nd_os := os\<rparr>)"
proof (cases "os = nd_os nd \<or> \<not> node_fit nd")
  case False
  then have w: "acc_write (accounts_dir (nd_store nd)) user (make_record derive salt password) (nd_os nd) = (created, os)"
    and new: "make_record derive salt password \<noteq> []" and fit: "node_fit nd"
    using cr by (auto simp: acc_create_def split: if_splits)
  from account_written [OF node_fitD(1) [OF fit] user new_record_valid [OF kdf new] w] node_fitD(3) [OF fit]
  show ?thesis by (simp add: safe_def node_fit_def node_ok_def)
qed (auto simp: safe_def)

lemma check_password_rest: "snd (snd (check_password derive rec password c sv)) = sv"
  by (simp add: check_password_def split_beta)

lemma authenticate_upholds:
  assumes user: "is_valid_username user" and kdf: "kdf_ok derive" "case salt of None \<Rightarrow> True | Some s \<Rightarrow> length s = SALT_SIZE"
    and auth: "authenticate derive salt user password c sv = (r, c', sv')"
  shows "upholds sv sv'"
proof (cases "acc_get (accounts_dir (sv_store sv)) user (sv_os sv)")
  case (Some rec)
  then have "sv' = sv" using auth check_password_rest [of derive rec password c sv] by (simp add: authenticate_def Let_def)
  then show ?thesis by simp
next
  case None
  let ?dir = "accounts_dir (sv_store sv)" and ?new = "make_record derive salt password"
  obtain created os where cr: "(if ?new = [] then (False, sv_os sv) else acc_create ?dir user ?new (sv_os sv)) = (created, os)"
    by fastforce
  let ?sv = "sv_set_files (sv_store sv) os sv"
  obtain r1 sv1 where repl: "sv_on_cluster (replicate_account user ?new) ?sv = (r1, sv1)" by fastforce
  note unf = authenticate_def Let_def None option.case cr prod.case
  have s: "safe (sv_cluster sv) ((sv_cluster sv)\<lparr>nd_os := os\<rparr>)" by (rule created_safe [OF user kdf cr])
  have one: "upholds sv ?sv" by (rule upholds_cluster) (use s in simp_all)
  have two: "upholds sv sv1"
    by (rule upholds_trans [OF one]) (use sv_on_cluster_rest [OF repl] in \<open>simp add: upholds_same\<close>)
  show ?thesis
  proof (cases created)
    case True
    have "sv' = sv1" using auth by (cases r1) (simp_all add: unf True repl)
    with two show ?thesis by simp
  next
    case False
    have "sv' = ?sv"
    proof (cases "acc_get ?dir user os")
      case None
      with auth show ?thesis by (simp add: unf False split_beta)
    next
      case (Some rec)
      with auth have "check_password derive rec password c ?sv = (r, c', sv')" by (simp add: unf False)
      with check_password_rest [of derive rec password c ?sv] show ?thesis by simp
    qed
    with one show ?thesis by simp
  qed
qed

lemma ensure_user_safe:
  assumes "ensure_user (nd_store nd) user (nd_os nd) = (ok, os)"
  shows "safe nd (nd\<lparr>nd_os := os\<rparr>)"
proof (cases "node_fit nd")
  case fit: True
  have a: "adds_dirs (nd_os nd) os" using make_dirs_adds [OF node_fitD(2) [OF fit] assms [unfolded ensure_user_def]] .
  note f = adds_dirs_files [OF a]
  have "store_ok (nd_store nd, os)"
    by (rule store_ok_frame [OF node_fitD(1) [OF fit]]) (use a f in \<open>simp_all add: adds_dirs_def\<close>)
  moreover have "accounts_of (accounts_dir (nd_store nd)) os = accs_of nd" by (rule accounts_of_cong) (simp_all add: f)
  moreover have "cut_at os = cut_at (nd_os nd)" using a by (simp add: adds_dirs_def same_env_def)
  ultimately show ?thesis using safe_update [of "nd_store nd" os nd] by simp
qed (simp add: safe_def)

lemma open_upholds:
  assumes "session_open user cid random (sv_sessions sv) = (token, ss)" "token \<noteq> []"
    and "server_ok sv \<Longrightarrow> user \<in> dom (accs_of (sv_cluster sv))"
  shows "upholds sv (sv\<lparr>sv_sessions := ss\<rparr>)"
  unfolding upholds_def
proof (intro impI conjI)
  assume ok: "server_ok sv"
  then have "sessions_ok (sv_sessions sv)" by (simp add: server_ok_def)
  from session_step_ok [OF this, of "Open_session user cid random"] assms(1) have sess: "sessions_ok ss" by simp
  have wf: "omap_wf (sv_sessions sv)" using ok sessions_ok_parts by (simp add: server_ok_def)
  have ss: "ss = omap_put token \<lparr>s_user = user, s_command = cid, s_sync = None\<rparr> (sv_sessions sv)"
    using assms(1,2) by (auto simp: session_open_def Let_def split: if_splits)
  have "s_user s \<in> dom (accs_of (sv_cluster sv))" if "map_of ss t = Some s" for t s
    using that assms(3) [OF ok] ok unfolding server_ok_def
    by (cases "t = token") (auto simp: ss omap_put_lookup [OF wf])
  with ok sess show "server_ok (sv\<lparr>sv_sessions := ss\<rparr>)" by (simp add: server_ok_def)
qed simp_all

lemma start_session_upholds:
  fixes c :: "'c conn"
  assumes user: "is_valid_username user" and env: "\<forall>f \<in> set env. \<forall>sv. upholds sv (f sv)"
    and acc: "server_ok sv \<Longrightarrow> user \<in> dom (accs_of (sv_cluster sv))"
  shows "upholds sv (snd (snd (start_session user cid random env c sv)))"
proof -
  obtain token ss where o: "session_open user cid random (sv_sessions sv) = (token, ss)" by fastforce
  show ?thesis
  proof (cases "token = []")
    case True
    then show ?thesis by (simp add: start_session_def o refuse_def split_beta)
  next
    case False
    let ?sv = "sv\<lparr>sv_sessions := ss\<rparr>"
    have one: "upholds sv ?sv" by (rule open_upholds [OF o False acc])
    have closed: "upholds sv (snd (close_session token c2 sv2))" if "upholds sv sv2" for c2 :: "'c conn" and sv2
      using upholds_trans [OF that close_session_upholds] .
    have served: "upholds sv (snd (snd (serve_requests user token env c2 ?sv)))" for c2 :: "'c conn"
      by (rule upholds_trans [OF one serve_requests_upholds [OF user env]])
    note unf = start_session_def o prod.case if_not_P [OF False] Let_def
    show ?thesis
      using one closed [OF one] served closed [OF served]
      by (simp add: unf split_beta split: sum.split bool.split)
  qed
qed

lemma serve_client_upholds:
  fixes c :: "'c conn"
  assumes kdf: "kdf_ok derive" "case salt of None \<Rightarrow> True | Some s \<Rightarrow> length s = SALT_SIZE"
    and env: "\<forall>f \<in> set env. \<forall>sv. upholds sv (f sv)"
  shows "upholds sv (snd (snd (serve_client derive salt random env cid body c sv)))"
proof (cases "ebind (r_str (new_reader body)) (\<lambda>(user, r). ebind (r_str r) (\<lambda>(password, r). Inr (user, password)))")
  case (Inr up)
  obtain user password where up: "up = (user, password)" by (cases up)
  note unf = serve_client_def Inr up sum.case prod.case
  show ?thesis
  proof (cases "is_primary (sv_cluster sv) \<and> is_valid_username user \<and>
      \<not> (length password < MIN_PASSWORD_LENGTH \<or> length password > MAX_PASSWORD_LENGTH)")
    case True
    then have user: "is_valid_username user" by simp
    obtain r c1 sv1 where a: "authenticate derive salt user password c sv = (r, c1, sv1)" by (metis prod_cases3)
    have one: "upholds sv sv1" by (rule authenticate_upholds [OF user kdf a])
    obtain ok os where e: "ensure_user (sv_store sv1) user (sv_os sv1) = (ok, os)" by fastforce
    let ?sv = "sv_set_files (sv_store sv1) os sv1"
    have two: "upholds sv1 ?sv" by (rule upholds_cluster) (use ensure_user_safe [OF e] in simp_all)
    have acc: "upholds sv (snd (snd (start_session user cid random env c1 ?sv)))" if "r = Inr True"
    proof (cases "server_ok sv")
      case ok: True
      then have "wf_os (sv_os sv)" by (simp add: server_ok_def node_fitD)
      from authenticate_True(1) [OF this user kdf] a that have "user \<in> dom (accs_of (sv_cluster sv1))" by blast
      moreover have "server_ok sv1" using one ok by (simp add: upholds_def)
      ultimately have "user \<in> dom (accs_of (sv_cluster ?sv))" using two unfolding upholds_def by blast
      from upholds_trans [OF upholds_trans [OF one two] start_session_upholds [OF user env this]] show ?thesis .
    qed (simp add: upholds_def)
    show ?thesis
    proof (cases "r = Inr True")
      case True
      with \<open>is_primary _ \<and> _\<close> acc upholds_trans [OF one two] show ?thesis
        by (simp add: unf a e Let_def refuse_def split_beta)
    next
      case False
      with \<open>is_primary _ \<and> _\<close> one show ?thesis by (simp add: unf a split: sum.split bool.split)
    qed
  qed (auto simp: unf refuse_def split_beta)
qed (simp add: serve_client_def)

section \<open>Connections\<close>

lemma serve_sync_upholds: "upholds sv (snd (snd (serve_sync cid body c sv)))"
proof (cases "r_str (new_reader body)")
  case (Inr tr)
  obtain token r where tr: "tr = (token, r)" by (cases tr)
  obtain b ss where a: "attach_sync token cid (sv_sessions sv) = (b, ss)" by fastforce
  have "upholds sv (sv\<lparr>sv_sessions := ss, sv_syncs := syncs\<rparr>)" for syncs
    by (rule upholds_sessions [of _ _ "Attach_sync token cid"]) (simp_all add: a)
  with a show ?thesis by (simp add: serve_sync_def Inr tr split_beta Let_def split: bool.split)
qed (simp add: serve_sync_def)

lemma end_sync_upholds: "upholds sv (end_sync token cid sv)"
  by (rule upholds_sessions [of _ _ "Detach_sync token cid"]) (simp_all add: end_sync_def)

text \<open>
  What a connection takes from OpenSSL: key derivation gives hashes of the expected length,
  and there are as many random bytes in a salt as were asked for.
\<close>

definition openssl_ok :: "('p, 'q) world \<Rightarrow> bool" where
  "openssl_ok w \<longleftrightarrow> kdf_ok (wd_derive w) \<and> (case wd_salt w of None \<Rightarrow> True | Some s \<Rightarrow> length s = SALT_SIZE)"

lemma told_upholds: "safe (sv_cluster sv) cl \<Longrightarrow> upholds sv (tell_clients (sv\<lparr>sv_cluster := cl\<rparr>))"
  by (rule upholds_cluster) (simp_all add: safe_cong)

lemma on_cluster3_upholds: "safe (sv_cluster sv) (snd (snd res)) \<Longrightarrow> upholds sv (snd (on_cluster3 res sv))"
  by (simp add: on_cluster3_def split_beta told_upholds)

lemma handle_connection_upholds:
  assumes "openssl_ok w" "\<forall>f \<in> set (wd_others w). \<forall>sv. upholds sv (f sv)"
    and "\<forall>e \<in> set (wd_replica w). \<forall>cl. safe cl (snd e cl)"
  shows "upholds sv (snd (handle_connection w cid c sv))"
proof (cases "conn_recv c")
  case (Pair res c1)
  show ?thesis
  proof (cases res)
    case (Received first)
    have "upholds sv (snd (snd (serve_client (wd_derive w) (wd_salt w) (wd_random w) (wd_others w) cid (payload first) c1 sv)))"
      by (rule serve_client_upholds) (use assms(1,2) in \<open>simp_all add: openssl_ok_def\<close>)
    moreover have "upholds sv (snd (on_cluster3 (handle_replica_attach cid (wd_time w) (wd_replica w) c1 (payload first) (sv_cluster sv)) sv))"
      by (rule on_cluster3_upholds [OF replica_attach_safe [OF assms(3)]])
    moreover note serve_sync_upholds [of sv cid "payload first" c1] on_cluster3_upholds [OF guarded.join_stable, of sv "wd_connect w" c1 "payload first"]
      on_cluster3_upholds [OF guarded.election_stable, of sv c1 "payload first"] on_cluster3_upholds [OF guarded.coordinator_stable, of sv "wd_time w" c1 "payload first"]
    ultimately show ?thesis by (simp add: handle_connection_def Pair Received Let_def)
  qed (simp_all add: handle_connection_def Pair)
qed

section \<open>All steps\<close>

text \<open>
  The steps of a running server, one for each thing that a thread does: connections (during
  which the other threads make steps of their own), the end of a sync connection, elections, the
  monitor of the primary, the answer to a candidate, the health monitor. Outside of the
  program, time passes and the disk gets fuller or emptier.
\<close>

inductive server_steps :: "('p, 'q) server \<Rightarrow> ('p, 'q) server \<Rightarrow> bool" where
  Rest: "server_steps sv sv"
| Next: "server_steps sv sv1 \<Longrightarrow> server_steps sv1 sv2 \<Longrightarrow> server_steps sv sv2"
| Connection: "openssl_ok w \<Longrightarrow> \<forall>f \<in> set (wd_others w). \<forall>sv. server_steps sv (f sv) \<Longrightarrow>
     \<forall>e \<in> set (wd_replica w). \<forall>sv. server_steps sv (sv\<lparr>sv_cluster := snd e (sv_cluster sv)\<rparr>) \<Longrightarrow>
     server_steps sv (snd (handle_connection w cid c sv))"
| Sync_closed: "server_steps sv (end_sync token cid sv)"
| Election: "server_steps sv (tell_clients (sv\<lparr>sv_cluster := snd (election_round connect (sv_cluster sv))\<rparr>))"
| Monitor: "server_steps sv (tell_clients (sv\<lparr>sv_cluster := snd (monitor_tick time (sv_cluster sv))\<rparr>))"
| Reassure: "cl_reassure (sv_cluster sv) = candidate # rest \<Longrightarrow>
     server_steps sv (tell_clients (sv\<lparr>sv_cluster := snd (reassure connect candidate ((sv_cluster sv)\<lparr>cl_reassure := rest\<rparr>))\<rparr>))"
| Health: "server_steps sv (snd (snd (health_turn dns (dial :: endpoint \<Rightarrow> 'p conn option) (hm, sv))))"
| Outside: "tree os = tree (sv_os sv) \<Longrightarrow> cut_at os = cut_at (sv_os sv) \<Longrightarrow>
     server_steps sv (sv\<lparr>sv_cluster := (sv_cluster sv)\<lparr>nd_os := os\<rparr>\<rparr>)"

lemma same_tree_safe:
  assumes "tree os = tree (nd_os nd)" "cut_at os = cut_at (nd_os nd)"
  shows "safe nd (nd\<lparr>nd_os := os\<rparr>)"
proof -
  have node: "os_node os = os_node (nd_os nd)" by (simp add: os_node_def assms(1) fun_eq_iff)
  then have files: "file_at os = file_at (nd_os nd)" by (simp add: file_at_def fun_eq_iff)
  have "wf_os os = wf_os (nd_os nd)" by (simp add: wf_os_def wf_entry_def node assms(1))
  moreover have "user_files st os = user_files st (nd_os nd)" for st by (rule user_files_frame) (simp add: files)
  moreover have "accounts_of dir os = accounts_of dir (nd_os nd)" for dir by (rule accounts_of_cong) (simp_all add: files)
  ultimately show ?thesis by (simp add: safe_def node_fit_def node_ok_def store_ok_def cache_ok_def assms(2))
qed

lemma notify_all_rest:
  "sv_cluster (snd (notify_all notices sv)) = sv_cluster sv \<and> sv_sessions (snd (notify_all notices sv)) = sv_sessions sv"
  by (induction notices sv rule: notify_all.induct) (auto simp: push_notice_def push_all_def split: sum.split)

lemma server_steps_upholds: "server_steps sv sv' \<Longrightarrow> upholds sv sv'"
proof (induction rule: server_steps.induct)
  case (Connection w sv cid c)
  have "safe cl (snd e cl)" if "e \<in> set (wd_replica w)" for e cl
  proof -
    obtain sv1 :: "('a, 'b) server" where sv1: "sv_cluster sv1 = cl" "sv_sessions sv1 = []"
      using server.select_convs(1,2) by metis
    have "upholds sv1 (sv1\<lparr>sv_cluster := snd e (sv_cluster sv1)\<rparr>)" using Connection that by blast
    then show ?thesis by (auto simp: upholds_def server_ok_def safe_def sv1 sessions_ok_def)
  qed
  with Connection show ?case by (intro handle_connection_upholds) blast+
next
  case (Reassure sv candidate rest connect)
  have "safe (sv_cluster sv) ((sv_cluster sv)\<lparr>cl_reassure := rest\<rparr>)" by (rule safe_same) simp_all
  from told_upholds [OF safe_trans [OF this guarded.reassure_stable]] show ?case .
next
  case (Health sv dns dial hm)
  show ?case by (rule upholds_same) (simp_all add: health_turn_def split_beta notify_all_rest)
next
  case (Outside os sv)
  show ?case by (rule upholds_cluster) (use same_tree_safe [of os "sv_cluster sv"] Outside in simp_all)
qed (auto intro: upholds_trans end_sync_upholds told_upholds guarded.election_round_stable guarded.monitor_tick_stable)

section \<open>From the start\<close>

lemma join_loop_files:
  "nd_store (snd (join_loop n dial time host port cl)) = nd_store cl \<and> nd_os (snd (join_loop n dial time host port cl)) = nd_os cl"
  by (induction n dial time host port cl rule: join_loop.induct)
    (auto simp: Let_def split: option.split sum.split prod.split call_result.split)

lemma start_upholds:
  fixes sv :: "('p, 'q) server"
  assumes wf: "wf_os os" "cut_at os = None"
    and run: "server_run tls listening dial time opts (new_server opts os syncs) = (Inr None, sv)"
  shows "upholds (new_server opts os syncs) sv" "server_ok (new_server opts os syncs :: ('p, 'q) server)"
proof -
  let ?st = "new_store (data_root opts)" and ?sv = "new_server opts os syncs :: ('p, 'q) server"
  obtain ok1 os1 where m1: "store_init ?st os = (ok1, os1)" by fastforce
  obtain ok2 os2 where m2: "acc_init (accounts_dir ?st) os1 = (ok2, os2)" by fastforce
  let ?sv2 = "sv_set_files ?st os2 ?sv"
  have init: "sv_store ?sv = ?st" "sv_os ?sv = os" "sv_sessions ?sv = []" by (simp_all add: new_server_def new_cluster_def)
  have ok: "ok1" "ok2" and js: "snd (join_or_start dial time opts ?sv2) = sv"
    using run m1 m2 init by (cases ok1; cases ok2; simp add: server_run_def Let_def split: if_splits)+
  show "server_ok ?sv" using wf by (simp add: server_ok_def node_fit_def node_ok_def init store_ok_new sessions_ok_def)
  note e1 = store_init_effect [OF wf(1) m1 [unfolded eqTrueI [OF ok(1)]]]
  have a2: "adds_dirs os1 os2" using e1 m2 make_dirs_adds [of os1] by (auto simp: acc_init_def leftovers_gone_def)
  have "leftovers_gone (tmp_dir ?st) os os2"
    using e1 a2 same_env_trans by (auto simp: leftovers_gone_def adds_dirs_files [OF a2] adds_dirs_def)
  note kept = leftovers_keep_files [OF this] this
  have "safe (sv_cluster ?sv) (sv_cluster ?sv2)"
    using kept wf by (simp add: safe_def node_fit_def node_ok_def init store_ok_new leftovers_gone_def same_env_def)
  then have "upholds ?sv ?sv2" by (rule upholds_cluster) simp
  moreover have "upholds ?sv2 sv"
  proof (rule upholds_same)
    have "nd_store (snd (join_loop 10 dial time h p cl)) = nd_store cl" "nd_os (snd (join_loop 10 dial time h p cl)) = nd_os cl"
      for h p and cl :: "'p cluster" using join_loop_files by blast+
    then show "sv_store sv = sv_store ?sv2" "sv_os sv = sv_os ?sv2" "sv_sessions sv = sv_sessions ?sv2"
      using js by (auto simp: join_or_start_def join_cluster_def start_as_primary_def Let_def split_beta split: if_splits sum.splits)
  qed
  ultimately show "upholds ?sv sv" by (rule upholds_trans)
qed

text \<open>
  C11. A running server never corrupts its data and only serves known users: from the start on
  any well-formed data directory, through whatever connections with whatever messages, elections,
  heartbeats and checks, in any order, the stored files stay well-formed and agree with the
  cache of their hashes, no user has more than two sessions, every session belongs to a user
  with an account, and no account that was there at the start is lost.
\<close>

theorem server_invariant:
  fixes sv :: "('p, 'q) server"
  assumes "wf_os os" "cut_at os = None"
    and "server_run tls listening dial time opts (new_server opts os syncs) = (Inr None, sv0)" "server_steps sv0 sv"
  shows "store_ok (sv_store sv, sv_os sv) \<and> session_count user (sv_sessions sv) \<le> 2 \<and>
    (\<forall>token. case map_of (sv_sessions sv) token of None \<Rightarrow> True
       | Some s \<Rightarrow> s_user s \<in> dom (accounts_of (accounts_dir (sv_store sv)) (sv_os sv))) \<and>
    dom (accounts_of (accounts_dir (new_store (data_root opts))) os) \<subseteq>
      dom (accounts_of (accounts_dir (new_store (data_root opts))) (sv_os sv))"
proof -
  let ?sv = "new_server opts os syncs :: ('p, 'q) server"
  have init: "sv_store ?sv = new_store (data_root opts)" "sv_os ?sv = os" by (simp_all add: new_server_def new_cluster_def)
  from upholds_trans [OF start_upholds(1) [OF assms(1-3)] server_steps_upholds [OF assms(4)]] start_upholds(2) [OF assms(1-3)]
  have u: "server_ok sv" "st_root (sv_store sv) = st_root (sv_store ?sv)" "dom (accs_of (sv_cluster ?sv)) \<subseteq> dom (accs_of (sv_cluster sv))"
    by (simp_all add: upholds_def)
  then have dir: "accounts_dir (sv_store sv) = accounts_dir (new_store (data_root opts))" by (simp add: accounts_dir_def init)
  have "session_count user (sv_sessions sv) \<le> 2"
    using u(1) sessions_ok_count [of "sv_sessions sv" user] by (simp add: server_ok_def MAX_SESSIONS_PER_USER_def)
  moreover have "store_ok (sv_store sv, sv_os sv)" using u(1) by (simp add: server_ok_def node_fitD)
  moreover have "\<forall>token. case map_of (sv_sessions sv) token of None \<Rightarrow> True | Some s \<Rightarrow> s_user s \<in> dom (accs_of (sv_cluster sv))"
    using u(1) unfolding server_ok_def by (simp split: option.split)
  ultimately show ?thesis using u(3) by (simp add: dir init)
qed

text \<open>A login that creates an account, on the server that \<open>restart_keeps_data\<close> has started.\<close>

definition login_world :: "('p, 'q) world" where
  "login_world = idle_world\<lparr>wd_derive := sample_kdf, wd_salt := Some (replicate 16 CHR ''s''), wd_random := Some [7]\<rparr>"

definition after_login :: "((node \<times> link_phase), unit) server" where
  "after_login = snd (handle_connection login_world 1
     (client_conn [\<lparr>mtype = Msg_Login, payload = enc_str ''u'' @ enc_str ''secret''\<rparr>]) (snd started))"

lemma login_opens_session: "sv_sessions after_login \<noteq> []"
  by code_simp

theorem server_invariant_witness:
  "sv_sessions after_login \<noteq> [] \<and>
    store_ok (sv_store after_login, sv_os after_login) \<and> session_count ''u'' (sv_sessions after_login) \<le> 2 \<and>
    (\<forall>token. case map_of (sv_sessions after_login) token of None \<Rightarrow> True
       | Some s \<Rightarrow> s_user s \<in> dom (accounts_of (accounts_dir (sv_store after_login)) (sv_os after_login))) \<and>
    dom (accounts_of (accounts_dir (new_store (data_root old_options))) old_data) \<subseteq>
      dom (accounts_of (accounts_dir (new_store (data_root old_options))) (sv_os after_login))"
proof (rule conjI [OF login_opens_session], rule server_invariant)
  show "wf_os old_data" "cut_at old_data = None" by code_simp+
  have "fst started = Inr None" by code_simp
  then show "server_run True True no_dial 0 old_options (new_server old_options old_data (\<lambda>_. client_conn [])) = (Inr None, snd started)"
    by (simp add: started_def prod_eq_iff)
  have "openssl_ok (login_world :: ((node \<times> link_phase), unit) world)"
    by (simp add: openssl_ok_def login_world_def kdf_ok_def sample_kdf_def SALT_SIZE_def HASH_SIZE_def min_def)
  then show "server_steps (snd started) after_login"
    unfolding after_login_def by (rule server_steps.Connection) (simp_all add: login_world_def idle_world_def)
qed

end
