(* ===== verification/Failover.thy ===== *)
theory Failover
  imports Convergence Server_Invariant Cluster_Properties
begin

text \<open>
  Replication, elections and sessions together: a file whose upload was acknowledged is not lost
  when the primary fails and a backup takes over.
\<close>

text \<open>A second instance of \<open>cluster_stable\<close>: the files and accounts stay exactly as they are.\<close>

definition same_data :: "'p cluster \<Rightarrow> 'p cluster \<Rightarrow> bool" where
  "same_data cl cl' \<longleftrightarrow> nd_os cl' = nd_os cl \<and>
     (node_fit cl \<longrightarrow> node_fit cl' \<and> st_root (nd_store cl') = st_root (nd_store cl))"

interpretation data: cluster_stable same_data
proof
  fix cl :: "'p cluster"
  show "same_data cl (cl\<lparr>nd_store := snd (local_files (nd_store cl) (nd_os cl))\<rparr>)"
    using local_files_safe [of cl] by (simp add: same_data_def safe_def)
qed (auto simp: same_data_def node_fit_def node_ok_def)

lemma same_data_files:
  assumes "same_data cl cl'" "node_fit cl"
  shows "files_of cl' = files_of cl" "accs_of cl' = accs_of cl"
  using assms user_files_root [of "nd_store cl'" "nd_store cl"] by (simp_all add: same_data_def accounts_dir_def)

text \<open>A backup that has lost its link and wins the election is a primary with the data it had.\<close>

lemma take_over_keeps:
  assumes "node_fit nb" "election_round connect (link_lost k nb) = (Inr Elected, cl)"
  shows "is_primary cl" "node_fit cl" "files_of cl = files_of nb" "accs_of cl = accs_of nb"
proof -
  have "same_data nb (link_lost k nb)" by (rule data.stable_same) (simp_all add: link_lost_def)
  moreover have "same_data (link_lost k nb) cl" using data.election_round_stable [of "link_lost k nb" connect] assms(2) by simp
  ultimately have s: "same_data nb cl" by (rule data.stable_trans)
  show "files_of cl = files_of nb" "accs_of cl = accs_of nb" by (rule same_data_files [OF s assms(1)])+
  show "node_fit cl" using s assms(1) by (simp add: same_data_def)
  show "is_primary cl" using election_round_cases(3) [OF assms(2)] by (simp add: is_primary_def)
qed

text \<open>
  C2. An acknowledged upload survives the primary: a client was told by a running primary that its
  upload was done; then the primary fails, and any backup that was still linked to it wins an
  election. A client of the same user, in a session of the new primary, downloads the file
  and gets exactly the bytes that were uploaded (or is told that the download was not
  completed, which its own disk or its connection may cause).
\<close>

theorem upload_survives_failover:
  fixes sv :: "(('p cluster \<times> link_phase), 'q) server" and sv2 :: "('p, 'r) server"
  assumes "serving sv" "is_primary (sv_cluster sv)" and valid: "is_valid_username user" "is_valid_path name"
    and conn: "wait_for_connection cl = Some c" "in_session user token sv c"
    and here: "path \<noteq> []" "file_at (ct_os cl) (resolve path) = Some (bs, t)" "cut_at (ct_os cl) = None" "small bs"
    and up: "upload path name origin cl = (X_Ok (), cl1)" "server_after cl1 = Some sv1"
    and link: "(i, l) \<in> set (cl_links (sv_cluster sv1))" "peer_state (lk_conn l) = (nb, Attached)" "cut_at (nd_os nb) = None"
    and elected: "election_round connect (link_lost k nb) = (Inr Elected, sv_cluster sv2)"
    and again: "wait_for_connection cl2 = Some c2" "in_session user token2 sv2 c2" "wf_os (ct_os cl2)"
  shows "case download name dir cl2 of (res, cl3) \<Rightarrow>
    res = X_Rejected (''the download of '' @ name @ '' was not completed'') \<or>
    (\<exists>info temp t. res = X_Ok (info, temp) \<and> fi_name info = name \<and> fi_hash info = fnv_hash bs \<and>
       file_at (ct_os cl3) (resolve temp) = Some (bs, t))"
proof -
  obtain r c' os' where ex: "upload_exchange path name origin c (ct_os cl) = (r, c', os')" by (metis prod_cases3)
  from upload_exchange_session [OF assms(1,2) valid conn(2) here ex]
  obtain sv' where "in_session user token sv' c'"
    and acked: "r = Inr (X_Ok ()) \<and> links_all (backup_has (user, name) (Some bs)) {} (cl_links (sv_cluster sv')) \<or>
     (\<exists>e. r = Inr (X_Rejected e))" by blast
  then have "sv1 = sv'" "r = Inr (X_Ok ())"
    using up by (auto simp: upload_def transact_def conn(1) ex server_after_def Let_def in_session_def)
  with acked link(1) have "backup_has (user, name) (Some bs) (lk_conn l)" by (auto simp: links_all_def)
  then have nb: "node_ok nb" "map_option fst (files_of nb (user, name)) = Some bs"
    using link(2) by (auto simp: backup_has_def linked_def)
  then have "node_fit nb" using link(3) by (simp add: node_fit_def)
  note new = take_over_keeps [OF this elected]
  then obtain m where there: "sv_files sv2 (user, name) = Some (bs, m)" using nb(2) by auto
  obtain r2 c3 os3 where ex2: "download_exchange name dir c2 (ct_os cl2) = (r2, c3, os3)" by (metis prod_cases3)
  have "small (fst v)" if "sv_files sv2 (user, name) = Some v" for v using that there here(4) by auto
  note d = download_exchange_session [OF new(1) valid node_fitD(3) [OF new(2)] this again(2,3) ex2]
  let ?info = "(announced name bs m)\<lparr>fi_hash := fnv_hash bs\<rparr>"
  have info: "fi_name ?info = name" "fi_hash ?info = fnv_hash bs" by (simp_all add: announced_def)
  from d consider temp t' where "r2 = Inr (X_Ok (?info, temp))" "file_at os3 (resolve temp) = Some (bs, t')"
    | "r2 = Inr (X_Rejected (''the download of '' @ name @ '' was not completed''))"
    by (auto simp: there)
  then show ?thesis
  proof cases
    case 1
    with info show ?thesis by (auto simp: download_def transact_def again(1) ex2 Let_def simp del: file_info.update_convs)
  qed (simp add: download_def transact_def again(1) ex2 Let_def)
qed

text \<open>A primary with one backup, and a client that uploads a file before the primary fails.\<close>

definition standby :: "unit cluster" where
  "standby =
     \<lparr>nd_self = server_no 999, nd_members = [server_no 1000, server_no 999],
      nd_store = new_store ''r'', nd_os = data_dir (user_u ''f'' ''x''),
      cl_role = Backup, cl_primary = server_no 1000, cl_primary_known = True, cl_lowest = 0,
      cl_links = [], cl_primary_link = Some 1, cl_last_heard = 0, cl_building = False, cl_coordinator_seen = True,
      cl_electing = False, cl_reassure = [], cl_notified = []\<rparr>"

definition standby_link :: "(unit cluster \<times> link_phase) conn" where
  "standby_link = \<lparr>peer_state = (standby, Attached), respond = replica_respond, outq = [], inq = [],
     sends_left = None, is_open = True, peer_is_server = True\<rparr>"

definition leading :: "((unit cluster \<times> link_phase), unit) server" where
  "leading = \<lparr>sv_cluster =
     \<lparr>nd_self = server_no 1000, nd_members = [server_no 1000, server_no 999],
      nd_store = new_store ''r'', nd_os = data_dir (user_u ''f'' ''x''),
      cl_role = Primary, cl_primary = server_no 1000, cl_primary_known = True, cl_lowest = 999,
      cl_links = [(999, \<lparr>lk_member = server_no 999, lk_conn = standby_link\<rparr>)], cl_primary_link = None,
      cl_last_heard = 0, cl_building = False, cl_coordinator_seen = False, cl_electing = False,
      cl_reassure = [], cl_notified = []\<rparr>,
     sv_sessions = [], sv_syncs = \<lambda>_. undefined, sv_problems = []\<rparr>"

definition session_with :: "('p, 'q) server \<Rightarrow> (('p, 'q) server \<times> bool) conn" where
  "session_with sv = \<lparr>peer_state = (sv, True), respond = session_respond ''u'' ''t'', outq = [], inq = [],
     sends_left = None, is_open = True, peer_is_server = True\<rparr>"

definition client_of :: "('p, 'q) server \<Rightarrow> (('p, 'q) server \<times> bool) client" where
  "client_of sv = (new_client sample_options edited_disk ''2026-10-20 14.03.07'')
     \<lparr>ct_cmd := Some (session_with sv), ct_connected := True\<rparr>"

definition uploaded :: "(((unit cluster \<times> link_phase), unit) server \<times> bool) client" where
  "uploaded = snd (upload ''s/a.txt'' ''a.txt'' 1 (client_of leading))"

definition last_state :: "((unit cluster \<times> link_phase), unit) server" where
  "last_state = fst (peer_state (the (ct_cmd uploaded)))"

definition successor :: "(unit, unit) server" where
  "successor = \<lparr>sv_cluster = snd (election_round (\<lambda>_. None)
      (link_lost 1 (fst (peer_state (lk_conn (snd (hd (cl_links (sv_cluster last_state))))))))),
     sv_sessions = [], sv_syncs = \<lambda>_. undefined, sv_problems = []\<rparr>"

lemma session_with_ok: "in_session ''u'' ''t'' sv (session_with sv)"
  by (simp add: in_session_def session_with_def live_def)

lemma client_of_conn: "wait_for_connection (client_of sv) = Some (session_with sv)" "ct_os (client_of sv) = edited_disk"
  by (simp_all add: client_of_def wait_for_connection_def new_client_def)

lemma uploaded_ok: "fst (upload ''s/a.txt'' ''a.txt'' 1 (client_of leading)) = X_Ok ()"
  by code_simp

lemma still_linked: "cl_links (sv_cluster last_state) \<noteq> []"
  by code_simp

lemma attached_still: "snd (peer_state (lk_conn (snd (hd (cl_links (sv_cluster last_state)))))) = Attached"
  by code_simp

lemma backup_running: "cut_at (nd_os (fst (peer_state (lk_conn (snd (hd (cl_links (sv_cluster last_state)))))))) = None"
  by code_simp

lemma uploaded_server: "server_after uploaded = Some last_state"
proof -
  have "ct_cmd uploaded \<noteq> None"
    using uploaded_ok
    by (auto simp: uploaded_def upload_def transact_def client_of_conn Let_def split: prod.splits sum.splits outcome.splits)
  then show ?thesis by (auto simp: server_after_def last_state_def)
qed

lemma elected_ok: "fst (election_round (\<lambda>_. None)
    (link_lost 1 (fst (peer_state (lk_conn (snd (hd (cl_links (sv_cluster last_state))))))))) = Inr Elected"
  by code_simp

lemma leading_serving: "serving leading" "is_primary (sv_cluster leading)"
proof -
  have "linked standby_link standby"
    by (simp add: linked_def standby_link_def live_def node_ok_def store_ok_new standby_def data_dir_ok)
  then have "backup_link standby_link" by (auto simp: backup_link_def)
  then show "serving leading"
    by (simp add: serving_def leading_def store_ok_new data_dir_ok servers_ok_def server_no_def keyed_def omap_wf_def links_all_def)
  show "is_primary (sv_cluster leading)" by (simp add: leading_def is_primary_def)
qed

theorem upload_survives_failover_witness:
  "case download ''a.txt'' ''s'' (client_of successor) of (res, cl3) \<Rightarrow>
    res = X_Rejected (''the download of '' @ ''a.txt'' @ '' was not completed'') \<or>
    (\<exists>info temp t. res = X_Ok (info, temp) \<and> fi_name info = ''a.txt'' \<and> fi_hash info = fnv_hash ''mine'' \<and>
       file_at (ct_os cl3) (resolve temp) = Some (''mine'', t))"
proof -
  obtain i l where hd: "hd (cl_links (sv_cluster last_state)) = (i, l)" by fastforce
  obtain nb where nb: "peer_state (lk_conn l) = (nb, Attached)"
    using attached_still unfolding hd by (cases "peer_state (lk_conn l)") simp
  have up: "upload ''s/a.txt'' ''a.txt'' 1 (client_of leading) = (X_Ok (), uploaded)"
    using uploaded_ok by (simp add: uploaded_def prod_eq_iff)
  have cut: "cut_at (nd_os nb) = None" using backup_running by (simp add: hd nb)
  have link: "(i, l) \<in> set (cl_links (sv_cluster last_state))" using still_linked hd by (metis hd_in_set)
  have "election_round (\<lambda>_. None) (link_lost 1 nb) = (Inr Elected, sv_cluster successor)"
    using elected_ok by (simp add: successor_def hd nb prod_eq_iff)
  from upload_survives_failover [OF leading_serving _ _ client_of_conn(1) session_with_ok _ _ _ _ up uploaded_server link nb cut this
      client_of_conn(1) session_with_ok, where bs = "''mine''" and t = 8 and dir = "''s''"]
  show ?thesis unfolding client_of_conn(2) by this code_simp+
qed

end
