(* ===== verification/Election.thy ===== *)
theory Election
  imports Cluster_Properties
begin

text \<open>
  The loop of \<open>run_election\<close> and the thread of \<open>start_election\<close>, in \<open>server/cluster.cpp\<close>: rounds until this
  server is the primary or has heard of one.
\<close>

text \<open>
  A turn of the loop: the connections its round gets, and what the other threads do to the
  cluster until the wait for a coordinator is over. After the last turn the server stops, which
  ends the wait and the loop.
\<close>

record 'p election_turn =
  et_connect :: "'p connector"
  et_wait :: "'p cluster \<Rightarrow> 'p cluster"

fun run_election :: "'p election_turn list \<Rightarrow> 'p cluster \<Rightarrow> (protocol_error + unit) \<times> 'p cluster" where
  "run_election [] cl = (Inr (), cl)"
| "run_election (t # ts) cl =
     (case election_round (et_connect t) cl of
        (Inl e, cl) \<Rightarrow> (Inl e, cl)
      | (Inr Already_primary, cl) \<Rightarrow> (Inr (), cl)
      | (Inr Elected, cl) \<Rightarrow> (Inr (), cl)
      | (Inr Outranked, cl) \<Rightarrow>
          (let cl = et_wait t cl in if cl_coordinator_seen cl then (Inr (), cl) else run_election ts cl))"

text \<open>The thread; an exception that leaves it ends the program.\<close>

definition election_thread :: "'p election_turn list \<Rightarrow> 'p cluster \<Rightarrow> (protocol_error + unit) \<times> 'p cluster" where
  "election_thread ts cl =
     (case run_election ts cl of
        (Inl e, cl) \<Rightarrow> (Inl e, cl)
      | (Inr _, cl) \<Rightarrow> (Inr (), cl\<lparr>cl_electing := False\<rparr>))"

section \<open>It ends with a primary\<close>

text \<open>The four ends of a round. The exception is one of the code after this server has taken over.\<close>

lemma ask_higher_total: "str_ok (sa_host me) \<Longrightarrow> \<exists>alive. ask_higher connect me ms = Inr alive"
proof (induction ms)
  case (Cons m ms)
  then obtain alive body where "ask_higher connect me ms = Inr alive" "write_server me [] = Inr body"
    using cserver.wr_enc by blast
  then show ?case by (cases "connect m") simp_all
qed auto

lemma become_primary_role: "cl_role (snd (become_primary connect cl)) = Primary"
  using become_primary_ids [of cl connect] take_over_facts(1) [of cl] by (simp add: same_ids_def)

lemma election_round_ends:
  assumes "str_ok (sa_host (nd_self cl))"
  obtains cl' where "election_round connect cl = (Inr Outranked, cl')" "nd_self cl' = nd_self cl"
      "\<exists>m. sa_id (nd_self cl) < sa_id m \<and> answers_election connect (nd_self cl) m"
  | r cl' where "election_round connect cl = (r, cl')" "r \<noteq> Inr Outranked" "cl_role cl' = Primary"
proof -
  let ?cl = "cl\<lparr>cl_primary_known := False, cl_coordinator_seen := False\<rparr>"
  let ?higher = "filter (\<lambda>m. sa_id (nd_self cl) < sa_id m) (nd_members cl)"
  obtain alive where a: "ask_higher connect (nd_self cl) ?higher = Inr alive" using ask_higher_total [OF assms] by blast
  obtain r cl1 where b: "become_primary connect ?cl = (r, cl1)" by fastforce
  have p: "cl_role cl1 = Primary" using become_primary_role [of connect ?cl] b by simp
  show thesis
  proof (cases "cl_role cl = Primary")
    case True
    with that(2) show thesis by (simp add: election_round_def)
  next
    case False
    show thesis
    proof (cases alive)
      case True
      with ask_higher_iff [OF a] have "\<exists>m. sa_id (nd_self cl) < sa_id m \<and> answers_election connect (nd_self cl) m" by auto
      moreover have "election_round connect cl = (Inr Outranked, ?cl)" using False True a by (simp add: election_round_def)
      ultimately show thesis using that(1) [of ?cl] by simp
    next
      case no: False
      have "election_round connect cl = (case r of Inl e \<Rightarrow> Inl e | Inr u \<Rightarrow> Inr Elected, cl1)"
        using False no a b by (simp add: election_round_def split: sum.split)
      with that(2) p show thesis by (auto split: sum.splits)
    qed
  qed
qed

text \<open>
  C22. An election does not end before the server is the primary or has heard of a new one:
  after any number of rounds in which a member with a higher id answered and then no
  coordinator announced itself, a round in which no such member can be reached makes this
  server the primary. What the other threads do in between is arbitrary, except that they leave
  the server its own id and address.
\<close>

theorem election_settles:
  assumes "str_ok (sa_host (nd_self cl))"
    and "\<And>t c. t \<in> set ts \<Longrightarrow> nd_self (et_wait t c) = nd_self c"
    and "\<And>m. sa_id (nd_self cl) < sa_id m \<Longrightarrow> et_connect last_turn m = None"
  shows "is_primary (snd (run_election (ts @ [last_turn]) cl)) \<or> cl_coordinator_seen (snd (run_election (ts @ [last_turn]) cl))"
  using assms
proof (induction ts arbitrary: cl)
  case Nil
  have "\<not> answers_election (et_connect last_turn) (nd_self cl) m" if "sa_id (nd_self cl) < sa_id m" for m
    using Nil(3) [OF that] by (simp add: answers_election_def)
  then show ?case
    by (cases rule: election_round_ends [OF Nil(1), of "et_connect last_turn"])
      (auto simp: is_primary_def split: sum.split round_result.split)
next
  case (Cons t ts)
  show ?case
  proof (cases rule: election_round_ends [OF Cons(2), of "et_connect t"])
    case (1 cl')
    have self: "nd_self (et_wait t cl') = nd_self cl" using Cons(3) 1(2) by simp
    have "is_primary (snd (run_election (ts @ [last_turn]) (et_wait t cl'))) \<or>
        cl_coordinator_seen (snd (run_election (ts @ [last_turn]) (et_wait t cl')))"
      using Cons(2-4) by (intro Cons(1)) (simp_all add: self)
    with 1(1) show ?thesis by (simp add: Let_def)
  next
    case (2 r cl')
    then show ?thesis by (auto simp: is_primary_def split: sum.split round_result.split)
  qed
qed

text \<open>A network in which every server answers an election message, followed by a failure of all the others.\<close>

definition outranked_turn :: "(node \<times> link_phase) election_turn" where
  "outranked_turn =
     \<lparr>et_connect = (\<lambda>m. Some (new_link Attached\<lparr>respond := \<lambda>s ms. (s, [\<lparr>mtype = Msg_Ok, payload = []\<rparr>])\<rparr>)), et_wait = id\<rparr>"

lemma outranked_turn_runs: "fst (election_round (et_connect outranked_turn) backup_cluster) = Inr Outranked"
  by code_simp

theorem election_settles_witness:
  "is_primary (snd (run_election ([outranked_turn, outranked_turn] @ [\<lparr>et_connect = unreachable, et_wait = id\<rparr>]) backup_cluster)) \<or>
   cl_coordinator_seen (snd (run_election ([outranked_turn, outranked_turn] @ [\<lparr>et_connect = unreachable, et_wait = id\<rparr>]) backup_cluster))"
  by (rule election_settles)
    (auto simp: backup_cluster_def primary_cluster_def server_no_def outranked_turn_def unreachable_def)

end
