(* ===== verification/System_Calls.thy ===== *)
theory System_Calls
  imports FileTransfer
begin

text \<open>
  The loops around \<open>read\<close>, \<open>write\<close> and \<open>poll\<close>: \<open>read_fully\<close>, \<open>write_fully\<close> and the reads of \<open>hash_fd\<close>
  in \<open>common/files.cpp\<close>, \<open>wait_for\<close> in \<open>common/connection.cpp\<close>. The calls, on one descriptor, are an
  argument; a signal may interrupt each of them, and they may move less than they were asked to.
  The rest of the development takes reads and writes whole, which is justified here.
\<close>

datatype errno = EINTR | Other_errno

record 'k io_calls =
  io_read :: "nat \<Rightarrow> 'k \<Rightarrow> (errno + string) \<times> 'k"
  io_write :: "string \<Rightarrow> 'k \<Rightarrow> (errno + nat) \<times> 'k"
  io_poll :: "int \<Rightarrow> 'k \<Rightarrow> (errno + nat) \<times> 'k"

section \<open>The loops\<close>

text \<open>\<open>got\<close> is the part of the buffer that is filled, \<open>want\<close> is \<open>size\<close>.\<close>

partial_function (option) read_loop :: "'k io_calls \<Rightarrow> nat \<Rightarrow> string \<Rightarrow> 'k \<Rightarrow> (string option \<times> 'k) option" where
  "read_loop calls want got k =
     (if length got < want then
        (case io_read calls (want - length got) k of (n, k) \<Rightarrow>
          (case n of
             Inr bytes \<Rightarrow> if bytes \<noteq> [] then read_loop calls want (got @ bytes) k else Some (None, k)
           | Inl e \<Rightarrow> if e = EINTR then read_loop calls want got k else Some (None, k)))
      else Some (Some got, k))"

definition read_fully :: "'k io_calls \<Rightarrow> nat \<Rightarrow> 'k \<Rightarrow> (string option \<times> 'k) option" where
  "read_fully calls want k = read_loop calls want [] k"

text \<open>\<open>n\<close> is \<open>done\<close>, the number of bytes that are written.\<close>

partial_function (option) write_loop :: "'k io_calls \<Rightarrow> string \<Rightarrow> nat \<Rightarrow> 'k \<Rightarrow> (bool \<times> 'k) option" where
  "write_loop calls data n k =
     (if n < length data then
        (case io_write calls (drop n data) k of (m, k) \<Rightarrow>
          (case m of
             Inr moved \<Rightarrow> if 0 < moved then write_loop calls data (n + moved) k else Some (False, k)
           | Inl e \<Rightarrow> if e = EINTR then write_loop calls data n k else Some (False, k)))
      else Some (True, k))"

definition write_fully :: "'k io_calls \<Rightarrow> string \<Rightarrow> 'k \<Rightarrow> (bool \<times> 'k) option" where
  "write_fully calls data k = write_loop calls data 0 k"

partial_function (option) wait_for :: "'k io_calls \<Rightarrow> int \<Rightarrow> 'k \<Rightarrow> (bool \<times> 'k) option" where
  "wait_for calls timeout k =
     (case io_poll calls timeout k of (rc, k) \<Rightarrow>
      (case rc of
         Inr n \<Rightarrow> Some (0 < n, k)
       | Inl e \<Rightarrow> if e = EINTR then wait_for calls timeout k else Some (False, k)))"

text \<open>\<open>hash_fd\<close>, with its reads.\<close>

function hash_reads :: "'k io_calls \<Rightarrow> nat \<Rightarrow> u64 \<Rightarrow> 'k \<Rightarrow> (u64 option \<times> 'k) option" where
  "hash_reads calls remaining h k =
     (if remaining = 0 then Some (Some h, k)
      else let chunk = min remaining FILE_CHUNK_SIZE in
        case read_fully calls chunk k of
          None \<Rightarrow> None
        | Some (None, k) \<Rightarrow> Some (None, k)
        | Some (Some buffer, k) \<Rightarrow> hash_reads calls (remaining - chunk) (fnv_update h buffer) k)"
  by pat_completeness auto
termination
  by (relation "measure (\<lambda>(c, r, h, k). r)") (auto simp: FILE_CHUNK_SIZE_def)

declare hash_reads.simps [simp del]

section \<open>What the calls promise\<close>

text \<open>
  \<open>rest k\<close> is what the descriptor still delivers, \<open>signals k\<close> bounds the interruptions to come. A
  read delivers the next bytes, no more than it is asked for, and nothing only at the end.
\<close>

definition reads :: "'k io_calls \<Rightarrow> ('k \<Rightarrow> string) \<Rightarrow> ('k \<Rightarrow> nat) \<Rightarrow> bool" where
  "reads calls rest signals \<longleftrightarrow>
     (\<forall>n k. 0 < n \<longrightarrow>
       (case io_read calls n k of
          (Inl e, k') \<Rightarrow> e = EINTR \<and> rest k' = rest k \<and> signals k' < signals k
        | (Inr bytes, k') \<Rightarrow> length bytes \<le> n \<and> rest k = bytes @ rest k' \<and> (bytes = [] \<longrightarrow> rest k = [])))"

text \<open>\<open>written k\<close> is what the file holds; a write may fail.\<close>

definition writes :: "'k io_calls \<Rightarrow> ('k \<Rightarrow> string) \<Rightarrow> ('k \<Rightarrow> nat) \<Rightarrow> bool" where
  "writes calls written signals \<longleftrightarrow>
     (\<forall>data k. data \<noteq> [] \<longrightarrow>
       (case io_write calls data k of
          (Inl e, k') \<Rightarrow> written k' = written k \<and> (e = EINTR \<longrightarrow> signals k' < signals k)
        | (Inr n, k') \<Rightarrow> n \<le> length data \<and> written k' = written k @ take n data))"

section \<open>Reads and writes are whole\<close>

lemma read_loop_result:
  assumes reads: "reads calls rest signals"
  shows "length got \<le> want \<Longrightarrow>
    \<exists>k'. (if length (rest k) < want - length got then read_loop calls want got k = Some (None, k')
          else read_loop calls want got k = Some (Some (got @ take (want - length got) (rest k)), k') \<and>
            rest k' = drop (want - length got) (rest k))"
proof (induction "want - length got" arbitrary: got k rule: less_induct)
  case less
  note shorter = less(1)
  show ?case using less(2)
  proof (induction "signals k" arbitrary: k rule: less_induct)
    case (less k)
    show ?case
    proof (cases "length got < want")
      case False
      with less(2) show ?thesis by (subst read_loop.simps) (simp add: read_loop.simps)
    next
      case True
      obtain n k1 where r: "io_read calls (want - length got) k = (n, k1)" by fastforce
      note eq = read_loop.simps [of calls want got k, unfolded r prod.case if_P [OF True]]
      show ?thesis
      proof (cases n)
        case (Inl e)
        with reads r True have e: "e = EINTR" "rest k1 = rest k" "signals k1 < signals k"
          unfolding reads_def by (fastforce dest!: spec [of _ "want - length got"] spec [of _ k])+
        with eq Inl have "read_loop calls want got k = read_loop calls want got k1" by simp
        with less(1) [OF e(3) less(2)] show ?thesis by (simp only: e(2))
      next
        case (Inr bytes)
        with reads r True have b: "length bytes \<le> want - length got" "rest k = bytes @ rest k1" "bytes = [] \<Longrightarrow> rest k = []"
          unfolding reads_def by (fastforce dest!: spec [of _ "want - length got"] spec [of _ k])+
        show ?thesis
        proof (cases "bytes = []")
          case True': True
          with eq Inr b(3) True show ?thesis by simp
        next
          case False
          have fit: "want - length (got @ bytes) < want - length got" "length (got @ bytes) \<le> want"
            using False b(1) True by (cases bytes; simp)+
          from eq Inr False have "read_loop calls want got k = read_loop calls want (got @ bytes) k1" by simp
          with shorter [OF fit, of k1] b(1,2) True show ?thesis by (auto simp: not_less split: if_splits)
        qed
      qed
    qed
  qed
qed

text \<open>
  However the reads are cut and interrupted, \<open>read_fully\<close> ends; it returns the next \<open>size\<close> bytes of
  the file, or fails because there are fewer.
\<close>

lemma read_fully_exact:
  assumes "reads calls rest signals"
  obtains k' where "read_fully calls want k =
      Some (if length (rest k) < want then None else Some (take want (rest k)), k')"
    "want \<le> length (rest k) \<Longrightarrow> rest k' = drop want (rest k)"
  using read_loop_result [OF assms, of "[]" want k] by (auto simp: read_fully_def split: if_splits)

text \<open>
  C39. However its reads are cut and interrupted, \<open>hash_fd\<close> ends, with what the loop over whole chunks
  of the rest of the file computes: the hash of the announced number of bytes, or a failure exactly
  when there are fewer.
\<close>

theorem hash_reads_refines:
  assumes "reads calls rest signals"
  shows "map_option fst (hash_reads calls remaining h k) = Some (hash_fd_loop (rest k) remaining h)"
proof (induction "rest k" remaining h arbitrary: k rule: hash_fd_loop.induct)
  case (1 remaining h)
  define n where "n = min remaining FILE_CHUNK_SIZE"
  note eq = hash_reads.simps [of calls remaining h k, unfolded Let_def, folded n_def]
    hash_fd_loop.simps [of "rest k" remaining h, unfolded Let_def, folded n_def]
  obtain k1 where r: "read_fully calls n k = Some (if length (rest k) < n then None else Some (take n (rest k)), k1)"
    "n \<le> length (rest k) \<Longrightarrow> rest k1 = drop n (rest k)"
    using read_fully_exact [OF assms] by metis
  show ?case
  proof (cases "remaining = 0 \<or> length (rest k) < n")
    case True
    with eq r(1) show ?thesis by auto
  next
    case False
    then have d: "rest k1 = drop n (rest k)" using r(2) by simp
    from False have "map_option fst (hash_reads calls (remaining - n) (fnv_update h (take n (rest k))) k1) =
        Some (hash_fd_loop (drop n (rest k)) (remaining - n) (fnv_update h (take n (rest k))))"
      using 1 [OF _ n_def _ d [symmetric]] d by simp
    with False r(1) show ?thesis by (simp only: eq) simp
  qed
qed

lemma write_loop_result:
  assumes writes: "writes calls written signals"
  shows "n \<le> length data \<Longrightarrow>
    \<exists>ok k' m. write_loop calls data n k = Some (ok, k') \<and> n \<le> m \<and> m \<le> length data \<and>
      written k' = written k @ take (m - n) (drop n data) \<and> (ok \<longrightarrow> m = length data)"
proof (induction "length data - n" arbitrary: n k rule: less_induct)
  case less
  note shorter = less(1)
  show ?case using less(2)
  proof (induction "signals k" arbitrary: k rule: less_induct)
    case (less k)
    show ?case
    proof (cases "n < length data")
      case False
      with less(2) show ?thesis by (intro exI [of _ True] exI [of _ k] exI [of _ n]) (simp add: write_loop.simps)
    next
      case True
      obtain r k1 where r: "io_write calls (drop n data) k = (r, k1)" by fastforce
      note eq = write_loop.simps [of calls data n k, unfolded r prod.case if_P [OF True]]
      have data: "drop n data \<noteq> []" using True by simp
      show ?thesis
      proof (cases r)
        case (Inl e)
        with writes r data have e: "written k1 = written k" "e = EINTR \<Longrightarrow> signals k1 < signals k"
          unfolding writes_def by (fastforce dest!: spec [of _ "drop n data"] spec [of _ k])+
        show ?thesis
        proof (cases "e = EINTR")
          case True
          with eq Inl have "write_loop calls data n k = write_loop calls data n k1" by simp
          with less(1) [OF e(2) [OF True] less(2)] e(1) show ?thesis by simp
        next
          case False
          with eq Inl e(1) less(2) show ?thesis by (intro exI [of _ False] exI [of _ k1] exI [of _ n]) simp
        qed
      next
        case (Inr m)
        with writes r data have m: "m \<le> length data - n" "written k1 = written k @ take m (drop n data)"
          unfolding writes_def by (fastforce dest!: spec [of _ "drop n data"] spec [of _ k])+
        show ?thesis
        proof (cases "m = 0")
          case m0: True
          with eq Inr m(2) less(2) show ?thesis by (intro exI [of _ False] exI [of _ k1] exI [of _ n]) simp
        next
          case False
          with eq Inr have w: "write_loop calls data n k = write_loop calls data (n + m) k1" by simp
          have fit: "length data - (n + m) < length data - n" "n + m \<le> length data" using False m(1) True by simp_all
          from shorter [OF fit, of k1] obtain ok k' l where l: "write_loop calls data (n + m) k1 = Some (ok, k')"
            "n + m \<le> l" "l \<le> length data" "written k' = written k1 @ take (l - (n + m)) (drop (n + m) data)" "ok \<longrightarrow> l = length data"
            by blast
          have "take (l - n) (drop n data) = take m (drop n data) @ take (l - (n + m)) (drop (n + m) data)"
            using l(2) take_add [of m "l - (n + m)" "drop n data"] by (simp add: add.commute)
          with l m(2) w show ?thesis by (intro exI [of _ ok] exI [of _ k'] exI [of _ l]) simp
        qed
      qed
    qed
  qed
qed

text \<open>\<open>write_fully\<close> ends; it has written the data if it says so, and a beginning of the data otherwise.\<close>

lemma write_fully_exact:
  assumes "writes calls written signals"
  obtains ok k' m where "write_fully calls data k = Some (ok, k')" "written k' = written k @ take m data"
    "ok \<Longrightarrow> take m data = data"
  using write_loop_result [OF assms, of 0 data k] by (auto simp: write_fully_def)

text \<open>\<open>wait_for\<close> ends when the interruptions do, with the answer of the last \<open>poll\<close>.\<close>

lemma wait_for_ends:
  fixes signals :: "'k \<Rightarrow> nat"
  assumes "\<And>k k'. io_poll calls timeout k = (Inl EINTR, k') \<Longrightarrow> signals k' < signals k"
  shows "\<exists>k0 rc k'. io_poll calls timeout k0 = (rc, k') \<and> rc \<noteq> Inl EINTR \<and>
    wait_for calls timeout k = Some (case rc of Inl e \<Rightarrow> False | Inr n \<Rightarrow> 0 < (n::nat), k')"
proof (induction "signals k" arbitrary: k rule: less_induct)
  case less
  obtain rc k1 where p: "io_poll calls timeout k = (rc, k1)" by fastforce
  note eq = wait_for.simps [of calls timeout k, unfolded p prod.case]
  show ?case
  proof (cases "rc = Inl EINTR")
    case True
    with eq have "wait_for calls timeout k = wait_for calls timeout k1" by simp
    with less [of k1] assms p True show ?thesis by simp
  next
    case False
    with p eq show ?thesis by (intro exI [of _ k] exI [of _ rc] exI [of _ k1]) (auto split: sum.split)
  qed
qed

section \<open>A file that is read in pieces\<close>

text \<open>The bytes that are left, and what the next calls do: 0 is a signal, more a limit of bytes.\<close>

definition piece_calls :: "(string \<times> nat list) io_calls" where
  "piece_calls =
     \<lparr>io_read = (\<lambda>n (bytes, plan). case plan of
        [] \<Rightarrow> (Inr (take n bytes), drop n bytes, [])
      | p # plan \<Rightarrow> if p = 0 then (Inl EINTR, bytes, plan) else (Inr (take (min n p) bytes), drop (min n p) bytes, plan)),
      io_write = (\<lambda>data (bytes, plan). case plan of
        [] \<Rightarrow> (Inr (length data), bytes @ data, [])
      | p # plan \<Rightarrow> if p = 0 then (Inl EINTR, bytes, plan) else (Inr (min (length data) p), bytes @ take (min (length data) p) data, plan)),
      io_poll = (\<lambda>t (bytes, plan). case plan of [] \<Rightarrow> (Inr 0, bytes, []) | p # plan \<Rightarrow> (if p = 0 then Inl EINTR else Inr 1, bytes, plan))\<rparr>"

lemma piece_calls_read: "reads piece_calls fst (length \<circ> snd)"
  by (auto simp: reads_def piece_calls_def split: list.splits)

lemma piece_calls_write: "writes piece_calls fst (length \<circ> snd)"
  by (auto simp: writes_def piece_calls_def split: list.splits)

theorem hash_reads_refines_witness:
  "map_option fst (hash_reads piece_calls 3 fnv_init (''abcd'', [0, 1, 0, 5])) =
   Some (hash_fd_loop (fst (''abcd'', [0::nat, 1, 0, 5])) 3 fnv_init)"
  by (rule hash_reads_refines [OF piece_calls_read])

end
