(* ===== verification/Printing.thy ===== *)
theory Printing
  imports Client_Commands Conflict_Names Network
begin

text \<open>
  How the client prints sizes, times and listings: \<open>format_size\<close> and \<open>format_time\<close> of
  \<open>common/files.cpp\<close>, \<open>file_table\<close> and \<open>Client::say\<close> of \<open>client/client.cpp\<close>. \<open>localtime_r\<close> is an argument.
\<close>

section \<open>Numbers as \<open>double\<close> and \<open>printf\<close> write them\<close>

text \<open>Division to the nearest integer, ties to even: the rounding mode of both.\<close>

definition round_even :: "nat \<Rightarrow> nat \<Rightarrow> nat" where
  "round_even a b =
     (let q = a div b; r = a mod b in if 2 * r < b \<or> 2 * r = b \<and> even q then q else Suc q)"

fun bit_size :: "nat \<Rightarrow> nat" where
  "bit_size n = (if n = 0 then 0 else Suc (bit_size (n div 2)))"

declare bit_size.simps [simp del]

text \<open>The nearest number with 53 significant bits.\<close>

definition to_double :: "nat \<Rightarrow> nat" where
  "to_double n = (let e = bit_size n - 53 in round_even n (2 ^ e) * 2 ^ e)"

definition snprintf_cut :: "nat \<Rightarrow> string \<Rightarrow> string" where
  "snprintf_cut room text = take (room - 1) text"

section \<open>Sizes\<close>

text \<open>
  The loop of \<open>format_size\<close>: dividing by 1024 is exact for a \<open>double\<close>, so the value after \<open>unit\<close>
  divisions is \<open>value / 1024 ^ unit\<close>.
\<close>

function size_unit :: "nat \<Rightarrow> nat \<Rightarrow> nat" where
  "size_unit value unit = (if 1024 ^ Suc unit \<le> value \<and> unit < 3 then size_unit value (Suc unit) else unit)"
  by auto

termination
  by (relation "measure (\<lambda>(value, unit). 3 - unit)") auto

declare size_unit.simps [simp del]

definition size_units :: "string list" where
  "size_units = [''B'', ''KB'', ''MB'', ''GB'']"

text \<open>\<open>%.1f\<close>, of a number of tenths.\<close>

definition one_decimal :: "nat \<Rightarrow> string" where
  "one_decimal tenths = to_dec (tenths div 10) @ ''.'' @ to_dec (tenths mod 10)"

definition format_size :: "u64 \<Rightarrow> string" where
  "format_size bytes =
     (let value = to_double (unat bytes); unit = size_unit value 0;
          number = (if unit = 0 then to_dec value else one_decimal (round_even (10 * value) (1024 ^ unit)))
      in snprintf_cut 32 (number @ '' '' @ size_units ! unit))"

section \<open>Times\<close>

record broken_down =
  tm_year :: int  \<comment> \<open>the year itself, not counted from 1900\<close>
  tm_mon :: nat   \<comment> \<open>from 1\<close>
  tm_mday :: nat
  tm_hour :: nat
  tm_min :: nat
  tm_sec :: nat

definition two_digits :: "nat \<Rightarrow> string" where
  "two_digits n = (if n < 10 then ''0'' else []) @ to_dec n"

definition year_text :: "int \<Rightarrow> string" where
  "year_text y = (if y < 0 then ''-'' else []) @ to_dec (nat \<bar>y\<bar>)"

definition strftime_local :: "broken_down \<Rightarrow> string" where
  "strftime_local tm =
     year_text (tm_year tm) @ ''-'' @ two_digits (tm_mon tm) @ ''-'' @ two_digits (tm_mday tm) @ '' '' @
     two_digits (tm_hour tm) @ '':'' @ two_digits (tm_min tm) @ '':'' @ two_digits (tm_sec tm)"

definition format_time :: "(int \<Rightarrow> broken_down) \<Rightarrow> i64 \<Rightarrow> string" where
  "format_time localtime mtime_ns = strftime_local (localtime (tdiv (sint mtime_ns) 1000000000))"

section \<open>Listings\<close>

definition pad_right :: "nat \<Rightarrow> string \<Rightarrow> string" where
  "pad_right w s = s @ replicate (w - length s) CHR '' ''"

definition pad_left :: "nat \<Rightarrow> string \<Rightarrow> string" where
  "pad_left w s = replicate (w - length s) CHR '' '' @ s"

definition table_row :: "string \<Rightarrow> string \<Rightarrow> string \<Rightarrow> string" where
  "table_row path len modified =
     ''  '' @ pad_right 48 (c_str path) @ '' '' @ pad_left 10 (c_str len) @ ''  '' @ c_str modified"

definition file_row :: "(int \<Rightarrow> broken_down) \<Rightarrow> file_info \<Rightarrow> string" where
  "file_row localtime f = table_row (fi_name f) (format_size (fi_size f)) (format_time localtime (fi_mtime f))"

definition file_table :: "(int \<Rightarrow> broken_down) \<Rightarrow> file_info list \<Rightarrow> string" where
  "file_table localtime files =
     (if files = [] then ''  (no files)''
      else snprintf_cut (MAX_PATH_LENGTH + 128) (table_row ''PATH'' ''SIZE'' ''MODIFIED'') @
        concat (map (\<lambda>f. snprintf_cut (MAX_PATH_LENGTH + 128) (newline # file_row localtime f)) files))"

text \<open>What \<open>say\<close> writes on the terminal.\<close>

fun printed :: "(int \<Rightarrow> broken_down) \<Rightarrow> client_output \<Rightarrow> string" where
  "printed localtime (Said text) = text @ [newline]"
| "printed localtime (Said_size before n after) = before @ format_size n @ after @ [newline]"
| "printed localtime (Said_table title files) = title @ file_table localtime files @ [newline]"

section \<open>Properties\<close>

lemma round_even_near: "0 < b \<Longrightarrow> 2 * \<bar>int a - int (round_even a b) * int b\<bar> \<le> int b"
proof -
  assume b: "0 < b"
  have "int a = int (a div b) * int b + int (a mod b)" by (metis div_mult_mod_eq of_nat_add of_nat_mult)
  moreover have "a mod b < b" using b by simp
  ultimately show ?thesis by (auto simp: round_even_def Let_def algebra_simps)
qed

lemma bit_size_bounds: "n < 2 ^ bit_size n"
proof (induction n rule: bit_size.induct)
  case (1 n)
  show ?case
  proof (cases "n = 0")
    case False
    with 1 have "n div 2 < 2 ^ bit_size (n div 2)" by simp
    then have "n < 2 * 2 ^ bit_size (n div 2)" by linarith
    with False show ?thesis by (subst bit_size.simps) simp
  qed simp
qed

lemma bit_size_le: "n < 2 ^ w \<Longrightarrow> bit_size n \<le> w"
proof (induction n arbitrary: w rule: bit_size.induct)
  case (1 n)
  show ?case
  proof (cases "n = 0")
    case True
    then show ?thesis by (subst bit_size.simps) simp
  next
    case False
    with 1(2) obtain v where w: "w = Suc v" by (cases w) auto
    with 1(2) have "n div 2 < 2 ^ v" by simp
    from 1(1) [OF False this] False w show ?thesis by (subst bit_size.simps) simp
  qed
qed

lemma to_double_near: "n < 2 ^ 64 \<Longrightarrow> \<bar>int n - int (to_double n)\<bar> \<le> 2 ^ 10"
proof -
  assume n: "n < 2 ^ 64"
  define e where "e = bit_size n - 53"
  have "e \<le> 11" using bit_size_le [OF n] by (simp add: e_def)
  then have "(2::int) ^ e \<le> 2 ^ 11" by (intro power_increasing) simp_all
  moreover have "2 * \<bar>int n - int (round_even n (2 ^ e)) * int (2 ^ e)\<bar> \<le> int (2 ^ e)" by (rule round_even_near) simp
  ultimately show ?thesis by (simp add: to_double_def e_def [symmetric] Let_def)
qed

lemma to_double_exact: "n < 2 ^ 53 \<Longrightarrow> to_double n = n"
  using bit_size_le [of n 53] by (simp add: to_double_def round_even_def Let_def)

lemma size_unit_spec:
  "u \<le> 3 \<Longrightarrow> u = 0 \<or> 1024 ^ u \<le> v \<Longrightarrow> (case size_unit v u of k \<Rightarrow> k \<le> 3 \<and> (k = 0 \<or> 1024 ^ k \<le> v) \<and> (k = 3 \<or> v < 1024 ^ Suc k))"
proof (induction v u rule: size_unit.induct)
  case (1 v u)
  show ?case
  proof (cases "1024 ^ Suc u \<le> v \<and> u < 3")
    case True
    then have "size_unit v u = size_unit v (Suc u)" by (subst size_unit.simps) simp
    with True 1(1) show ?thesis by simp
  next
    case False
    then have "size_unit v u = u" by (subst size_unit.simps) (simp only: if_False)
    with False 1(2,3) show ?thesis by (cases "u = 3") auto
  qed
qed

text \<open>
  The size that is shown has a unit in which it is at least 1 (or bytes), below 1024 unless the
  unit is the last one, and is right up to half of its last digit, and up to the precision of a \<open>double\<close>.
\<close>

lemma format_size_close:
  obtains u tenths where "u \<le> 3" "u = 0 \<or> 1024 ^ u \<le> to_double (unat n)" "u = 3 \<or> to_double (unat n) < 1024 ^ Suc u"
    "format_size n = snprintf_cut 32 ((if u = 0 then to_dec (tenths div 10) else one_decimal tenths) @ '' '' @ size_units ! u)"
    "\<bar>10 * int (unat n) - int tenths * 1024 ^ u\<bar> \<le> 1024 ^ u div 2 + 10 * 2 ^ 10"
proof -
  let ?v = "to_double (unat n)"
  define u where "u = size_unit ?v 0"
  define t where "t = round_even (10 * ?v) (1024 ^ u)"
  have spec: "u \<le> 3" "u = 0 \<or> 1024 ^ u \<le> ?v" "u = 3 \<or> ?v < 1024 ^ Suc u" using size_unit_spec [of 0 ?v] by (simp_all add: u_def)
  have "unat n < 2 ^ 64" using unsigned_less [of n] by simp
  from to_double_near [OF this] have d: "\<bar>int (unat n) - int ?v\<bar> \<le> 2 ^ 10" .
  have r: "2 * \<bar>int (10 * ?v) - int t * int (1024 ^ u)\<bar> \<le> int (1024 ^ u)" unfolding t_def by (rule round_even_near) simp
  have t0: "t div 10 = ?v" if "u = 0" using that by (simp add: t_def round_even_def)
  have "format_size n = snprintf_cut 32 ((if u = 0 then to_dec (t div 10) else one_decimal t) @ '' '' @ size_units ! u)"
    using t0 by (simp add: format_size_def Let_def u_def [symmetric] t_def)
  moreover have "\<bar>10 * int (unat n) - int t * 1024 ^ u\<bar> \<le> 1024 ^ u div 2 + 10 * 2 ^ 10"
  proof -
    define K :: int where "K = 1024 ^ u"
    have "2 * \<bar>10 * int ?v - int t * K\<bar> \<le> K" using r by (simp add: K_def)
    then have "\<bar>10 * int ?v - int t * K\<bar> \<le> K div 2" by presburger
    moreover have "\<bar>10 * int (unat n) - 10 * int ?v\<bar> \<le> 10 * 2 ^ 10" using d by simp
    ultimately show ?thesis unfolding K_def [symmetric] by arith
  qed
  ultimately show thesis using that spec by blast
qed

text \<open>
  The buffers are never too small: a line of a listing is complete, for every path that a tree
  holds and every time of an \<open>int64_t\<close> of nanoseconds, whose years have four digits.
\<close>

definition broken_ok :: "broken_down \<Rightarrow> bool" where
  "broken_ok tm \<longleftrightarrow> 1000 \<le> tm_year tm \<and> tm_year tm \<le> 9999 \<and> tm_mon tm < 100 \<and> tm_mday tm < 100 \<and>
     tm_hour tm < 100 \<and> tm_min tm < 100 \<and> tm_sec tm < 100"

lemma two_digits_length: "n < 100 \<Longrightarrow> length (two_digits n) \<le> 3"
  using length_to_dec [of n 1] by (simp add: two_digits_def)

lemma year_text_length: "0 \<le> y \<Longrightarrow> y \<le> 9999 \<Longrightarrow> length (year_text y) \<le> 4"
  using length_to_dec [of "nat y" 3] by (simp add: year_text_def)

lemma strftime_length: "broken_ok tm \<Longrightarrow> length (strftime_local tm) \<le> 24"
  using two_digits_length [of "tm_mon tm"] two_digits_length [of "tm_mday tm"] two_digits_length [of "tm_hour tm"]
    two_digits_length [of "tm_min tm"] two_digits_length [of "tm_sec tm"] year_text_length [of "tm_year tm"]
  by (simp add: broken_ok_def strftime_local_def)

lemma format_size_length: "length (format_size n) \<le> 31"
  by (simp add: format_size_def snprintf_cut_def Let_def)

lemma c_str_length: "length (c_str s) \<le> length s"
  by (simp add: c_str_def length_takeWhile_le)

lemma file_row_complete:
  assumes "length (fi_name f) \<le> MAX_PATH_LENGTH" "\<And>t. broken_ok (localtime t)"
  shows "snprintf_cut (MAX_PATH_LENGTH + 128) (newline # file_row localtime f) = newline # file_row localtime f"
proof -
  have "length (format_time localtime (fi_mtime f)) \<le> 24" using assms(2) by (simp add: format_time_def strftime_length)
  then show ?thesis
    using assms(1) c_str_length [of "fi_name f"] c_str_length [of "format_size (fi_size f)"] format_size_length [of "fi_size f"]
      c_str_length [of "format_time localtime (fi_mtime f)"]
    by (simp add: snprintf_cut_def file_row_def table_row_def pad_right_def pad_left_def MAX_PATH_LENGTH_def)
qed

lemma file_table_complete:
  assumes "\<And>f. f \<in> set files \<Longrightarrow> is_valid_path (fi_name f)" "\<And>t. broken_ok (localtime t)" "files \<noteq> []"
  shows "file_table localtime files =
    table_row ''PATH'' ''SIZE'' ''MODIFIED'' @ concat (map (\<lambda>f. newline # file_row localtime f) files)"
proof -
  have "length (table_row ''PATH'' ''SIZE'' ''MODIFIED'') < MAX_PATH_LENGTH"
    by (simp add: table_row_def pad_right_def pad_left_def c_str_def MAX_PATH_LENGTH_def)
  then have "snprintf_cut (MAX_PATH_LENGTH + 128) (table_row ''PATH'' ''SIZE'' ''MODIFIED'') = table_row ''PATH'' ''SIZE'' ''MODIFIED''"
    by (simp add: snprintf_cut_def)
  moreover have "map (\<lambda>f. snprintf_cut (MAX_PATH_LENGTH + 128) (newline # file_row localtime f)) files =
      map (\<lambda>f. newline # file_row localtime f) files"
    using assms(1,2) valid_path_length by (intro map_cong refl file_row_complete) (auto simp: MAX_PATH_LENGTH_def)
  ultimately show ?thesis using assms(3) by (simp add: file_table_def del: map_eq_conv)
qed

end
