(* ===== verification/Spec2Isabelle.thy ===== *)
theory Spec2Isabelle
  imports Protocol Connection Files FileTransfer Listing Sessions Accounts Storage Replication
    Cluster SyncState Server Cluster_Properties Server_Properties Client_Properties
    Watcher_Properties Health_Properties Options_Properties Startup_Properties Network_Properties Log
    End_To_End Convergence Server_Invariant Failover Election System_Calls Printing
begin

text \<open>
  A model of the file synchronisation service of this repository, written from the sources
  under \<open>src/\<close>, and the theorems that make it correct.

  \<^bold>\<open>The program.\<close> A client keeps a directory \<open>sync_dir\<close> equal to the files that its user has on a
  cluster of servers. It has two connections to the primary server: on one it sends requests and
  waits for each reply, on the other the server pushes the changes that other sessions made. The
  primary stores each change, copies it to every backup over a replica link, and only then
  answers. Backups serve no client; they hold an election when the primary falls silent. All
  connections carry framed messages over TLS; a server is told from a client by its certificate,
  a user by a password.

  \<^bold>\<open>The theories\<close>, in the order of the layers:

  \<^item> \<^verbatim>\<open>SyncBase\<close> is the prelude: words, the parts of \<open>std::string\<close> and of the streams that the code
    uses, errors as sums. \<^verbatim>\<open>OrderedMap\<close> is \<open>std::map\<close> (locale \<^verbatim>\<open>assoc_map\<close>), \<^verbatim>\<open>KeyValue\<close> the contract of a
    store whose updates may fail (\<^verbatim>\<open>kv_store\<close>, \<^verbatim>\<open>kv_store_del\<close>).
  \<^item> \<^verbatim>\<open>Protocol\<close> is \<open>common/protocol.*\<close>: message types, \<open>Writer\<close> and \<open>Reader\<close>. Every value that is
    written and read back is an instance of the locale \<^verbatim>\<open>codec\<close>.
  \<^item> \<^verbatim>\<open>Connection\<close> is \<open>common/connection.*\<close>, at two levels: framing over a byte stream that delivers
    its data in arbitrary pieces with arbitrary pauses, and a queue of messages with a peer that
    answers (the record \<^verbatim>\<open>conn\<close>), on which everything else is built. \<^verbatim>\<open>framing_lossless\<close> connects them.
    \<^verbatim>\<open>Network\<close> is \<open>common/net.cpp\<close> and \<open>common/tls.cpp\<close>; \<^verbatim>\<open>Log\<close> is \<open>common/log.cpp\<close>. \<^verbatim>\<open>System_Calls\<close> has the
    loops that a short read, a short write or a signal repeats.
  \<^item> \<^verbatim>\<open>Posix\<close> is what the program uses of the file system; \<^verbatim>\<open>Files\<close>, \<^verbatim>\<open>FileTransfer\<close>, \<^verbatim>\<open>Listing\<close> and
    \<^verbatim>\<open>File_Times\<close> are \<open>common/files.*\<close>: names, directories, replacement by renaming, hashes, the
    transfer of a file in chunks, the walk over a tree.
  \<^item> \<^verbatim>\<open>Sessions\<close>, \<^verbatim>\<open>Accounts\<close> and \<^verbatim>\<open>Storage\<close> are the files of these names in \<open>server/\<close>. \<^verbatim>\<open>Replication\<close>,
    \<^verbatim>\<open>Cluster\<close> and \<^verbatim>\<open>Backup_Link\<close> are \<open>server/cluster.*\<close>: the two ends of a replica link, membership
    and elections (their loop is in \<^verbatim>\<open>Election\<close>), the loop of a backup. \<^verbatim>\<open>Server\<close> is \<open>server/server.*\<close>, from the first message of a
    connection to the requests of a session. \<^verbatim>\<open>Health\<close> is \<open>server/health.*\<close>; \<^verbatim>\<open>Options\<close> and \<^verbatim>\<open>Startup\<close>
    are the two \<open>main.cpp\<close> and the start of a server.
  \<^item> \<^verbatim>\<open>SyncState\<close> is \<open>client/sync_state.*\<close>. \<^verbatim>\<open>Client\<close>, \<^verbatim>\<open>Client_Sync\<close> and \<^verbatim>\<open>Client_Commands\<close> are
    \<open>client/client.*\<close>: exchanges and local files, reconciliation and pushes, commands; \<^verbatim>\<open>Printing\<close> is the text that the
    user sees. \<^verbatim>\<open>Watcher\<close> is \<open>client/watcher.*\<close>.
  \<^item> The other theories hold properties, for the parts in their names. \<^verbatim>\<open>Samples\<close> has small concrete
    servers for the witnesses, \<^verbatim>\<open>Changes\<close> the locale \<^verbatim>\<open>file_calls\<close>: what every call on files keeps.

  \<^bold>\<open>State and operations.\<close> Classes are records and their methods functions that return the changed
  record: \<^verbatim>\<open>server\<close> holds a \<^verbatim>\<open>cluster\<close>, which extends the \<^verbatim>\<open>node\<close> of members, storage and file system
  that replication works on; \<^verbatim>\<open>client\<close> holds its options, saved state, queue, connections and file
  system. A \<open>std::map\<close> that is iterated over is an ordered association list. Enumerations are
  datatypes and integers have their width. \<open>ProtocolError\<close> is the left side of a sum; what the code
  catches, the model catches at the same place, and an exception that nothing catches ends the run.
  What a peer does with the messages it gets is a function in its connection, so that one side
  can be composed with the model of the other: \<^verbatim>\<open>replica_respond\<close> is a backup, \<^verbatim>\<open>session_respond\<close> the
  session of a server, \<^verbatim>\<open>asked\<close> a server that is probed.

  \<^bold>\<open>What is shown.\<close>

  \<^item> Nothing acknowledged is lost: an upload or a deletion that was answered with success is on the
    disk of the primary and of every backup whose link is left (\<^verbatim>\<open>upload_durable\<close>, \<^verbatim>\<open>delete_durable\<close>,
    \<^verbatim>\<open>attach_brings_up_to_date\<close>), also seen from the client (\<^verbatim>\<open>End_To_End\<close>); a restart keeps it, and so
    does the failure of the primary (\<^verbatim>\<open>upload_survives_failover\<close>).
  \<^item> No edit is lost: the three-way comparison is the documented one, a local edit that collides is
    kept under a free, valid name, and an operation that installs a file keeps what was there. The
    exception, a pushed deletion, is a theorem too (\<^verbatim>\<open>push_delete_discards_edit\<close>).
  \<^item> The two sides meet: after a reconciliation of the client model with the server model, every
    file is the same on both, or the user was told why it is not (\<^verbatim>\<open>reconcile_converges\<close>).
  \<^item> Nothing leaves its place: names from the network stay inside of the directory, requests inside
    of the user's files, the synchronization inside of \<open>sync_dir\<close>; sockets and TLS objects are given
    back.
  \<^item> Who may do what: passwords, sessions, certificates, backups.
  \<^item> The invariants of the server and of the client under every order of the steps of their threads and
    peers (\<^verbatim>\<open>server_invariant\<close>, \<^verbatim>\<open>client_invariant\<close>), of the sessions and of the members' ids, who wins
    an election, and that it does not end without a primary (\<^verbatim>\<open>election_settles\<close>).
  \<^item> Formats and loops: framing, transfers, codecs, the saved state, account records and the command
    line are read back as they were written; the scanning and searching loops end with the answer
    of a declarative specification; the watches follow the directories; the monitor tells its three
    cases apart.

  \<^bold>\<open>Threads and time.\<close> Each function that holds a lock is one step; a thread that the code starts is
  a step of its own. Where a loop waits for other threads or for the network, what they bring is
  an argument, one element for each turn: the rounds of the monitor, the turns of the receiver,
  the attempts to reconnect, the rounds of an election, the requests of a session. The lists may
  be arbitrarily long, so they bound nothing.

  \<^bold>\<open>Bounds.\<close> The bounds in loops are those of the code: 10 attempts to join, 20 servers tried by
  \<open>connect_once\<close>, 65535 bytes in a string, 1 MB in a message, 64 kB in a chunk. The only fuel is that
  of \<^verbatim>\<open>serve_pending\<close>, the number of messages that have arrived: each turn takes at least one of them.
  These loops are \<^verbatim>\<open>partial_function\<close>s: the search for a free name, which is proved to end; the TLS
  handshake, which ends when its peer makes progress; \<open>accept_socket\<close>, which waits for a client; the
  loops of \<^verbatim>\<open>System_Calls\<close>, which end when the signals do.

  \<^bold>\<open>Parameters.\<close> Code that is not in this repository is an argument: PBKDF2 and the random numbers of
  OpenSSL, name resolution, \<open>connect_to\<close> where only its result matters, the calls of sockets, TLS and
  inotify, reads and writes of a descriptor, the local time. What a theorem needs of them is a
  hypothesis with an instance: \<^verbatim>\<open>openssl_ok\<close> for the lengths of hashes and salts, \<^verbatim>\<open>makes_progress\<close>
  for handshakes, \<^verbatim>\<open>inotify_ok\<close> for watches, \<^verbatim>\<open>reads\<close> for a file that is read.

  \<^bold>\<open>Not modelled.\<close> The usage texts and the modes of the terminal; the messages of the log; socket
  options; the layout of the event buffer of inotify; the interleaving of threads inside of one step. Symbolic links are never
  followed by the program and are opaque entries in the model. A process that is killed in the
  middle of an operation is only modelled as far as the next start cleans up after it.
\<close>

end
